(* ===== verification/Go_Prelude.thy ===== *)
theory Go_Prelude
  imports Main "HOL-Library.List_Lexorder" "HOL-Library.Char_ord" "HOL-Library.Multiset"
begin

text \<open>
  Shared vocabulary of the development: the parts of Go's standard library the modelled code
  uses (\<open>strings\<close>, \<open>path\<close>, \<open>sort\<close>), the error plumbing of Go validators, and the generic lemmas
  the component theories rest on.

  A Go \<open>string\<close> is a list of bytes, here a HOL \<open>string\<close> (each \<open>char\<close> is one byte), so \<open>length\<close>
  is Go's \<open>len\<close> and the order on strings is Go's bytewise order. A Go \<open>error\<close> result is an
  option: \<open>None\<close> is \<open>nil\<close>. A function with a value and an error returns \<open>error + value\<close>.
\<close>

section \<open>Fact collections\<close>

named_theorems accept_simps \<open>when a validator returns nil, as a condition on its input\<close>
named_theorems trim_simps \<open>facts about trimming and folding\<close>

section \<open>Errors\<close>

text \<open>A check list runs its checks in order and returns the first error.\<close>

fun first_error :: "'e option list \<Rightarrow> 'e option" where
  "first_error [] = None"
| "first_error (c # cs) = (case c of Some e \<Rightarrow> Some e | None \<Rightarrow> first_error cs)"

definition refuse :: "bool \<Rightarrow> 'e \<Rightarrow> 'e option" where
  "refuse c e = (if c then Some e else None)"

text \<open>\<open>for i, x := range xs { if err := f(i, x); err != nil { return err } }\<close>\<close>

fun each_from :: "(nat \<Rightarrow> 'a \<Rightarrow> 'e option) \<Rightarrow> nat \<Rightarrow> 'a list \<Rightarrow> 'e option" where
  "each_from f i [] = None"
| "each_from f i (x # xs) = (case f i x of Some e \<Rightarrow> Some e | None \<Rightarrow> each_from f (Suc i) xs)"

text \<open>The same loop with local state, which a \<open>return err\<close> in the body discards.\<close>

fun scan :: "(nat \<Rightarrow> 's \<Rightarrow> 'a \<Rightarrow> 'e + 's) \<Rightarrow> nat \<Rightarrow> 's \<Rightarrow> 'a list \<Rightarrow> 'e + 's" where
  "scan f i st [] = Inr st"
| "scan f i st (x # xs) = (case f i st x of Inl e \<Rightarrow> Inl e | Inr st' \<Rightarrow> scan f (Suc i) st' xs)"

definition err_of :: "'e + 's \<Rightarrow> 'e option" where
  "err_of r = (case r of Inl e \<Rightarrow> Some e | Inr _ \<Rightarrow> None)"

lemma first_error_None [accept_simps]:
  "first_error [] = None"
  "first_error (c # cs) = None \<longleftrightarrow> c = None \<and> first_error cs = None"
  by (auto split: option.splits)

declare first_error.simps(2) [simp del]

lemma chain_None [accept_simps]:
  "(case c of None \<Rightarrow> x | Some e \<Rightarrow> Some e) = None \<longleftrightarrow> c = None \<and> x = None"
  by (simp split: option.split)

lemma refuse_None [accept_simps, simp]: "refuse c e = None \<longleftrightarrow> \<not> c"
  by (simp add: refuse_def)

lemma refuse_Some [simp]: "refuse c e = Some e' \<longleftrightarrow> c \<and> e' = e"
  by (auto simp: refuse_def)

lemma each_from_None: "each_from f i xs = None \<longleftrightarrow> (\<forall>k < length xs. f (i + k) (xs ! k) = None)"
proof (induction xs arbitrary: i)
  case (Cons x xs)
  show ?case
    by (cases "f i x") (auto simp: Cons.IH nth_Cons less_Suc_eq_0_disj split: nat.splits)
qed simp

lemma each_from_accept:
  assumes "\<And>i x. f i x = None \<longleftrightarrow> P x"
  shows "each_from f n xs = None \<longleftrightarrow> (\<forall>x\<in>set xs. P x)"
proof (induction xs arbitrary: n)
  case (Cons x xs)
  then show ?case using assms [of n x] by (cases "f n x") auto
qed simp

lemma each_from_const: "each_from (\<lambda>_. h) n xs = None \<longleftrightarrow> (\<forall>x\<in>set xs. h x = None)"
  by (rule each_from_accept) simp

lemma err_of_None [simp, accept_simps]: "err_of r = None \<longleftrightarrow> (\<exists>st. r = Inr st)"
  by (auto simp: err_of_def split: sum.splits)

text \<open>
  The duplicate-detecting loops of the validators: each element is checked, refused when its key
  was seen, and its key recorded. Such a loop accepts exactly the lists whose elements pass and
  whose keys are distinct.
\<close>

lemma scan_distinct:
  assumes step: "\<And>i st x. f i st x = (if P x \<and> key x \<notin> set st then Inr (key x # st) else Inl (err i st x))"
  shows "(\<exists>st'. scan f n st xs = Inr st') \<longleftrightarrow>
         (\<forall>x\<in>set xs. P x) \<and> distinct (map key xs) \<and> set (map key xs) \<inter> set st = {}"
  by (induction xs arbitrary: n st) (auto simp: step)

lemma scan_append:
  "scan f n st (xs @ ys) =
     (case scan f n st xs of Inl e \<Rightarrow> Inl e | Inr st' \<Rightarrow> scan f (n + length xs) st' ys)"
  by (induction xs arbitrary: n st) (auto split: sum.splits)

text \<open>
  A contract shared by every validator of the code: the check returns nil exactly on the inputs
  that meet a specification. Lists of checked things then have theirs.
\<close>

locale validator =
  fixes check :: "'a \<Rightarrow> 'e option" and ok :: "'a \<Rightarrow> bool"
  assumes check_iff: "check x = None \<longleftrightarrow> ok x"
begin

lemma refuses: "\<not> ok x \<Longrightarrow> \<exists>e. check x = Some e"
  using check_iff [of x] by auto

lemma each_iff:
  "each_from (\<lambda>i x. map_option (w i) (check x)) n xs = None \<longleftrightarrow> list_all ok xs"
  by (simp add: each_from_accept check_iff list_all_iff)

lemma first_fails: "check x \<noteq> None \<Longrightarrow> each_from (\<lambda>i y. map_option (w i) (check y)) n (x # xs) = map_option (w n) (check x)"
  by (cases "check x") auto

end

section \<open>Strings\<close>

definition has_prefix :: "string \<Rightarrow> string \<Rightarrow> bool" where
  "has_prefix s p \<longleftrightarrow> take (length p) s = p"

definition has_suffix :: "string \<Rightarrow> string \<Rightarrow> bool" where
  "has_suffix s p \<longleftrightarrow> length p \<le> length s \<and> drop (length s - length p) s = p"

fun contains :: "string \<Rightarrow> string \<Rightarrow> bool" where
  "contains [] p \<longleftrightarrow> p = []"
| "contains (c # s) p \<longleftrightarrow> has_prefix (c # s) p \<or> contains s p"

lemma has_prefix_iff: "has_prefix s p \<longleftrightarrow> (\<exists>t. s = p @ t)"
  unfolding has_prefix_def by (metis append_eq_conv_conj append_take_drop_id)

lemma has_suffix_iff: "has_suffix s p \<longleftrightarrow> (\<exists>t. s = t @ p)"
proof
  assume "has_suffix s p"
  then have "s = take (length s - length p) s @ p"
    by (metis append_take_drop_id has_suffix_def)
  then show "\<exists>t. s = t @ p" by blast
qed (auto simp: has_suffix_def)

lemma contains_iff: "contains s p \<longleftrightarrow> (\<exists>a b. s = a @ p @ b)"
proof (induction s)
  case Nil
  show ?case by auto
next
  case (Cons c s)
  have "contains (c # s) p \<longleftrightarrow> has_prefix (c # s) p \<or> (\<exists>a b. s = a @ p @ b)"
    by (simp only: contains.simps Cons.IH)
  also have "\<dots> \<longleftrightarrow> (\<exists>a b. c # s = a @ p @ b)"
  proof
    assume "has_prefix (c # s) p \<or> (\<exists>a b. s = a @ p @ b)"
    then show "\<exists>a b. c # s = a @ p @ b"
      by (metis append_Cons append_Nil has_prefix_iff)
  next
    assume "\<exists>a b. c # s = a @ p @ b"
    then obtain a b where ab: "c # s = a @ p @ b" by blast
    show "has_prefix (c # s) p \<or> (\<exists>a b. s = a @ p @ b)"
    proof (cases a)
      case Nil
      with ab show ?thesis by (auto simp: has_prefix_iff)
    next
      case (Cons x xs)
      with ab have "s = xs @ p @ b" by simp
      then show ?thesis by blast
    qed
  qed
  finally show ?case .
qed

definition byte :: "char \<Rightarrow> nat" where
  "byte c = of_char c"

lemma byte_less: "byte c < 256"
  by (simp add: byte_def)

lemma byte_inject: "byte c = byte d \<longleftrightarrow> c = d"
  by (simp add: byte_def)

definition nul :: char where "nul = CHR 0x00"

subsection \<open>White space and case\<close>

text \<open>
  The UTF-8 encodings of the code points for which \<open>unicode.IsSpace\<close> holds. UTF-8 is
  self-synchronising, so a string starts (ends) with a space rune exactly when it starts (ends)
  with one of these byte sequences.
\<close>

definition space_seqs :: "string list" where
  "space_seqs = map (map char_of) [[9::nat], [10], [11], [12], [13], [32],
     [0xC2, 0x85], [0xC2, 0xA0], [0xE1, 0x9A, 0x80],
     [0xE2, 0x80, 0x80], [0xE2, 0x80, 0x81], [0xE2, 0x80, 0x82], [0xE2, 0x80, 0x83],
     [0xE2, 0x80, 0x84], [0xE2, 0x80, 0x85], [0xE2, 0x80, 0x86], [0xE2, 0x80, 0x87],
     [0xE2, 0x80, 0x88], [0xE2, 0x80, 0x89], [0xE2, 0x80, 0x8A],
     [0xE2, 0x80, 0xA8], [0xE2, 0x80, 0xA9], [0xE2, 0x80, 0xAF], [0xE2, 0x81, 0x9F],
     [0xE3, 0x80, 0x80]]"

function strip_front :: "string list \<Rightarrow> string \<Rightarrow> string" where
  "strip_front qs s =
     (case find (\<lambda>q. q \<noteq> [] \<and> has_prefix s q) qs of
        None \<Rightarrow> s
      | Some q \<Rightarrow> strip_front qs (drop (length q) s))"
  by pat_completeness auto
termination
proof (relation "measure (\<lambda>(qs, s). length s)", simp)
  fix qs :: "string list" and s q :: string
  assume "find (\<lambda>q. q \<noteq> [] \<and> has_prefix s q) qs = Some q"
  then have "q \<noteq> []" "has_prefix s q"
    by (auto simp: find_Some_iff)
  then show "((qs, drop (length q) s), qs, s) \<in> measure (\<lambda>(qs, s). length s)"
    by (auto simp: has_prefix_iff)
qed

declare strip_front.simps [simp del]

definition trim_space :: "string \<Rightarrow> string" where
  "trim_space s = rev (strip_front (map rev space_seqs) (rev (strip_front space_seqs s)))"

text \<open>
  Simple case folding as \<open>strings.EqualFold\<close> uses it. The key of a string maps the letters whose
  folding orbit contains an ASCII letter (\<open>A\<close>--\<open>Z\<close>, U+017F, U+212A) to the lower-case ASCII
  letter; orbits with no ASCII letter are compared byte by byte.
\<close>

definition ascii_lower :: "char \<Rightarrow> char" where
  "ascii_lower c = (if 65 \<le> byte c \<and> byte c \<le> 90 then char_of (byte c + 32) else c)"

definition ascii_upper :: "char \<Rightarrow> char" where
  "ascii_upper c = (if 97 \<le> byte c \<and> byte c \<le> 122 then char_of (byte c - 32) else c)"

fun fold_key :: "string \<Rightarrow> string" where
  "fold_key [] = []"
| "fold_key (c # s) =
     (if c = CHR 0xC5 \<and> take 1 s = [CHR 0xBF] then CHR ''s'' # fold_key (drop 1 s)
      else if c = CHR 0xE2 \<and> take 2 s = [CHR 0x84, CHR 0xAA] then CHR ''k'' # fold_key (drop 2 s)
      else ascii_lower c # fold_key s)"

definition equal_fold :: "string \<Rightarrow> string \<Rightarrow> bool" where
  "equal_fold a b \<longleftrightarrow> fold_key a = fold_key b"

lemma equal_fold_refl [simp, trim_simps]: "equal_fold a a"
  by (simp add: equal_fold_def)

lemma equal_fold_sym: "equal_fold a b \<longleftrightarrow> equal_fold b a"
  by (auto simp: equal_fold_def)

lemma equal_fold_trans: "equal_fold a b \<Longrightarrow> equal_fold b c \<Longrightarrow> equal_fold a c"
  by (auto simp: equal_fold_def)

lemma strip_front_stuck: "q \<in> set qs \<Longrightarrow> q \<noteq> [] \<Longrightarrow> \<not> has_prefix (strip_front qs s) q"
proof (induction qs s rule: strip_front.induct)
  case (1 qs s)
  show ?case
  proof (cases "find (\<lambda>q. q \<noteq> [] \<and> has_prefix s q) qs")
    case None
    then have "strip_front qs s = s"
      by (subst strip_front.simps) simp
    with None "1.prems" show ?thesis by (auto simp: find_None_iff)
  next
    case (Some q')
    with "1.IH" [OF Some] "1.prems" show ?thesis
      by (subst strip_front.simps) simp
  qed
qed

lemma strip_front_id: "(\<And>q. q \<in> set qs \<Longrightarrow> q \<noteq> [] \<Longrightarrow> \<not> has_prefix s q) \<Longrightarrow> strip_front qs s = s"
  by (subst strip_front.simps) (auto simp: find_None_iff split: option.splits dest!: find_Some_iff [THEN iffD1])

lemma strip_front_suffix: "\<exists>p. s = p @ strip_front qs s"
proof (induction qs s rule: strip_front.induct)
  case (1 qs s)
  show ?case
  proof (cases "find (\<lambda>q. q \<noteq> [] \<and> has_prefix s q) qs")
    case None
    then show ?thesis by (subst strip_front.simps) simp
  next
    case (Some q)
    then obtain t where t: "s = q @ t"
      by (auto simp: find_Some_iff has_prefix_iff)
    have "strip_front qs s = strip_front qs t"
      using Some t by (subst strip_front.simps) simp
    moreover obtain p where "t = p @ strip_front qs t"
      using "1.IH" [OF Some] t by auto
    ultimately show ?thesis using t
      by (metis append_assoc)
  qed
qed

lemma trim_space_Nil [simp]: "trim_space [] = []"
  by (simp add: trim_space_def strip_front_id has_prefix_def)

lemma trim_space_idem [simp, trim_simps]: "trim_space (trim_space s) = trim_space s"
proof -
  let ?t = "trim_space s"
  have front: "\<not> has_prefix ?t q" if q: "q \<in> set space_seqs" "q \<noteq> []" for q
  proof
    assume "has_prefix ?t q"
    then obtain u where "?t = q @ u" by (auto simp: has_prefix_iff)
    moreover obtain p where "rev (strip_front space_seqs s) = p @ rev ?t"
      using strip_front_suffix [of "rev (strip_front space_seqs s)" "map rev space_seqs"]
      by (auto simp: trim_space_def)
    then have "strip_front space_seqs s = ?t @ rev p"
      by (metis rev_append rev_rev_ident)
    ultimately have "has_prefix (strip_front space_seqs s) q"
      by (auto simp: has_prefix_iff)
    with strip_front_stuck [OF q] show False by blast
  qed
  have rear: "\<not> has_prefix (rev ?t) q" if q: "q \<in> set (map rev space_seqs)" "q \<noteq> []" for q
    using strip_front_stuck [OF q] by (simp add: trim_space_def)
  have "trim_space ?t = rev (strip_front (map rev space_seqs) (rev ?t))"
    unfolding trim_space_def [of ?t] by (subst strip_front_id [OF front]) simp_all
  also have "\<dots> = ?t"
    by (subst strip_front_id [OF rear]) simp_all
  finally show ?thesis .
qed

lemma space_seqs_first: "q \<in> set space_seqs \<Longrightarrow> q \<noteq> [] \<and> byte (hd q) \<notin> {33..127} \<and> byte (last q) \<notin> {33..127}"
  by (simp add: space_seqs_def byte_def) (elim disjE; simp)

lemma trim_space_word:
  assumes "byte (hd s) \<in> {33..127}" "byte (last s) \<in> {33..127}" "s \<noteq> []"
  shows "trim_space s = s"
proof -
  have f: "\<not> has_prefix s q" if "q \<in> set space_seqs" "q \<noteq> []" for q
  proof
    assume "has_prefix s q"
    then have "hd q = hd s" using that by (auto simp: has_prefix_iff)
    with space_seqs_first [OF that(1)] assms(1) show False by simp
  qed
  have r: "\<not> has_prefix (rev s) q" if q: "q \<in> set (map rev space_seqs)" "q \<noteq> []" for q
  proof
    assume "has_prefix (rev s) q"
    then obtain t where "rev s = q @ t" by (auto simp: has_prefix_iff)
    then have "hd q = last s" using q(2) assms(3) by (metis hd_append2 hd_rev)
    moreover obtain q' where "q' \<in> set space_seqs" "q = rev q'" using q(1) by auto
    ultimately show False using space_seqs_first [of q'] assms(2) by (simp add: hd_rev)
  qed
  have "strip_front space_seqs s = s" by (rule strip_front_id) (rule f)
  moreover have "strip_front (map rev space_seqs) (rev s) = rev s" by (rule strip_front_id) (rule r)
  ultimately show ?thesis by (simp add: trim_space_def)
qed

lemma trim_space_blank: "trim_space '' '' = []"
proof -
  have "find (\<lambda>q. q \<noteq> [] \<and> has_prefix '' '' q) space_seqs = Some '' ''"
    by (simp add: space_seqs_def has_prefix_def char_of_def bit_0)
  moreover have "strip_front qs [] = []" for qs by (rule strip_front_id) (simp add: has_prefix_def)
  ultimately have "strip_front space_seqs '' '' = []"
    by (subst strip_front.simps) simp
  then show ?thesis by (simp add: trim_space_def strip_front_id has_prefix_def)
qed

section \<open>Decimal text\<close>

fun nat_text :: "nat \<Rightarrow> string" where
  "nat_text n = (if n < 10 then [char_of (48 + n)] else nat_text (n div 10) @ [char_of (48 + n mod 10)])"

declare nat_text.simps [simp del]

definition int_text :: "int \<Rightarrow> string" where
  "int_text i = (if i < 0 then ''-'' @ nat_text (nat (- i)) else nat_text (nat i))"

section \<open>Integers of 64 bits\<close>

text \<open>A signed result brought back into its 64 bits, as Go arithmetic wraps around.\<close>

definition int64 :: "int \<Rightarrow> int" where
  "int64 n = (n + 2 ^ 63) mod 2 ^ 64 - 2 ^ 63"

lemma int64_id: "- (2 ^ 63) \<le> n \<Longrightarrow> n < 2 ^ 63 \<Longrightarrow> int64 n = n"
  by (simp add: int64_def)

end
