(* ===== verification/Go_Std.thy ===== *)
theory Go_Std
  imports Go_Prelude "HOL-Library.Word" "HOL-Library.Monad_Syntax"
begin

text \<open>
  The rest of Go's standard library that the modelled code calls: \<open>path.Clean\<close> and
  \<open>path.Base\<close>, \<open>time.Parse\<close> on \<open>time.RFC3339Nano\<close> values that end in \<open>Z\<close>, and
  \<open>crypto/sha256\<close> with \<open>encoding/hex\<close>. Nothing here is code of the
  repository; the definitions follow the library's documented algorithms.
\<close>

unbundle bit_operations_syntax

section \<open>Slash-separated paths\<close>

fun split_slash :: "string \<Rightarrow> string list" where
  "split_slash [] = [[]]"
| "split_slash (c # s) =
     (if c = CHR ''/'' then [] # split_slash s
      else (case split_slash s of [] \<Rightarrow> [[c]] | w # ws \<Rightarrow> (c # w) # ws))"

fun join_slash :: "string list \<Rightarrow> string" where
  "join_slash [] = []"
| "join_slash [w] = w"
| "join_slash (w # v # ws) = w @ CHR ''/'' # join_slash (v # ws)"

text \<open>
  \<open>path.Clean\<close>: empty and \<open>.\<close> elements vanish, \<open>..\<close> removes the element before it, a leading
  \<open>..\<close> is kept in a relative path and dropped in a rooted one.
\<close>

fun clean_walk :: "bool \<Rightarrow> string list \<Rightarrow> string list \<Rightarrow> string list" where
  "clean_walk r out [] = rev out"
| "clean_walk r out (c # cs) =
     (if c = [] \<or> c = ''.'' then clean_walk r out cs
      else if c = ''..'' then
        (case out of
           w # ws \<Rightarrow> if w \<noteq> ''..'' then clean_walk r ws cs
                    else if r then clean_walk r out cs else clean_walk r (c # out) cs
         | [] \<Rightarrow> if r then clean_walk r out cs else clean_walk r (c # out) cs)
      else clean_walk r (c # out) cs)"

definition path_clean :: "string \<Rightarrow> string" where
  "path_clean s =
     (if s = [] then ''.''
      else let r = (hd s = CHR ''/''); out = clean_walk r [] (split_slash s)
           in if r then CHR ''/'' # join_slash out
              else if out = [] then ''.'' else join_slash out)"

text \<open>\<open>path.Base\<close>: trailing slashes stripped, then the text after the last slash.\<close>

definition path_base :: "string \<Rightarrow> string" where
  "path_base s =
     (if s = [] then ''.''
      else let t = rev (dropWhile (\<lambda>c. c = CHR ''/'') (rev s))
           in if t = [] then ''/'' else last (split_slash t))"

lemma split_slash_ne [simp]: "split_slash s \<noteq> []"
  by (induction s) (auto split: list.splits)

lemma join_split [simp]: "join_slash (split_slash s) = s"
proof (induction s)
  case (Cons c s)
  show ?case
  proof (cases "split_slash s")
    case Nil
    then show ?thesis by simp
  next
    case (Cons w ws)
    with Cons.IH show ?thesis by (cases ws) auto
  qed
qed simp

lemma split_slash_no_slash: "w \<in> set (split_slash s) \<Longrightarrow> CHR ''/'' \<notin> set w"
  by (induction s arbitrary: w) (auto split: if_splits list.splits)

lemma split_slash_single: "CHR ''/'' \<notin> set w \<Longrightarrow> split_slash w = [w]"
  by (induction w) auto

lemma split_slash_append:
  "CHR ''/'' \<notin> set w \<Longrightarrow> split_slash (w @ CHR ''/'' # s) = w # split_slash s"
  by (induction w) auto

lemma split_join:
  "ws \<noteq> [] \<Longrightarrow> (\<And>w. w \<in> set ws \<Longrightarrow> CHR ''/'' \<notin> set w) \<Longrightarrow> split_slash (join_slash ws) = ws"
  by (induction ws rule: join_slash.induct) (auto simp: split_slash_append split_slash_single)

text \<open>The elements that survive cleaning: leading \<open>..\<close> elements, then ordinary ones.\<close>

definition plain :: "string \<Rightarrow> bool" where
  "plain w \<longleftrightarrow> w \<noteq> [] \<and> w \<noteq> ''.'' \<and> w \<noteq> ''..''"

definition clean_form :: "string list \<Rightarrow> bool" where
  "clean_form ws \<longleftrightarrow> list_all plain (dropWhile (\<lambda>w. w = ''..'') ws)"

lemma clean_form_snoc: "clean_form ws \<Longrightarrow> plain w \<Longrightarrow> clean_form (ws @ [w])"
  unfolding clean_form_def
  by (cases "\<forall>x\<in>set ws. x = ''..''") (auto simp: dropWhile_append plain_def)

lemma clean_form_butlast: "clean_form (ws @ [w]) \<Longrightarrow> clean_form ws"
proof (cases "\<forall>x\<in>set ws. x = ''..''")
  case True
  then have "dropWhile (\<lambda>w. w = ''..'') ws = []" by simp
  then show ?thesis unfolding clean_form_def by (simp only: list.pred_inject)
qed (auto simp: clean_form_def dropWhile_append)

lemma clean_form_dots: "clean_form ws \<Longrightarrow> ws = [] \<or> last ws = ''..'' \<Longrightarrow> clean_form (ws @ [''..''])"
proof -
  assume cf: "clean_form ws" and l: "ws = [] \<or> last ws = ''..''"
  have "dropWhile (\<lambda>w. w = ''..'') ws = []"
  proof (rule ccontr)
    assume ne: "dropWhile (\<lambda>w. w = ''..'') ws \<noteq> []"
    have "last ws = last (takeWhile (\<lambda>w. w = ''..'') ws @ dropWhile (\<lambda>w. w = ''..'') ws)"
      by simp
    also have "\<dots> = last (dropWhile (\<lambda>w. w = ''..'') ws)"
      using ne by (rule last_appendR)
    finally have "last (dropWhile (\<lambda>w. w = ''..'') ws) = last ws" ..
    moreover have "last (dropWhile (\<lambda>w. w = ''..'') ws) \<in> set (dropWhile (\<lambda>w. w = ''..'') ws)"
      using ne by (rule last_in_set)
    ultimately have "plain (last ws)" using cf
      by (simp add: clean_form_def list_all_iff)
    then show False using l ne by (auto simp: plain_def)
  qed
  then show ?thesis by (simp add: clean_form_def dropWhile_append)
qed

lemma clean_walk_form: "clean_form (rev out) \<Longrightarrow> clean_form (clean_walk r out cs)"
proof (induction r out cs rule: clean_walk.induct)
  case (2 r out c cs)
  show ?case
  proof (cases "c = [] \<or> c = ''.''")
    case True
    then show ?thesis using "2.IH"(1) "2.prems" by auto
  next
    case nt: False
    show ?thesis
    proof (cases "c = ''..''")
      case dots: True
      show ?thesis
      proof (cases out)
        case Nil
        then show ?thesis using "2.IH" dots "2.prems" by (cases r) (auto simp: clean_form_def)
      next
        case (Cons w ws)
        show ?thesis
        proof (cases "w = ''..''")
          case True
          then have "clean_form (rev (c # out))"
            using "2.prems" Cons dots by (simp, intro clean_form_dots [of "rev ws @ [''..'']", simplified]) auto
          then show ?thesis using "2.IH" dots Cons True "2.prems" by (cases r) auto
        next
          case False
          from "2.prems" Cons have "clean_form (rev ws)"
            by (auto intro: clean_form_butlast)
          then show ?thesis using "2.IH" dots Cons False by auto
        qed
      qed
    next
      case False
      then have "clean_form (rev (c # out))"
        using "2.prems" nt by (simp add: clean_form_snoc plain_def)
      then show ?thesis using "2.IH" nt False by auto
    qed
  qed
qed simp

lemma clean_walk_no_slash:
  "(\<And>w. w \<in> set out \<union> set cs \<Longrightarrow> CHR ''/'' \<notin> set w) \<Longrightarrow> w \<in> set (clean_walk r out cs) \<Longrightarrow> CHR ''/'' \<notin> set w"
  by (induction r out cs rule: clean_walk.induct) (auto split: if_splits list.splits)

text \<open>
  A relative path that \<open>path.Clean\<close> leaves alone and that does not start with \<open>..\<close> has no \<open>..\<close>
  element anywhere: it cannot name anything outside the directory it is resolved in.
\<close>

lemma clean_relative_elements:
  assumes clean: "path_clean s = s" and rel: "\<not> has_prefix s ''/''"
    and up: "s \<noteq> ''..''" "\<not> has_prefix s ''../''"
  shows "s = ''.'' \<or> list_all plain (split_slash s)"
proof (cases "s = ''.''")
  case False
  let ?out = "clean_walk False [] (split_slash s)"
  have ne: "s \<noteq> []" using clean by (auto simp: path_clean_def)
  have "hd s \<noteq> CHR ''/''" using rel ne by (cases s) (auto simp: has_prefix_def)
  with clean ne False have s: "s = join_slash ?out" "?out \<noteq> []"
    by (auto simp: path_clean_def Let_def split: if_splits)
  have "split_slash s = ?out"
    using s by (metis Un_iff clean_walk_no_slash empty_iff list.set(1) split_join split_slash_no_slash)
  moreover have "clean_form ?out" by (rule clean_walk_form) (simp add: clean_form_def)
  moreover have "hd ?out \<noteq> ''..''"
  proof
    assume h: "hd ?out = ''..''"
    with s(2) obtain ws where ws: "?out = ''..'' # ws" by (cases ?out) auto
    show False
    proof (cases ws)
      case Nil
      with ws s(1) up(1) show False by simp
    next
      case (Cons v vs)
      with ws s(1) have "s = ''../'' @ join_slash ws" by simp
      with up(2) show False by (auto simp: has_prefix_iff)
    qed
  qed
  ultimately show ?thesis
    using s(2) by (cases ?out) (auto simp: clean_form_def)
qed simp

section \<open>Time stamps\<close>

definition digit :: "char \<Rightarrow> bool" where
  "digit c \<longleftrightarrow> 48 \<le> byte c \<and> byte c \<le> 57"

definition dval :: "char \<Rightarrow> int" where
  "dval c = int (byte c) - 48"

fun atoi :: "int \<Rightarrow> string \<Rightarrow> int" where
  "atoi n [] = n"
| "atoi n (c # s) = atoi (10 * n + dval c) s"

text \<open>\<open>getnum\<close>: two digits, or one when not \<open>fixed\<close> and no second digit follows.\<close>

fun getnum :: "bool \<Rightarrow> string \<Rightarrow> (int \<times> string) option" where
  "getnum fixed [] = None"
| "getnum fixed [a] = (if digit a \<and> \<not> fixed then Some (dval a, []) else None)"
| "getnum fixed (a # b # s) =
     (if \<not> digit a then None
      else if digit b then Some (10 * dval a + dval b, s)
      else if fixed then None else Some (dval a, b # s))"

fun expect :: "char \<Rightarrow> string \<Rightarrow> string option" where
  "expect c [] = None"
| "expect c (d # s) = (if c = d then Some s else None)"

definition long_year :: "string \<Rightarrow> (int \<times> string) option" where
  "long_year s = (if 4 \<le> length s \<and> list_all digit (take 4 s) then Some (atoi 0 (take 4 s), drop 4 s) else None)"

definition in_range :: "int \<Rightarrow> int \<Rightarrow> int \<Rightarrow> unit option" where
  "in_range lo hi n = (if lo \<le> n \<and> n \<le> hi then Some () else None)"

definition leap :: "int \<Rightarrow> bool" where
  "leap y \<longleftrightarrow> y mod 4 = 0 \<and> (y mod 100 \<noteq> 0 \<or> y mod 400 = 0)"

definition days_in :: "int \<Rightarrow> int \<Rightarrow> int" where
  "days_in m y = (if m = 2 then (if leap y then 29 else 28)
                  else if m \<in> {4, 6, 9, 11} then 30 else 31)"

text \<open>Days from 1970-01-01 in the proleptic Gregorian calendar.\<close>

definition epoch_days :: "int \<Rightarrow> int \<Rightarrow> int \<Rightarrow> int" where
  "epoch_days y m d =
     (let y' = (if m \<le> 2 then y - 1 else y);
          yoe = y' mod 400;
          doy = (153 * (if m > 2 then m - 3 else m + 9) + 2) div 5 + d - 1
      in (y' div 400) * 146097 + (yoe * 365 + yoe div 4 - yoe div 100 + doy) - 719468)"

text \<open>The optional fraction: a comma or a period and a digit; digits after the ninth are ignored.\<close>

definition frac_seconds :: "string \<Rightarrow> int \<times> string" where
  "frac_seconds s =
     (case s of
        p # d # _ \<Rightarrow>
          if (p = CHR ''.'' \<or> p = CHR '','') \<and> digit d then
            let ds = takeWhile digit (tl s); ns = take 9 ds
            in (atoi 0 ns * 10 ^ (9 - length ns), dropWhile digit (tl s))
          else (0, s)
      | _ \<Rightarrow> (0, s))"

definition parse_rfc3339_z :: "string \<Rightarrow> int option" where
  "parse_rfc3339_z s = do {
     (y, s) \<leftarrow> long_year s; s \<leftarrow> expect CHR ''-'' s;
     (mo, s) \<leftarrow> getnum True s; in_range 1 12 mo; s \<leftarrow> expect CHR ''-'' s;
     (d, s) \<leftarrow> getnum True s; s \<leftarrow> expect CHR ''T'' s;
     (h, s) \<leftarrow> getnum False s; in_range 0 23 h; s \<leftarrow> expect CHR '':'' s;
     (mi, s) \<leftarrow> getnum True s; in_range 0 59 mi; s \<leftarrow> expect CHR '':'' s;
     (se, s) \<leftarrow> getnum True s; in_range 0 59 se;
     (let (ns, s) = frac_seconds s in
       if s = ''Z'' \<and> 1 \<le> d \<and> d \<le> days_in mo y
       then Some ((((epoch_days y mo d * 24 + h) * 60 + mi) * 60 + se) * 1000000000 + ns)
       else None) }"

section \<open>SHA-256\<close>

text \<open>The 64 round constants and the initial hash value, in decimal.\<close>

definition sha_k :: "32 word list" where
  "sha_k = [
   1116352408, 1899447441, 3049323471, 3921009573, 961987163, 1508970993, 2453635748, 2870763221,
   3624381080, 310598401, 607225278, 1426881987, 1925078388, 2162078206, 2614888103, 3248222580,
   3835390401, 4022224774, 264347078, 604807628, 770255983, 1249150122, 1555081692, 1996064986,
   2554220882, 2821834349, 2952996808, 3210313671, 3336571891, 3584528711, 113926993, 338241895,
   666307205, 773529912, 1294757372, 1396182291, 1695183700, 1986661051, 2177026350, 2456956037,
   2730485921, 2820302411, 3259730800, 3345764771, 3516065817, 3600352804, 4094571909, 275423344,
   430227734, 506948616, 659060556, 883997877, 958139571, 1322822218, 1537002063, 1747873779,
   1955562222, 2024104815, 2227730452, 2361852424, 2428436474, 2756734187, 3204031479, 3329325298]"

definition sha_init :: "32 word list" where
  "sha_init = [
   1779033703, 3144134277, 1013904242, 2773480762,
   1359893119, 2600822924, 528734635, 1541459225]"

definition be_bytes :: "nat \<Rightarrow> int \<Rightarrow> int list" where
  "be_bytes n v = map (\<lambda>i. (v div 256 ^ (n - 1 - i)) mod 256) [0..<n]"

definition sha_pad :: "int list \<Rightarrow> int list" where
  "sha_pad bs = bs @ 128 # replicate ((119 - length bs mod 64) mod 64) 0
                   @ be_bytes 8 (8 * int (length bs) mod 2 ^ 64)"

fun be_words :: "int list \<Rightarrow> 32 word list" where
  "be_words (a # b # c # d # bs) = word_of_int (((a * 256 + b) * 256 + c) * 256 + d) # be_words bs"
| "be_words _ = []"

text \<open>The message schedule, newest word first.\<close>

definition sha_next :: "32 word list \<Rightarrow> 32 word" where
  "sha_next ws =
     (let w2 = ws ! 1; w7 = ws ! 6; w15 = ws ! 14; w16 = ws ! 15;
          s0 = word_rotr 7 w15 XOR word_rotr 18 w15 XOR drop_bit 3 w15;
          s1 = word_rotr 17 w2 XOR word_rotr 19 w2 XOR drop_bit 10 w2
      in w16 + s0 + w7 + s1)"

fun sha_extend :: "nat \<Rightarrow> 32 word list \<Rightarrow> 32 word list" where
  "sha_extend 0 ws = ws"
| "sha_extend (Suc n) ws = sha_extend n (sha_next ws # ws)"

fun sha_round :: "32 word list \<Rightarrow> 32 word \<times> 32 word \<Rightarrow> 32 word list" where
  "sha_round [a, b, c, d, e, f, g, h] (k, w) =
     (let s1 = word_rotr 6 e XOR word_rotr 11 e XOR word_rotr 25 e;
          ch = (e AND f) XOR (NOT e AND g);
          t1 = h + s1 + ch + k + w;
          s0 = word_rotr 2 a XOR word_rotr 13 a XOR word_rotr 22 a;
          maj = (a AND b) XOR (a AND c) XOR (b AND c)
      in [t1 + (s0 + maj), a, b, c, d + t1, e, f, g])"
| "sha_round st _ = st"

definition sha_block :: "32 word list \<Rightarrow> 32 word list \<Rightarrow> 32 word list" where
  "sha_block st ws = map2 (+) st (foldl sha_round st (zip sha_k (rev (sha_extend 48 (rev ws)))))"

fun sha_blocks :: "nat \<Rightarrow> 32 word list \<Rightarrow> 32 word list \<Rightarrow> 32 word list" where
  "sha_blocks 0 st ws = st"
| "sha_blocks (Suc n) st ws = sha_blocks n (sha_block st (take 16 ws)) (drop 16 ws)"

definition hex_digit :: "int \<Rightarrow> char" where
  "hex_digit n = (if n < 10 then char_of (48 + n) else char_of (87 + n))"

definition hex_byte :: "int \<Rightarrow> string" where
  "hex_byte b = [hex_digit (b div 16), hex_digit (b mod 16)]"

definition sha256_sum :: "string \<Rightarrow> int list" where
  "sha256_sum s = (let ws = be_words (sha_pad (map of_char s))
     in concat (map (\<lambda>w. be_bytes 4 (uint w)) (sha_blocks (length ws div 16) sha_init ws)))"

definition hex_encode :: "int list \<Rightarrow> string" where
  "hex_encode bs = concat (map hex_byte bs)"

definition sha256_hex :: "string \<Rightarrow> string" where
  "sha256_hex s = hex_encode (sha256_sum s)"

text \<open>The FIPS 180-4 test vector.\<close>

lemma sha256_abc:
  "sha256_hex ''abc'' = ''ba7816bf8f01cfea414140de5dae2223b00361a396177a9cb410ff61f20015ad''"
  by code_simp

definition hex_lower :: "char \<Rightarrow> bool" where
  "hex_lower c \<longleftrightarrow> digit c \<or> 97 \<le> byte c \<and> byte c \<le> 102"

lemma be_bytes_range: "b \<in> set (be_bytes n v) \<Longrightarrow> 0 \<le> b \<and> b < 256"
  by (auto simp: be_bytes_def)

lemma length_be_bytes [simp]: "length (be_bytes n v) = n"
  by (simp add: be_bytes_def)

lemma hex_digit_lower: "0 \<le> n \<Longrightarrow> n < 16 \<Longrightarrow> hex_lower (hex_digit n)"
proof -
  have "list_all (\<lambda>n. hex_lower (hex_digit n)) [0..15]" by code_simp
  then show "0 \<le> n \<Longrightarrow> n < 16 \<Longrightarrow> hex_lower (hex_digit n)" by (auto simp: list_all_iff)
qed

lemma length_sha_round: "length st = 8 \<Longrightarrow> length (sha_round st kw) = 8"
  by (cases "(st, kw)" rule: sha_round.cases) (auto simp: Let_def)

lemma length_sha_foldl: "length st = 8 \<Longrightarrow> length (foldl sha_round st kws) = 8"
  by (induction kws arbitrary: st) (auto simp: length_sha_round)

lemma length_sha_blocks: "length st = 8 \<Longrightarrow> length (sha_blocks n st ws) = 8"
  by (induction n arbitrary: st ws) (auto simp: sha_block_def length_sha_foldl)

lemma length_sha256_sum: "length (sha256_sum s) = 32"
proof -
  have "length (concat (map (\<lambda>w. be_bytes 4 (uint w)) ws)) = 4 * length ws" for ws :: "32 word list"
    by (induction ws) auto
  then show ?thesis
    by (simp add: sha256_sum_def Let_def length_sha_blocks sha_init_def)
qed

lemma length_sha256_hex [simp]: "length (sha256_hex s) = 64"
proof -
  have "length (hex_encode bs) = 2 * length bs" for bs
    by (induction bs) (auto simp: hex_encode_def hex_byte_def)
  then show ?thesis by (simp add: sha256_hex_def length_sha256_sum)
qed

lemma sha256_hex_lower: "list_all hex_lower (sha256_hex s)"
proof -
  have "0 \<le> b \<and> b < 256" if "b \<in> set (sha256_sum s)" for b
    using that by (auto simp: sha256_sum_def Let_def dest: be_bytes_range)
  moreover have "0 \<le> b div 16 \<and> b div 16 < 16" if "0 \<le> b \<and> b < 256" for b :: int
    using that by presburger
  ultimately have "\<forall>b\<in>set (sha256_sum s). 0 \<le> b div 16 \<and> b div 16 < 16"
    by blast
  then show ?thesis
    by (auto simp: sha256_hex_def hex_encode_def hex_byte_def list_all_iff intro!: hex_digit_lower)
qed

end
