(* ===== verification/Dhnt_Types.thy ===== *)
theory Dhnt_Types
  imports Go_Std
begin

text \<open>
  The data of the \<open>dhnt.pipeline\<close> and \<open>dhnt.run\<close> contracts (\<open>dhnt/contract.go\<close>,
  \<open>dhnt/output_commit.go\<close>): one record per struct, in the order of its fields. Go's named string
  types (\<open>Lane\<close>, \<open>Distribution\<close>, \<open>ResultClass\<close>, \<open>ArtifactKind\<close>, \<open>DigestAlgorithm\<close>) stay strings,
  because decoding admits any string and the validators refuse the unknown ones. A pointer field
  is an option, a map an association list without repeated keys.
\<close>

section \<open>Constants\<close>

abbreviation "PipelineSchema \<equiv> ''dhnt.pipeline/v1''"
abbreviation "PipelineSchemaV2 \<equiv> ''dhnt.pipeline/v2''"
abbreviation "RunSchema \<equiv> ''dhnt.run/v1''"
abbreviation "RunSchemaV2 \<equiv> ''dhnt.run/v2''"
abbreviation "OutputCommitSchema \<equiv> ''dhnt.output-commit/v1''"
abbreviation "DigestSHA256OutputCommitV1 \<equiv> ''sha256-output-commit-v1''"

definition Lanes :: "string list" where
  "Lanes = [''native'', ''container'', ''cluster'', ''cloud'']"

definition Distributions :: "string list" where
  "Distributions = [''single'', ''shardable'', ''replicated'', ''topology-coupled'']"

definition ResultClasses :: "string list" where
  "ResultClasses = [''pass'', ''test-fail'', ''infra-fail'', ''incomplete'', ''canceled'']"

abbreviation "ArtifactFile \<equiv> ''file''"
abbreviation "ArtifactTree \<equiv> ''tree''"
abbreviation "DigestSHA256FileV1 \<equiv> ''sha256-file-v1''"
abbreviation "DigestSHA256TreeV1 \<equiv> ''sha256-tree-v1''"

section \<open>Structs\<close>

record source =
  s_repository :: string
  s_commit :: string
  s_sha256 :: string

record artifact =
  a_name :: string
  a_kind :: string
  a_algorithm :: string
  a_sha256 :: string

record environment =
  e_name :: string
  e_value :: string

record platform =
  p_backend :: string
  p_os :: string
  p_arch :: string

record placement =
  pl_cpu :: int
  pl_memory_bytes :: nat
  pl_accelerator_kind :: string
  pl_accelerator_family :: string
  pl_accelerator_count :: int
  pl_accelerator_memory :: nat
  pl_minimum_capacity :: "(string \<times> nat) list"
  pl_topology_key :: string
  pl_cohort_size :: int

record task =
  t_id :: string
  t_lane :: string
  t_distribution :: string
  t_needs :: "string list"
  t_argv :: "string list"
  t_workdir :: string
  t_environment :: "environment list"
  t_placement :: "placement option"
  t_reducer :: string

record chunk =
  c_index :: int
  c_count :: int
  c_manifest :: string

record matrix_entry =
  m_task :: string
  m_platform :: platform
  m_chunk :: "chunk option"
  m_inputs :: "artifact list"
  m_outputs :: "artifact list"

record pipeline =
  pi_schema :: string
  pi_name :: string
  pi_source :: source
  pi_tasks :: "task list"
  pi_matrix :: "matrix_entry list"

record executor =
  x_node :: string
  x_backend :: string
  x_os :: string
  x_arch :: string

record run_result =
  r_class :: string
  r_exit :: "int option"

record output_commit =
  oc_schema :: string
  oc_algorithm :: string
  oc_sha256 :: string

record run =
  ru_schema :: string
  ru_pipeline :: string
  ru_task :: string
  ru_run :: string
  ru_source :: source
  ru_inputs :: "artifact list"
  ru_executor :: executor
  ru_result :: run_result
  ru_outputs :: "artifact list"
  ru_commit :: "output_commit option"
  ru_started :: string
  ru_finished :: string
  ru_trace :: string

section \<open>Errors\<close>

text \<open>
  The errors of the package. \<open>Bad f r\<close> is the message \<open>f: r\<close>; \<open>At f i e\<close> is an error wrapped as
  \<open>f[i]: e\<close> (or naming \<open>f[i].g\<close>); \<open>Within f e\<close> one wrapped as \<open>f: e\<close>.
\<close>

datatype reason =
    MustNotBeEmpty | NulByte | NotClean | NotPresent | NotAbsent | OutOfRange
  | BadIdentifier string | BadName string | BadDigest | BadTimestamp | BadTraceId
  | Unknown string | Duplicate string | Mismatch string | Reserved string | SecretLike string
  | Cycle string | SelfDependency string | NoPlatform string | Alias string string | Missing nat nat

datatype verr = Bad string reason | At string nat verr | Within string verr

end
