(* ===== verification/Dhnt_Fields.thy ===== *)
theory Dhnt_Fields
  imports Dhnt_Types
begin

text \<open>
  The field validators of \<open>dhnt/contract.go\<close>: identifiers, digests, sources, tasks, chunks,
  platforms, artifacts, time stamps, and \<open>dhnt/runner_spec.go\<close>'s environment check. Each returns
  the first error of its checks in the code's order. The lemmas give the condition under which
  each one accepts.
\<close>

section \<open>Identifiers, digests, time stamps\<close>

definition alnum :: "char \<Rightarrow> bool" where
  "alnum c \<longleftrightarrow> digit c \<or> 65 \<le> byte c \<and> byte c \<le> 90 \<or> 97 \<le> byte c \<and> byte c \<le> 122"

definition identifierRE :: "string \<Rightarrow> bool" where
  "identifierRE s \<longleftrightarrow> (case s of [] \<Rightarrow> False
     | c # cs \<Rightarrow> alnum c \<and> length cs \<le> 127 \<and> list_all (\<lambda>d. alnum d \<or> d \<in> set ''._/-'') cs)"

definition envNameRE :: "string \<Rightarrow> bool" where
  "envNameRE s \<longleftrightarrow> (case s of [] \<Rightarrow> False
     | c # cs \<Rightarrow> (alnum c \<and> \<not> digit c \<or> c = CHR ''_'') \<and> list_all (\<lambda>d. alnum d \<or> d = CHR ''_'') cs)"

definition sha256RE :: "string \<Rightarrow> bool" where
  "sha256RE s \<longleftrightarrow> length s = 64 \<and> list_all hex_lower s"

definition traceIDRE :: "string \<Rightarrow> bool" where
  "traceIDRE s \<longleftrightarrow> length s = 32 \<and> list_all hex_lower s"

definition validateID :: "string \<Rightarrow> string \<Rightarrow> verr option" where
  "validateID field v = refuse (\<not> identifierRE v) (Bad field (BadIdentifier v))"

definition validateDigest :: "string \<Rightarrow> string \<Rightarrow> verr option" where
  "validateDigest field v = refuse (\<not> sha256RE v) (Bad field BadDigest)"

definition validateTimestamp :: "string \<Rightarrow> string \<Rightarrow> verr + int" where
  "validateTimestamp field v =
     (if \<not> has_suffix v ''Z'' then Inl (Bad field BadTimestamp)
      else (case parse_rfc3339_z v of None \<Rightarrow> Inl (Bad field BadTimestamp) | Some t \<Rightarrow> Inr t))"

definition validateSource :: "source \<Rightarrow> verr option" where
  "validateSource s = first_error [
     refuse (trim_space (s_repository s) = []) (Bad ''source.repository'' MustNotBeEmpty),
     refuse (nul \<in> set (s_repository s)) (Bad ''source.repository'' NulByte),
     refuse (trim_space (s_commit s) = []) (Bad ''source.commit'' MustNotBeEmpty),
     refuse (nul \<in> set (s_commit s)) (Bad ''source.commit'' NulByte),
     validateDigest ''source.sha256'' (s_sha256 s)]"

section \<open>Tasks\<close>

definition unique_step :: "string \<Rightarrow> nat \<Rightarrow> string list \<Rightarrow> string \<Rightarrow> verr + string list" where
  "unique_step field i seen v =
     (if \<not> identifierRE v then Inl (At field i (Bad [] (BadIdentifier v)))
      else if v \<in> set seen then Inl (At field i (Bad [] (Duplicate v)))
      else Inr (v # seen))"

definition validateUniqueStrings :: "string \<Rightarrow> string list \<Rightarrow> verr option" where
  "validateUniqueStrings field vs = err_of (scan (unique_step field) 0 [] vs)"

definition env_step :: "nat \<Rightarrow> string list \<Rightarrow> environment \<Rightarrow> verr + string list" where
  "env_step i seen e =
     (if nul \<in> set (e_name e) then Inl (At ''environment'' i (Bad ''name'' NulByte))
      else if \<not> envNameRE (e_name e) then Inl (At ''environment'' i (Bad ''name'' (BadName (e_name e))))
      else if nul \<in> set (e_value e) then Inl (At ''environment'' i (Bad ''value'' NulByte))
      else if e_name e \<in> set seen then Inl (At ''environment'' i (Bad ''name'' (Duplicate (e_name e))))
      else Inr (e_name e # seen))"

text \<open>The Windows drive-letter test of \<open>validateTask\<close>.\<close>

definition drive_letter :: "string \<Rightarrow> bool" where
  "drive_letter wd = (case wd of
     c # d # _ \<Rightarrow> d = CHR '':'' \<and> (65 \<le> byte c \<and> byte c \<le> 90 \<or> 97 \<le> byte c \<and> byte c \<le> 122)
   | _ \<Rightarrow> False)"

definition validateTask :: "task \<Rightarrow> verr option" where
  "validateTask t = (let wd = t_workdir t; cleaned = path_clean wd in first_error [
     validateID ''id'' (t_id t),
     refuse (t_lane t \<notin> set Lanes) (Bad ''lane'' (Unknown (t_lane t))),
     refuse (t_distribution t \<notin> set Distributions) (Bad ''distribution'' (Unknown (t_distribution t))),
     refuse (t_argv t = [] \<or> hd (t_argv t) = []) (Bad ''argv'' MustNotBeEmpty),
     each_from (\<lambda>i arg. refuse (nul \<in> set arg) (At ''argv'' i (Bad [] NulByte))) 0 (t_argv t),
     refuse (wd = []) (Bad ''workingDirectory'' MustNotBeEmpty),
     refuse (nul \<in> set wd) (Bad ''workingDirectory'' NulByte),
     refuse (CHR 0x5C \<in> set wd) (Bad ''workingDirectory'' NotClean),
     refuse (has_prefix wd ''/'') (Bad ''workingDirectory'' NotClean),
     refuse (drive_letter wd) (Bad ''workingDirectory'' NotClean),
     refuse (has_prefix wd ''//'') (Bad ''workingDirectory'' NotClean),
     refuse (cleaned \<noteq> wd \<or> cleaned = ''..'' \<or> has_prefix cleaned ''../'') (Bad ''workingDirectory'' NotClean),
     validateUniqueStrings ''needs'' (t_needs t),
     err_of (scan env_step 0 [] (t_environment t))])"

text \<open>\<open>secretEnvironmentName\<close>: the case-insensitive expression of \<open>runner_spec.go\<close>.\<close>

definition secret_words :: "string list" where
  "secret_words = [''secret'', ''token'', ''password'', ''passwd'', ''credential'',
     ''privatekey'', ''private_key'', ''private-key'', ''apikey'', ''api_key'', ''api-key'']"

definition secretEnvironmentName :: "string \<Rightarrow> bool" where
  "secretEnvironmentName s \<longleftrightarrow> list_ex (contains (fold_key s)) secret_words"

definition validateNonSecretEnvironment :: "environment list \<Rightarrow> verr option" where
  "validateNonSecretEnvironment es = each_from (\<lambda>i e. first_error [
     refuse (has_prefix (e_name e) ''DHNT_'') (At ''environment'' i (Bad ''name'' (Reserved (e_name e)))),
     refuse (secretEnvironmentName (e_name e)) (At ''environment'' i (Bad ''name'' (SecretLike (e_name e))))]) 0 es"

definition validatePlacementRequirement :: "task \<Rightarrow> verr option" where
  "validatePlacementRequirement t = first_error [
     (case t_placement t of None \<Rightarrow> None | Some p \<Rightarrow> first_error [
        refuse (pl_cpu p < 0 \<or> pl_accelerator_count p < 0 \<or> pl_cohort_size p < 0) (Bad ''placement'' OutOfRange),
        refuse (pl_accelerator_kind p = [] \<and>
                (pl_accelerator_family p \<noteq> [] \<or> pl_accelerator_count p \<noteq> 0 \<or> pl_accelerator_memory p \<noteq> 0))
               (Bad ''placement.acceleratorKind'' MustNotBeEmpty),
        each_from (\<lambda>_ (key, minimum). refuse (trim_space key = [] \<or> minimum = 0)
               (Bad ''placement.minimumCapacity'' (Unknown key))) 0 (pl_minimum_capacity p)]),
     refuse (t_distribution t = ''topology-coupled'' \<and>
             (case t_placement t of None \<Rightarrow> True
              | Some p \<Rightarrow> pl_topology_key p = [] \<or> pl_cohort_size p < 1))
            (Bad ''placement.topologyKey'' NotPresent),
     refuse (t_distribution t = ''shardable'' \<and> t_placement t \<noteq> None \<and> t_reducer t = [])
            (Bad ''reducer'' NotPresent)]"

section \<open>Matrix parts\<close>

definition validateChunk :: "chunk \<Rightarrow> verr option" where
  "validateChunk c = first_error [
     refuse (c_count c < 1) (Bad ''count'' OutOfRange),
     refuse (c_index c < 1 \<or> c_index c > c_count c) (Bad ''index'' OutOfRange),
     validateDigest ''manifestSha256'' (c_manifest c)]"

definition validatePlatform :: "platform \<Rightarrow> verr option" where
  "validatePlatform p = first_error [
     refuse (p_backend p \<notin> set [''local'', ''vk-native'', ''vk-podman'', ''k3s'', ''cloud''])
            (Bad ''platform.backend'' (Unknown (p_backend p))),
     refuse (p_os p \<notin> set [''linux'', ''darwin'', ''windows'']) (Bad ''platform.os'' (Unknown (p_os p))),
     refuse (p_arch p \<notin> set [''amd64'', ''arm64'']) (Bad ''platform.arch'' (Unknown (p_arch p)))]"

text \<open>The schema switch in the loop of \<open>validateArtifacts\<close>.\<close>

definition artifact_kind_error :: "string \<Rightarrow> nat \<Rightarrow> string \<Rightarrow> artifact \<Rightarrow> verr option" where
  "artifact_kind_error field i schema a =
     (if schema = PipelineSchema \<or> schema = RunSchema then
        refuse (a_kind a \<noteq> [] \<or> a_algorithm a \<noteq> []) (At field i (Bad ''kind'' NotAbsent))
      else if schema = PipelineSchemaV2 \<or> schema = RunSchemaV2 then
        (if a_kind a = ArtifactFile then
           refuse (a_algorithm a \<noteq> DigestSHA256FileV1) (At field i (Bad ''digestAlgorithm'' (Unknown (a_algorithm a))))
         else if a_kind a = ArtifactTree then
           refuse (a_algorithm a \<noteq> DigestSHA256TreeV1) (At field i (Bad ''digestAlgorithm'' (Unknown (a_algorithm a))))
         else Some (At field i (Bad ''kind'' (Unknown (a_kind a)))))
      else Some (Bad ''schema'' (Unknown schema)))"

definition artifact_step :: "string \<Rightarrow> string \<Rightarrow> nat \<Rightarrow> string list \<Rightarrow> artifact \<Rightarrow> verr + string list" where
  "artifact_step field schema i seen a =
     (if \<not> identifierRE (a_name a) then Inl (At field i (Bad ''name'' (BadIdentifier (a_name a))))
      else if a_name a \<in> set seen then Inl (At field i (Bad ''name'' (Duplicate (a_name a))))
      else case artifact_kind_error field i schema a of
        Some e \<Rightarrow> Inl e
      | None \<Rightarrow> if \<not> sha256RE (a_sha256 a) then Inl (At field i (Bad ''sha256'' BadDigest))
                else Inr (a_name a # seen))"

definition validateArtifacts :: "string \<Rightarrow> artifact list \<Rightarrow> bool \<Rightarrow> string \<Rightarrow> verr option" where
  "validateArtifacts field arts required schema =
     (if required \<and> arts = [] then Some (Bad field MustNotBeEmpty)
      else err_of (scan (artifact_step field schema) 0 [] arts))"

section \<open>What the validators accept\<close>

definition source_ok :: "source \<Rightarrow> bool" where
  "source_ok s \<longleftrightarrow> trim_space (s_repository s) \<noteq> [] \<and> nul \<notin> set (s_repository s) \<and>
     trim_space (s_commit s) \<noteq> [] \<and> nul \<notin> set (s_commit s) \<and> sha256RE (s_sha256 s)"

text \<open>A relative path all of whose elements are ordinary names, or \<open>.\<close> itself.\<close>

definition inside_path :: "string \<Rightarrow> bool" where
  "inside_path wd \<longleftrightarrow> wd = ''.'' \<or> list_all plain (split_slash wd)"

definition env_ok :: "environment list \<Rightarrow> bool" where
  "env_ok es \<longleftrightarrow> distinct (map e_name es) \<and>
     (\<forall>e\<in>set es. envNameRE (e_name e) \<and> nul \<notin> set (e_name e) \<and> nul \<notin> set (e_value e))"

definition task_ok :: "task \<Rightarrow> bool" where
  "task_ok t \<longleftrightarrow> identifierRE (t_id t) \<and> t_lane t \<in> set Lanes \<and> t_distribution t \<in> set Distributions \<and>
     t_argv t \<noteq> [] \<and> hd (t_argv t) \<noteq> [] \<and> (\<forall>a\<in>set (t_argv t). nul \<notin> set a) \<and>
     inside_path (t_workdir t) \<and> nul \<notin> set (t_workdir t) \<and> CHR 0x5C \<notin> set (t_workdir t) \<and>
     \<not> drive_letter (t_workdir t) \<and>
     distinct (t_needs t) \<and> (\<forall>n\<in>set (t_needs t). identifierRE n) \<and> env_ok (t_environment t)"

definition chunk_ok :: "chunk \<Rightarrow> bool" where
  "chunk_ok c \<longleftrightarrow> 1 \<le> c_index c \<and> c_index c \<le> c_count c \<and> sha256RE (c_manifest c)"

definition platform_ok :: "platform \<Rightarrow> bool" where
  "platform_ok p \<longleftrightarrow> p_backend p \<in> {''local'', ''vk-native'', ''vk-podman'', ''k3s'', ''cloud''} \<and>
     p_os p \<in> {''linux'', ''darwin'', ''windows''} \<and> p_arch p \<in> {''amd64'', ''arm64''}"

definition typed_ok :: "string \<Rightarrow> artifact \<Rightarrow> bool" where
  "typed_ok schema a \<longleftrightarrow>
     (schema \<in> {PipelineSchema, RunSchema} \<and> a_kind a = [] \<and> a_algorithm a = []) \<or>
     (schema \<in> {PipelineSchemaV2, RunSchemaV2} \<and>
      (a_kind a, a_algorithm a) \<in> {(ArtifactFile, DigestSHA256FileV1), (ArtifactTree, DigestSHA256TreeV1)})"

definition artifact_ok :: "string \<Rightarrow> artifact \<Rightarrow> bool" where
  "artifact_ok schema a \<longleftrightarrow> identifierRE (a_name a) \<and> typed_ok schema a \<and> sha256RE (a_sha256 a)"

definition artifacts_ok :: "string \<Rightarrow> artifact list \<Rightarrow> bool" where
  "artifacts_ok schema arts \<longleftrightarrow>
     arts \<noteq> [] \<and> distinct (map a_name arts) \<and> (\<forall>a\<in>set arts. artifact_ok schema a)"

lemma validateID_None [accept_simps]: "validateID f v = None \<longleftrightarrow> identifierRE v"
  by (simp add: validateID_def)

lemma validateDigest_None [accept_simps]: "validateDigest f v = None \<longleftrightarrow> sha256RE v"
  by (simp add: validateDigest_def)

lemma validateSource_None [accept_simps]: "validateSource s = None \<longleftrightarrow> source_ok s"
  by (auto simp: validateSource_def source_ok_def accept_simps)

lemma validateUniqueStrings_None [accept_simps]:
  "validateUniqueStrings f vs = None \<longleftrightarrow> distinct vs \<and> (\<forall>v\<in>set vs. identifierRE v)"
proof -
  have "(\<exists>st. scan (unique_step f) 0 [] vs = Inr st) \<longleftrightarrow>
        (\<forall>v\<in>set vs. identifierRE v) \<and> distinct (map (\<lambda>v. v) vs) \<and> set (map (\<lambda>v. v) vs) \<inter> set [] = {}"
    by (rule scan_distinct [where err = "\<lambda>i st x. if \<not> identifierRE x then At f i (Bad [] (BadIdentifier x))
          else At f i (Bad [] (Duplicate x))"]) (auto simp: unique_step_def)
  then show ?thesis by (auto simp: validateUniqueStrings_def)
qed

lemma env_scan_None [accept_simps]: "(\<exists>st. scan env_step 0 [] es = Inr st) \<longleftrightarrow> env_ok es"
proof -
  let ?P = "\<lambda>e. envNameRE (e_name e) \<and> nul \<notin> set (e_name e) \<and> nul \<notin> set (e_value e)"
  have "(\<exists>st. scan env_step 0 [] es = Inr st) \<longleftrightarrow>
        (\<forall>e\<in>set es. ?P e) \<and> distinct (map e_name es) \<and> set (map e_name es) \<inter> set [] = {}"
    by (rule scan_distinct [where err = "\<lambda>i st x. case env_step i st x of Inl e \<Rightarrow> e"])
       (auto simp: env_step_def)
  then show ?thesis by (auto simp: env_ok_def)
qed

lemma inside_path_iff:
  "inside_path wd \<longleftrightarrow> wd \<noteq> [] \<and> \<not> has_prefix wd ''/'' \<and> path_clean wd = wd \<and> wd \<noteq> ''..'' \<and> \<not> has_prefix wd ''../''"
  (is "_ \<longleftrightarrow> ?R")
proof
  assume ?R
  then show "inside_path wd" using clean_relative_elements [of wd] by (auto simp: inside_path_def)
next
  assume ins: "inside_path wd"
  show ?R
  proof (cases "wd = ''.''")
    case True
    then show ?thesis by (simp add: has_prefix_def path_clean_def Let_def)
  next
    case False
    with ins have pl: "list_all plain (split_slash wd)" by (simp add: inside_path_def)
    have walk: "list_all plain cs \<Longrightarrow> clean_walk False out cs = rev out @ cs" for out cs
      by (induction cs arbitrary: out) (auto simp: plain_def)
    have ne: "wd \<noteq> []" using pl by (auto simp: plain_def)
    have slash: "hd wd \<noteq> CHR ''/''" using pl ne by (cases wd) (auto simp: plain_def split: list.splits)
    have "\<not> has_prefix wd ''/''" using slash ne by (cases wd) (auto simp: has_prefix_def)
    moreover have "path_clean wd = wd"
      using ne slash walk [OF pl, of "[]"] by (simp add: path_clean_def Let_def)
    moreover have "wd \<noteq> ''..''" using pl by (auto simp: plain_def)
    moreover have "\<not> has_prefix wd ''../''"
    proof
      assume "has_prefix wd ''../''"
      then obtain t where "wd = ''..'' @ CHR ''/'' # t" by (auto simp: has_prefix_iff)
      then have "split_slash wd = ''..'' # split_slash t" by (simp only: split_slash_append) simp
      with pl show False by (auto simp: plain_def)
    qed
    ultimately show ?thesis using ne by blast
  qed
qed

lemma validateTask_None [accept_simps]: "validateTask t = None \<longleftrightarrow> task_ok t"
proof -
  have two: "has_prefix wd ''//'' \<Longrightarrow> has_prefix wd ''/''" for wd
    by (auto simp: has_prefix_iff)
  show ?thesis
    unfolding validateTask_def Let_def task_ok_def inside_path_iff
    by (simp only: first_error_None refuse_None validateID_None validateUniqueStrings_None
          err_of_None env_scan_None each_from_accept [OF refuse_None]) (use two in auto)
qed

lemma validateChunk_None [accept_simps]: "validateChunk c = None \<longleftrightarrow> chunk_ok c"
  by (auto simp: validateChunk_def chunk_ok_def accept_simps)

lemma validatePlatform_None [accept_simps]: "validatePlatform p = None \<longleftrightarrow> platform_ok p"
  by (auto simp: validatePlatform_def platform_ok_def accept_simps)

lemma artifact_kind_error_None: "artifact_kind_error f i schema a = None \<longleftrightarrow> typed_ok schema a"
  by (auto simp: artifact_kind_error_def typed_ok_def)

lemma validateArtifacts_None [accept_simps]:
  "validateArtifacts f arts True schema = None \<longleftrightarrow> artifacts_ok schema arts"
proof -
  have "(\<exists>st. scan (artifact_step f schema) 0 [] arts = Inr st) \<longleftrightarrow>
        (\<forall>a\<in>set arts. artifact_ok schema a) \<and> distinct (map a_name arts) \<and> set (map a_name arts) \<inter> set [] = {}"
  proof (rule scan_distinct [where err = "\<lambda>i st x. case artifact_step f schema i st x of Inl e \<Rightarrow> e"])
    fix i st x
    show "artifact_step f schema i st x =
      (if artifact_ok schema x \<and> a_name x \<notin> set st then Inr (a_name x # st)
       else Inl (case artifact_step f schema i st x of Inl e \<Rightarrow> e))"
      by (auto simp: artifact_step_def artifact_ok_def artifact_kind_error_None [of f i schema x, symmetric]
               split: option.split)
  qed
  then show ?thesis by (auto simp: validateArtifacts_def artifacts_ok_def)
qed

interpretation source_v: validator validateSource source_ok
  by unfold_locales (rule validateSource_None)

interpretation task_v: validator validateTask task_ok
  by unfold_locales (rule validateTask_None)

interpretation platform_v: validator validatePlatform platform_ok
  by unfold_locales (rule validatePlatform_None)

interpretation chunk_v: validator validateChunk chunk_ok
  by unfold_locales (rule validateChunk_None)

end
