(* ===== verification/Dhnt_Graph.thy ===== *)
theory Dhnt_Graph
  imports Dhnt_Fields
begin

text \<open>
  \<open>validateAcyclic\<close> of \<open>dhnt/contract.go\<close>: the depth-first search over task dependencies with its
  three-coloured state map. Go's map of tasks is an association list; the order in which Go ranges
  over it is not determined and is the argument \<open>order\<close>. The recursion depth is bounded by fuel;
  \<open>visit_enough\<close> shows that one more than the number of tasks is never used up.
\<close>

type_synonym tasks = "(string \<times> task) list"

definition needs_of :: "tasks \<Rightarrow> string \<Rightarrow> string list" where
  "needs_of tasks i = (case map_of tasks i of None \<Rightarrow> [] | Some t \<Rightarrow> t_needs t)"

datatype visited = OutOfFuel | CycleAt string | Visited "string \<Rightarrow> nat"

fun visit :: "(string \<Rightarrow> string list) \<Rightarrow> nat \<Rightarrow> (string \<Rightarrow> nat) \<Rightarrow> string \<Rightarrow> visited"
  and visit_all :: "(string \<Rightarrow> string list) \<Rightarrow> nat \<Rightarrow> (string \<Rightarrow> nat) \<Rightarrow> string list \<Rightarrow> visited" where
  "visit needs 0 st i = OutOfFuel"
| "visit needs (Suc k) st i =
     (if st i = 1 then CycleAt i
      else if st i = 2 then Visited st
      else (case visit_all needs k (st(i := 1)) (needs i) of
              Visited st' \<Rightarrow> Visited (st'(i := 2))
            | r \<Rightarrow> r))"
| "visit_all needs k st [] = Visited st"
| "visit_all needs k st (n # ns) =
     (case visit needs k st n of Visited st' \<Rightarrow> visit_all needs k st' ns | r \<Rightarrow> r)"

definition validateAcyclic :: "tasks \<Rightarrow> string list \<Rightarrow> verr option" where
  "validateAcyclic tasks order =
     (case visit_all (needs_of tasks) (Suc (length tasks)) (\<lambda>_. 0) order of
        Visited _ \<Rightarrow> None
      | CycleAt i \<Rightarrow> Some (Bad ''tasks'' (Cycle i))
      | OutOfFuel \<Rightarrow> Some (Bad ''tasks'' OutOfRange))"

section \<open>The search\<close>

definition depends :: "(string \<Rightarrow> string list) \<Rightarrow> (string \<times> string) set" where
  "depends needs = {(x, n). n \<in> set (needs x)}"

definition whites :: "string set \<Rightarrow> (string \<Rightarrow> nat) \<Rightarrow> string set" where
  "whites T st = {x \<in> T. st x \<noteq> 1 \<and> st x \<noteq> 2}"

lemma visit_colours:
  "visit needs k st i = Visited st' \<Longrightarrow>
     (\<forall>x. st x = 1 \<longleftrightarrow> st' x = 1) \<and> (\<forall>x. st x = 2 \<longrightarrow> st' x = 2) \<and> st' i = 2"
  "visit_all needs k st ns = Visited st' \<Longrightarrow>
     (\<forall>x. st x = 1 \<longleftrightarrow> st' x = 1) \<and> (\<forall>x. st x = 2 \<longrightarrow> st' x = 2) \<and> (\<forall>n\<in>set ns. st' n = 2)"
proof (induction needs k st i and needs k st ns arbitrary: st' and st' rule: visit_visit_all.induct)
  case (2 needs k st i)
  show ?case
  proof (cases "st i = 1 \<or> st i = 2")
    case True
    with "2.prems" show ?thesis by (auto split: if_splits)
  next
    case False
    with "2.prems" obtain s where s: "visit_all needs k (st(i := 1)) (needs i) = Visited s" "st' = s(i := 2)"
      by (auto split: visited.splits)
    from False have "st i \<noteq> 1" "st i \<noteq> 2" by auto
    from "2.IH" [OF this s(1)] False s(2) show ?thesis by (auto split: if_splits)
  qed
next
  case (4 needs k st n ns)
  then show ?case by (fastforce split: visited.splits)
qed auto

definition settled :: "(string \<Rightarrow> string list) \<Rightarrow> (string \<Rightarrow> nat) \<Rightarrow> bool" where
  "settled needs st \<longleftrightarrow> (\<forall>x. st x = 2 \<longrightarrow> x \<in> Wellfounded.acc ((depends needs)\<inverse>))"

lemma visit_settled:
  "visit needs k st i = Visited st' \<Longrightarrow> settled needs st \<Longrightarrow> settled needs st'"
  "visit_all needs k st ns = Visited st' \<Longrightarrow> settled needs st \<Longrightarrow> settled needs st'"
proof (induction needs k st i and needs k st ns arbitrary: st' and st' rule: visit_visit_all.induct)
  case (2 needs k st i)
  show ?case
  proof (cases "st i = 1 \<or> st i = 2")
    case True
    with "2.prems" show ?thesis by (auto split: if_splits)
  next
    case False
    with "2.prems" obtain s where s: "visit_all needs k (st(i := 1)) (needs i) = Visited s" "st' = s(i := 2)"
      by (auto split: visited.splits)
    from False have c: "st i \<noteq> 1" "st i \<noteq> 2" by auto
    have "settled needs (st(i := 1))" using "2.prems"(2) by (auto simp: settled_def)
    from "2.IH" [OF c s(1) this] have ss: "settled needs s" .
    have "i \<in> Wellfounded.acc ((depends needs)\<inverse>)"
    proof (rule accI)
      fix n assume "(n, i) \<in> (depends needs)\<inverse>"
      then have "n \<in> set (needs i)" by (simp add: depends_def)
      with visit_colours(2) [OF s(1)] have "s n = 2" by blast
      with ss show "n \<in> Wellfounded.acc ((depends needs)\<inverse>)" by (simp add: settled_def)
    qed
    with ss s(2) show ?thesis by (auto simp: settled_def)
  qed
next
  case (4 needs k st n ns)
  then show ?case by (auto split: visited.splits)
qed auto

lemma visit_cycle:
  "visit needs k st i = CycleAt c \<Longrightarrow> (\<forall>g. st g = 1 \<longrightarrow> (g, i) \<in> (depends needs)\<^sup>+) \<Longrightarrow>
     (c, c) \<in> (depends needs)\<^sup>+"
  "visit_all needs k st ns = CycleAt c \<Longrightarrow> (\<forall>n\<in>set ns. \<forall>g. st g = 1 \<longrightarrow> (g, n) \<in> (depends needs)\<^sup>+) \<Longrightarrow>
     (c, c) \<in> (depends needs)\<^sup>+"
proof (induction needs k st i and needs k st ns rule: visit_visit_all.induct)
  case (2 needs k st i)
  show ?case
  proof (cases "st i = 1 \<or> st i = 2")
    case True
    with "2.prems" show ?thesis by (auto split: if_splits)
  next
    case False
    then have c: "st i \<noteq> 1" "st i \<noteq> 2" by auto
    from False "2.prems"(1) have v: "visit_all needs k (st(i := 1)) (needs i) = CycleAt c"
      by (auto split: visited.splits)
    have "\<forall>n\<in>set (needs i). \<forall>g. (st(i := 1)) g = 1 \<longrightarrow> (g, n) \<in> (depends needs)\<^sup>+"
    proof (intro ballI allI impI)
      fix n g assume n: "n \<in> set (needs i)" and g: "(st(i := 1)) g = 1"
      have e: "(i, n) \<in> depends needs" using n by (simp add: depends_def)
      show "(g, n) \<in> (depends needs)\<^sup>+"
      proof (cases "g = i")
        case True
        with e show ?thesis by blast
      next
        case False
        with g "2.prems"(2) have "(g, i) \<in> (depends needs)\<^sup>+" by simp
        with e show ?thesis by (simp add: trancl_into_trancl)
      qed
    qed
    from "2.IH" [OF c v this] show ?thesis .
  qed
next
  case (4 needs k st n ns)
  show ?case
  proof (cases "visit needs k st n")
    case (Visited s)
    with "4.prems"(1) have v: "visit_all needs k s ns = CycleAt c" by simp
    have "\<forall>m\<in>set ns. \<forall>g. s g = 1 \<longrightarrow> (g, m) \<in> (depends needs)\<^sup>+"
      using "4.prems"(2) visit_colours(1) [OF Visited] by simp
    from "4.IH"(2) [OF Visited v this] show ?thesis .
  next
    case (CycleAt d)
    with "4.prems" "4.IH"(1) show ?thesis by simp
  next
    case OutOfFuel
    with "4.prems" show ?thesis by simp
  qed
qed auto

lemma visit_enough:
  assumes fin: "finite T" and out: "\<And>x. x \<notin> T \<Longrightarrow> needs x = []"
  shows "card (whites T st) < k \<Longrightarrow> visit needs k st i \<noteq> OutOfFuel"
    and "card (whites T st) < k \<Longrightarrow> visit_all needs k st ns \<noteq> OutOfFuel"
  using out
proof (induction needs k st i and needs k st ns rule: visit_visit_all.induct)
  case (2 needs k st i)
  show ?case
  proof (cases "st i = 1 \<or> st i = 2")
    case False
    then have c: "st i \<noteq> 1" "st i \<noteq> 2" by auto
    show ?thesis
    proof (cases "i \<in> T")
      case True
      have "whites T (st(i := 1)) = whites T st - {i}" by (auto simp: whites_def)
      moreover have "i \<in> whites T st" using True c by (simp add: whites_def)
      moreover have "finite (whites T st)" using fin by (simp add: whites_def)
      ultimately have "card (whites T (st(i := 1))) < k"
        using "2.prems"(1) by (metis Suc_less_eq card_Suc_Diff1)
      then have "visit_all needs k (st(i := 1)) (needs i) \<noteq> OutOfFuel"
        by (rule "2.IH" [OF c _ "2.prems"(2)])
      then show ?thesis using c by (cases "visit_all needs k (st(i := 1)) (needs i)") auto
    next
      case False
      then show ?thesis using "2.prems"(2) c by simp
    qed
  qed auto
next
  case (4 needs k st n ns)
  show ?case
  proof (cases "visit needs k st n")
    case (Visited s)
    have "whites T s \<subseteq> whites T st" using visit_colours(1) [OF Visited] by (auto simp: whites_def)
    then have "card (whites T s) \<le> card (whites T st)"
      using fin by (intro card_mono) (auto simp: whites_def)
    with "4.IH"(2) [OF Visited] "4.prems" Visited show ?thesis by simp
  next
    case OutOfFuel
    with "4.IH"(1) "4.prems" show ?thesis by simp
  qed auto
qed auto

section \<open>What it decides\<close>

definition dependencies :: "tasks \<Rightarrow> (string \<times> string) set" where
  "dependencies tasks = depends (needs_of tasks)"

lemma needs_of_outside: "x \<notin> fst ` set tasks \<Longrightarrow> needs_of tasks x = []"
  by (simp add: needs_of_def map_of_eq_None_iff [THEN iffD2])

lemma visit_all_fuel:
  "visit_all (needs_of tasks) (Suc (length tasks)) (\<lambda>_. 0) order \<noteq> OutOfFuel"
proof (rule visit_enough(2) [where T = "fst ` set tasks"])
  have "card (whites (fst ` set tasks) (\<lambda>_. 0)) \<le> card (fst ` set tasks)"
    by (rule card_mono) (auto simp: whites_def)
  also have "\<dots> \<le> length tasks"
    by (metis card_length length_map list.set_map)
  finally show "card (whites (fst ` set tasks) (\<lambda>_. 0)) < Suc (length tasks)" by simp
qed (auto intro: needs_of_outside)

lemma acc_no_cycle: "x \<in> Wellfounded.acc r \<Longrightarrow> (x, x) \<notin> r\<^sup>+"
proof (induction x rule: acc.induct)
  case (accI x)
  show ?case
  proof
    assume c: "(x, x) \<in> r\<^sup>+"
    then obtain y where y: "(x, y) \<in> r\<^sup>*" "(y, x) \<in> r" by (metis tranclD2)
    then have "(y, y) \<in> r\<^sup>+" by (metis rtrancl_into_trancl2)
    with accI.IH y(2) show False by blast
  qed
qed

lemma validateAcyclic_None:
  assumes cover: "fst ` set tasks \<subseteq> set order"
  shows "validateAcyclic tasks order = None \<longleftrightarrow> acyclic (dependencies tasks)"
proof -
  let ?n = "needs_of tasks"
  consider st where "visit_all ?n (Suc (length tasks)) (\<lambda>_. 0) order = Visited st"
    | c where "visit_all ?n (Suc (length tasks)) (\<lambda>_. 0) order = CycleAt c"
    using visit_all_fuel [of tasks order]
    by (cases "visit_all ?n (Suc (length tasks)) (\<lambda>_. 0) order") auto
  then show ?thesis
  proof cases
    case 1
    have "acyclic (dependencies tasks)"
      unfolding acyclic_def dependencies_def
    proof (intro allI notI)
      fix x assume c: "(x, x) \<in> (depends ?n)\<^sup>+"
      then obtain n where "(x, n) \<in> depends ?n" by (metis tranclD)
      then have "?n x \<noteq> []" by (auto simp: depends_def)
      then have "x \<in> set order" using cover needs_of_outside by blast
      then have "st x = 2" using visit_colours(2) [OF 1] by blast
      moreover have "settled ?n st" by (rule visit_settled(2) [OF 1]) (simp add: settled_def)
      ultimately have "x \<in> Wellfounded.acc ((depends ?n)\<inverse>)" unfolding settled_def by blast
      moreover have "(x, x) \<in> ((depends ?n)\<inverse>)\<^sup>+" using c by (simp add: trancl_converse)
      ultimately show False by (metis acc_no_cycle)
    qed
    with 1 show ?thesis by (simp add: validateAcyclic_def)
  next
    case 2
    have "(c, c) \<in> (depends ?n)\<^sup>+" by (rule visit_cycle(2) [OF 2]) simp
    then have "\<not> acyclic (dependencies tasks)" by (auto simp: acyclic_def dependencies_def)
    with 2 show ?thesis by (simp add: validateAcyclic_def)
  qed
qed

lemma validateAcyclic_error:
  assumes "validateAcyclic tasks order = Some e"
  shows "\<exists>c. e = Bad ''tasks'' (Cycle c) \<and> (c, c) \<in> (dependencies tasks)\<^sup>+"
proof -
  obtain c where c: "visit_all (needs_of tasks) (Suc (length tasks)) (\<lambda>_. 0) order = CycleAt c"
      "e = Bad ''tasks'' (Cycle c)"
    using assms visit_all_fuel [of tasks order] by (auto simp: validateAcyclic_def split: visited.splits)
  then show ?thesis using visit_cycle(2) [OF c(1)] by (auto simp: dependencies_def)
qed

end
