(* ===== verification/Dhnt_Pipeline.thy ===== *)
theory Dhnt_Pipeline
  imports Dhnt_Graph "HOL-Library.AList"
begin

text \<open>
  \<open>Pipeline.Validate\<close> and \<open>validateReduceCoverage\<close> of \<open>dhnt/contract.go\<close>. Go ranges over maps at
  four places; the argument \<open>rng\<close> gives the order at each site (0: the cycle search, 1: platform
  coverage, 2: the chunks, 3: the reducer groups) and may be any function that permutes the keys.
\<close>

definition enumerates :: "(nat \<Rightarrow> string list \<Rightarrow> string list) \<Rightarrow> bool" where
  "enumerates rng \<longleftrightarrow> (\<forall>site ks. mset (rng site ks) = mset ks)"

lemma enumerates_set: "enumerates rng \<Longrightarrow> set (rng s ks) = set ks"
  unfolding enumerates_def by (metis mset_eq_setD)

lemma enumerates_distinct: "enumerates rng \<Longrightarrow> distinct (rng s ks) \<longleftrightarrow> distinct ks"
  unfolding enumerates_def by (metis mset_eq_imp_distinct_iff)

section \<open>Reducer coverage\<close>

record group =
  g_count :: int
  g_manifest :: string
  g_indexes :: "(int \<times> string) list"

type_synonym groups = "(string \<times> group) list"

text \<open>\<open>m[k]\<close> on a string-valued map: the zero value when the key is absent.\<close>

definition lookup0 :: "('k \<times> string) list \<Rightarrow> 'k \<Rightarrow> string" where
  "lookup0 m k = (case map_of m k of None \<Rightarrow> [] | Some v \<Rightarrow> v)"

definition reducer_of :: "tasks \<Rightarrow> string \<Rightarrow> string" where
  "reducer_of tasks i = (case map_of tasks i of None \<Rightarrow> [] | Some t \<Rightarrow> t_reducer t)"

text \<open>\<open>groups[task.Reducer]\<close>, or a new group pinned to this chunk.\<close>

definition group_for :: "groups \<Rightarrow> string \<Rightarrow> chunk \<Rightarrow> group" where
  "group_for gs r c = (case map_of gs r of
      None \<Rightarrow> \<lparr>g_count = c_count c, g_manifest = c_manifest c, g_indexes = []\<rparr>
    | Some g \<Rightarrow> g)"

definition reduce_step :: "tasks \<Rightarrow> nat \<Rightarrow> groups \<Rightarrow> string \<times> chunk \<Rightarrow> verr + groups" where
  "reduce_step tasks k gs x = (case x of (i, c) \<Rightarrow>
     let r = reducer_of tasks i in
     if r = [] then Inr gs
     else case map_of tasks r of
       None \<Rightarrow> Inl (Within i (Bad ''reducer'' (Unknown r)))
     | Some reducer \<Rightarrow>
         if i \<notin> set (t_needs reducer) then Inl (Within r (Bad ''needs'' (Unknown i)))
         else
           let g = group_for gs r c
           in if g_count g \<noteq> c_count c \<or> g_manifest g \<noteq> c_manifest c
              then Inl (Within r (Bad ''manifest'' (Mismatch i)))
              else if lookup0 (g_indexes g) (c_index c) \<noteq> []
              then Inl (Within r (Bad ''chunk'' (Alias (lookup0 (g_indexes g) (c_index c)) i)))
              else Inr (AList.update r (g\<lparr>g_indexes := AList.update (c_index c) i (g_indexes g)\<rparr>) gs))"

text \<open>The loop over \<open>1..g.count\<close> for one group.\<close>

definition group_gap :: "groups \<Rightarrow> string \<Rightarrow> verr option" where
  "group_gap gs r = (let g = the (map_of gs r) in
     each_from (\<lambda>_ n. refuse (lookup0 (g_indexes g) n = [])
                  (Within r (Bad ''chunk'' (Missing (nat n) (nat (g_count g)))))) 0 [1..g_count g])"

definition validateReduceCoverage ::
    "(nat \<Rightarrow> string list \<Rightarrow> string list) \<Rightarrow> tasks \<Rightarrow> (string \<times> chunk) list \<Rightarrow> verr option" where
  "validateReduceCoverage rng tasks chunks =
     (case scan (reduce_step tasks) 0 [] (map (\<lambda>i. (i, the (map_of chunks i))) (rng 2 (map fst chunks))) of
        Inl e \<Rightarrow> Some e
      | Inr gs \<Rightarrow> each_from (\<lambda>_. group_gap gs) 0 (rng 3 (map fst gs)))"

text \<open>The conditions on the chunks, and what the groups record of the ones already seen.\<close>

definition shard_ok :: "tasks \<Rightarrow> string \<times> chunk \<Rightarrow> bool" where
  "shard_ok tasks x \<longleftrightarrow> reducer_of tasks (fst x) = [] \<or>
     (\<exists>t. map_of tasks (reducer_of tasks (fst x)) = Some t \<and> fst x \<in> set (t_needs t))"

definition compatible :: "tasks \<Rightarrow> string \<times> chunk \<Rightarrow> string \<times> chunk \<Rightarrow> bool" where
  "compatible tasks x y \<longleftrightarrow>
     (reducer_of tasks (fst x) = reducer_of tasks (fst y) \<and> reducer_of tasks (fst x) \<noteq> [] \<longrightarrow>
      c_count (snd x) = c_count (snd y) \<and> c_manifest (snd x) = c_manifest (snd y) \<and>
      (c_index (snd x) = c_index (snd y) \<longrightarrow> fst x = fst y))"

definition members :: "tasks \<Rightarrow> (string \<times> chunk) set \<Rightarrow> string \<Rightarrow> (string \<times> chunk) set" where
  "members tasks X r = {x \<in> X. reducer_of tasks (fst x) = r \<and> r \<noteq> []}"

definition represents :: "tasks \<Rightarrow> (string \<times> chunk) set \<Rightarrow> groups \<Rightarrow> bool" where
  "represents tasks X gs \<longleftrightarrow> (\<forall>r.
     (map_of gs r = None \<longleftrightarrow> members tasks X r = {}) \<and>
     (\<forall>g. map_of gs r = Some g \<longrightarrow>
        (\<forall>x\<in>members tasks X r. c_count (snd x) = g_count g \<and> c_manifest (snd x) = g_manifest g) \<and>
        (\<forall>n v. map_of (g_indexes g) n = Some v \<longleftrightarrow> (\<exists>c. (v, c) \<in> members tasks X r \<and> c_index c = n))))"

lemma represents_empty: "represents tasks {} []"
  by (simp add: represents_def members_def)

lemma members_insert:
  "members tasks (insert x X) r =
     (if reducer_of tasks (fst x) = r \<and> r \<noteq> [] then insert x (members tasks X r) else members tasks X r)"
  by (auto simp: members_def)

lemma represents_None: "represents tasks X gs \<Longrightarrow> map_of gs r = None \<longleftrightarrow> members tasks X r = {}"
  by (simp only: represents_def)

lemma represents_lookup:
  assumes rep: "represents tasks X gs" and g: "map_of gs r = Some g" and ne: "\<forall>x\<in>X. fst x \<noteq> []"
  shows "lookup0 (g_indexes g) n \<noteq> [] \<longleftrightarrow> (\<exists>x\<in>members tasks X r. c_index (snd x) = n)"
proof -
  have idx: "map_of (g_indexes g) n = Some v \<longleftrightarrow> (\<exists>c. (v, c) \<in> members tasks X r \<and> c_index c = n)" for v
    using rep g by (simp add: represents_def)
  have nem: "(v, c) \<in> members tasks X r \<Longrightarrow> v \<noteq> []" for v c
    using ne by (auto simp: members_def)
  show ?thesis
  proof (cases "map_of (g_indexes g) n")
    case None
    with idx show ?thesis by (force simp: lookup0_def)
  next
    case (Some v)
    with idx obtain c where "(v, c) \<in> members tasks X r" "c_index c = n" by blast
    with Some nem show ?thesis by (force simp: lookup0_def)
  qed
qed

lemma reduce_step_iff:
  assumes rep: "represents tasks X gs" and ne: "\<forall>y\<in>X. fst y \<noteq> []" and new: "fst x \<notin> fst ` X"
  shows "(\<exists>gs'. reduce_step tasks k gs x = Inr gs') \<longleftrightarrow> shard_ok tasks x \<and> (\<forall>y\<in>X. compatible tasks y x)"
    and "reduce_step tasks k gs x = Inr gs' \<Longrightarrow> represents tasks (insert x X) gs'"
proof -
  obtain i c where x: "x = (i, c)" by (cases x)
  define r where "r = reducer_of tasks i"
  define g where "g = group_for gs r c"
  have mem: "members tasks X r = {} \<longleftrightarrow> map_of gs r = None" using rep by (simp add: represents_def)
  have count: "\<forall>y\<in>members tasks X r. c_count (snd y) = g_count g \<and> c_manifest (snd y) = g_manifest g"
    using rep mem by (auto simp: represents_def g_def group_for_def split: option.splits)
  have look: "lookup0 (g_indexes g) n \<noteq> [] \<longleftrightarrow> (\<exists>y\<in>members tasks X r. c_index (snd y) = n)" for n
    using represents_lookup [OF rep _ ne, of r] mem
    by (cases "map_of gs r") (auto simp: g_def group_for_def lookup0_def)
  have compat: "(\<forall>y\<in>X. compatible tasks y x) \<longleftrightarrow> r = [] \<or>
     (\<forall>y\<in>members tasks X r. c_count (snd y) = c_count c \<and> c_manifest (snd y) = c_manifest c \<and> c_index (snd y) \<noteq> c_index c)"
    using new by (auto simp: compatible_def members_def x r_def image_iff)
  have gnew: "members tasks X r = {} \<Longrightarrow> g_count g = c_count c \<and> g_manifest g = c_manifest c"
    using mem by (simp add: g_def group_for_def)
  show "(\<exists>gs'. reduce_step tasks k gs x = Inr gs') \<longleftrightarrow> shard_ok tasks x \<and> (\<forall>y\<in>X. compatible tasks y x)"
    unfolding compat using count look [of "c_index c"] gnew
    by (cases "members tasks X r = {}") (auto simp: reduce_step_def x Let_def shard_ok_def r_def [symmetric] g_def [symmetric] split: option.splits)
  assume step: "reduce_step tasks k gs x = Inr gs'"
  show "represents tasks (insert x X) gs'"
  proof (cases "r = []")
    case True
    then have "gs' = gs" using step by (simp add: reduce_step_def x r_def [symmetric])
    moreover have "members tasks (insert x X) q = members tasks X q" for q
      using True by (auto simp: members_def x r_def)
    ultimately show ?thesis using rep by (simp add: represents_def)
  next
    case False
    then have gs': "gs' = AList.update r (g\<lparr>g_indexes := AList.update (c_index c) i (g_indexes g)\<rparr>) gs"
        and eq: "g_count g = c_count c" "g_manifest g = c_manifest c"
        and fresh: "lookup0 (g_indexes g) (c_index c) = []"
      using step by (auto simp: reduce_step_def x Let_def r_def [symmetric] g_def [symmetric] split: option.splits if_splits)
    have idx: "map_of (g_indexes g) n = Some v \<longleftrightarrow> (\<exists>c. (v, c) \<in> members tasks X r \<and> c_index c = n)" for n v
    proof (cases "map_of gs r")
      case None
      then show ?thesis using mem by (simp add: g_def group_for_def)
    next
      case (Some h)
      then show ?thesis using rep by (simp add: represents_def g_def group_for_def)
    qed
    have mx: "members tasks (insert x X) q = (if q = r then insert (i, c) (members tasks X r) else members tasks X q)" for q
      using False by (auto simp: members_insert x r_def)
    show ?thesis
      unfolding represents_def
    proof (intro allI)
      fix q
      show "(map_of gs' q = None \<longleftrightarrow> members tasks (insert x X) q = {}) \<and>
        (\<forall>h. map_of gs' q = Some h \<longrightarrow>
          (\<forall>y\<in>members tasks (insert x X) q. c_count (snd y) = g_count h \<and> c_manifest (snd y) = g_manifest h) \<and>
          (\<forall>n v. map_of (g_indexes h) n = Some v \<longleftrightarrow> (\<exists>c. (v, c) \<in> members tasks (insert x X) q \<and> c_index c = n)))"
      proof (cases "q = r")
        case True
        have "\<not> (\<exists>y\<in>members tasks X r. c_index (snd y) = c_index c)" using look fresh by auto
        then have "(v, d) \<in> members tasks X r \<Longrightarrow> c_index d \<noteq> c_index c" for v d by force
        then show ?thesis using True count eq idx
          by (auto simp: gs' update_conv mx)
      next
        case False
        then show ?thesis using rep by (simp add: gs' update_conv mx represents_def)
      qed
    qed
  qed
qed

lemma reduce_scan_iff:
  assumes "represents tasks X gs" and "\<forall>y\<in>X \<union> set xs. fst y \<noteq> []" and "distinct (map fst xs)"
    and "fst ` X \<inter> fst ` set xs = {}"
  shows "(\<exists>gs'. scan (reduce_step tasks) n gs xs = Inr gs') \<longleftrightarrow>
      (\<forall>x\<in>set xs. shard_ok tasks x) \<and> (\<forall>x\<in>set xs. \<forall>y\<in>X. compatible tasks y x) \<and>
      (\<forall>x\<in>set xs. \<forall>y\<in>set xs. compatible tasks x y)"
    and "scan (reduce_step tasks) n gs xs = Inr gs' \<Longrightarrow> represents tasks (X \<union> set xs) gs'"
proof -
  have "((\<exists>gs'. scan (reduce_step tasks) n gs xs = Inr gs') \<longleftrightarrow>
      (\<forall>x\<in>set xs. shard_ok tasks x) \<and> (\<forall>x\<in>set xs. \<forall>y\<in>X. compatible tasks y x) \<and>
      (\<forall>x\<in>set xs. \<forall>y\<in>set xs. compatible tasks x y)) \<and>
     (\<forall>gs'. scan (reduce_step tasks) n gs xs = Inr gs' \<longrightarrow> represents tasks (X \<union> set xs) gs')"
    using assms
  proof (induction xs arbitrary: X gs n)
    case (Cons x xs)
    have step: "(\<exists>gs'. reduce_step tasks n gs x = Inr gs') \<longleftrightarrow> shard_ok tasks x \<and> (\<forall>y\<in>X. compatible tasks y x)"
      and rep: "\<And>gs'. reduce_step tasks n gs x = Inr gs' \<Longrightarrow> represents tasks (insert x X) gs'"
      using Cons.prems by (intro reduce_step_iff; auto)+
    have sym: "compatible tasks y z \<longleftrightarrow> compatible tasks z y" for y z
      by (auto simp: compatible_def)
    have self: "compatible tasks x x" by (simp add: compatible_def)
    show ?case
    proof (cases "reduce_step tasks n gs x")
      case (Inl e)
      then show ?thesis using step by auto
    next
      case (Inr gs1)
      have IH: "((\<exists>gs'. scan (reduce_step tasks) (Suc n) gs1 xs = Inr gs') \<longleftrightarrow>
          (\<forall>x\<in>set xs. shard_ok tasks x) \<and> (\<forall>z\<in>set xs. \<forall>y\<in>insert x X. compatible tasks y z) \<and>
          (\<forall>x\<in>set xs. \<forall>y\<in>set xs. compatible tasks x y)) \<and>
         (\<forall>gs'. scan (reduce_step tasks) (Suc n) gs1 xs = Inr gs' \<longrightarrow> represents tasks (insert x X \<union> set xs) gs')"
        by (rule Cons.IH [OF rep [OF Inr]]) (use Cons.prems in auto)
      then show ?thesis using Inr step self sym by simp blast
    qed
  qed simp
  then show "(\<exists>gs'. scan (reduce_step tasks) n gs xs = Inr gs') \<longleftrightarrow>
      (\<forall>x\<in>set xs. shard_ok tasks x) \<and> (\<forall>x\<in>set xs. \<forall>y\<in>X. compatible tasks y x) \<and>
      (\<forall>x\<in>set xs. \<forall>y\<in>set xs. compatible tasks x y)"
    and "scan (reduce_step tasks) n gs xs = Inr gs' \<Longrightarrow> represents tasks (X \<union> set xs) gs'"
    by blast+
qed

definition reduce_ok :: "tasks \<Rightarrow> (string \<times> chunk) set \<Rightarrow> bool" where
  "reduce_ok tasks X \<longleftrightarrow> (\<forall>x\<in>X. shard_ok tasks x) \<and> (\<forall>x\<in>X. \<forall>y\<in>X. compatible tasks x y) \<and>
     (\<forall>x\<in>X. reducer_of tasks (fst x) \<noteq> [] \<longrightarrow>
        {1..c_count (snd x)} \<subseteq> (\<lambda>y. c_index (snd y)) ` members tasks X (reducer_of tasks (fst x)))"

lemma validateReduceCoverage_None:
  assumes rng: "enumerates rng" and d: "distinct (map fst chunks)" and ne: "\<forall>x\<in>set chunks. fst x \<noteq> []"
  shows "validateReduceCoverage rng tasks chunks = None \<longleftrightarrow> reduce_ok tasks (set chunks)"
proof -
  define ys where "ys = map (\<lambda>i. (i, the (map_of chunks i))) (rng 2 (map fst chunks))"
  have keys: "set (rng 2 (map fst chunks)) = fst ` set chunks" by (simp add: enumerates_set [OF rng])
  have xs: "set ys = set chunks"
  proof -
    have "(i, the (map_of chunks i)) \<in> set chunks" if "i \<in> fst ` set chunks" for i
      using that d by force
    moreover have "(i, v) = (i, the (map_of chunks i))" if "(i, v) \<in> set chunks" for i v
      using that d by simp
    ultimately show ?thesis unfolding ys_def set_map keys by (auto simp: image_iff) (metis fst_conv)
  qed
  have dx: "distinct (map fst ys)" by (simp add: ys_def comp_def enumerates_distinct [OF rng] d)
  note S = reduce_scan_iff [OF represents_empty, of ys tasks]
  have unf: "validateReduceCoverage rng tasks chunks =
     (case scan (reduce_step tasks) 0 [] ys of
        Inl e \<Rightarrow> Some e
      | Inr gs \<Rightarrow> each_from (\<lambda>_. group_gap gs) 0 (rng 3 (map fst gs)))"
    by (simp add: validateReduceCoverage_def ys_def)
  have S1: "(\<exists>gs'. scan (reduce_step tasks) 0 [] ys = Inr gs') \<longleftrightarrow>
      (\<forall>x\<in>set chunks. shard_ok tasks x) \<and> (\<forall>x\<in>set chunks. \<forall>y\<in>set chunks. compatible tasks x y)"
    using S(1) [of 0] ne dx xs by simp
  show ?thesis
  proof (cases "scan (reduce_step tasks) 0 [] ys")
    case (Inl e)
    then show ?thesis using S1 by (auto simp: unf reduce_ok_def)
  next
    case (Inr gs)
    have rep: "represents tasks (set chunks) gs" using S(2) [of 0 gs] ne dx xs Inr by simp
    have grp: "r \<in> set (rng 3 (map fst gs)) \<longleftrightarrow> members tasks (set chunks) r \<noteq> {}" for r
    proof -
      have "r \<notin> fst ` set gs \<longleftrightarrow> map_of gs r = None" by (simp add: map_of_eq_None_iff)
      then have "r \<notin> fst ` set gs \<longleftrightarrow> members tasks (set chunks) r = {}"
        by (simp only: represents_None [OF rep])
      then have "r \<in> fst ` set gs \<longleftrightarrow> members tasks (set chunks) r \<noteq> {}" by blast
      then show ?thesis by (simp add: enumerates_set [OF rng])
    qed
    have one: "group_gap gs r = None \<longleftrightarrow> (\<forall>x\<in>members tasks (set chunks) r.
        {1..c_count (snd x)} \<subseteq> (\<lambda>y. c_index (snd y)) ` members tasks (set chunks) r)"
      if m: "members tasks (set chunks) r \<noteq> {}" for r
    proof -
      obtain g where g: "map_of gs r = Some g" using rep m by (fastforce simp: represents_def)
      have "\<forall>x\<in>members tasks (set chunks) r. c_count (snd x) = g_count g" using rep g by (simp add: represents_def)
      moreover have "lookup0 (g_indexes g) n \<noteq> [] \<longleftrightarrow> n \<in> (\<lambda>y. c_index (snd y)) ` members tasks (set chunks) r" for n
        using represents_lookup [OF rep g ne] by auto
      ultimately show ?thesis using g m
        by (auto simp: group_gap_def each_from_accept [OF refuse_None] subset_iff)
    qed
    have "validateReduceCoverage rng tasks chunks = None \<longleftrightarrow>
        (\<forall>r\<in>set (rng 3 (map fst gs)). \<forall>x\<in>members tasks (set chunks) r.
           {1..c_count (snd x)} \<subseteq> (\<lambda>y. c_index (snd y)) ` members tasks (set chunks) r)"
    proof -
      have "validateReduceCoverage rng tasks chunks = None \<longleftrightarrow>
          (\<forall>r\<in>set (rng 3 (map fst gs)). group_gap gs r = None)"
        unfolding unf Inr sum.case each_from_const ..
      also have "\<dots> \<longleftrightarrow> (\<forall>r\<in>set (rng 3 (map fst gs)). \<forall>x\<in>members tasks (set chunks) r.
           {1..c_count (snd x)} \<subseteq> (\<lambda>y. c_index (snd y)) ` members tasks (set chunks) r)"
        by (rule ball_cong [OF refl one], drule grp [THEN iffD1])
      finally show ?thesis .
    qed
    also have "\<dots> \<longleftrightarrow> (\<forall>x\<in>set chunks. reducer_of tasks (fst x) \<noteq> [] \<longrightarrow>
        {1..c_count (snd x)} \<subseteq> (\<lambda>y. c_index (snd y)) ` members tasks (set chunks) (reducer_of tasks (fst x)))"
    proof (intro iffI ballI impI)
      fix x assume all: "\<forall>r\<in>set (rng 3 (map fst gs)). \<forall>x\<in>members tasks (set chunks) r.
           {1..c_count (snd x)} \<subseteq> (\<lambda>y. c_index (snd y)) ` members tasks (set chunks) r"
        and x: "x \<in> set chunks" "reducer_of tasks (fst x) \<noteq> []"
      then have m: "x \<in> members tasks (set chunks) (reducer_of tasks (fst x))" by (simp add: members_def)
      then have "reducer_of tasks (fst x) \<in> set (rng 3 (map fst gs))" by (intro grp [THEN iffD2]) blast
      with all m show "{1..c_count (snd x)} \<subseteq> (\<lambda>y. c_index (snd y)) ` members tasks (set chunks) (reducer_of tasks (fst x))"
        by blast
    next
      fix r x assume "\<forall>x\<in>set chunks. reducer_of tasks (fst x) \<noteq> [] \<longrightarrow>
        {1..c_count (snd x)} \<subseteq> (\<lambda>y. c_index (snd y)) ` members tasks (set chunks) (reducer_of tasks (fst x))"
        and "x \<in> members tasks (set chunks) r"
      moreover from this(2) have "x \<in> set chunks" "reducer_of tasks (fst x) = r" "r \<noteq> []" by (auto simp: members_def)
      ultimately show "{1..c_count (snd x)} \<subseteq> (\<lambda>y. c_index (snd y)) ` members tasks (set chunks) r" by blast
    qed
    finally show ?thesis using S1 Inr by (auto simp: reduce_ok_def)
  qed
qed

end
