(* ===== verification/Dhnt_Validate.thy ===== *)
theory Dhnt_Validate
  imports Dhnt_Pipeline
begin

text \<open>
  \<open>Pipeline.Validate\<close> (\<open>dhnt/contract.go\<close>) as the code runs it: the task loop that builds the
  task map, the dependency loops, the cycle search, the matrix loop with its three maps, platform
  coverage and, for v2, reducer coverage. \<open>pipeline_ok\<close> states the same contract over sets, with
  no order and no intermediate state; \<open>validatePipeline_None\<close> shows the loops decide it.
\<close>

section \<open>The validator\<close>

definition schema_task_check :: "string \<Rightarrow> task \<Rightarrow> verr option" where
  "schema_task_check schema t =
     (if schema = PipelineSchemaV2
      then first_error [validateNonSecretEnvironment (t_environment t), validatePlacementRequirement t]
      else refuse (t_placement t \<noteq> None \<or> t_reducer t \<noteq> []) (Bad ''placement'' NotAbsent))"

definition task_step :: "string \<Rightarrow> nat \<Rightarrow> tasks \<Rightarrow> task \<Rightarrow> verr + tasks" where
  "task_step schema i tasks t =
     (case first_error [validateTask t, schema_task_check schema t] of
        Some e \<Rightarrow> Inl (At ''tasks'' i e)
      | None \<Rightarrow> if map_of tasks (t_id t) \<noteq> None then Inl (At ''tasks'' i (Bad [] (Duplicate (t_id t))))
                else Inr (tasks @ [(t_id t, t)]))"

definition needs_check :: "tasks \<Rightarrow> task \<Rightarrow> verr option" where
  "needs_check tasks t = each_from (\<lambda>_ need. first_error [
     refuse (map_of tasks need = None) (Within (t_id t) (Bad ''needs'' (Unknown need))),
     refuse (need = t_id t) (Within (t_id t) (Bad ''needs'' (SelfDependency need)))]) 0 (t_needs t)"

definition matrixKey :: "string \<Rightarrow> platform \<Rightarrow> string" where
  "matrixKey task p = task @ [nul] @ p_backend p @ [nul] @ p_os p @ [nul] @ p_arch p"

definition entry_key :: "matrix_entry \<Rightarrow> string" where
  "entry_key e = matrixKey (m_task e) (m_platform e)"

text \<open>The distribution switch of the matrix loop.\<close>

definition chunk_check :: "task \<Rightarrow> matrix_entry \<Rightarrow> (string \<times> chunk) list \<Rightarrow> verr option" where
  "chunk_check t e chunks =
     (if t_distribution t = ''shardable'' then
        (case m_chunk e of
           None \<Rightarrow> Some (Bad ''chunk'' NotPresent)
         | Some c \<Rightarrow> first_error [
             map_option (Within ''chunk'') (validateChunk c),
             refuse (case map_of chunks (m_task e) of None \<Rightarrow> False | Some prior \<Rightarrow> prior \<noteq> c)
                    (Bad ''chunk'' (Mismatch (m_task e)))])
      else refuse (m_chunk e \<noteq> None) (Bad ''chunk'' NotAbsent))"

record matrix_state =
  ms_covered :: "string list"
  ms_chunks :: "(string \<times> chunk) list"
  ms_keys :: "string list"

definition entry_check :: "string \<Rightarrow> tasks \<Rightarrow> matrix_state \<Rightarrow> matrix_entry \<Rightarrow> verr option" where
  "entry_check schema tasks st e =
     (case map_of tasks (m_task e) of
        None \<Rightarrow> Some (Bad ''task'' (Unknown (m_task e)))
      | Some t \<Rightarrow> first_error [
          validatePlatform (m_platform e),
          refuse (t_lane t = ''native'' \<and> p_backend (m_platform e) \<noteq> ''vk-native'')
                 (Bad ''platform.backend'' (Mismatch (m_task e))),
          chunk_check t e (ms_chunks st),
          validateArtifacts ''inputs'' (m_inputs e) True schema,
          validateArtifacts ''outputs'' (m_outputs e) True schema,
          refuse (entry_key e \<in> set (ms_keys st)) (Bad [] (Duplicate (entry_key e)))])"

definition entry_step :: "string \<Rightarrow> tasks \<Rightarrow> nat \<Rightarrow> matrix_state \<Rightarrow> matrix_entry \<Rightarrow> verr + matrix_state" where
  "entry_step schema tasks i st e =
     (case entry_check schema tasks st e of
        Some err \<Rightarrow> Inl (At ''matrix'' i err)
      | None \<Rightarrow> Inr \<lparr>ms_covered = m_task e # ms_covered st,
          ms_chunks = (case m_chunk e of None \<Rightarrow> ms_chunks st
                       | Some c \<Rightarrow> AList.update (m_task e) c (ms_chunks st)),
          ms_keys = entry_key e # ms_keys st\<rparr>)"

definition matrix_init :: matrix_state where
  "matrix_init = \<lparr>ms_covered = [], ms_chunks = [], ms_keys = []\<rparr>"

definition validatePipeline :: "(nat \<Rightarrow> string list \<Rightarrow> string list) \<Rightarrow> pipeline \<Rightarrow> verr option" where
  "validatePipeline rng p =
     (case first_error [
        refuse (pi_schema p \<notin> set [PipelineSchema, PipelineSchemaV2]) (Bad ''schema'' (Unknown (pi_schema p))),
        validateID ''pipeline'' (pi_name p),
        validateSource (pi_source p),
        refuse (pi_tasks p = []) (Bad ''tasks'' MustNotBeEmpty)] of
      Some e \<Rightarrow> Some e
    | None \<Rightarrow> (case scan (task_step (pi_schema p)) 0 [] (pi_tasks p) of
        Inl e \<Rightarrow> Some e
      | Inr tasks \<Rightarrow> (case first_error [
            each_from (\<lambda>_. needs_check tasks) 0 (pi_tasks p),
            validateAcyclic tasks (rng 0 (map fst tasks)),
            refuse (pi_matrix p = []) (Bad ''matrix'' MustNotBeEmpty)] of
          Some e \<Rightarrow> Some e
        | None \<Rightarrow> (case scan (entry_step (pi_schema p) tasks) 0 matrix_init (pi_matrix p) of
            Inl e \<Rightarrow> Some e
          | Inr st \<Rightarrow> first_error [
              each_from (\<lambda>_ i. refuse (i \<notin> set (ms_covered st)) (Bad ''matrix'' (NoPlatform i))) 0 (rng 1 (map fst tasks)),
              if pi_schema p = PipelineSchemaV2 then validateReduceCoverage rng tasks (ms_chunks st) else None]))))"

section \<open>The contract\<close>

definition task_map :: "pipeline \<Rightarrow> tasks" where
  "task_map p = map (\<lambda>t. (t_id t, t)) (pi_tasks p)"

definition placement_ok :: "task \<Rightarrow> bool" where
  "placement_ok t \<longleftrightarrow>
     (\<forall>p. t_placement t = Some p \<longrightarrow>
        0 \<le> pl_cpu p \<and> 0 \<le> pl_accelerator_count p \<and> 0 \<le> pl_cohort_size p \<and>
        (pl_accelerator_kind p = [] \<longrightarrow>
           pl_accelerator_family p = [] \<and> pl_accelerator_count p = 0 \<and> pl_accelerator_memory p = 0) \<and>
        (\<forall>(k, n)\<in>set (pl_minimum_capacity p). trim_space k \<noteq> [] \<and> n \<noteq> 0)) \<and>
     (t_distribution t = ''topology-coupled'' \<longrightarrow>
        (\<exists>p. t_placement t = Some p \<and> pl_topology_key p \<noteq> [] \<and> 1 \<le> pl_cohort_size p)) \<and>
     (t_distribution t = ''shardable'' \<and> t_placement t \<noteq> None \<longrightarrow> t_reducer t \<noteq> [])"

definition nonsecret_env :: "environment list \<Rightarrow> bool" where
  "nonsecret_env es \<longleftrightarrow> (\<forall>e\<in>set es. \<not> has_prefix (e_name e) ''DHNT_'' \<and> \<not> secretEnvironmentName (e_name e))"

definition schema_task_ok :: "string \<Rightarrow> task \<Rightarrow> bool" where
  "schema_task_ok schema t \<longleftrightarrow>
     (if schema = PipelineSchemaV2 then nonsecret_env (t_environment t) \<and> placement_ok t
      else t_placement t = None \<and> t_reducer t = [])"

definition entry_ok :: "string \<Rightarrow> tasks \<Rightarrow> matrix_entry \<Rightarrow> bool" where
  "entry_ok schema tasks e \<longleftrightarrow> (\<exists>t. map_of tasks (m_task e) = Some t \<and>
     platform_ok (m_platform e) \<and> (t_lane t = ''native'' \<longrightarrow> p_backend (m_platform e) = ''vk-native'') \<and>
     (if t_distribution t = ''shardable'' then \<exists>c. m_chunk e = Some c \<and> chunk_ok c else m_chunk e = None) \<and>
     artifacts_ok schema (m_inputs e) \<and> artifacts_ok schema (m_outputs e))"

definition same_chunk :: "matrix_entry \<Rightarrow> matrix_entry \<Rightarrow> bool" where
  "same_chunk d e \<longleftrightarrow> (m_task d = m_task e \<longrightarrow> m_chunk d = m_chunk e)"

definition shards :: "pipeline \<Rightarrow> (string \<times> chunk) set" where
  "shards p = {(m_task e, c) |e c. e \<in> set (pi_matrix p) \<and> m_chunk e = Some c}"

definition pipeline_ok :: "pipeline \<Rightarrow> bool" where
  "pipeline_ok p \<longleftrightarrow>
     pi_schema p \<in> {PipelineSchema, PipelineSchemaV2} \<and> identifierRE (pi_name p) \<and> source_ok (pi_source p) \<and>
     pi_tasks p \<noteq> [] \<and> (\<forall>t\<in>set (pi_tasks p). task_ok t \<and> schema_task_ok (pi_schema p) t) \<and>
     distinct (map t_id (pi_tasks p)) \<and>
     (\<forall>t\<in>set (pi_tasks p). \<forall>n\<in>set (t_needs t). n \<in> t_id ` set (pi_tasks p) \<and> n \<noteq> t_id t) \<and>
     acyclic (dependencies (task_map p)) \<and>
     pi_matrix p \<noteq> [] \<and> (\<forall>e\<in>set (pi_matrix p). entry_ok (pi_schema p) (task_map p) e) \<and>
     distinct (map (\<lambda>e. (m_task e, m_platform e)) (pi_matrix p)) \<and>
     (\<forall>e\<in>set (pi_matrix p). \<forall>d\<in>set (pi_matrix p). same_chunk d e) \<and>
     t_id ` set (pi_tasks p) \<subseteq> m_task ` set (pi_matrix p) \<and>
     (pi_schema p = PipelineSchemaV2 \<longrightarrow> reduce_ok (task_map p) (shards p))"

section \<open>The loops decide the contract\<close>

lemma validateNonSecretEnvironment_None [accept_simps]:
  "validateNonSecretEnvironment es = None \<longleftrightarrow> nonsecret_env es"
  unfolding validateNonSecretEnvironment_def nonsecret_env_def
  by (subst each_from_accept [where P = "\<lambda>e. \<not> has_prefix (e_name e) ''DHNT_'' \<and> \<not> secretEnvironmentName (e_name e)"])
     (auto simp: accept_simps)

lemma validatePlacementRequirement_None [accept_simps]:
  "validatePlacementRequirement t = None \<longleftrightarrow> placement_ok t"
proof -
  have cap: "each_from (\<lambda>_ (key, minimum). refuse (trim_space key = [] \<or> minimum = 0) (f key)) n xs = None
      \<longleftrightarrow> (\<forall>(k, n)\<in>set xs. trim_space k \<noteq> [] \<and> n \<noteq> 0)" for f and xs :: "(string \<times> nat) list" and n
    by (subst each_from_accept [where P = "\<lambda>(k, n). trim_space k \<noteq> [] \<and> n \<noteq> 0"]) (auto split: prod.splits)
  show ?thesis
    by (cases "t_placement t")
       (auto simp: validatePlacementRequirement_def placement_ok_def accept_simps cap)
qed

lemma schema_task_check_None [accept_simps]: "schema_task_check schema t = None \<longleftrightarrow> schema_task_ok schema t"
  by (simp add: schema_task_check_def schema_task_ok_def accept_simps)

lemma task_scan:
  "scan (task_step schema) n acc ts = Inr r \<longleftrightarrow>
     (\<forall>t\<in>set ts. task_ok t \<and> schema_task_ok schema t) \<and> distinct (map t_id ts) \<and>
     t_id ` set ts \<inter> fst ` set acc = {} \<and> r = acc @ map (\<lambda>t. (t_id t, t)) ts"
proof (induction ts arbitrary: n acc)
  case (Cons t ts)
  show ?case
  proof (cases "task_ok t \<and> schema_task_ok schema t \<and> t_id t \<notin> fst ` set acc")
    case True
    then have "task_step schema n acc t = Inr (acc @ [(t_id t, t)])"
      by (simp add: task_step_def accept_simps map_of_eq_None_iff option.case_eq_if)
    with True show ?thesis by (auto simp: Cons.IH)
  next
    case False
    then have "\<exists>e. task_step schema n acc t = Inl e"
      by (auto simp: task_step_def accept_simps map_of_eq_None_iff split: option.split)
    with False show ?thesis by auto
  qed
qed auto

lemma map_of_task_map:
  "distinct (map t_id ts) \<Longrightarrow> map_of (map (\<lambda>t. (t_id t, t)) ts) i = Some t \<longleftrightarrow> t \<in> set ts \<and> t_id t = i"
proof (induction ts)
  case (Cons a ts)
  then show ?case by (auto simp: image_iff)
qed simp

lemma needs_check_None [accept_simps]:
  "needs_check tasks t = None \<longleftrightarrow> (\<forall>n\<in>set (t_needs t). n \<in> fst ` set tasks \<and> n \<noteq> t_id t)"
  unfolding needs_check_def
  by (subst each_from_accept [where P = "\<lambda>n. n \<in> fst ` set tasks \<and> n \<noteq> t_id t"])
     (auto simp: accept_simps map_of_eq_None_iff)

subsection \<open>Matrix keys\<close>

lemma split_at_nul:
  "nul \<notin> set a \<Longrightarrow> nul \<notin> set b \<Longrightarrow> a @ nul # x = b @ nul # y \<longleftrightarrow> a = b \<and> x = y"
  by (induction a arbitrary: b) (case_tac b; auto)+

lemma identifier_no_nul: "identifierRE s \<Longrightarrow> nul \<notin> set s"
  by (auto simp: identifierRE_def nul_def alnum_def digit_def byte_def list_all_iff split: list.splits)

lemma platform_no_nul:
  "platform_ok p \<Longrightarrow> nul \<notin> set (p_backend p) \<and> nul \<notin> set (p_os p) \<and> nul \<notin> set (p_arch p)"
  by (auto simp: platform_ok_def nul_def)

lemma matrixKey_inject:
  assumes "nul \<notin> set a" "nul \<notin> set b" "platform_ok p" "platform_ok q"
  shows "matrixKey a p = matrixKey b q \<longleftrightarrow> a = b \<and> p = q"
  using assms platform_no_nul [of p] platform_no_nul [of q]
  by (cases p; cases q) (auto simp: matrixKey_def split_at_nul)

subsection \<open>The matrix loop\<close>

definition matrix_rep :: "matrix_entry set \<Rightarrow> matrix_state \<Rightarrow> bool" where
  "matrix_rep D st \<longleftrightarrow> set (ms_covered st) = m_task ` D \<and> set (ms_keys st) = entry_key ` D \<and>
     distinct (map fst (ms_chunks st)) \<and>
     (\<forall>i c. map_of (ms_chunks st) i = Some c \<longleftrightarrow> (\<exists>d\<in>D. m_task d = i \<and> m_chunk d = Some c))"

lemma entry_check_None:
  assumes rep: "matrix_rep D st" and D: "\<forall>d\<in>D. entry_ok schema tasks d"
  shows "entry_check schema tasks st e = None \<longleftrightarrow>
     entry_ok schema tasks e \<and> entry_key e \<notin> entry_key ` D \<and>
     (\<forall>d\<in>D. same_chunk d e)"
proof (cases "map_of tasks (m_task e)")
  case None
  then show ?thesis by (simp add: entry_check_def entry_ok_def)
next
  case (Some t)
  have same: "m_task d = m_task e \<Longrightarrow> (if t_distribution t = ''shardable'' then m_chunk d \<noteq> None else m_chunk d = None)"
    if "d \<in> D" for d
    using D that Some by (auto simp: entry_ok_def split: if_splits)
  have keys: "set (ms_keys st) = entry_key ` D" using rep by (simp add: matrix_rep_def)
  have chunks: "map_of (ms_chunks st) i = Some c \<longleftrightarrow> (\<exists>d\<in>D. m_task d = i \<and> m_chunk d = Some c)" for i c
    using rep by (simp add: matrix_rep_def)
  have chunk: "chunk_check t e (ms_chunks st) = None \<longleftrightarrow>
     (if t_distribution t = ''shardable'' then \<exists>c. m_chunk e = Some c \<and> chunk_ok c else m_chunk e = None) \<and>
     (\<forall>d\<in>D. same_chunk d e)"
  proof (cases "t_distribution t = ''shardable''")
    case False
    with same show ?thesis by (auto simp: chunk_check_def same_chunk_def)
  next
    case True
    have "(case map_of (ms_chunks st) (m_task e) of None \<Rightarrow> False | Some prior \<Rightarrow> prior \<noteq> c) \<longleftrightarrow>
        (\<exists>d\<in>D. m_task d = m_task e \<and> m_chunk d \<noteq> Some c)" if "m_chunk e = Some c" for c
    proof (cases "map_of (ms_chunks st) (m_task e)")
      case None
      then have "\<not> (\<exists>d\<in>D. m_task d = m_task e \<and> m_chunk d = Some c')" for c'
        using chunks by (metis option.distinct(1))
      with None same True show ?thesis by fastforce
    next
      case (Some p)
      then have "m_chunk d = Some p" if "d \<in> D" "m_task d = m_task e" for d
        using that same [OF that] True chunks by (metis not_None_eq option.inject)
      moreover obtain d where "d \<in> D" "m_task d = m_task e"
        using Some chunks by blast
      ultimately show ?thesis using Some by auto
    qed
    with True same show ?thesis
      by (cases "m_chunk e") (auto simp: chunk_check_def accept_simps same_chunk_def)
  qed
  show ?thesis
    using Some by (auto simp: entry_check_def entry_ok_def accept_simps chunk keys split: if_splits)
qed

lemma entry_step_rep:
  assumes rep: "matrix_rep D st" and step: "entry_step schema tasks n st e = Inr st'"
    and cons: "\<forall>d\<in>D. same_chunk d e"
  shows "matrix_rep (insert e D) st'"
proof -
  have st': "st' = \<lparr>ms_covered = m_task e # ms_covered st,
      ms_chunks = (case m_chunk e of None \<Rightarrow> ms_chunks st | Some c \<Rightarrow> AList.update (m_task e) c (ms_chunks st)),
      ms_keys = entry_key e # ms_keys st\<rparr>"
    using step by (simp add: entry_step_def split: option.splits)
  show ?thesis
  proof (cases "m_chunk e")
    case None
    then show ?thesis using rep by (simp add: st' matrix_rep_def)
  next
    case (Some c)
    then show ?thesis using rep cons
      by (auto simp: st' matrix_rep_def update_conv distinct_update same_chunk_def)
  qed
qed

lemma same_chunk_Cons:
  assumes "\<forall>d\<in>D. same_chunk d e"
  shows "(\<forall>f\<in>set (e # es). \<forall>d\<in>D \<union> set (e # es). same_chunk d f) \<longleftrightarrow>
     (\<forall>f\<in>set es. \<forall>d\<in>insert e D \<union> set es. same_chunk d f)" (is "?L \<longleftrightarrow> ?R")
proof
  assume R: ?R
  show ?L
  proof (intro ballI)
    fix f d assume f: "f \<in> set (e # es)" and d: "d \<in> D \<union> set (e # es)"
    show "same_chunk d f"
    proof (cases "f = e")
      case True
      consider "d \<in> D" | "d = e" | "d \<in> set es" using d by auto
      then show ?thesis
      proof cases
        case 1
        with assms True show ?thesis by blast
      next
        case 2
        with True show ?thesis by (simp add: same_chunk_def)
      next
        case 3
        with R have "same_chunk e d" by blast
        with True show ?thesis by (auto simp: same_chunk_def)
      qed
    next
      case False
      with f R d show ?thesis by auto
    qed
  qed
qed simp

lemma matrix_scan:
  assumes "matrix_rep D st" and "\<forall>d\<in>D. entry_ok schema tasks d"
  shows "((\<exists>r. scan (entry_step schema tasks) n st es = Inr r) \<longleftrightarrow>
      (\<forall>e\<in>set es. entry_ok schema tasks e) \<and> distinct (map entry_key es) \<and> entry_key ` set es \<inter> entry_key ` D = {} \<and>
      (\<forall>e\<in>set es. \<forall>d\<in>D \<union> set es. same_chunk d e)) \<and>
     (\<forall>r. scan (entry_step schema tasks) n st es = Inr r \<longrightarrow> matrix_rep (D \<union> set es) r)"
  using assms
proof (induction es arbitrary: D st n)
  case (Cons e es)
  note chk = entry_check_None [OF Cons.prems, of e]
  show ?case
  proof (cases "entry_check schema tasks st e")
    case (Some err)
    then have "\<not> (entry_ok schema tasks e \<and> entry_key e \<notin> entry_key ` D \<and>
       (\<forall>d\<in>D. same_chunk d e))"
      using chk by simp
    with Some show ?thesis by (auto simp: entry_step_def)
  next
    case None
    with chk have ok: "entry_ok schema tasks e" "entry_key e \<notin> entry_key ` D"
      "\<forall>d\<in>D. same_chunk d e" by auto
    obtain st1 where st1: "entry_step schema tasks n st e = Inr st1"
      using None by (simp add: entry_step_def)
    have IH: "((\<exists>r. scan (entry_step schema tasks) (Suc n) st1 es = Inr r) \<longleftrightarrow>
      (\<forall>e\<in>set es. entry_ok schema tasks e) \<and> distinct (map entry_key es) \<and> entry_key ` set es \<inter> entry_key ` insert e D = {} \<and>
      (\<forall>f\<in>set es. \<forall>d\<in>insert e D \<union> set es. same_chunk d f)) \<and>
     (\<forall>r. scan (entry_step schema tasks) (Suc n) st1 es = Inr r \<longrightarrow> matrix_rep (insert e D \<union> set es) r)"
      by (rule Cons.IH) (use entry_step_rep [OF Cons.prems(1) st1 ok(3)] ok Cons.prems in auto)
    show ?thesis
    proof
      show "(\<exists>r. scan (entry_step schema tasks) n st (e # es) = Inr r) \<longleftrightarrow>
        (\<forall>e\<in>set (e # es). entry_ok schema tasks e) \<and> distinct (map entry_key (e # es)) \<and>
        entry_key ` set (e # es) \<inter> entry_key ` D = {} \<and>
        (\<forall>f\<in>set (e # es). \<forall>d\<in>D \<union> set (e # es). same_chunk d f)"
      proof -
        have K: "(\<forall>f\<in>set (e # es). \<forall>d\<in>D \<union> set (e # es). same_chunk d f) \<longleftrightarrow>
            (\<forall>f\<in>set es. \<forall>d\<in>insert e D \<union> set es. same_chunk d f)"
          using ok(3) by (rule same_chunk_Cons)
        show ?thesis
          unfolding K using conjunct1 [OF IH] ok(1,2) by (simp add: st1 conj_ac)
      qed
      show "\<forall>r. scan (entry_step schema tasks) n st (e # es) = Inr r \<longrightarrow> matrix_rep (D \<union> set (e # es)) r"
        using IH by (simp add: st1)
    qed
  qed
qed simp

lemma matrix_rep_init: "matrix_rep {} matrix_init"
  by (simp add: matrix_rep_def matrix_init_def)

lemma distinct_entry_key:
  assumes "\<forall>e\<in>set es. platform_ok (m_platform e) \<and> nul \<notin> set (m_task e)"
  shows "distinct (map entry_key es) \<longleftrightarrow> distinct (map (\<lambda>e. (m_task e, m_platform e)) es)"
proof -
  have "distinct (map entry_key es) \<longleftrightarrow> distinct (map (\<lambda>e. (m_task e, m_platform e)) es)"
    if "\<forall>e\<in>set es. platform_ok (m_platform e) \<and> nul \<notin> set (m_task e)" for es
    using that
  proof (induction es)
    case (Cons e es)
    have "entry_key e \<in> entry_key ` set es \<longleftrightarrow> (m_task e, m_platform e) \<in> (\<lambda>e. (m_task e, m_platform e)) ` set es"
      using Cons.prems by (auto simp: entry_key_def matrixKey_inject image_iff)
    with Cons show ?case by simp
  qed simp
  then show ?thesis using assms .
qed

subsection \<open>The whole validator\<close>

lemma fst_task_map: "fst ` set (map (\<lambda>t. (t_id t, t)) ts) = t_id ` set ts"
  by (simp add: image_image)

text \<open>The last stage: the matrix loop, platform coverage and reducer coverage.\<close>

definition matrix_stage :: "(nat \<Rightarrow> string list \<Rightarrow> string list) \<Rightarrow> pipeline \<Rightarrow> tasks \<Rightarrow> verr option" where
  "matrix_stage rng p tasks =
     (case scan (entry_step (pi_schema p) tasks) 0 matrix_init (pi_matrix p) of
        Inl e \<Rightarrow> Some e
      | Inr st \<Rightarrow> first_error [
          each_from (\<lambda>_ i. refuse (i \<notin> set (ms_covered st)) (Bad ''matrix'' (NoPlatform i))) 0 (rng 1 (map fst tasks)),
          if pi_schema p = PipelineSchemaV2 then validateReduceCoverage rng tasks (ms_chunks st) else None])"

lemma entry_ok_task: "entry_ok schema tasks e \<Longrightarrow> m_task e \<in> fst ` set tasks"
  by (metis entry_ok_def image_eqI map_of_SomeD fst_conv)

lemma entry_ok_platform: "entry_ok schema tasks e \<Longrightarrow> platform_ok (m_platform e)"
  by (auto simp: entry_ok_def)

lemma matrix_stage_None:
  assumes rng: "enumerates rng" and tasks: "tasks = task_map p"
    and ids: "\<forall>t\<in>set (pi_tasks p). identifierRE (t_id t)"
  shows "matrix_stage rng p tasks = None \<longleftrightarrow>
     (\<forall>e\<in>set (pi_matrix p). entry_ok (pi_schema p) tasks e) \<and>
     distinct (map (\<lambda>e. (m_task e, m_platform e)) (pi_matrix p)) \<and>
     (\<forall>e\<in>set (pi_matrix p). \<forall>d\<in>set (pi_matrix p). same_chunk d e) \<and>
     t_id ` set (pi_tasks p) \<subseteq> m_task ` set (pi_matrix p) \<and>
     (pi_schema p = PipelineSchemaV2 \<longrightarrow> reduce_ok tasks (shards p))"
proof -
  have idset: "fst ` set tasks = t_id ` set (pi_tasks p)" by (simp add: tasks task_map_def image_image)
  have named: "identifierRE (m_task e)" if "entry_ok (pi_schema p) tasks e" for e
    using entry_ok_task [OF that] ids idset by auto
  have nonempty: "m_task e \<noteq> []" if "entry_ok (pi_schema p) tasks e" for e
    using named [OF that] by (auto simp: identifierRE_def)
  have scan: "((\<exists>r. scan (entry_step (pi_schema p) tasks) 0 matrix_init (pi_matrix p) = Inr r) \<longleftrightarrow>
      (\<forall>e\<in>set (pi_matrix p). entry_ok (pi_schema p) tasks e) \<and> distinct (map entry_key (pi_matrix p)) \<and>
      (\<forall>e\<in>set (pi_matrix p). \<forall>d\<in>set (pi_matrix p). same_chunk d e)) \<and>
     (\<forall>r. scan (entry_step (pi_schema p) tasks) 0 matrix_init (pi_matrix p) = Inr r \<longrightarrow> matrix_rep (set (pi_matrix p)) r)"
    using matrix_scan [OF matrix_rep_init, of "pi_schema p" tasks 0 "pi_matrix p"] by simp
  have keys: "distinct (map entry_key (pi_matrix p)) \<longleftrightarrow> distinct (map (\<lambda>e. (m_task e, m_platform e)) (pi_matrix p))"
    if "\<forall>e\<in>set (pi_matrix p). entry_ok (pi_schema p) tasks e"
    using that by (intro distinct_entry_key) (auto dest: entry_ok_platform named identifier_no_nul)
  show ?thesis
  proof (cases "scan (entry_step (pi_schema p) tasks) 0 matrix_init (pi_matrix p)")
    case (Inl e)
    with scan keys show ?thesis by (auto simp: matrix_stage_def)
  next
    case (Inr st)
    with scan have all: "\<forall>e\<in>set (pi_matrix p). entry_ok (pi_schema p) tasks e"
      and rep: "matrix_rep (set (pi_matrix p)) st" by auto
    have chunks: "set (ms_chunks st) = shards p"
      using rep by (auto simp: matrix_rep_def shards_def dest: map_of_is_SomeI)
    have "validateReduceCoverage rng tasks (ms_chunks st) = None \<longleftrightarrow> reduce_ok tasks (shards p)"
      unfolding chunks [symmetric] using rep all nonempty
      by (intro validateReduceCoverage_None [OF rng]) (auto simp: matrix_rep_def chunks shards_def)
    moreover have "set (ms_covered st) = m_task ` set (pi_matrix p)" using rep by (simp add: matrix_rep_def)
    ultimately show ?thesis using Inr scan keys all
      by (auto simp: matrix_stage_def accept_simps each_from_accept [OF refuse_None] enumerates_set [OF rng] idset)
  qed
qed

lemma validatePipeline_None:
  assumes rng: "enumerates rng"
  shows "validatePipeline rng p = None \<longleftrightarrow> pipeline_ok p"
proof (cases "scan (task_step (pi_schema p)) 0 [] (pi_tasks p)")
  case (Inl e)
  have "\<not> ((\<forall>t\<in>set (pi_tasks p). task_ok t \<and> schema_task_ok (pi_schema p) t) \<and> distinct (map t_id (pi_tasks p)))"
    using Inl task_scan [of "pi_schema p" 0 "[]" "pi_tasks p"] by auto
  with Inl show ?thesis by (auto simp: validatePipeline_def pipeline_ok_def split: option.split)
next
  case (Inr tasks)
  then have ok: "\<forall>t\<in>set (pi_tasks p). task_ok t \<and> schema_task_ok (pi_schema p) t" "distinct (map t_id (pi_tasks p))"
    and tasks: "tasks = task_map p"
    using task_scan [of "pi_schema p" 0 "[]" "pi_tasks p"] by (auto simp: task_map_def)
  have ids: "\<forall>t\<in>set (pi_tasks p). identifierRE (t_id t)" using ok(1) by (auto simp: task_ok_def)
  have idset: "fst ` set tasks = t_id ` set (pi_tasks p)" by (simp add: tasks task_map_def image_image)
  have "validatePipeline rng p = None \<longleftrightarrow>
      pi_schema p \<in> {PipelineSchema, PipelineSchemaV2} \<and> identifierRE (pi_name p) \<and> source_ok (pi_source p) \<and>
      pi_tasks p \<noteq> [] \<and> (\<forall>t\<in>set (pi_tasks p). needs_check tasks t = None) \<and>
      validateAcyclic tasks (rng 0 (map fst tasks)) = None \<and> pi_matrix p \<noteq> [] \<and> matrix_stage rng p tasks = None"
    unfolding validatePipeline_def Inr sum.case matrix_stage_def [symmetric] chain_None
    by (auto simp: accept_simps each_from_const)
  also have "\<dots> \<longleftrightarrow> pipeline_ok p"
  proof -
    have "validateAcyclic tasks (rng 0 (map fst tasks)) = None \<longleftrightarrow> acyclic (dependencies tasks)"
      by (rule validateAcyclic_None) (simp add: enumerates_set [OF rng])
    then show ?thesis
      unfolding matrix_stage_None [OF rng tasks ids] pipeline_ok_def needs_check_None idset tasks [symmetric]
      using ok by blast
  qed
  finally show ?thesis .
qed

end
