(* ===== verification/Dhnt_Run.thy ===== *)
theory Dhnt_Run
  imports Dhnt_Validate
begin

text \<open>
  The run attestation: the canonical output manifest and its commit (\<open>dhnt/output_commit.go\<close>) and
  \<open>Run.Validate\<close> (\<open>dhnt/contract.go\<close>). \<open>encoding/json\<close> is modelled on what the manifest holds:
  strings, escaped byte by byte as the encoder does for ASCII; validated artifacts have no other
  bytes. \<open>sort.Slice\<close> leaves the order of equal keys open; the lists it sorts here have distinct
  names, for which \<open>sorted_unique\<close> shows that every sorting permutation is the one modelled.
\<close>

section \<open>Sorting\<close>

definition sortedStrings :: "string list \<Rightarrow> string list" where
  "sortedStrings xs = sort xs"

definition sortedArtifacts :: "artifact list \<Rightarrow> artifact list" where
  "sortedArtifacts arts = sort_key a_name arts"

lemma singleton_list: "distinct zs \<Longrightarrow> set zs = {k} \<Longrightarrow> zs = [k]"
  by (cases zs; cases "tl zs") auto

lemma sorted_unique:
  assumes "mset xs = mset ys" "distinct (map f xs)" "sorted (map f ys)"
  shows "ys = sort_key f xs"
proof (rule sym, rule properties_for_sort_key)
  show "mset ys = mset xs" using assms(1) by simp
  show "sorted (map f ys)" by (rule assms(3))
  have inj: "inj_on f (set ys)"
    using assms(1,2) by (metis distinct_map mset_eq_setD)
  have dist: "distinct xs" "distinct ys"
    using assms(1,2) by (metis distinct_map mset_eq_imp_distinct_iff)+
  have set: "set xs = set ys" using assms(1) by (rule mset_eq_setD)
  show "filter (\<lambda>x. f k = f x) ys = filter (\<lambda>x. f k = f x) xs" if "k \<in> set ys" for k
  proof -
    have one: "filter (\<lambda>x. f k = f x) zs = [k]" if "distinct zs" "set zs = set ys" for zs
    proof -
      have "set (filter (\<lambda>x. f k = f x) zs) = {k}"
        using inj that \<open>k \<in> set ys\<close> by (auto dest: inj_onD)
      then show ?thesis using that by (intro singleton_list) simp_all
    qed
    show ?thesis using one [of ys] one [of xs] dist set by simp
  qed
qed

lemma sort_key_eq_iff:
  assumes "distinct (map f xs)" "distinct (map f ys)"
  shows "sort_key f xs = sort_key f ys \<longleftrightarrow> set xs = set ys"
proof
  assume "sort_key f xs = sort_key f ys"
  then show "set xs = set ys" by (metis set_sort)
next
  assume "set xs = set ys"
  moreover have "distinct xs" "distinct ys" using assms by (auto simp: distinct_map)
  ultimately have "mset xs = mset ys" by (simp add: set_eq_iff_mset_eq_distinct [symmetric])
  then have "mset xs = mset (sort_key f ys)" by simp
  then show "sort_key f xs = sort_key f ys"
    using sorted_unique [OF _ assms(1), of "sort_key f ys"] by simp
qed

lemma sortedArtifacts_eq:
  "distinct (map a_name xs) \<Longrightarrow> distinct (map a_name ys) \<Longrightarrow>
     sortedArtifacts xs = sortedArtifacts ys \<longleftrightarrow> set xs = set ys"
  unfolding sortedArtifacts_def by (rule sort_key_eq_iff)

section \<open>The output manifest\<close>

text \<open>The string encoder of \<open>encoding/json\<close>, HTML escaping included, on ASCII bytes.\<close>

definition json_escape :: "char \<Rightarrow> string" where
  "json_escape c =
     (if c = CHR 0x22 \<or> c = CHR 0x5C then [CHR 0x5C, c]
      else if byte c = 8 then [CHR 0x5C, CHR ''b'']
      else if byte c = 12 then [CHR 0x5C, CHR ''f'']
      else if byte c = 10 then [CHR 0x5C, CHR ''n'']
      else if byte c = 13 then [CHR 0x5C, CHR ''r'']
      else if byte c = 9 then [CHR 0x5C, CHR ''t'']
      else if byte c < 32 \<or> c \<in> set ''<>&'' then CHR 0x5C # ''u00'' @ hex_byte (int (byte c))
      else [c])"

definition json_string :: "string \<Rightarrow> string" where
  "json_string s = CHR 0x22 # concat (map json_escape s) @ [CHR 0x22]"

definition json_field :: "string \<Rightarrow> string \<Rightarrow> string" where
  "json_field name v = json_string name @ '':'' @ v"

definition json_artifact :: "artifact \<Rightarrow> string" where
  "json_artifact a = ''{'' @ json_field ''name'' (json_string (a_name a)) @
     (if a_kind a = [] then [] else '','' @ json_field ''kind'' (json_string (a_kind a))) @
     (if a_algorithm a = [] then [] else '','' @ json_field ''digestAlgorithm'' (json_string (a_algorithm a))) @
     '','' @ json_field ''sha256'' (json_string (a_sha256 a)) @ ''}''"

fun json_items :: "string list \<Rightarrow> string" where
  "json_items [] = []"
| "json_items [x] = x"
| "json_items (x # xs) = x @ '','' @ json_items xs"

definition json_manifest :: "artifact list \<Rightarrow> string" where
  "json_manifest arts = ''{'' @ json_field ''schema'' (json_string OutputCommitSchema) @ '','' @
     json_field ''outputs'' (''['' @ json_items (map json_artifact arts) @ '']'') @ ''}'' @ [CHR 0x0A]"

definition MarshalOutputCommitManifest :: "artifact list \<Rightarrow> verr + string" where
  "MarshalOutputCommitManifest outputs =
     (case validateArtifacts ''outputs'' outputs True RunSchemaV2 of
        Some e \<Rightarrow> Inl e
      | None \<Rightarrow> Inr (json_manifest (sortedArtifacts outputs)))"

definition NewOutputCommit :: "artifact list \<Rightarrow> verr + output_commit" where
  "NewOutputCommit outputs =
     (case MarshalOutputCommitManifest outputs of
        Inl e \<Rightarrow> Inl e
      | Inr manifest \<Rightarrow> Inr \<lparr>oc_schema = OutputCommitSchema, oc_algorithm = DigestSHA256OutputCommitV1,
                            oc_sha256 = sha256_hex manifest\<rparr>)"

definition validateOutputCommit :: "output_commit option \<Rightarrow> artifact list \<Rightarrow> verr option" where
  "validateOutputCommit commit outputs =
     (case commit of
        None \<Rightarrow> Some (Bad ''outputCommit'' NotPresent)
      | Some c \<Rightarrow> first_error [
          refuse (oc_schema c \<noteq> OutputCommitSchema) (Bad ''outputCommit.schema'' (Unknown (oc_schema c))),
          refuse (oc_algorithm c \<noteq> DigestSHA256OutputCommitV1)
                 (Bad ''outputCommit.digestAlgorithm'' (Unknown (oc_algorithm c))),
          validateDigest ''outputCommit.sha256'' (oc_sha256 c),
          (case NewOutputCommit outputs of
             Inl e \<Rightarrow> Some (Within ''outputCommit'' e)
           | Inr expected \<Rightarrow> refuse (c \<noteq> expected) (Bad ''outputCommit.sha256'' (Mismatch (oc_sha256 c))))])"

section \<open>Run.Validate\<close>

definition executor_platform :: "executor \<Rightarrow> platform" where
  "executor_platform x = \<lparr>p_backend = x_backend x, p_os = x_os x, p_arch = x_arch x\<rparr>"

text \<open>The schema branch: v1 forbids a commit, v2 requires one exactly on a pass.\<close>

definition commit_check :: "run \<Rightarrow> verr option" where
  "commit_check r =
     (if ru_schema r = RunSchema then refuse (ru_commit r \<noteq> None) (Bad ''outputCommit'' NotAbsent)
      else if r_class (ru_result r) = ''pass'' then validateOutputCommit (ru_commit r) (ru_outputs r)
      else refuse (ru_commit r \<noteq> None) (Bad ''outputCommit'' NotAbsent))"

definition exit_check :: "run_result \<Rightarrow> verr option" where
  "exit_check res =
     (case r_exit res of
        None \<Rightarrow> Some (Bad ''result.exitCode'' NotPresent)
      | Some code \<Rightarrow> first_error [
          refuse (code < 0) (Bad ''result.exitCode'' OutOfRange),
          refuse (r_class res = ''pass'' \<and> code \<noteq> 0) (Bad ''result.exitCode'' (Mismatch ''pass'')),
          refuse (r_class res = ''test-fail'' \<and> code = 0) (Bad ''result.exitCode'' (Mismatch ''test-fail''))])"

definition time_check :: "run \<Rightarrow> verr option" where
  "time_check r =
     (case validateTimestamp ''startedAt'' (ru_started r) of
        Inl e \<Rightarrow> Some e
      | Inr start \<Rightarrow> (case validateTimestamp ''finishedAt'' (ru_finished r) of
          Inl e \<Rightarrow> Some e
        | Inr finish \<Rightarrow> refuse (finish < start) (Bad ''finishedAt'' OutOfRange)))"

definition validateRun :: "run \<Rightarrow> verr option" where
  "validateRun r = first_error [
     refuse (ru_schema r \<notin> set [RunSchema, RunSchemaV2]) (Bad ''schema'' (Unknown (ru_schema r))),
     validateID ''pipeline'' (ru_pipeline r),
     validateID ''task'' (ru_task r),
     validateID ''run'' (ru_run r),
     validateSource (ru_source r),
     validateArtifacts ''inputs'' (ru_inputs r) True (ru_schema r),
     validateArtifacts ''outputs'' (ru_outputs r) True (ru_schema r),
     commit_check r,
     refuse (trim_space (x_node (ru_executor r)) = []) (Bad ''executor.node'' MustNotBeEmpty),
     refuse (nul \<in> set (x_node (ru_executor r))) (Bad ''executor.node'' NulByte),
     map_option (Within ''executor'') (validatePlatform (executor_platform (ru_executor r))),
     refuse (r_class (ru_result r) \<notin> set ResultClasses) (Bad ''result.class'' (Unknown (r_class (ru_result r)))),
     exit_check (ru_result r),
     time_check r,
     refuse (\<not> traceIDRE (ru_trace r) \<or> ru_trace r = replicate 32 (CHR ''0'')) (Bad ''traceId'' BadTraceId)]"

section \<open>What an accepted run attests\<close>

definition instant :: "string \<Rightarrow> int option" where
  "instant v = (if has_suffix v ''Z'' then parse_rfc3339_z v else None)"

definition commit_ok :: "run \<Rightarrow> bool" where
  "commit_ok r \<longleftrightarrow>
     (if ru_schema r = RunSchemaV2 \<and> r_class (ru_result r) = ''pass''
      then \<exists>c. ru_commit r = Some c \<and> NewOutputCommit (ru_outputs r) = Inr c
      else ru_commit r = None)"

definition result_ok :: "run_result \<Rightarrow> bool" where
  "result_ok res \<longleftrightarrow> r_class res \<in> set ResultClasses \<and>
     (\<exists>code\<ge>0. r_exit res = Some code \<and> (r_class res = ''pass'' \<longrightarrow> code = 0) \<and>
        (r_class res = ''test-fail'' \<longrightarrow> code \<noteq> 0))"

definition run_ok :: "run \<Rightarrow> bool" where
  "run_ok r \<longleftrightarrow> ru_schema r \<in> {RunSchema, RunSchemaV2} \<and>
     identifierRE (ru_pipeline r) \<and> identifierRE (ru_task r) \<and> identifierRE (ru_run r) \<and>
     source_ok (ru_source r) \<and> artifacts_ok (ru_schema r) (ru_inputs r) \<and> artifacts_ok (ru_schema r) (ru_outputs r) \<and>
     commit_ok r \<and> trim_space (x_node (ru_executor r)) \<noteq> [] \<and> nul \<notin> set (x_node (ru_executor r)) \<and>
     platform_ok (executor_platform (ru_executor r)) \<and> result_ok (ru_result r) \<and>
     (\<exists>s f. instant (ru_started r) = Some s \<and> instant (ru_finished r) = Some f \<and> s \<le> f) \<and>
     traceIDRE (ru_trace r) \<and> ru_trace r \<noteq> replicate 32 (CHR ''0'')"

lemma NewOutputCommit_Inr:
  "NewOutputCommit outs = Inr c \<longleftrightarrow> artifacts_ok RunSchemaV2 outs \<and>
     c = \<lparr>oc_schema = OutputCommitSchema, oc_algorithm = DigestSHA256OutputCommitV1,
          oc_sha256 = sha256_hex (json_manifest (sortedArtifacts outs))\<rparr>"
  using validateArtifacts_None [of "''outputs''" outs RunSchemaV2]
  by (cases "validateArtifacts ''outputs'' outs True RunSchemaV2")
     (auto simp: NewOutputCommit_def MarshalOutputCommitManifest_def)

lemma sha256_hex_RE: "sha256RE (sha256_hex s)"
  by (simp add: sha256RE_def sha256_hex_lower)

lemma validateOutputCommit_None:
  "validateOutputCommit commit outs = None \<longleftrightarrow> (\<exists>c. commit = Some c \<and> NewOutputCommit outs = Inr c)"
proof (cases commit)
  case (Some c)
  show ?thesis
  proof (cases "NewOutputCommit outs")
    case (Inl e)
    then show ?thesis by (simp add: validateOutputCommit_def Some accept_simps)
  next
    case (Inr d)
    then have d: "d = \<lparr>oc_schema = OutputCommitSchema, oc_algorithm = DigestSHA256OutputCommitV1,
          oc_sha256 = sha256_hex (json_manifest (sortedArtifacts outs))\<rparr>"
      by (simp only: NewOutputCommit_Inr)
    have "validateOutputCommit commit outs = None \<longleftrightarrow> oc_schema c = OutputCommitSchema \<and>
        oc_algorithm c = DigestSHA256OutputCommitV1 \<and> sha256RE (oc_sha256 c) \<and> c = d"
      by (simp add: validateOutputCommit_def Some Inr accept_simps)
    also have "\<dots> \<longleftrightarrow> c = d" by (auto simp: d sha256_hex_RE)
    finally show ?thesis by (auto simp: Some Inr)
  qed
qed (simp add: validateOutputCommit_def)

lemma exit_check_None: "r_class res \<in> set ResultClasses \<Longrightarrow> exit_check res = None \<longleftrightarrow> result_ok res"
  by (cases "r_exit res") (auto simp: exit_check_def result_ok_def accept_simps)

lemma time_check_None:
  "time_check r = None \<longleftrightarrow> (\<exists>s f. instant (ru_started r) = Some s \<and> instant (ru_finished r) = Some f \<and> s \<le> f)"
  by (auto simp: time_check_def validateTimestamp_def instant_def split: option.splits)

lemma validateRun_None: "validateRun r = None \<longleftrightarrow> run_ok r"
proof (cases "ru_schema r \<in> {RunSchema, RunSchemaV2} \<and> r_class (ru_result r) \<in> set ResultClasses")
  case True
  have commit: "commit_check r = None \<longleftrightarrow> commit_ok r"
    using True by (auto simp: commit_check_def commit_ok_def validateOutputCommit_None)
  show ?thesis
    unfolding validateRun_def run_ok_def
    by (simp only: first_error_None refuse_None option.map_disc_iff commit exit_check_None [OF conjunct2 [OF True]]
          time_check_None accept_simps) (use True in auto)
next
  case False
  then show ?thesis
    by (auto simp: validateRun_def run_ok_def result_ok_def accept_simps)
qed

interpretation run_v: validator validateRun run_ok
  by unfold_locales (rule validateRun_None)

section \<open>The manifest names the output set\<close>

text \<open>
  On strings without characters to escape the encoder is the identity between quotes, and its
  output can be read back from the front: what follows a closed string, object or list is
  determined. Two validated output lists therefore have the same manifest exactly when they have
  the same artifacts.
\<close>

definition json_plain :: "string \<Rightarrow> bool" where
  "json_plain s \<longleftrightarrow> list_all (\<lambda>c. json_escape c = [c]) s"

lemma json_string_plain: "json_plain s \<Longrightarrow> json_string s = CHR 0x22 # s @ [CHR 0x22]"
proof -
  assume "json_plain s"
  then have "concat (map json_escape s) = s"
    by (induction s) (auto simp: json_plain_def)
  then show ?thesis by (simp add: json_string_def)
qed

lemma json_plain_quote: "json_plain s \<Longrightarrow> CHR 0x22 \<notin> set s"
  by (auto simp: json_plain_def list_all_iff json_escape_def)

lemma split_at_char: "c \<notin> set a \<Longrightarrow> c \<notin> set b \<Longrightarrow> a @ c # x = b @ c # y \<longleftrightarrow> a = b \<and> x = y"
  by (induction a arbitrary: b) (case_tac b; auto)+

lemma json_string_front:
  "json_plain a \<Longrightarrow> json_plain b \<Longrightarrow> json_string a @ x = json_string b @ y \<longleftrightarrow> a = b \<and> x = y"
  by (simp add: json_string_plain split_at_char json_plain_quote)

lemma json_escape_id:
  assumes "32 \<le> byte c" "byte c \<notin> {34, 38, 60, 62, 92}"
  shows "json_escape c = [c]"
proof -
  have "c \<notin> set ''<>&''" "c \<noteq> CHR 0x22" "c \<noteq> CHR 0x5C"
    using assms(2) by (auto simp: byte_def)
  with assms(1) show ?thesis by (simp add: json_escape_def)
qed

lemma alnum_escape: "alnum c \<Longrightarrow> json_escape c = [c]"
  by (rule json_escape_id) (auto simp: alnum_def digit_def)

lemma identifier_chars: "identifierRE s \<Longrightarrow> c \<in> set s \<Longrightarrow> alnum c \<or> c \<in> set ''._/-''"
  by (cases s) (auto simp: identifierRE_def list_all_iff)

lemma identifier_plain: "identifierRE s \<Longrightarrow> json_plain s"
proof -
  have "json_escape d = [d]" if "d \<in> set ''._/-''" for d
    by (rule json_escape_id) (use that in \<open>auto simp: byte_def\<close>)
  with alnum_escape identifier_chars show "identifierRE s \<Longrightarrow> json_plain s"
    unfolding json_plain_def list_all_iff by blast
qed

lemma digest_plain: "sha256RE s \<Longrightarrow> json_plain s"
proof -
  have "json_escape c = [c]" if "hex_lower c" for c
    by (rule json_escape_id) (use that in \<open>auto simp: hex_lower_def digit_def\<close>)
  then show "sha256RE s \<Longrightarrow> json_plain s"
    by (auto simp: sha256RE_def json_plain_def list_all_iff)
qed

lemma typed_plain:
  "typed_ok RunSchemaV2 a \<Longrightarrow> json_plain (a_kind a) \<and> json_plain (a_algorithm a) \<and> a_kind a \<noteq> [] \<and> a_algorithm a \<noteq> []"
  by (auto simp: typed_ok_def json_plain_def json_escape_def byte_def)

lemma json_artifact_front:
  assumes "artifact_ok RunSchemaV2 a" "artifact_ok RunSchemaV2 b"
  shows "json_artifact a @ x = json_artifact b @ y \<longleftrightarrow> a = b \<and> x = y"
proof -
  have "json_plain (a_name c) \<and> json_plain (a_kind c) \<and> json_plain (a_algorithm c) \<and> json_plain (a_sha256 c) \<and>
      a_kind c \<noteq> [] \<and> a_algorithm c \<noteq> []" if "artifact_ok RunSchemaV2 c" for c
    using that by (simp add: artifact_ok_def typed_plain identifier_plain digest_plain)
  note p = this [OF assms(1)] this [OF assms(2)]
  show ?thesis
    by (cases a; cases b) (use p in \<open>auto simp: json_artifact_def json_field_def json_string_front\<close>)
qed

lemma json_items_front:
  assumes "\<forall>a\<in>set as. artifact_ok RunSchemaV2 a" "\<forall>b\<in>set bs. artifact_ok RunSchemaV2 b"
    and "as \<noteq> []" "bs \<noteq> []"
    and "json_items (map json_artifact as) @ CHR '']'' # x = json_items (map json_artifact bs) @ CHR '']'' # y"
  shows "as = bs"
  using assms
proof (induction as arbitrary: bs)
  case (Cons a as)
  then obtain b bs' where bs: "bs = b # bs'" by (cases bs) auto
  have ok: "artifact_ok RunSchemaV2 a" "artifact_ok RunSchemaV2 b" using Cons.prems bs by auto
  note front = json_artifact_front [OF ok]
  show ?case
  proof (cases "as = [] \<or> bs' = []")
    case True
    then show ?thesis
      using Cons.prems(5) by (cases as; cases bs') (auto simp: bs front)
  next
    case False
    then obtain a2 as2 b2 bs2 where n: "as = a2 # as2" "bs' = b2 # bs2" by (cases as; cases bs') auto
    have "a = b \<and> json_items (map json_artifact as) @ CHR '']'' # x = json_items (map json_artifact bs') @ CHR '']'' # y"
      using Cons.prems(5) by (simp add: bs n front)
    then show ?thesis using Cons.IH [of bs'] Cons.prems(1,2) False by (auto simp: bs)
  qed
qed simp

lemma json_manifest_inject:
  assumes "artifacts_ok RunSchemaV2 xs" "artifacts_ok RunSchemaV2 ys"
  shows "json_manifest (sortedArtifacts xs) = json_manifest (sortedArtifacts ys) \<longleftrightarrow> set xs = set ys"
proof
  assume "json_manifest (sortedArtifacts xs) = json_manifest (sortedArtifacts ys)"
  then have "json_items (map json_artifact (sortedArtifacts xs)) @ CHR '']'' # ''}'' @ [CHR 0x0A] =
      json_items (map json_artifact (sortedArtifacts ys)) @ CHR '']'' # ''}'' @ [CHR 0x0A]"
    by (simp add: json_manifest_def json_field_def)
  moreover have "set (sortedArtifacts zs) = set zs" "sortedArtifacts zs = [] \<longleftrightarrow> zs = []" for zs
    by (simp_all add: sortedArtifacts_def flip: length_0_conv)
  ultimately have "sortedArtifacts xs = sortedArtifacts ys"
    using assms unfolding artifacts_ok_def by (intro json_items_front) simp_all
  then show "set xs = set ys" using assms by (simp add: sortedArtifacts_eq artifacts_ok_def)
next
  assume "set xs = set ys"
  then have "sortedArtifacts xs = sortedArtifacts ys"
    using assms by (simp add: sortedArtifacts_eq artifacts_ok_def)
  then show "json_manifest (sortedArtifacts xs) = json_manifest (sortedArtifacts ys)" by simp
qed

end
