(* ===== verification/Dhnt_Aggregate.thy ===== *)
theory Dhnt_Aggregate
  imports Dhnt_Run
begin

text \<open>
  \<open>Aggregate\<close> (\<open>dhnt/aggregate.go\<close>): the gate that turns a pipeline and a list of run
  attestations into one passing result. The loop keeps the maps \<open>seen\<close> and \<open>runIDs\<close> (here lists
  of their keys) and the accepted identities; \<open>expected\<close> is the map from matrix keys to entries.
  The argument \<open>rng\<close> orders the ranges over maps, site 4 being the final one.
\<close>

section \<open>The gate\<close>

record aggregate_result =
  ag_schema :: string
  ag_pipeline :: string
  ag_result :: string
  ag_runs :: "string list"

definition equalArtifacts :: "artifact list \<Rightarrow> artifact list \<Rightarrow> bool" where
  "equalArtifacts a b = (let a = sortedArtifacts a; b = sortedArtifacts b in
     length a = length b \<and> list_all (\<lambda>i. a ! i = b ! i) [0..<length a])"

definition run_key :: "run \<Rightarrow> string" where
  "run_key r = matrixKey (ru_task r) (executor_platform (ru_executor r))"

definition expected_schema :: "pipeline \<Rightarrow> string" where
  "expected_schema p = (if pi_schema p = PipelineSchemaV2 then RunSchemaV2 else RunSchema)"

definition expected_entries :: "pipeline \<Rightarrow> (string \<times> matrix_entry) list" where
  "expected_entries p = fold (\<lambda>e m. AList.update (entry_key e) e m) (pi_matrix p) []"

record agg_state =
  as_seen :: "string list"
  as_ids :: "string list"
  as_accepted :: "string list"

definition evidence_check :: "pipeline \<Rightarrow> agg_state \<Rightarrow> run \<Rightarrow> verr option" where
  "evidence_check p st r = first_error [
     map_option (Within ''malformed'') (validateRun r),
     refuse (ru_schema r \<noteq> expected_schema p) (Bad ''schema'' (Mismatch (ru_schema r))),
     refuse (ru_pipeline r \<noteq> pi_name p) (Bad ''pipeline'' (Mismatch (ru_pipeline r))),
     refuse (ru_source r \<noteq> pi_source p) (Bad ''source'' (Mismatch [])),
     (case map_of (expected_entries p) (run_key r) of
        None \<Rightarrow> Some (Bad ''evidence'' (Unknown (run_key r)))
      | Some entry \<Rightarrow> first_error [
          refuse (run_key r \<in> set (as_seen st)) (Bad ''evidence'' (Duplicate (run_key r))),
          refuse (ru_run r \<in> set (as_ids st)) (Bad ''run'' (Duplicate (ru_run r))),
          refuse (r_class (ru_result r) \<noteq> ''pass'') (Bad ''result'' (Mismatch (r_class (ru_result r)))),
          refuse (\<not> equalArtifacts (ru_inputs r) (m_inputs entry)) (Bad ''input digest'' (Mismatch [])),
          refuse (\<not> equalArtifacts (ru_outputs r) (m_outputs entry)) (Bad ''output digest'' (Mismatch []))])]"

definition evidence_step :: "pipeline \<Rightarrow> nat \<Rightarrow> agg_state \<Rightarrow> run \<Rightarrow> verr + agg_state" where
  "evidence_step p i st r =
     (case evidence_check p st r of
        Some e \<Rightarrow> Inl (At ''run'' i e)
      | None \<Rightarrow> Inr \<lparr>as_seen = run_key r # as_seen st, as_ids = ru_run r # as_ids st,
                      as_accepted = as_accepted st @ [ru_run r]\<rparr>)"

definition Aggregate :: "(nat \<Rightarrow> string list \<Rightarrow> string list) \<Rightarrow> pipeline \<Rightarrow> run list \<Rightarrow> verr + aggregate_result" where
  "Aggregate rng p runs =
     (case validatePipeline rng p of
        Some e \<Rightarrow> Inl (Within ''pipeline'' e)
      | None \<Rightarrow> (case scan (evidence_step p) 0 \<lparr>as_seen = [], as_ids = [], as_accepted = []\<rparr> runs of
          Inl e \<Rightarrow> Inl e
        | Inr st \<Rightarrow>
            (case each_from (\<lambda>_ key. refuse (key \<notin> set (as_seen st)) (Bad ''missing evidence'' (Unknown key))) 0
                    (rng 4 (map fst (expected_entries p))) of
               Some e \<Rightarrow> Inl e
             | None \<Rightarrow> Inr \<lparr>ag_schema = ''dhnt.aggregate/v1'', ag_pipeline = pi_name p, ag_result = ''pass'',
                            ag_runs = sortedStrings (as_accepted st)\<rparr>)))"

section \<open>One-for-one coverage\<close>

definition entry_point :: "matrix_entry \<Rightarrow> string \<times> platform" where
  "entry_point e = (m_task e, m_platform e)"

definition run_point :: "run \<Rightarrow> string \<times> platform" where
  "run_point r = (ru_task r, executor_platform (ru_executor r))"

definition evidence_for :: "pipeline \<Rightarrow> matrix_entry \<Rightarrow> run \<Rightarrow> bool" where
  "evidence_for p e r \<longleftrightarrow> run_ok r \<and> ru_schema r = expected_schema p \<and> ru_pipeline r = pi_name p \<and>
     ru_source r = pi_source p \<and> run_point r = entry_point e \<and> r_class (ru_result r) = ''pass'' \<and>
     set (ru_inputs r) = set (m_inputs e) \<and> set (ru_outputs r) = set (m_outputs e)"

text \<open>
  The runs are in one-for-one correspondence with the matrix: as many for each task and platform
  as the matrix has entries, each evidence for its entry, no identity used twice.
\<close>

definition aggregate_ok :: "pipeline \<Rightarrow> run list \<Rightarrow> bool" where
  "aggregate_ok p runs \<longleftrightarrow> pipeline_ok p \<and> distinct (map ru_run runs) \<and>
     mset (map run_point runs) = mset (map entry_point (pi_matrix p)) \<and>
     (\<forall>r\<in>set runs. \<exists>e\<in>set (pi_matrix p). evidence_for p e r)"

lemma equalArtifacts_iff:
  assumes "artifacts_ok s a" "artifacts_ok t b"
  shows "equalArtifacts a b \<longleftrightarrow> set a = set b"
proof -
  have "equalArtifacts a b \<longleftrightarrow> sortedArtifacts a = sortedArtifacts b"
    by (auto simp: equalArtifacts_def Let_def list_all_iff intro: nth_equalityI)
  with assms show ?thesis by (simp add: sortedArtifacts_eq artifacts_ok_def)
qed

lemma update_keys:
  "distinct (map f xs) \<Longrightarrow> f ` set xs \<inter> fst ` set m = {} \<Longrightarrow>
     fold (\<lambda>e m. AList.update (f e) e m) xs m = m @ map (\<lambda>e. (f e, e)) xs"
proof (induction xs arbitrary: m)
  case (Cons x xs)
  have "f x \<notin> fst ` set m \<Longrightarrow> AList.update (f x) x m = m @ [(f x, x)]"
    by (induction m) auto
  with Cons show ?case by auto
qed simp

lemma pipeline_keys:
  assumes "pipeline_ok p"
  shows "distinct (map entry_key (pi_matrix p))"
    and "e \<in> set (pi_matrix p) \<Longrightarrow> platform_ok (m_platform e) \<and> nul \<notin> set (m_task e)"
proof -
  have e: "platform_ok (m_platform e) \<and> nul \<notin> set (m_task e)" if "e \<in> set (pi_matrix p)" for e
  proof -
    have ok: "entry_ok (pi_schema p) (task_map p) e" using assms that by (auto simp: pipeline_ok_def)
    then have "m_task e \<in> t_id ` set (pi_tasks p)"
      by (auto simp: task_map_def dest!: entry_ok_task)
    then have "identifierRE (m_task e)" using assms by (auto simp: pipeline_ok_def task_ok_def)
    with ok show ?thesis by (simp add: entry_ok_platform identifier_no_nul)
  qed
  then show "e \<in> set (pi_matrix p) \<Longrightarrow> platform_ok (m_platform e) \<and> nul \<notin> set (m_task e)" .
  show "distinct (map entry_key (pi_matrix p))"
    using assms e by (subst distinct_entry_key) (auto simp: pipeline_ok_def)
qed

lemma expected_entries_eq:
  "pipeline_ok p \<Longrightarrow> expected_entries p = map (\<lambda>e. (entry_key e, e)) (pi_matrix p)"
  using update_keys [of entry_key "pi_matrix p" "[]"] pipeline_keys(1) by (simp add: expected_entries_def)

lemma map_of_keyed:
  "distinct (map f xs) \<Longrightarrow> map_of (map (\<lambda>e. (f e, e)) xs) k = Some e \<longleftrightarrow> e \<in> set xs \<and> f e = k"
  by (induction xs) (auto simp: image_iff)

lemma run_key_point:
  assumes "pipeline_ok p" "run_ok r" "e \<in> set (pi_matrix p)"
  shows "entry_key e = run_key r \<longleftrightarrow> run_point r = entry_point e"
proof -
  have "nul \<notin> set (ru_task r)" "platform_ok (executor_platform (ru_executor r))"
    using assms(2) by (auto simp: run_ok_def identifier_no_nul)
  then show ?thesis
    using pipeline_keys(2) [OF assms(1,3)]
    by (auto simp: entry_key_def run_key_def matrixKey_inject run_point_def entry_point_def)
qed

definition admissible :: "pipeline \<Rightarrow> run \<Rightarrow> bool" where
  "admissible p r \<longleftrightarrow> (\<exists>e\<in>set (pi_matrix p). evidence_for p e r)"

lemma evidence_check_None:
  assumes p: "pipeline_ok p"
  shows "evidence_check p st r = None \<longleftrightarrow>
     admissible p r \<and> run_key r \<notin> set (as_seen st) \<and> ru_run r \<notin> set (as_ids st)"
proof (cases "run_ok r")
  case False
  then show ?thesis by (auto simp: evidence_check_def admissible_def evidence_for_def accept_simps validateRun_None)
next
  case True
  have look: "map_of (expected_entries p) (run_key r) = Some e \<longleftrightarrow> e \<in> set (pi_matrix p) \<and> run_point r = entry_point e" for e
    using run_key_point [OF p True] by (auto simp: expected_entries_eq [OF p] map_of_keyed pipeline_keys(1) [OF p])
  have arts: "equalArtifacts (ru_inputs r) (m_inputs e) \<longleftrightarrow> set (ru_inputs r) = set (m_inputs e)"
    "equalArtifacts (ru_outputs r) (m_outputs e) \<longleftrightarrow> set (ru_outputs r) = set (m_outputs e)"
    if "e \<in> set (pi_matrix p)" for e
    using True p that by (auto simp: run_ok_def pipeline_ok_def entry_ok_def intro!: equalArtifacts_iff)
  show ?thesis
  proof (cases "map_of (expected_entries p) (run_key r)")
    case None
    then have "\<not> admissible p r"
      using look by (auto simp: admissible_def evidence_for_def)
    with None show ?thesis by (simp add: evidence_check_def accept_simps)
  next
    case (Some e)
    then have e: "e \<in> set (pi_matrix p)" "run_point r = entry_point e" using look by auto
    have only: "d = e" if "d \<in> set (pi_matrix p)" "run_point r = entry_point d" for d
      using look that Some by (metis option.inject)
    have "admissible p r \<longleftrightarrow> evidence_for p e r"
      using e only by (auto simp: admissible_def evidence_for_def)
    then show ?thesis
      by (auto simp: evidence_check_def Some accept_simps validateRun_None True arts [OF e(1)] evidence_for_def e)
  qed
qed

lemma evidence_scan:
  assumes p: "pipeline_ok p"
  shows "(\<exists>st'. scan (evidence_step p) n st rs = Inr st') \<longleftrightarrow>
      (\<forall>r\<in>set rs. admissible p r) \<and> distinct (map run_key rs) \<and> distinct (map ru_run rs) \<and>
      run_key ` set rs \<inter> set (as_seen st) = {} \<and> ru_run ` set rs \<inter> set (as_ids st) = {}"
    and "scan (evidence_step p) n st rs = Inr st' \<Longrightarrow>
      set (as_seen st') = run_key ` set rs \<union> set (as_seen st) \<and> as_accepted st' = as_accepted st @ map ru_run rs"
proof -
  show "(\<exists>st'. scan (evidence_step p) n st rs = Inr st') \<longleftrightarrow>
      (\<forall>r\<in>set rs. admissible p r) \<and> distinct (map run_key rs) \<and> distinct (map ru_run rs) \<and>
      run_key ` set rs \<inter> set (as_seen st) = {} \<and> ru_run ` set rs \<inter> set (as_ids st) = {}"
  proof (induction rs arbitrary: n st)
    case (Cons r rs)
    show ?case
    proof (cases "evidence_check p st r")
      case None
      then have "evidence_step p n st r = Inr \<lparr>as_seen = run_key r # as_seen st, as_ids = ru_run r # as_ids st,
          as_accepted = as_accepted st @ [ru_run r]\<rparr>" by (simp add: evidence_step_def)
      with None show ?thesis using evidence_check_None [OF p, of st r]
        by (auto simp: Cons.IH)
    next
      case (Some e)
      then have "evidence_step p n st r = Inl (At ''run'' n e)" by (simp add: evidence_step_def)
      with Some show ?thesis using evidence_check_None [OF p, of st r] by auto
    qed
  qed simp
  show "scan (evidence_step p) n st rs = Inr st' \<Longrightarrow>
      set (as_seen st') = run_key ` set rs \<union> set (as_seen st) \<and> as_accepted st' = as_accepted st @ map ru_run rs"
  proof (induction rs arbitrary: n st)
    case (Cons r rs)
    obtain st1 where s: "evidence_step p n st r = Inr st1" "scan (evidence_step p) (Suc n) st1 rs = Inr st'"
      using Cons.prems by (cases "evidence_step p n st r") auto
    then have "as_seen st1 = run_key r # as_seen st" "as_accepted st1 = as_accepted st @ [ru_run r]"
      by (auto simp: evidence_step_def split: option.splits)
    with Cons.IH [OF s(2)] show ?case by auto
  qed simp
qed

text \<open>Distinct keys that cover the matrix are a one-for-one correspondence.\<close>

lemma points_match:
  assumes p: "pipeline_ok p" and adm: "\<forall>r\<in>set rs. admissible p r"
  shows "distinct (map run_key rs) \<and> entry_key ` set (pi_matrix p) \<subseteq> run_key ` set rs \<longleftrightarrow>
     mset (map run_point rs) = mset (map entry_point (pi_matrix p))"
proof -
  have dk: "distinct (map entry_point (pi_matrix p))"
    using p unfolding pipeline_ok_def entry_point_def by blast
  have ok: "run_ok r" "run_point r \<in> entry_point ` set (pi_matrix p)" if "r \<in> set rs" for r
    using adm that by (auto simp: admissible_def evidence_for_def)
  have key: "entry_key e = run_key r \<longleftrightarrow> run_point r = entry_point e" if "e \<in> set (pi_matrix p)" "r \<in> set rs" for e r
    using run_key_point [OF p ok(1) [OF that(2)] that(1)] .
  have same: "run_key r = run_key r' \<longleftrightarrow> run_point r = run_point r'" if rr: "r \<in> set rs" "r' \<in> set rs" for r r'
  proof -
    obtain e where e: "e \<in> set (pi_matrix p)" "run_point r = entry_point e"
      using ok(2) [OF rr(1)] by auto
    then show ?thesis using key [OF e(1) rr(1)] key [OF e(1) rr(2)] by auto
  qed
  have dist: "distinct (map run_key rs) \<longleftrightarrow> distinct (map run_point rs)"
    using same by (auto simp: distinct_map inj_on_def)
  have cover: "entry_key ` set (pi_matrix p) \<subseteq> run_key ` set rs \<longleftrightarrow>
      entry_point ` set (pi_matrix p) \<subseteq> run_point ` set rs"
  proof -
    have "entry_key e \<in> run_key ` set rs \<longleftrightarrow> entry_point e \<in> run_point ` set rs" if "e \<in> set (pi_matrix p)" for e
    proof
      assume "entry_key e \<in> run_key ` set rs"
      then obtain r where "r \<in> set rs" "entry_key e = run_key r" by blast
      with key [OF that] show "entry_point e \<in> run_point ` set rs" by force
    next
      assume "entry_point e \<in> run_point ` set rs"
      then obtain r where "r \<in> set rs" "entry_point e = run_point r" by blast
      with key [OF that, of r] show "entry_key e \<in> run_key ` set rs" by force
    qed
    then show ?thesis by blast
  qed
  have sub: "run_point ` set rs \<subseteq> entry_point ` set (pi_matrix p)" using ok(2) by auto
  show ?thesis
  proof
    assume "distinct (map run_key rs) \<and> entry_key ` set (pi_matrix p) \<subseteq> run_key ` set rs"
    then have "distinct (map run_point rs)" "set (map run_point rs) = set (map entry_point (pi_matrix p))"
      using dist cover sub by auto
    then show "mset (map run_point rs) = mset (map entry_point (pi_matrix p))"
      using dk set_eq_iff_mset_eq_distinct by blast
  next
    assume m: "mset (map run_point rs) = mset (map entry_point (pi_matrix p))"
    then have "distinct (map run_point rs)" using dk by (metis mset_eq_imp_distinct_iff)
    moreover have "set (map run_point rs) = set (map entry_point (pi_matrix p))"
      using m by (rule mset_eq_setD)
    ultimately show "distinct (map run_key rs) \<and> entry_key ` set (pi_matrix p) \<subseteq> run_key ` set rs"
      using dist cover by auto
  qed
qed

lemma Aggregate_iff:
  assumes rng: "enumerates rng"
  shows "Aggregate rng p runs = Inr res \<longleftrightarrow> aggregate_ok p runs \<and>
     res = \<lparr>ag_schema = ''dhnt.aggregate/v1'', ag_pipeline = pi_name p, ag_result = ''pass'',
            ag_runs = sort (map ru_run runs)\<rparr>"
proof (cases "pipeline_ok p")
  case False
  then show ?thesis
    using validatePipeline_None [OF rng, of p] by (auto simp: Aggregate_def aggregate_ok_def split: option.split)
next
  case p: True
  then have v: "validatePipeline rng p = None" by (simp add: validatePipeline_None [OF rng])
  let ?st0 = "\<lparr>as_seen = [], as_ids = [], as_accepted = []\<rparr>"
  note sc = evidence_scan [OF p, of 0 ?st0 runs]
  have ok: "aggregate_ok p runs \<longleftrightarrow> distinct (map ru_run runs) \<and> (\<forall>r\<in>set runs. admissible p r) \<and>
      distinct (map run_key runs) \<and> entry_key ` set (pi_matrix p) \<subseteq> run_key ` set runs"
    using p points_match [OF p] by (auto simp: aggregate_ok_def admissible_def)
  have keys: "fst ` set (expected_entries p) = entry_key ` set (pi_matrix p)"
    by (simp add: expected_entries_eq [OF p] image_image)
  show ?thesis
  proof (cases "scan (evidence_step p) 0 ?st0 runs")
    case (Inl e)
    then show ?thesis using sc(1) ok by (auto simp: Aggregate_def v)
  next
    case (Inr st)
    then have seen: "set (as_seen st) = run_key ` set runs" "as_accepted st = map ru_run runs"
      using sc(2) by auto
    have acc: "(\<forall>r\<in>set runs. admissible p r) \<and> distinct (map run_key runs) \<and> distinct (map ru_run runs)"
      using Inr sc(1) by auto
    have "each_from (\<lambda>_ key. refuse (key \<notin> set (as_seen st)) (Bad ''missing evidence'' (Unknown key))) 0
        (rng 4 (map fst (expected_entries p))) = None \<longleftrightarrow> entry_key ` set (pi_matrix p) \<subseteq> run_key ` set runs"
      by (auto simp: each_from_accept [OF refuse_None] enumerates_set [OF rng] keys seen)
    then show ?thesis
      using acc ok by (auto simp: Aggregate_def v Inr seen sortedStrings_def split: option.split)
  qed
qed

end
