(* ===== verification/Dhnt_Properties.thy ===== *)
theory Dhnt_Properties
  imports Dhnt_Aggregate
begin

text \<open>
  The properties of the evidence contracts of \<open>dhnt/\<close>, with a concrete pipeline of one task and
  a run that attests it, at which the conditional ones are applied.
\<close>

section \<open>A sample pipeline and its run\<close>

definition sample_source :: source where
  "sample_source = \<lparr>s_repository = ''r'', s_commit = ''c'', s_sha256 = replicate 64 (CHR ''a'')\<rparr>"

definition sample_artifact :: "string \<Rightarrow> artifact" where
  "sample_artifact n = \<lparr>a_name = n, a_kind = [], a_algorithm = [], a_sha256 = replicate 64 (CHR ''b'')\<rparr>"

definition sample_task :: "string \<Rightarrow> string list \<Rightarrow> task" where
  "sample_task i ns = \<lparr>t_id = i, t_lane = ''cluster'', t_distribution = ''single'', t_needs = ns, t_argv = [''x''],
     t_workdir = ''.'', t_environment = [], t_placement = None, t_reducer = []\<rparr>"

definition sample_platform :: platform where
  "sample_platform = \<lparr>p_backend = ''k3s'', p_os = ''linux'', p_arch = ''arm64''\<rparr>"

definition sample_entry :: "string \<Rightarrow> matrix_entry" where
  "sample_entry i = \<lparr>m_task = i, m_platform = sample_platform, m_chunk = None,
     m_inputs = [sample_artifact ''i''], m_outputs = [sample_artifact ''o'', sample_artifact ''p'']\<rparr>"

definition sample_pipeline :: pipeline where
  "sample_pipeline = \<lparr>pi_schema = PipelineSchema, pi_name = ''ci'', pi_source = sample_source,
     pi_tasks = [sample_task ''a'' []], pi_matrix = [sample_entry ''a'']\<rparr>"

definition sample_run :: "string \<Rightarrow> string \<Rightarrow> run" where
  "sample_run i n = \<lparr>ru_schema = RunSchema, ru_pipeline = ''ci'', ru_task = i, ru_run = n, ru_source = sample_source,
     ru_inputs = [sample_artifact ''i''],
     ru_executor = \<lparr>x_node = ''n'', x_backend = ''k3s'', x_os = ''linux'', x_arch = ''arm64''\<rparr>,
     ru_result = \<lparr>r_class = ''pass'', r_exit = Some 0\<rparr>,
     ru_outputs = [sample_artifact ''p'', sample_artifact ''o''], ru_commit = None,
     ru_started = ''2025-01-02T03:04:05Z'', ru_finished = ''2025-01-02T03:04:05Z'', ru_trace = replicate 32 (CHR ''c'')\<rparr>"


lemma enumerates_id [simp]: "enumerates (\<lambda>_ ks. ks)" by (simp add: enumerates_def)

lemma sample_ids: "identifierRE ''a''" "identifierRE ''i''" "identifierRE ''o''" "identifierRE ''p''" "identifierRE ''ci''" "identifierRE ''r1''"
  by (simp_all add: identifierRE_def alnum_def digit_def byte_def)

lemma sample_digest: "sha256RE (replicate 64 (CHR ''a''))" "sha256RE (replicate 64 (CHR ''b''))"
  by (simp_all add: sha256RE_def hex_lower_def digit_def byte_def list_all_iff)

lemma sample_trim: "trim_space ''r'' \<noteq> []" "trim_space ''c'' \<noteq> []" "trim_space ''n'' \<noteq> []"
  by (simp_all add: trim_space_word byte_def)

lemma sample_source_ok: "source_ok sample_source"
  by (simp add: source_ok_def sample_source_def sample_trim sample_digest nul_def)

lemma sample_arts: "artifacts_ok PipelineSchema [sample_artifact ''i'']" "artifacts_ok PipelineSchema [sample_artifact ''o'', sample_artifact ''p'']"
   "artifacts_ok RunSchema [sample_artifact ''i'']" "artifacts_ok RunSchema [sample_artifact ''p'', sample_artifact ''o'']"
  by (simp_all add: artifacts_ok_def sample_artifact_def artifact_ok_def typed_ok_def sample_ids sample_digest)

lemma sample_dot: "inside_path ''.''" "\<not> drive_letter ''.''"
  by (simp_all add: inside_path_def drive_letter_def)

lemma sample_acyclic: "acyclic (dependencies [(i, sample_task i [])])"
proof -
  have "dependencies [(i, sample_task i [])] = {}"
    by (auto simp: dependencies_def depends_def needs_of_def sample_task_def)
  then show ?thesis by (simp add: acyclic_def)
qed

lemma sample_pipeline_ok: "pipeline_ok sample_pipeline"
proof -
  have t: "task_ok (sample_task ''a'' [])"
    by (simp add: sample_task_def task_ok_def sample_ids Lanes_def Distributions_def sample_dot nul_def env_ok_def)
  have e: "entry_ok PipelineSchema [(''a'', sample_task ''a'' [])] (sample_entry ''a'')"
    by (simp add: sample_entry_def entry_ok_def sample_platform_def platform_ok_def sample_arts sample_task_def)
  show ?thesis
    using t e sample_acyclic [of "''a''"]
    by (simp add: pipeline_ok_def sample_pipeline_def sample_source_ok sample_ids task_map_def same_chunk_def)
      (simp add: sample_task_def sample_entry_def schema_task_ok_def)
qed

lemma sample_times: "instant ''2025-01-02T03:04:05Z'' = Some 1735787045000000000"
  by (simp add: instant_def has_suffix_def parse_rfc3339_z_def digit_def byte_def dval_def
     long_year_def in_range_def frac_seconds_def epoch_days_def days_in_def leap_def)

lemma sample_run_ok: "run_ok (sample_run ''a'' ''r1'')"
  by (simp add: run_ok_def sample_run_def sample_ids sample_source_ok sample_arts commit_ok_def sample_trim nul_def
   executor_platform_def platform_ok_def result_ok_def ResultClasses_def sample_times traceIDRE_def list_all_iff hex_lower_def digit_def byte_def)

section \<open>Properties\<close>

text \<open>C1. \<open>Pipeline.Validate\<close> returns nil exactly on the pipelines that meet the contract: known schema,
  valid fields, unique tasks with resolved acyclic needs, a matrix of distinct valid entries that
  covers every task with consistent chunk identities and, in v2, complete reducer groups. In
  whichever order Go ranges over its maps, the verdict is the same.\<close>

theorem Pipeline_Validate_correct:
  assumes "enumerates rng"
  shows "validatePipeline rng p = None \<longleftrightarrow> pipeline_ok p"
  using assms by (rule validatePipeline_None)

lemma Pipeline_Validate_witness: "validatePipeline (\<lambda>_ ks. ks) sample_pipeline = None"
  using Pipeline_Validate_correct [OF enumerates_id, of sample_pipeline] sample_pipeline_ok by simp

text \<open>C2. \<open>Aggregate\<close> reports a pass exactly when the pipeline is valid and the runs are one-for-one
  evidence for its matrix: each run valid, of the right schema, pipeline and source, passing, with
  the inputs and outputs its entry declares, no task and platform missing, repeated or extra, and
  no run identity used twice. The result lists the identities in order.\<close>

theorem Aggregate_gate:
  assumes "enumerates rng"
  shows "Aggregate rng p runs = Inr res \<longleftrightarrow> aggregate_ok p runs \<and>
     res = \<lparr>ag_schema = ''dhnt.aggregate/v1'', ag_pipeline = pi_name p, ag_result = ''pass'',
            ag_runs = sort (map ru_run runs)\<rparr>"
  using assms by (rule Aggregate_iff)

lemma sample_aggregate_ok: "aggregate_ok sample_pipeline [sample_run ''a'' ''r1'']"
proof -
  have "evidence_for sample_pipeline (sample_entry ''a'') (sample_run ''a'' ''r1'')"
    unfolding evidence_for_def using sample_run_ok
    by (auto simp: sample_run_def sample_pipeline_def sample_entry_def run_point_def entry_point_def
          expected_schema_def executor_platform_def sample_platform_def)
  then show ?thesis
    unfolding aggregate_ok_def using sample_pipeline_ok
    by (simp add: sample_pipeline_def)
      (simp add: sample_run_def sample_entry_def run_point_def entry_point_def executor_platform_def sample_platform_def)
qed

lemma Aggregate_gate_witness:
  "Aggregate (\<lambda>_ ks. ks) sample_pipeline [sample_run ''a'' ''r1''] = Inr
     \<lparr>ag_schema = ''dhnt.aggregate/v1'', ag_pipeline = ''ci'', ag_result = ''pass'', ag_runs = [''r1'']\<rparr>"
  using Aggregate_gate [OF enumerates_id, of sample_pipeline "[sample_run ''a'' ''r1'']"] sample_aggregate_ok
  by (simp add: sample_pipeline_def sample_run_def)

text \<open>C34. \<open>Run.Validate\<close> returns nil exactly on the runs whose fields are well formed, whose result
  class agrees with the exit code, whose times are UTC and in order and, in v2, whose output commit
  is present exactly on a pass and is the digest of the canonical manifest of the outputs.\<close>

theorem Run_Validate_correct: "validateRun r = None \<longleftrightarrow> run_ok r"
  by (rule validateRun_None)

text \<open>The canonical output manifest names the set of outputs: two validated output lists have the
  same bytes, hence the same commit preimage, exactly when they hold the same artifacts, whatever
  their order.\<close>

theorem manifest_names_outputs:
  assumes "artifacts_ok RunSchemaV2 xs" and "artifacts_ok RunSchemaV2 ys"
  shows "MarshalOutputCommitManifest xs = MarshalOutputCommitManifest ys \<longleftrightarrow> set xs = set ys"
  using assms json_manifest_inject [OF assms]
  by (simp add: MarshalOutputCommitManifest_def validateArtifacts_None [THEN iffD2] validateArtifacts_None
        option.case_eq_if)

definition sample_v2 :: "string \<Rightarrow> artifact" where
  "sample_v2 n = \<lparr>a_name = n, a_kind = ''file'', a_algorithm = DigestSHA256FileV1, a_sha256 = replicate 64 (CHR ''b'')\<rparr>"

lemma sample_v2_ok: "artifacts_ok RunSchemaV2 [sample_v2 ''o'', sample_v2 ''p'']" "artifacts_ok RunSchemaV2 [sample_v2 ''p'', sample_v2 ''o'']"
  by (simp_all add: artifacts_ok_def sample_v2_def artifact_ok_def typed_ok_def sample_ids sample_digest)

lemma manifest_names_outputs_witness:
  "MarshalOutputCommitManifest [sample_v2 ''o'', sample_v2 ''p''] = MarshalOutputCommitManifest [sample_v2 ''p'', sample_v2 ''o'']"
  by (subst manifest_names_outputs [OF sample_v2_ok]) auto

text \<open>The aggregate of a set of runs does not depend on the order in which they are given, nor on
  Go's map order: a permuted list of runs passes with the same result.\<close>

theorem Aggregate_order:
  assumes "enumerates rng" and "enumerates rng'" and "mset runs = mset runs'"
  shows "Aggregate rng p runs = Inr res \<longleftrightarrow> Aggregate rng' p runs' = Inr res"
proof -
  have m: "mset (map f runs) = mset (map f runs')" for f :: "run \<Rightarrow> 'b"
    using assms(3) by simp
  have "aggregate_ok p runs \<longleftrightarrow> aggregate_ok p runs'"
    using m [of run_point] mset_eq_setD [OF assms(3)] mset_eq_imp_distinct_iff [OF m [of ru_run]]
    by (simp add: aggregate_ok_def)
  moreover have "sort (map ru_run runs) = sort (map ru_run runs')"
    using m [of ru_run] by (metis sorted_list_of_multiset_mset)
  ultimately show ?thesis by (simp only: Aggregate_iff [OF assms(1)] Aggregate_iff [OF assms(2)])
qed

lemma Aggregate_order_witness:
  "Aggregate (\<lambda>_. rev) sample_pipeline [sample_run ''a'' ''r1''] = Inr
     \<lparr>ag_schema = ''dhnt.aggregate/v1'', ag_pipeline = ''ci'', ag_result = ''pass'', ag_runs = [''r1'']\<rparr>"
proof -
  have "enumerates (\<lambda>_. rev)" by (simp add: enumerates_def)
  then show ?thesis
    using Aggregate_order [OF enumerates_id, of "\<lambda>_. rev" "[sample_run ''a'' ''r1'']" "[sample_run ''a'' ''r1'']" sample_pipeline]
      Aggregate_iff [OF enumerates_id, of sample_pipeline "[sample_run ''a'' ''r1'']"] sample_aggregate_ok
    by (simp add: sample_pipeline_def sample_run_def)
qed

text \<open>C32. A passing v2 aggregate proves the declared outputs: every matrix entry has a run whose output
  commit is the SHA-256 of the canonical manifest of the outputs the pipeline declares for it.\<close>

theorem Aggregate_v2_commits:
  assumes "enumerates rng" and "Aggregate rng p runs = Inr res" and "pi_schema p = PipelineSchemaV2"
    and "e \<in> set (pi_matrix p)"
  shows "\<exists>r\<in>set runs. ru_task r = m_task e \<and> executor_platform (ru_executor r) = m_platform e \<and>
     (\<exists>c. ru_commit r = Some c \<and> oc_sha256 c = sha256_hex (json_manifest (sortedArtifacts (m_outputs e))))"
proof -
  have ok: "aggregate_ok p runs" using assms(1,2) by (simp add: Aggregate_iff)
  then have "set (map run_point runs) = set (map entry_point (pi_matrix p))"
    by (intro mset_eq_setD) (simp only: aggregate_ok_def)
  with assms(4) obtain r where r: "r \<in> set runs" "run_point r = entry_point e"
    by (metis (no_types, lifting) imageE imageI set_map)
  with ok obtain d where d: "d \<in> set (pi_matrix p)" "evidence_for p d r" by (auto simp: aggregate_ok_def)
  have "distinct (map entry_point (pi_matrix p))"
    using ok unfolding aggregate_ok_def pipeline_ok_def entry_point_def by blast
  then have "d = e" using d r assms(4) by (auto simp: evidence_for_def distinct_map dest: inj_onD)
  with d have run: "run_ok r" "ru_schema r = RunSchemaV2" "r_class (ru_result r) = ''pass''" "set (ru_outputs r) = set (m_outputs e)"
    using assms(3) by (auto simp: evidence_for_def expected_schema_def)
  then obtain c where c: "ru_commit r = Some c" "NewOutputCommit (ru_outputs r) = Inr c"
    by (auto simp: run_ok_def commit_ok_def)
  have "distinct (map a_name (m_outputs e))" "distinct (map a_name (ru_outputs r))"
    using ok assms(4) run(1) by (auto simp: aggregate_ok_def pipeline_ok_def entry_ok_def artifacts_ok_def run_ok_def)
  then have "sortedArtifacts (ru_outputs r) = sortedArtifacts (m_outputs e)"
    using run(4) by (simp add: sortedArtifacts_eq)
  with c r show ?thesis by (auto simp: NewOutputCommit_Inr run_point_def entry_point_def)
qed

text \<open>The same pipeline under the v2 schemas.\<close>

definition sample_entry2 :: matrix_entry where
  "sample_entry2 = \<lparr>m_task = ''a'', m_platform = sample_platform, m_chunk = None,
     m_inputs = [sample_v2 ''o''], m_outputs = [sample_v2 ''o'', sample_v2 ''p'']\<rparr>"

definition sample_pipeline2 :: pipeline where
  "sample_pipeline2 = sample_pipeline\<lparr>pi_schema := PipelineSchemaV2, pi_matrix := [sample_entry2]\<rparr>"

definition sample_run2 :: run where
  "sample_run2 = (sample_run ''a'' ''r1'')\<lparr>ru_schema := RunSchemaV2, ru_inputs := [sample_v2 ''o''],
     ru_outputs := [sample_v2 ''p'', sample_v2 ''o''],
     ru_commit := Some \<lparr>oc_schema = OutputCommitSchema, oc_algorithm = DigestSHA256OutputCommitV1,
       oc_sha256 = sha256_hex (json_manifest (sortedArtifacts [sample_v2 ''p'', sample_v2 ''o'']))\<rparr>\<rparr>"

lemma sample_arts2:
  "artifacts_ok PipelineSchemaV2 [sample_v2 ''o'']" "artifacts_ok PipelineSchemaV2 [sample_v2 ''o'', sample_v2 ''p'']"
  "artifacts_ok RunSchemaV2 [sample_v2 ''o'']"
  by (simp_all add: artifacts_ok_def sample_v2_def artifact_ok_def typed_ok_def sample_ids sample_digest)

lemma sample_pipeline2_ok: "pipeline_ok sample_pipeline2"
proof -
  have t: "task_ok (sample_task ''a'' [])"
    by (simp add: sample_task_def task_ok_def sample_ids Lanes_def Distributions_def sample_dot nul_def env_ok_def)
  have e: "entry_ok PipelineSchemaV2 [(''a'', sample_task ''a'' [])] sample_entry2"
    by (simp add: sample_entry2_def entry_ok_def sample_platform_def platform_ok_def sample_arts2 sample_task_def)
  have "reduce_ok ts {}" for ts by (simp add: reduce_ok_def)
  moreover have "shards sample_pipeline2 = {}"
    by (simp add: shards_def sample_pipeline2_def sample_entry2_def)
  ultimately show ?thesis
    using t e sample_acyclic [of "''a''"]
    by (simp add: pipeline_ok_def sample_pipeline2_def sample_pipeline_def sample_source_ok sample_ids task_map_def same_chunk_def)
      (simp add: sample_task_def sample_entry2_def schema_task_ok_def nonsecret_env_def placement_ok_def)
qed

lemma sample_run2_ok: "run_ok sample_run2"
  using sample_run_ok
  by (simp add: run_ok_def sample_run2_def sample_arts2 sample_v2_ok commit_ok_def NewOutputCommit_Inr)
    (simp add: sample_run_def)

lemma sample_aggregate2_ok: "aggregate_ok sample_pipeline2 [sample_run2]"
proof -
  have "evidence_for sample_pipeline2 sample_entry2 sample_run2"
    unfolding evidence_for_def using sample_run2_ok
    by (auto simp: sample_run2_def sample_run_def sample_pipeline2_def sample_pipeline_def sample_entry2_def
          run_point_def entry_point_def expected_schema_def executor_platform_def sample_platform_def)
  then show ?thesis
    unfolding aggregate_ok_def using sample_pipeline2_ok
    by (simp add: sample_pipeline2_def)
      (simp add: sample_run2_def sample_run_def sample_entry2_def run_point_def entry_point_def executor_platform_def sample_platform_def)
qed

lemma Aggregate_v2_commits_witness:
  "\<exists>r\<in>set [sample_run2]. ru_task r = ''a'' \<and> executor_platform (ru_executor r) = sample_platform \<and>
     (\<exists>c. ru_commit r = Some c \<and>
        oc_sha256 c = sha256_hex (json_manifest (sortedArtifacts [sample_v2 ''o'', sample_v2 ''p''])))"
proof -
  have a: "\<exists>res. Aggregate (\<lambda>_ ks. ks) sample_pipeline2 [sample_run2] = Inr res"
    by (simp add: Aggregate_iff [OF enumerates_id] sample_aggregate2_ok)
  have m: "pi_schema sample_pipeline2 = PipelineSchemaV2" "sample_entry2 \<in> set (pi_matrix sample_pipeline2)"
    by (simp_all add: sample_pipeline2_def)
  from a obtain res where "Aggregate (\<lambda>_ ks. ks) sample_pipeline2 [sample_run2] = Inr res" by blast
  from Aggregate_v2_commits [OF enumerates_id this m] show ?thesis by (simp add: sample_entry2_def)
qed

text \<open>The cycle search terminates, accepts exactly the acyclic dependency graphs, and the task
  it names in its error lies on a dependency cycle.\<close>

theorem validateAcyclic_correct:
  assumes "set order = fst ` set tasks"
  shows "(validateAcyclic tasks order = None \<longleftrightarrow> acyclic (dependencies tasks)) \<and>
     (\<forall>e. validateAcyclic tasks order = Some e \<longrightarrow>
        (\<exists>c. e = Bad ''tasks'' (Cycle c) \<and> (c, c) \<in> (dependencies tasks)\<^sup>+))"
  using assms by (simp add: validateAcyclic_None validateAcyclic_error)

lemma validateAcyclic_correct_witness:
  "validateAcyclic [(''a'', sample_task ''a'' [''b'']), (''b'', sample_task ''b'' [''a''])] [''a'', ''b''] = Some (Bad ''tasks'' (Cycle ''a'')) \<and>
   (''a'', ''a'') \<in> (dependencies [(''a'', sample_task ''a'' [''b'']), (''b'', sample_task ''b'' [''a''])])\<^sup>+"
proof -
  let ?ts = "[(''a'', sample_task ''a'' [''b'']), (''b'', sample_task ''b'' [''a''])]"
  have run: "validateAcyclic ?ts [''a'', ''b''] = Some (Bad ''tasks'' (Cycle ''a''))"
    by (simp add: validateAcyclic_def needs_of_def sample_task_def)
  with validateAcyclic_correct [of "[''a'', ''b'']" ?ts] show ?thesis by auto
qed

end
