(* ===== verification/Dhnt_Surrogates.thy ===== *)
theory Dhnt_Surrogates
  imports Dhnt_Types
begin

text \<open>
  The surrogate check of the strict decoder (\<open>validateJSONSurrogates\<close>, \<open>parseHex4\<close> in
  \<open>dhnt/contract.go\<close>): the loop over byte positions, and the proof that it accepts exactly the texts whose
  escapes pair every high surrogate with the low one after it.
\<close>

section \<open>The loop\<close>

abbreviation "bslash \<equiv> CHR 0x5C"

definition hex_value :: "char \<Rightarrow> nat" where
  "hex_value c = (let b = byte c in
     if 48 \<le> b \<and> b \<le> 57 then b - 48 else if 97 \<le> b \<and> b \<le> 102 then b - 87 else if 65 \<le> b \<and> b \<le> 70 then b - 55 else 0)"

definition parseHex4 :: "string \<Rightarrow> nat" where
  "parseHex4 b = fold (\<lambda>i r. r * 16 + hex_value (b ! i)) [0..<4] 0"

definition simple_escape :: "char \<Rightarrow> bool" where
  "simple_escape c \<longleftrightarrow> c \<in> set [bslash, CHR 0x22, CHR ''/'', CHR ''b'', CHR ''f'', CHR ''n'', CHR ''r'', CHR ''t'']"

definition slash_count :: "string \<Rightarrow> nat \<Rightarrow> nat" where
  "slash_count data j = length (takeWhile (\<lambda>c. c = bslash) (rev (take j data)))"

definition follows_high :: "string \<Rightarrow> nat \<Rightarrow> bool" where
  "follows_high data i \<longleftrightarrow> i \<ge> 6 \<and> data ! (i - 6) = bslash \<and> data ! (i - 5) = CHR ''u'' \<and> even (slash_count data (i - 6)) \<and>
     (let prev = parseHex4 (drop (i - 4) data) in 0xD800 \<le> prev \<and> prev \<le> 0xDBFF)"

function surrogates_from :: "string \<Rightarrow> nat \<Rightarrow> verr option" where
  "surrogates_from data i =
     (if i \<ge> length data then None
      else if data ! i \<noteq> bslash then surrogates_from data (i + 1)
      else if i + 1 \<ge> length data then surrogates_from data (i + 1)
      else if simple_escape (data ! (i + 1)) then surrogates_from data (i + 2)
      else if data ! (i + 1) \<noteq> CHR ''u'' then surrogates_from data (i + 1)
      else if i + 5 \<ge> length data then surrogates_from data (i + 1)
      else let r = parseHex4 (drop (i + 2) data) in
        if r < 0xD800 \<or> r > 0xDFFF then surrogates_from data (i + 1)
        else if r \<le> 0xDBFF then
          (if i + 12 > length data \<or> data ! (i + 6) \<noteq> bslash \<or> data ! (i + 7) \<noteq> CHR ''u'' then Some (Bad ''malformed JSON'' (Unknown ''surrogate''))
           else let follow = parseHex4 (drop (i + 8) data) in
             if follow < 0xDC00 \<or> follow > 0xDFFF then Some (Bad ''malformed JSON'' (Unknown ''surrogate''))
             else surrogates_from data (i + 12))
        else if follows_high data i then surrogates_from data (i + 1)
        else Some (Bad ''malformed JSON'' (Unknown ''surrogate'')))"
  by pat_completeness auto
termination by (relation "measure (\<lambda>(data, i). length data - i)") auto

declare surrogates_from.simps [simp del]

definition validateJSONSurrogates :: "string \<Rightarrow> verr option" where
  "validateJSONSurrogates data = surrogates_from data 0"

section \<open>Texts with complete escapes\<close>

text \<open>A text is a sequence of bytes that are no backslash, escapes of one byte and \<open>u\<close>-escapes of four hex
  digits. This is what the JSON grammar admits; other texts the JSON reader refuses.\<close>

datatype piece = Plain char | Escape char | Unicode string

fun piece_text :: "piece \<Rightarrow> string" where
  "piece_text (Plain c) = [c]"
| "piece_text (Escape c) = [bslash, c]"
| "piece_text (Unicode h) = bslash # CHR ''u'' # h"

definition hex_digit_char :: "char \<Rightarrow> bool" where
  "hex_digit_char c \<longleftrightarrow> (let b = byte c in 48 \<le> b \<and> b \<le> 57 \<or> 97 \<le> b \<and> b \<le> 102 \<or> 65 \<le> b \<and> b \<le> 70)"

fun piece_ok :: "piece \<Rightarrow> bool" where
  "piece_ok (Plain c) \<longleftrightarrow> c \<noteq> bslash"
| "piece_ok (Escape c) \<longleftrightarrow> simple_escape c"
| "piece_ok (Unicode h) \<longleftrightarrow> length h = 4 \<and> list_all hex_digit_char h"

definition text_of :: "piece list \<Rightarrow> string" where
  "text_of ps = concat (map piece_text ps)"

definition high_half :: "string \<Rightarrow> bool" where
  "high_half h \<longleftrightarrow> 0xD800 \<le> parseHex4 h \<and> parseHex4 h \<le> 0xDBFF"

definition low_half :: "string \<Rightarrow> bool" where
  "low_half h \<longleftrightarrow> 0xDC00 \<le> parseHex4 h \<and> parseHex4 h \<le> 0xDFFF"

text \<open>Every high half is followed by a low one, and no low half stands alone.\<close>

fun paired :: "piece list \<Rightarrow> bool" where
  "paired [] \<longleftrightarrow> True"
| "paired (Unicode h # ps) \<longleftrightarrow>
     (if high_half h then (case ps of Unicode l # qs \<Rightarrow> low_half l \<and> paired qs | _ \<Rightarrow> False)
      else \<not> low_half h \<and> paired ps)"
| "paired (Plain _ # ps) \<longleftrightarrow> paired ps"
| "paired (Escape _ # ps) \<longleftrightarrow> paired ps"

section \<open>The loop accepts the paired texts\<close>

lemma text_of_simps [simp]: "text_of [] = []" "text_of (p # ps) = piece_text p @ text_of ps"
  "text_of (ps @ qs) = text_of ps @ text_of qs"
  by (simp_all add: text_of_def)

lemma parseHex4_prefix: "length h = 4 \<Longrightarrow> parseHex4 (h @ s) = parseHex4 h"
  by (simp add: parseHex4_def nth_append upt_rec)

lemma hex_no_slash: "piece_ok (Unicode h) \<Longrightarrow> bslash \<notin> set h"
  by (auto simp: list_all_iff hex_digit_char_def byte_def)

text \<open>The bytes of a \<open>u\<close>-escape after the backslash are passed one by one.\<close>

lemma surrogates_skip:
  assumes "\<And>c. c \<in> set w \<Longrightarrow> c \<noteq> bslash"
  shows "surrogates_from (pre @ w @ s) (length pre) = surrogates_from (pre @ w @ s) (length (pre @ w))"
  using assms
proof (induction w arbitrary: pre)
  case (Cons c w)
  have "surrogates_from (pre @ (c # w) @ s) (length pre) = surrogates_from (pre @ (c # w) @ s) (length pre + 1)"
    using Cons.prems by (subst surrogates_from.simps) (simp add: nth_append)
  also have "\<dots> = surrogates_from (pre @ (c # w) @ s) (length (pre @ c # w))"
    using Cons.IH [of "pre @ [c]"] Cons.prems by simp
  finally show ?case .
qed simp

text \<open>A text of whole pieces ends in an even number of backslashes.\<close>

definition tail_slashes :: "string \<Rightarrow> nat" where
  "tail_slashes s = length (takeWhile (\<lambda>c. c = bslash) (rev s))"

lemma tail_slashes_snoc: "tail_slashes (s @ [c]) = (if c = bslash then Suc (tail_slashes s) else 0)"
  by (simp add: tail_slashes_def)

lemma even_tail: "list_all piece_ok ps \<Longrightarrow> even (tail_slashes (text_of ps))"
proof (induction ps rule: rev_induct)
  case Nil
  show ?case by (simp add: tail_slashes_def)
next
  case (snoc p ps)
  show ?case
  proof (cases p)
    case (Plain c)
    then show ?thesis using snoc by (simp add: tail_slashes_snoc)
  next
    case (Escape c)
    have "tail_slashes (text_of ps @ [bslash, c]) = tail_slashes ((text_of ps @ [bslash]) @ [c])" by simp
    then show ?thesis using snoc Escape by (simp only: tail_slashes_snoc) auto
  next
    case (Unicode h)
    then have "bslash \<notin> set h" "h \<noteq> []" using snoc.prems hex_no_slash [of h] by auto
    then have h: "h \<noteq> []" "last h \<noteq> bslash" by (metis last_in_set)+
    then have "text_of ps @ bslash # CHR ''u'' # h = (text_of ps @ bslash # CHR ''u'' # butlast h) @ [last h]" by simp
    then show ?thesis using Unicode h(2) by (simp only: text_of_simps piece_text.simps append_Nil2 tail_slashes_snoc) simp
  qed
qed

text \<open>A cut through a text falls between two pieces or inside one.\<close>

lemma text_cut:
  assumes "text_of ps = A @ B"
  obtains (between) qs rs where "ps = qs @ rs" "A = text_of qs" "B = text_of rs"
  | (inside) qs p rs x y where "ps = qs @ p # rs" "A = text_of qs @ x" "piece_text p = x @ y" "x \<noteq> []" "y \<noteq> []" "B = y @ text_of rs"
  using assms
proof (induction ps arbitrary: A thesis)
  case Nil
  then show ?case by (metis append_Nil append_is_Nil_conv text_of_simps(1))
next
  case (Cons p ps)
  from Cons.prems(3) have "piece_text p @ text_of ps = A @ B" by simp
  then consider us where "piece_text p = A @ us" "us @ text_of ps = B" | us where "A = piece_text p @ us" "text_of ps = us @ B"
    unfolding append_eq_append_conv2 by blast
  then show ?case
  proof cases
    case (1 us)
    show ?thesis
    proof (cases "us = [] \<or> A = []")
      case True
      then show ?thesis
        using 1 Cons.prems(1) [of "[p]" ps] Cons.prems(1) [of "[]" "p # ps"] by auto
    next
      case False
      then show ?thesis using 1 Cons.prems(2) [of "[]" p ps A us] by auto
    qed
  next
    case (2 us)
    show ?thesis
    proof (rule Cons.IH [OF _ _ 2(2)])
      fix qs rs assume "ps = qs @ rs" "us = text_of qs" "B = text_of rs"
      then show thesis using 2(1) Cons.prems(1) [of "p # qs" rs] by simp
    next
      fix qs q rs x y
      assume "ps = qs @ q # rs" "us = text_of qs @ x" "piece_text q = x @ y" "x \<noteq> []" "y \<noteq> []" "B = y @ text_of rs"
      then show thesis using 2(1) Cons.prems(2) [of "p # qs" q rs x y] by simp
    qed
  qed
qed

text \<open>So the look-back of the loop sees a \<open>u\<close>-escape only where there is one.\<close>

lemma first_unicode:
  assumes "list_all piece_ok rs" "text_of rs = bslash # CHR ''u'' # h @ s" "length h = 4"
  obtains qs where "rs = Unicode h # qs" "text_of qs = s"
proof (cases rs)
  case (Cons p qs)
  with assms show ?thesis using that by (cases p) (auto simp: simple_escape_def)
qed (use assms in simp)

lemma last_unicode:
  assumes "list_all piece_ok ps" "text_of ps = A @ bslash # CHR ''u'' # h" "even (tail_slashes A)" "length h = 4"
  shows "\<exists>qs. ps = qs @ [Unicode h]"
  using assms(2)
proof (cases rule: text_cut)
  case (between qs rs)
  with assms obtain us where "rs = Unicode h # us" "text_of us = []"
    using first_unicode [of rs h "[]"] by (metis append_Nil2 list_all_append)
  moreover from this have "us = []" by (cases us; cases "hd us") auto
  ultimately show ?thesis using between by blast
next
  case (inside qs p rs x y)
  have ok: "list_all piece_ok qs" "piece_ok p" using assms(1) inside(1) by auto
  have y: "hd y = bslash" using inside(5,6) by (cases y) auto
  show ?thesis
  proof (cases p)
    case (Escape c)
    with inside have "x = [bslash]" by (cases x; cases "tl x") auto
    then have "tail_slashes A = Suc (tail_slashes (text_of qs))" using inside(2) by (simp add: tail_slashes_snoc)
    with even_tail [OF ok(1)] assms(3) show ?thesis by simp
  next
    case (Unicode g)
    then have "bslash \<notin> set (tl (piece_text p))" using ok(2) hex_no_slash by auto
    moreover have "hd y \<in> set (tl (piece_text p))" using inside(3-5) by (cases x) auto
    ultimately show ?thesis using y by simp
  next
    case (Plain c)
    with inside(3-5) show ?thesis by (cases x; cases y) auto
  qed
qed

lemma no_follows_high:
  assumes "list_all piece_ok ps" "\<And>qs g. ps = qs @ [Unicode g] \<Longrightarrow> \<not> high_half g"
  shows "\<not> follows_high (text_of ps @ s) (length (text_of ps))"
proof
  let ?t = "text_of ps" let ?i = "length ?t"
  assume f: "follows_high (?t @ s) ?i"
  then have i: "6 \<le> ?i" by (simp add: follows_high_def)
  let ?A = "take (?i - 6) ?t" and ?h = "drop (?i - 4) ?t"
  have len: "length ?h = 4" using i by simp
  obtain k where k: "?i = k + 6" using i by (metis add.commute le_Suc_ex)
  have "?t = take k ?t @ ?t ! k # ?t ! Suc k # drop (Suc (Suc k)) ?t"
    using k id_take_nth_drop [of k ?t] Cons_nth_drop_Suc [of "Suc k" ?t] by simp
  then have "?t = ?A @ ?t ! (?i - 6) # ?t ! (?i - 5) # ?h" using k by (simp add: eval_nat_numeral)
  moreover have "(?t @ s) ! (?i - 6) = ?t ! (?i - 6)" "(?t @ s) ! (?i - 5) = ?t ! (?i - 5)"
    unfolding k by (simp_all add: nth_append k)
  ultimately have t: "?t = ?A @ bslash # CHR ''u'' # ?h" using f by (simp add: follows_high_def)
  have "slash_count (?t @ s) (?i - 6) = tail_slashes ?A" using i by (simp add: slash_count_def tail_slashes_def)
  with f have "even (tail_slashes ?A)" by (simp add: follows_high_def)
  from last_unicode [OF assms(1) t this len] obtain qs where "ps = qs @ [Unicode ?h]" by blast
  then have "\<not> high_half ?h" by (rule assms(2))
  moreover have "parseHex4 (drop (?i - 4) (?t @ s)) = parseHex4 ?h" using parseHex4_prefix [OF len] by simp
  ultimately show False using f by (simp add: follows_high_def high_half_def Let_def)
qed

text \<open>One turn of the loop at the start of a piece.\<close>

lemma at_plain: "piece_ok (Plain c) \<Longrightarrow> surrogates_from (t @ c # s) (length t) = surrogates_from (t @ c # s) (length (t @ [c]))"
  by (subst surrogates_from.simps) (simp add: nth_append)

lemma at_escape: "piece_ok (Escape c) \<Longrightarrow>
    surrogates_from (t @ bslash # c # s) (length t) = surrogates_from (t @ bslash # c # s) (length (t @ [bslash, c]))"
  by (subst surrogates_from.simps) (simp add: nth_append)

lemma at_unicode:
  assumes "piece_ok (Unicode h)" "data = t @ piece_text (Unicode h) @ s"
  shows "surrogates_from data (length t) =
    (if \<not> high_half h \<and> \<not> low_half h then surrogates_from data (length (t @ piece_text (Unicode h)))
     else if high_half h then
       (if length s < 6 \<or> s ! 0 \<noteq> bslash \<or> s ! 1 \<noteq> CHR ''u'' \<or> \<not> low_half (drop 2 s) then Some (Bad ''malformed JSON'' (Unknown ''surrogate''))
        else surrogates_from data (length (t @ piece_text (Unicode h)) + 6))
     else if follows_high data (length t) then surrogates_from data (length t + 1)
     else Some (Bad ''malformed JSON'' (Unknown ''surrogate'')))"
proof -
  have len: "length h = 4" and d: "data = t @ bslash # CHR ''u'' # h @ s" using assms by simp_all
  have "\<And>c. c \<in> set (CHR ''u'' # h) \<Longrightarrow> c \<noteq> bslash" using hex_no_slash [OF assms(1)] by auto
  from surrogates_skip [of "CHR ''u'' # h" "t @ [bslash]" s, OF this]
  have skip: "surrogates_from data (length t + 1) = surrogates_from data (length (t @ piece_text (Unicode h)))"
    by (simp add: d)
  have hex: "parseHex4 (drop (length t + 2) data) = parseHex4 h" using len by (simp add: d parseHex4_prefix)
  have follow: "drop (length t + 8) data = drop 2 s" using len by (simp add: d)
  have at: "data ! length t = bslash" "data ! (length t + 1) = CHR ''u''" "length t + 1 < length data" "length t + 5 < length data"
    using len by (simp_all add: d nth_append)
  have nxt: "length t + 12 > length data \<longleftrightarrow> length s < 6" using len by (simp add: d)
  have s: "data ! (length t + 6) = s ! 0" "data ! (length t + 7) = s ! 1" using len by (simp_all add: d nth_append nth_Cons' numeral_eq_Suc)
  have pos: "length (t @ piece_text (Unicode h)) + 6 = length t + 12" using len by simp
  have body: "surrogates_from data (length t) =
      (if parseHex4 h < 0xD800 \<or> parseHex4 h > 0xDFFF then surrogates_from data (length t + 1)
       else if parseHex4 h \<le> 0xDBFF then
         (if length s < 6 \<or> s ! 0 \<noteq> bslash \<or> s ! 1 \<noteq> CHR ''u'' then Some (Bad ''malformed JSON'' (Unknown ''surrogate''))
          else if parseHex4 (drop 2 s) < 0xDC00 \<or> parseHex4 (drop 2 s) > 0xDFFF then Some (Bad ''malformed JSON'' (Unknown ''surrogate''))
          else surrogates_from data (length t + 12))
       else if follows_high data (length t) then surrogates_from data (length t + 1)
       else Some (Bad ''malformed JSON'' (Unknown ''surrogate'')))"
    unfolding surrogates_from.simps [of data "length t"] Let_def hex follow nxt s
    using at by (simp add: simple_escape_def)
  consider "parseHex4 h < 0xD800 \<or> parseHex4 h > 0xDFFF" | "0xD800 \<le> parseHex4 h" "parseHex4 h \<le> 0xDBFF"
    | "0xDC00 \<le> parseHex4 h" "parseHex4 h \<le> 0xDFFF" by linarith
  then show ?thesis
    unfolding body pos skip [symmetric] high_half_def low_half_def by cases (auto simp: not_le)
qed

lemma next_unicode:
  assumes "list_all piece_ok qs"
  shows "\<not> (length (text_of qs) < 6 \<or> text_of qs ! 0 \<noteq> bslash \<or> text_of qs ! 1 \<noteq> CHR ''u'' \<or> \<not> low_half (drop 2 (text_of qs))) \<longleftrightarrow>
    (case qs of Unicode l # us \<Rightarrow> low_half l | _ \<Rightarrow> False)"
proof (cases qs)
  case (Cons p us)
  show ?thesis
  proof (cases p)
    case (Plain c)
    then show ?thesis using assms Cons by simp
  next
    case (Escape c)
    then show ?thesis using assms Cons by (auto simp: simple_escape_def)
  next
    case (Unicode l)
    then have "length l = 4" using assms Cons by simp
    then show ?thesis using Cons Unicode by (simp add: low_half_def parseHex4_prefix)
  qed
qed simp

definition settled_end :: "piece list \<Rightarrow> bool" where
  "settled_end ps \<longleftrightarrow> (\<forall>qs g. ps = qs @ [Unicode g] \<longrightarrow> \<not> high_half g)"

lemma settled_end_snoc [simp]: "settled_end (ps @ [p]) \<longleftrightarrow> (case p of Unicode g \<Rightarrow> \<not> high_half g | _ \<Rightarrow> True)" "settled_end []"
  by (auto simp: settled_end_def split: piece.split)

lemma surrogates_paired:
  assumes "list_all piece_ok ps" "list_all piece_ok qs" "settled_end ps"
  shows "surrogates_from (text_of (ps @ qs)) (length (text_of ps)) = None \<longleftrightarrow> paired qs"
  using assms
proof (induction qs arbitrary: ps rule: paired.induct)
  case 1
  show ?case by (subst surrogates_from.simps) simp
next
  case (2 h us)
  let ?data = "text_of (ps @ Unicode h # us)"
  have ok: "piece_ok (Unicode h)" "list_all piece_ok us" using "2.prems" by simp_all
  have d: "?data = text_of ps @ piece_text (Unicode h) @ text_of us" by simp
  have nf: "\<not> follows_high ?data (length (text_of ps))"
    using no_follows_high [OF "2.prems"(1), of "piece_text (Unicode h) @ text_of us"] "2.prems"(3) by (simp add: settled_end_def)
  note turn = at_unicode [OF ok(1) d]
  have excl: "\<not> (high_half h \<and> low_half h)" by (auto simp: high_half_def low_half_def)
  show ?case
  proof (cases "high_half h")
    case False
    show ?thesis
    proof (cases "low_half h")
      case True
      then show ?thesis using False nf unfolding turn by simp
    next
      case nl: False
      have "surrogates_from (text_of ((ps @ [Unicode h]) @ us)) (length (text_of (ps @ [Unicode h]))) = None \<longleftrightarrow> paired us"
        using "2.IH"(2) [OF False, of "ps @ [Unicode h]"] "2.prems" False by simp
      then show ?thesis using False nl unfolding turn by simp
    qed
  next
    case True
    show ?thesis
    proof (cases "\<exists>l vs. us = Unicode l # vs \<and> low_half l")
      case found: True
      then obtain l vs where u: "us = Unicode l # vs" "low_half l" by blast
      then have nh: "\<not> high_half l" by (auto simp: high_half_def low_half_def)
      have "surrogates_from (text_of ((ps @ [Unicode h, Unicode l]) @ vs)) (length (text_of (ps @ [Unicode h, Unicode l]))) = None \<longleftrightarrow> paired vs"
        using "2.IH"(1) [OF True u(1) refl, of "ps @ [Unicode h, Unicode l]"] "2.prems" u nh
          settled_end_snoc(1) [of "ps @ [Unicode h]" "Unicode l"] by simp
      moreover have "length (text_of (ps @ [Unicode h, Unicode l])) = length (text_of ps @ piece_text (Unicode h)) + 6"
        using ok u by simp
      moreover have "(case us of Unicode l # us \<Rightarrow> low_half l | _ \<Rightarrow> False)" using u by simp
      ultimately show ?thesis using True u next_unicode [OF ok(2)] unfolding turn by simp
    next
      case none: False
      then have "\<not> (case us of Unicode l # us \<Rightarrow> low_half l | _ \<Rightarrow> False)" by (auto split: list.splits piece.splits)
      moreover from this have "\<not> paired (Unicode h # us)" using True by (auto split: list.splits piece.splits)
      ultimately show ?thesis using True next_unicode [OF ok(2)] unfolding turn by (simp del: paired.simps)
    qed
  qed
next
  case (3 c us)
  have "surrogates_from (text_of (ps @ Plain c # us)) (length (text_of ps)) =
      surrogates_from (text_of ((ps @ [Plain c]) @ us)) (length (text_of (ps @ [Plain c])))"
    using at_plain [of c "text_of ps" "text_of us"] "3.prems" by simp
  then show ?case using "3.IH" [of "ps @ [Plain c]"] "3.prems" by simp
next
  case (4 c us)
  have "surrogates_from (text_of (ps @ Escape c # us)) (length (text_of ps)) =
      surrogates_from (text_of ((ps @ [Escape c]) @ us)) (length (text_of (ps @ [Escape c])))"
    using at_escape [of c "text_of ps" "text_of us"] "4.prems" by simp
  then show ?case using "4.IH" [of "ps @ [Escape c]"] "4.prems" by simp
qed

lemma validateJSONSurrogates_None: "list_all piece_ok ps \<Longrightarrow> validateJSONSurrogates (text_of ps) = None \<longleftrightarrow> paired ps"
  using surrogates_paired [of "[]" ps] by (simp add: validateJSONSurrogates_def)

end
