(* ===== verification/Dhnt_Canonical.thy ===== *)
theory Dhnt_Canonical
  imports Dhnt_Run
begin

text \<open>
  Canonical forms and the codec entry points (\<open>dhnt/contract.go\<close>): \<open>canonicalPipeline\<close>,
  \<open>canonicalRun\<close>, \<open>MarshalPipeline\<close>, \<open>MarshalRun\<close>, \<open>DecodePipeline\<close> and \<open>DecodeRun\<close>. The JSON text
  of a struct and \<open>decodeStrict\<close> are parameters \<open>enc\<close> and \<open>dec\<close>. The sorts of the source are not stable;
  the keys of accepted pipelines are unique, and then the order is determined.
\<close>

section \<open>Definitions\<close>

definition canonical_task :: "task \<Rightarrow> task" where
  "canonical_task t = t\<lparr>t_needs := sortedStrings (t_needs t), t_environment := sort_key e_name (t_environment t)\<rparr>"

definition canonical_entry :: "matrix_entry \<Rightarrow> matrix_entry" where
  "canonical_entry e = e\<lparr>m_inputs := sortedArtifacts (m_inputs e), m_outputs := sortedArtifacts (m_outputs e)\<rparr>"

definition canonicalPipeline :: "pipeline \<Rightarrow> pipeline" where
  "canonicalPipeline p = p\<lparr>pi_tasks := sort_key t_id (map canonical_task (pi_tasks p)),
     pi_matrix := sort_key (\<lambda>e. matrixKey (m_task e) (m_platform e)) (map canonical_entry (pi_matrix p))\<rparr>"

definition canonicalRun :: "run \<Rightarrow> run" where
  "canonicalRun r = r\<lparr>ru_inputs := sortedArtifacts (ru_inputs r), ru_outputs := sortedArtifacts (ru_outputs r)\<rparr>"

definition marshalLine :: "('a \<Rightarrow> string) \<Rightarrow> 'a \<Rightarrow> string" where
  "marshalLine enc v = enc v @ [CHR 0x0A]"

definition marshal_valid :: "('a \<Rightarrow> verr option) \<Rightarrow> ('a \<Rightarrow> 'a) \<Rightarrow> ('a \<Rightarrow> string) \<Rightarrow> 'a \<Rightarrow> verr + string" where
  "marshal_valid check canon enc x = (case check x of Some e \<Rightarrow> Inl e | None \<Rightarrow> Inr (marshalLine enc (canon x)))"

definition decode_valid :: "('a \<Rightarrow> verr option) \<Rightarrow> (string \<Rightarrow> verr + 'a) \<Rightarrow> string \<Rightarrow> verr + 'a" where
  "decode_valid check dec s = (case dec s of Inl e \<Rightarrow> Inl e
     | Inr x \<Rightarrow> (case check x of Some e \<Rightarrow> Inl e | None \<Rightarrow> Inr x))"

definition MarshalPipeline :: "(nat \<Rightarrow> string list \<Rightarrow> string list) \<Rightarrow> (pipeline \<Rightarrow> string) \<Rightarrow> pipeline \<Rightarrow> verr + string" where
  "MarshalPipeline rng = marshal_valid (validatePipeline rng) canonicalPipeline"

definition DecodePipeline :: "(nat \<Rightarrow> string list \<Rightarrow> string list) \<Rightarrow> (string \<Rightarrow> verr + pipeline) \<Rightarrow> string \<Rightarrow> verr + pipeline" where
  "DecodePipeline rng = decode_valid (validatePipeline rng)"

definition MarshalRun :: "(run \<Rightarrow> string) \<Rightarrow> run \<Rightarrow> verr + string" where
  "MarshalRun = marshal_valid validateRun canonicalRun"

definition DecodeRun :: "(string \<Rightarrow> verr + run) \<Rightarrow> string \<Rightarrow> verr + run" where
  "DecodeRun = decode_valid validateRun"

section \<open>Canonical forms\<close>

text \<open>What the entry points need of a canonical form, and what follows from it for every codec.\<close>

locale canonical_form =
  fixes check :: "'a \<Rightarrow> verr option" and ok :: "'a \<Rightarrow> bool" and canon :: "'a \<Rightarrow> 'a"
  assumes decides: "check x = None \<longleftrightarrow> ok x"
    and valid: "ok x \<Longrightarrow> ok (canon x)"
    and idem: "ok x \<Longrightarrow> canon (canon x) = canon x"
begin

lemma marshal_Inr: "marshal_valid check canon enc x = Inr s \<longleftrightarrow> ok x \<and> s = marshalLine enc (canon x)"
  using decides [of x] by (auto simp: marshal_valid_def split: option.splits)

lemma marshal_canon: "ok x \<Longrightarrow> marshal_valid check canon enc (canon x) = marshal_valid check canon enc x"
  using decides [of x] decides [of "canon x"] valid [of x] idem [of x] by (simp add: marshal_valid_def)

lemma decode_Inr: "decode_valid check dec s = Inr x \<longleftrightarrow> dec s = Inr x \<and> ok x"
  by (auto simp: decode_valid_def decides [symmetric] split: option.splits sum.splits)

lemma round_trip:
  assumes "ok x" "dec (marshalLine enc (canon x)) = Inr (canon x)"
  shows "\<exists>s. marshal_valid check canon enc x = Inr s \<and> decode_valid check dec s = Inr (canon x) \<and>
           marshal_valid check canon enc (canon x) = Inr s"
  using assms valid marshal_canon by (auto simp: marshal_Inr decode_Inr)

end

lemma sort_key_idem [simp]: "sort_key f (sort_key f xs) = sort_key f xs"
  by (rule sort_key_id_if_sorted) simp

lemma canonical_task_fields [simp]:
  "t_id (canonical_task t) = t_id t" "t_lane (canonical_task t) = t_lane t" "t_distribution (canonical_task t) = t_distribution t"
  "t_argv (canonical_task t) = t_argv t" "t_workdir (canonical_task t) = t_workdir t" "t_placement (canonical_task t) = t_placement t"
  "t_reducer (canonical_task t) = t_reducer t" "set (t_needs (canonical_task t)) = set (t_needs t)"
  "distinct (t_needs (canonical_task t)) = distinct (t_needs t)" "set (t_environment (canonical_task t)) = set (t_environment t)"
  by (simp_all add: canonical_task_def sortedStrings_def)

lemma distinct_map_sort: "distinct (map f (sort_key g xs)) \<longleftrightarrow> distinct (map f xs)"
  by (metis distinct_map distinct_sort set_sort)

lemma canonical_task_ok: "task_ok (canonical_task t) = task_ok t" "schema_task_ok s (canonical_task t) = schema_task_ok s t"
  by (simp_all add: task_ok_def env_ok_def schema_task_ok_def nonsecret_env_def placement_ok_def)
     (simp add: canonical_task_def distinct_map_sort)

lemma canonical_task_idem [simp]: "canonical_task (canonical_task t) = canonical_task t"
  by (simp add: canonical_task_def sortedStrings_def)

lemma canonical_entry_fields [simp]:
  "m_task (canonical_entry e) = m_task e" "m_platform (canonical_entry e) = m_platform e" "m_chunk (canonical_entry e) = m_chunk e"
  by (simp_all add: canonical_entry_def)

lemma artifacts_ok_sorted: "artifacts_ok s (sortedArtifacts as) = artifacts_ok s as"
proof -
  have "sort_key a_name as = [] \<longleftrightarrow> as = []" by (metis length_0_conv length_sort)
  then show ?thesis by (simp add: artifacts_ok_def sortedArtifacts_def distinct_map_sort)
qed

lemma canonical_entry_idem [simp]: "canonical_entry (canonical_entry e) = canonical_entry e"
  by (simp add: canonical_entry_def sortedArtifacts_def)

section \<open>Pipelines\<close>

lemma option_eqI: "(\<And>t. x = Some t \<longleftrightarrow> y = Some t) \<Longrightarrow> x = y"
  by (cases x; cases y) auto

lemma task_map_canonical:
  assumes "distinct (map t_id (pi_tasks p))"
  shows "map_of (task_map (canonicalPipeline p)) i = map_option canonical_task (map_of (task_map p) i)"
proof -
  let ?ts = "pi_tasks p" and ?cs = "sort_key t_id (map canonical_task (pi_tasks p))"
  have d: "distinct (map t_id ?cs)" using assms by (simp add: distinct_map_sort comp_def)
  have "map_of (map (\<lambda>t. (t_id t, t)) ?cs) i = Some t \<longleftrightarrow> map_option canonical_task (map_of (map (\<lambda>t. (t_id t, t)) ?ts) i) = Some t" for t
    unfolding map_of_task_map [OF d] by (auto simp: map_of_task_map [OF assms])
  then show ?thesis by (intro option_eqI) (simp add: task_map_def canonicalPipeline_def)
qed

lemma entry_ok_canonical:
  assumes "\<And>i. map_of tasks' i = map_option canonical_task (map_of tasks i)"
  shows "entry_ok s tasks' (canonical_entry e) = entry_ok s tasks e"
proof -
  have a: "artifacts_ok s (m_inputs (canonical_entry e)) = artifacts_ok s (m_inputs e)"
    "artifacts_ok s (m_outputs (canonical_entry e)) = artifacts_ok s (m_outputs e)"
    by (simp_all add: canonical_entry_def artifacts_ok_sorted)
  show ?thesis unfolding entry_ok_def a by (cases "map_of tasks (m_task e)") (simp_all add: assms)
qed

lemma reduce_ok_canonical:
  assumes "\<And>i. map_of tasks' i = map_option canonical_task (map_of tasks i)"
  shows "reduce_ok tasks' X = reduce_ok tasks X"
proof -
  have r: "reducer_of tasks' = reducer_of tasks" by (rule ext) (simp add: reducer_of_def assms split: option.splits)
  have "shard_ok tasks' x = shard_ok tasks x" for x by (cases "map_of tasks (reducer_of tasks (fst x))") (simp_all add: shard_ok_def r assms)
  then show ?thesis by (simp add: reduce_ok_def compatible_def members_def r)
qed

lemma canonical_ok:
  assumes "pipeline_ok p"
  shows "pipeline_ok (canonicalPipeline p)"
proof -
  let ?c = "canonicalPipeline p"
  have d: "distinct (map t_id (pi_tasks p))" using assms by (simp add: pipeline_ok_def)
  note tm = task_map_canonical [OF d]
  have "set (needs_of (task_map ?c) i) = set (needs_of (task_map p) i)" for i
    by (simp add: needs_of_def tm split: option.splits)
  then have dep: "dependencies (task_map ?c) = dependencies (task_map p)" by (simp add: dependencies_def depends_def)
  have ts: "set (pi_tasks ?c) = canonical_task ` set (pi_tasks p)" and ms: "set (pi_matrix ?c) = canonical_entry ` set (pi_matrix p)"
    by (simp_all add: canonicalPipeline_def)
  have ids: "t_id ` set (pi_tasks ?c) = t_id ` set (pi_tasks p)" "m_task ` set (pi_matrix ?c) = m_task ` set (pi_matrix p)"
    by (simp_all add: ts ms image_image)
  have ne: "pi_tasks ?c = [] \<longleftrightarrow> pi_tasks p = []" "pi_matrix ?c = [] \<longleftrightarrow> pi_matrix p = []"
    by (metis image_is_empty set_empty ts, metis image_is_empty set_empty ms)
  have dt: "distinct (map t_id (pi_tasks ?c))" using d by (simp add: canonicalPipeline_def distinct_map_sort comp_def)
  have dm: "distinct (map (\<lambda>e. (m_task e, m_platform e)) (pi_matrix ?c)) = distinct (map (\<lambda>e. (m_task e, m_platform e)) (pi_matrix p))"
    by (simp add: canonicalPipeline_def distinct_map_sort comp_def)
  have "shards q = (\<Union>e \<in> set (pi_matrix q). (\<lambda>c. (m_task e, c)) ` set_option (m_chunk e))" for q
    by (auto simp: shards_def)
  then have sh: "shards ?c = shards p" by (simp add: ms)
  have same: "pi_schema ?c = pi_schema p" "pi_name ?c = pi_name p" "pi_source ?c = pi_source p" by (simp_all add: canonicalPipeline_def)
  have T: "(\<forall>t \<in> set (pi_tasks ?c). task_ok t \<and> schema_task_ok s t) \<longleftrightarrow> (\<forall>t \<in> set (pi_tasks p). task_ok t \<and> schema_task_ok s t)" for s
    by (simp add: ts canonical_task_ok)
  have N: "(\<forall>t \<in> set (pi_tasks ?c). \<forall>n \<in> set (t_needs t). n \<in> I \<and> n \<noteq> t_id t) \<longleftrightarrow>
      (\<forall>t \<in> set (pi_tasks p). \<forall>n \<in> set (t_needs t). n \<in> I \<and> n \<noteq> t_id t)" for I
    by (simp add: ts)
  have E: "(\<forall>e \<in> set (pi_matrix ?c). entry_ok s (task_map ?c) e) \<longleftrightarrow> (\<forall>e \<in> set (pi_matrix p). entry_ok s (task_map p) e)" for s
    by (simp add: ms entry_ok_canonical [OF tm])
  have S: "(\<forall>e \<in> set (pi_matrix ?c). \<forall>d \<in> set (pi_matrix ?c). same_chunk d e) \<longleftrightarrow>
      (\<forall>e \<in> set (pi_matrix p). \<forall>d \<in> set (pi_matrix p). same_chunk d e)"
    by (simp add: ms same_chunk_def)
  from assms dt show ?thesis
    unfolding pipeline_ok_def same dep ne dm sh ids reduce_ok_canonical [OF tm] T N E S by - (elim conjE, intro conjI; assumption)
qed

lemma canonical_idem: "canonicalPipeline (canonicalPipeline p) = canonicalPipeline p"
proof -
  have m: "map g (sort_key f xs) = sort_key f xs" if "\<And>x. x \<in> set xs \<Longrightarrow> g x = x" for f :: "'a \<Rightarrow> string" and g xs
    using that by (intro map_idI) simp
  have "map canonical_task (sort_key t_id (map canonical_task ts)) = sort_key t_id (map canonical_task ts)" for ts
    by (rule m) auto
  moreover have "map canonical_entry (sort_key f (map canonical_entry es)) = sort_key f (map canonical_entry es)" for f :: "matrix_entry \<Rightarrow> string" and es
    by (rule m) auto
  ultimately show ?thesis by (simp add: canonicalPipeline_def)
qed

interpretation pipeline_form: canonical_form "validatePipeline (\<lambda>_ ks. ks)" pipeline_ok canonicalPipeline
  by unfold_locales (simp_all add: validatePipeline_None enumerates_def canonical_ok canonical_idem)

text \<open>Canonical forms agree exactly when the pipelines differ only in the order of what they list.\<close>

definition same_listing :: "pipeline \<Rightarrow> pipeline \<Rightarrow> bool" where
  "same_listing p q \<longleftrightarrow> pi_schema p = pi_schema q \<and> pi_name p = pi_name q \<and> pi_source p = pi_source q \<and>
     canonical_task ` set (pi_tasks p) = canonical_task ` set (pi_tasks q) \<and>
     canonical_entry ` set (pi_matrix p) = canonical_entry ` set (pi_matrix q)"

lemma canonical_eq_iff:
  assumes "pipeline_ok p" "pipeline_ok q"
  shows "canonicalPipeline p = canonicalPipeline q \<longleftrightarrow> same_listing p q"
proof -
  have t: "distinct (map t_id (map canonical_task (pi_tasks p)))" if "pipeline_ok p" for p
    using that by (simp add: pipeline_ok_def comp_def)
  have m: "distinct (map (\<lambda>e. matrixKey (m_task e) (m_platform e)) (map canonical_entry (pi_matrix p)))" if p: "pipeline_ok p" for p
  proof -
    have "distinct (map entry_key (pi_matrix p)) \<longleftrightarrow> distinct (map (\<lambda>e. (m_task e, m_platform e)) (pi_matrix p))"
    proof (rule distinct_entry_key, rule ballI)
      fix e assume "e \<in> set (pi_matrix p)"
      then have e: "entry_ok (pi_schema p) (task_map p) e" using p by (simp add: pipeline_ok_def)
      from entry_ok_task [OF e] have "m_task e \<in> t_id ` set (pi_tasks p)" by (simp add: task_map_def image_image)
      then have "identifierRE (m_task e)" using p by (auto simp: pipeline_ok_def task_ok_def)
      with entry_ok_platform [OF e] show "platform_ok (m_platform e) \<and> nul \<notin> set (m_task e)" by (simp add: identifier_no_nul)
    qed
    moreover have "distinct (map (\<lambda>e. (m_task e, m_platform e)) (pi_matrix p))" using p by (simp add: pipeline_ok_def)
    moreover have "map (\<lambda>e. matrixKey (m_task e) (m_platform e)) (map canonical_entry es) = map entry_key es" for es
      by (simp add: entry_key_def)
    ultimately show ?thesis by metis
  qed
  have "canonicalPipeline p = canonicalPipeline q \<longleftrightarrow>
     pi_schema p = pi_schema q \<and> pi_name p = pi_name q \<and> pi_source p = pi_source q \<and>
     pi_tasks (canonicalPipeline p) = pi_tasks (canonicalPipeline q) \<and> pi_matrix (canonicalPipeline p) = pi_matrix (canonicalPipeline q)"
    by (cases p; cases q) (auto simp: canonicalPipeline_def)
  then show ?thesis
    using sort_key_eq_iff [OF t t, OF assms] sort_key_eq_iff [OF m m, OF assms] by (simp add: same_listing_def canonicalPipeline_def)
qed

section \<open>Runs\<close>

lemma sortedArtifacts_idem [simp]: "sortedArtifacts (sortedArtifacts as) = sortedArtifacts as"
  by (simp add: sortedArtifacts_def)

lemma NewOutputCommit_sorted: "NewOutputCommit (sortedArtifacts as) = Inr c \<longleftrightarrow> NewOutputCommit as = Inr c"
  by (simp add: NewOutputCommit_Inr artifacts_ok_sorted)

lemma canonical_run_ok: "run_ok r \<Longrightarrow> run_ok (canonicalRun r)"
  by (simp add: run_ok_def canonicalRun_def artifacts_ok_sorted commit_ok_def NewOutputCommit_sorted instant_def)

interpretation run_form: canonical_form validateRun run_ok canonicalRun
  by unfold_locales (simp_all add: validateRun_None canonical_run_ok, simp add: canonicalRun_def)

end
