(* ===== verification/Go_Runes.thy ===== *)
theory Go_Runes
  imports Go_Prelude
begin

text \<open>
  Strings as sequences of runes, the way \<open>range\<close>, \<open>[]rune(s)\<close> and \<open>unicode/utf8\<close> read them: a byte
  that starts no valid UTF-8 sequence is one \<open>RuneError\<close> of width 1. \<open>strings.Fields\<close> and
  \<open>unicode.IsSpace\<close>. Nothing here is code of the repository.
\<close>

definition RuneError :: nat where "RuneError = 65533"

text \<open>The continuation bytes a first byte asks for, and the range of the first of them.\<close>

definition lead :: "nat \<Rightarrow> (nat \<times> nat \<times> nat) option" where
  "lead b = (if 194 \<le> b \<and> b \<le> 223 then Some (1, 128, 191)
     else if b = 224 then Some (2, 160, 191) else if b = 237 then Some (2, 128, 159)
     else if 225 \<le> b \<and> b \<le> 239 then Some (2, 128, 191)
     else if b = 240 then Some (3, 144, 191) else if 241 \<le> b \<and> b \<le> 243 then Some (3, 128, 191)
     else if b = 244 then Some (3, 128, 143) else None)"

definition cont_value :: "nat \<Rightarrow> char list \<Rightarrow> nat" where
  "cont_value v cs = foldl (\<lambda>v c. v * 64 + byte c mod 64) v cs"

definition decode_rune :: "char \<Rightarrow> string \<Rightarrow> nat \<times> nat" where
  "decode_rune c cs = (let b = byte c in
     if b < 128 then (b, 1)
     else case lead b of
       None \<Rightarrow> (RuneError, 1)
     | Some (n, lo, hi) \<Rightarrow>
         if n \<le> length cs \<and> lo \<le> byte (hd cs) \<and> byte (hd cs) \<le> hi \<and> list_all (\<lambda>c. 128 \<le> byte c \<and> byte c \<le> 191) (take n cs)
         then (cont_value (b mod 2 ^ (6 - n)) (take n cs), Suc n)
         else (RuneError, 1))"

text \<open>The runes of a string, each with its bytes.\<close>

function chunks :: "string \<Rightarrow> (nat \<times> string) list" where
  "chunks [] = []"
| "chunks (c # cs) = (let n = snd (decode_rune c cs) - 1 in (fst (decode_rune c cs), c # take n cs) # chunks (drop n cs))"
  by pat_completeness auto
termination by (relation "measure length") (simp_all add: Let_def)

definition runes :: "string \<Rightarrow> nat list" where
  "runes s = map fst (chunks s)"

lemma chunks_concat: "concat (map snd (chunks s)) = s"
  by (induction s rule: chunks.induct) (simp_all add: Let_def)

lemma chunk_ne: "q \<in> set (chunks s) \<Longrightarrow> snd q \<noteq> []"
  by (induction s rule: chunks.induct) (auto simp: Let_def)

lemma chunks_Nil_iff [simp]: "chunks s = [] \<longleftrightarrow> s = []"
  by (cases s) (simp_all add: Let_def)

lemma chunks_ascii [simp]: "byte c < 128 \<Longrightarrow> chunks (c # cs) = (byte c, [c]) # chunks cs"
  by (simp add: decode_rune_def Let_def)

declare chunks.simps(2) [simp del]

lemma runes_ascii: "byte c < 128 \<Longrightarrow> runes (c # cs) = byte c # runes cs" and runes_Nil [simp]: "runes [] = []"
  by (simp_all add: runes_def)

text \<open>Text of ASCII letters is the sequence of its bytes.\<close>

lemma runes_plain: "list_all (\<lambda>c. byte c < 128) s \<Longrightarrow> runes s = map byte s"
  by (induction s) (simp_all add: runes_ascii)

definition is_space :: "nat \<Rightarrow> bool" where
  "is_space r \<longleftrightarrow> (9 \<le> r \<and> r \<le> 13) \<or> r \<in> {32, 133, 160, 5760, 8232, 8233, 8239, 8287, 12288} \<or> (8192 \<le> r \<and> r \<le> 8202)"

definition chunk_text :: "(nat \<times> string) list \<Rightarrow> string" where
  "chunk_text cs = concat (map snd cs)"

function field_list :: "(nat \<times> string) list \<Rightarrow> string list" where
  "field_list cs = (let ds = dropWhile (\<lambda>q. is_space (fst q)) cs in
     if ds = [] then []
     else chunk_text (takeWhile (\<lambda>q. \<not> is_space (fst q)) ds) # field_list (dropWhile (\<lambda>q. \<not> is_space (fst q)) ds))"
  by pat_completeness auto
termination
proof (relation "measure length", simp)
  fix cs ds :: "(nat \<times> string) list"
  assume ds: "ds = dropWhile (\<lambda>q. is_space (fst q)) cs" "ds \<noteq> []"
  then have "\<not> is_space (fst (hd ds))" using hd_dropWhile by blast
  then have "length (dropWhile (\<lambda>q. \<not> is_space (fst q)) ds) < length ds"
    using ds(2) by (cases ds) (simp_all add: length_dropWhile_le le_imp_less_Suc)
  also have "length ds \<le> length cs" by (simp add: ds(1) length_dropWhile_le)
  finally show "(dropWhile (\<lambda>q. \<not> is_space (fst q)) ds, cs) \<in> measure length" by simp
qed

declare field_list.simps [simp del]

text \<open>\<open>strings.Fields\<close>\<close>

definition text_fields :: "string \<Rightarrow> string list" where
  "text_fields s = field_list (chunks s)"

end
