(* ===== verification/Dhnt_Strict.thy ===== *)
theory Dhnt_Strict
  imports Dhnt_Surrogates Dhnt_Canonical Go_Runes "HOL-Library.AList"
begin

text \<open>
  The strict decoder (\<open>decodeStrict\<close> and its helpers in \<open>dhnt/contract.go\<close>): the walk over the tokens of a
  document along the Go type it is decoded into. A Go type is a \<open>gotype\<close>, with the name, visibility and
  \<open>json\<close> tag of each struct field. What \<open>json.Decoder.Token\<close> returns, call after call, is a list of tokens;
  where it ends the next call fails, with \<open>io.EOF\<close> when the text ended after one value. The reader of bytes
  into tokens and \<open>Decode\<close> itself are parameters.

  The recursion follows the nesting of the document. Its fuel is twice the number of tokens: each call but
  the entry into an array consumes a token.
\<close>

section \<open>Go types and tokens\<close>

record field_info =
  fi_name :: string
  fi_exported :: bool
  fi_anonymous :: bool
  fi_tag :: string

datatype gotype = GOther | GPtr gotype | GSlice gotype | GStruct "(field_info \<times> gotype) list"

datatype tok = TObj | TObjEnd | TArr | TArrEnd | TString string | TNumber string | TBool bool | TNull

fun strip_ptr :: "gotype \<Rightarrow> gotype" where
  "strip_ptr (GPtr t) = strip_ptr t"
| "strip_ptr t = t"

definition is_ptr :: "gotype \<Rightarrow> bool" where
  "is_ptr t \<longleftrightarrow> (case t of GPtr _ \<Rightarrow> True | _ \<Rightarrow> False)"

section \<open>Struct fields\<close>

definition embedded_fields :: "gotype \<Rightarrow> (field_info \<times> gotype) list option" where
  "embedded_fields t = (case (case t of GPtr t' \<Rightarrow> t' | _ \<Rightarrow> t) of GStruct es \<Rightarrow> Some es | _ \<Rightarrow> None)"

lemma embedded_size: "embedded_fields t = Some es \<Longrightarrow> size_list (size_prod (\<lambda>_. 0) size) es < size t"
  by (auto simp: embedded_fields_def split: gotype.splits)

definition json_name :: "field_info \<Rightarrow> string" where
  "json_name f = (if fi_tag f = [] then fi_name f
     else if CHR '','' \<in> set (fi_tag f) then
       (if hd (fi_tag f) \<noteq> CHR '','' then takeWhile (\<lambda>c. c \<noteq> CHR '','') (fi_tag f) else fi_name f)
     else fi_tag f)"

function field_types :: "(field_info \<times> gotype) list \<Rightarrow> (string \<times> gotype) list \<Rightarrow> (string \<times> gotype) list" where
  "field_types [] m = m"
| "field_types (ft # fs) m =
     (if \<not> fi_exported (fst ft) then field_types fs m
      else if fi_tag (fst ft) = ''-'' then field_types fs m
      else case (if fi_anonymous (fst ft) \<and> fi_tag (fst ft) = [] then embedded_fields (snd ft) else None) of
        Some es \<Rightarrow> field_types fs (fold (\<lambda>(name, t). AList.update name t) (field_types es []) m)
      | None \<Rightarrow> field_types fs (AList.update (json_name (fst ft)) (snd ft) m))"
  by pat_completeness auto
termination
  by (relation "measure (\<lambda>(fs, m). size_list (size_prod (\<lambda>_. 0) size) fs)")
     (auto dest!: embedded_size split: if_splits)

definition jsonFieldTypes :: "(field_info \<times> gotype) list \<Rightarrow> (string \<times> gotype) list" where
  "jsonFieldTypes fs = field_types fs []"

fun split_comma :: "string \<Rightarrow> string list" where
  "split_comma [] = [[]]"
| "split_comma (c # s) = (if c = CHR '','' then [] # split_comma s
     else case split_comma s of [] \<Rightarrow> [[c]] | w # ws \<Rightarrow> (c # w) # ws)"

definition field_required :: "field_info \<Rightarrow> string option" where
  "field_required f = (if fi_tag f = [] then Some (fi_name f)
     else let parts = split_comma (fi_tag f) in
       if list_ex (\<lambda>p. trim_space p = ''omitempty'') (tl parts) then None
       else Some (if hd parts \<noteq> [] then hd parts else fi_name f))"

function requiredJSONFields :: "(field_info \<times> gotype) list \<Rightarrow> string list" where
  "requiredJSONFields [] = []"
| "requiredJSONFields (ft # fs) =
     (if \<not> fi_exported (fst ft) then requiredJSONFields fs
      else if fi_tag (fst ft) = ''-'' then requiredJSONFields fs
      else case (if fi_anonymous (fst ft) \<and> fi_tag (fst ft) = [] then embedded_fields (snd ft) else None) of
        Some es \<Rightarrow> requiredJSONFields es @ requiredJSONFields fs
      | None \<Rightarrow> (case field_required (fst ft) of Some n \<Rightarrow> [n] | None \<Rightarrow> []) @ requiredJSONFields fs)"
  by pat_completeness auto
termination
  by (relation "measure (size_list (size_prod (\<lambda>_. 0) size))") (auto dest!: embedded_size split: if_splits)

section \<open>The walk over the tokens\<close>

abbreviation "malformed why \<equiv> Bad ''malformed JSON'' why"

text \<open>\<open>dec.More()\<close>: the next byte is there and closes nothing.\<close>

definition another :: "tok list \<Rightarrow> bool" where
  "another ts \<longleftrightarrow> (case ts of [] \<Rightarrow> False | tok # _ \<Rightarrow> tok \<noteq> TObjEnd \<and> tok \<noteq> TArrEnd)"

fun skipDelim :: "tok \<Rightarrow> tok \<Rightarrow> nat \<Rightarrow> tok list \<Rightarrow> verr + tok list" where
  "skipDelim opening closing 0 ts = Inr ts"
| "skipDelim opening closing (Suc depth) [] = Inl (malformed NotPresent)"
| "skipDelim opening closing (Suc depth) (tok # ts) =
     skipDelim opening closing (if tok = opening then Suc (Suc depth) else if tok = closing then depth else Suc depth) ts"

fun validateToken :: "nat \<Rightarrow> gotype \<Rightarrow> tok list \<Rightarrow> verr + tok list"
  and validateObject :: "nat \<Rightarrow> (field_info \<times> gotype) list \<Rightarrow> string list \<Rightarrow> tok list \<Rightarrow> verr + tok list"
  and validateArrayElements :: "nat \<Rightarrow> gotype \<Rightarrow> tok list \<Rightarrow> verr + tok list" where
  "validateToken 0 t ts = Inl (malformed OutOfRange)"
| "validateToken (Suc n) t ts = (case ts of
      [] \<Rightarrow> Inl (malformed NotPresent)
    | tok # ts \<Rightarrow> (case tok of
        TNull \<Rightarrow> if \<not> is_ptr t then Inl (malformed (Unknown ''null'')) else Inr ts
      | TObj \<Rightarrow> (case strip_ptr t of GStruct fs \<Rightarrow> validateObject n fs [] ts | _ \<Rightarrow> skipDelim TObj TObjEnd 1 ts)
      | TArr \<Rightarrow> (case strip_ptr t of GSlice e \<Rightarrow> validateArrayElements n e ts | _ \<Rightarrow> skipDelim TArr TArrEnd 1 ts)
      | TObjEnd \<Rightarrow> Inl (malformed (Unknown ''delimiter''))
      | TArrEnd \<Rightarrow> Inl (malformed (Unknown ''delimiter''))
      | _ \<Rightarrow> Inr ts))"
| "validateObject 0 fs seen ts = Inl (malformed OutOfRange)"
| "validateObject (Suc n) fs seen ts =
     (if another ts then (case ts of
          TString key # ts \<Rightarrow> (case map_of (jsonFieldTypes fs) key of
             None \<Rightarrow> Inl (malformed (Unknown key))
           | Some ft \<Rightarrow> if key \<in> set seen then Inl (malformed (Duplicate key))
               else (case validateToken n ft ts of Inl e \<Rightarrow> Inl e | Inr ts \<Rightarrow> validateObject n fs (key # seen) ts))
        | _ \<Rightarrow> Inl (malformed (Unknown ''key'')))
      else (case ts of
          [] \<Rightarrow> Inl (malformed NotPresent)
        | _ # ts \<Rightarrow> (case find (\<lambda>name. name \<notin> set seen) (requiredJSONFields fs) of
             Some name \<Rightarrow> Inl (malformed (BadName name)) | None \<Rightarrow> Inr ts)))"
| "validateArrayElements 0 e ts = Inl (malformed OutOfRange)"
| "validateArrayElements (Suc n) e ts =
     (if another ts then (case validateToken n e ts of Inl err \<Rightarrow> Inl err | Inr ts \<Rightarrow> validateArrayElements n e ts)
      else (case ts of [] \<Rightarrow> Inl (malformed NotPresent) | _ # ts \<Rightarrow> Inr ts))"

text \<open>What \<open>encoding/json\<close> makes of a text: its tokens, and whether they end at the end of the text.\<close>

record json_reader =
  jr_tokens :: "string \<Rightarrow> tok list"
  jr_ends :: "string \<Rightarrow> bool"

definition validateJSONKeys :: "json_reader \<Rightarrow> gotype \<Rightarrow> string \<Rightarrow> verr option" where
  "validateJSONKeys rd t data =
     (let ts = jr_tokens rd data in
      case validateToken (2 * length ts + 1) t ts of
        Inl e \<Rightarrow> Some e
      | Inr rest \<Rightarrow> if rest = [] \<and> jr_ends rd data then None else Some (malformed (Unknown ''multiple values'')))"

definition utf8_valid :: "string \<Rightarrow> bool" where
  "utf8_valid s \<longleftrightarrow> list_all (\<lambda>(r, b). \<not> (r = RuneError \<and> length b = 1)) (chunks s)"

definition decodeStrict :: "json_reader \<Rightarrow> (string \<Rightarrow> verr + 'a) \<Rightarrow> gotype \<Rightarrow> string \<Rightarrow> verr + 'a" where
  "decodeStrict rd read t data =
     (if \<not> utf8_valid data then Inl (malformed (Unknown ''UTF-8''))
      else case validateJSONSurrogates data of Some e \<Rightarrow> Inl e
      | None \<Rightarrow> (case validateJSONKeys rd t data of Some e \<Rightarrow> Inl e | None \<Rightarrow> read data))"

section \<open>What the walk accepts\<close>

datatype json = JNull | JBool bool | JNumber string | JString string | JArray "json list" | JObject "(string \<times> json) list"

fun tokens_of :: "json \<Rightarrow> tok list" where
  "tokens_of JNull = [TNull]"
| "tokens_of (JBool b) = [TBool b]"
| "tokens_of (JNumber s) = [TNumber s]"
| "tokens_of (JString s) = [TString s]"
| "tokens_of (JArray js) = TArr # concat (map tokens_of js) @ [TArrEnd]"
| "tokens_of (JObject ms) = TObj # concat (map (\<lambda>m. TString (fst m) # tokens_of (snd m)) ms) @ [TObjEnd]"

text \<open>A document conforms to a Go type: null only for pointers; a struct is an object whose keys are known and
  distinct, with all fields that are not optional, whose members conform; the elements of a slice conform;
  what is inside any other type is left to \<open>Decode\<close>.\<close>

fun conforms :: "gotype \<Rightarrow> json \<Rightarrow> bool" where
  "conforms t JNull \<longleftrightarrow> is_ptr t"
| "conforms t (JArray js) \<longleftrightarrow> (case strip_ptr t of GSlice e \<Rightarrow> list_all (conforms e) js | _ \<Rightarrow> True)"
| "conforms t (JObject ms) \<longleftrightarrow> (case strip_ptr t of
     GStruct fs \<Rightarrow> distinct (map fst ms) \<and> set (requiredJSONFields fs) \<subseteq> fst ` set ms \<and>
       list_all (\<lambda>m. case map_of (jsonFieldTypes fs) (fst m) of None \<Rightarrow> False | Some t \<Rightarrow> conforms t (snd m)) ms
   | _ \<Rightarrow> True)"
| "conforms t _ \<longleftrightarrow> True"

lemma tokens_ne [simp]: "tokens_of j \<noteq> []" by (cases j) simp_all

lemma tokens_pos: "0 < length (tokens_of j)" by simp

lemma another_tokens [simp]: "another (tokens_of j @ rest)" by (cases j) (simp_all add: another_def)

lemma another_simps [simp]: "\<not> another []" "\<not> another (TObjEnd # ts)" "\<not> another (TArrEnd # ts)" "another (TString k # ts)"
  by (simp_all add: another_def)

definition delims :: "tok \<Rightarrow> tok \<Rightarrow> bool" where
  "delims opening closing \<longleftrightarrow> (opening, closing) \<in> {(TObj, TObjEnd), (TArr, TArrEnd)}"

abbreviation "members_of ms \<equiv> concat (map (\<lambda>m. TString (fst m) # tokens_of (snd m)) ms)"

lemma skip_value: "delims opening closing \<Longrightarrow>
    skipDelim opening closing (Suc d) (tokens_of j @ rest) = skipDelim opening closing (Suc d) rest"
proof (induction j arbitrary: d rest)
  case (JArray js)
  have "skipDelim opening closing (Suc k) (concat (map tokens_of js) @ r) = skipDelim opening closing (Suc k) r" for k r
    using JArray by (induction js arbitrary: r) simp_all
  then show ?case using JArray.prems by (auto simp: delims_def)
next
  case (JObject ms)
  have "skipDelim opening closing (Suc k) (members_of ms @ r) = skipDelim opening closing (Suc k) r" for k r
    using JObject by (induction ms arbitrary: r) (auto simp: delims_def snds.simps)
  then show ?case using JObject.prems by (auto simp: delims_def)
qed (auto simp: delims_def)

lemma skip_inside:
  "skipDelim TArr TArrEnd 1 (concat (map tokens_of js) @ TArrEnd # rest) = Inr rest"
  "skipDelim TObj TObjEnd 1 (members_of ms @ TObjEnd # rest) = Inr rest"
proof -
  have "skipDelim TArr TArrEnd (Suc 0) (concat (map tokens_of js) @ r) = skipDelim TArr TArrEnd (Suc 0) r" for r
    by (induction js arbitrary: r) (simp_all add: skip_value delims_def)
  then show "skipDelim TArr TArrEnd 1 (concat (map tokens_of js) @ TArrEnd # rest) = Inr rest" by simp
  have "skipDelim TObj TObjEnd (Suc 0) (members_of ms @ r) = skipDelim TObj TObjEnd (Suc 0) r" for r
    by (induction ms arbitrary: r) (simp_all add: skip_value delims_def)
  then show "skipDelim TObj TObjEnd 1 (members_of ms @ TObjEnd # rest) = Inr rest" by simp
qed

definition walks :: "json \<Rightarrow> bool" where
  "walks j \<longleftrightarrow> (\<forall>n t rest r. 2 * length (tokens_of j) \<le> n \<longrightarrow>
     validateToken n t (tokens_of j @ rest) = Inr r \<longleftrightarrow> conforms t j \<and> r = rest)"

lemma walks_elements:
  assumes "\<forall>j \<in> set js. walks j" "2 * length (concat (map tokens_of js)) + 1 \<le> n"
  shows "validateArrayElements n e (concat (map tokens_of js) @ TArrEnd # rest) = Inr r \<longleftrightarrow> list_all (conforms e) js \<and> r = rest"
  using assms
proof (induction js arbitrary: n)
  case Nil
  then obtain k where "n = Suc k" by (cases n) simp_all
  then show ?case by auto
next
  case (Cons j js)
  then obtain k where k: "n = Suc k" by (cases n) simp_all
  let ?tl = "concat (map tokens_of js) @ TArrEnd # rest"
  have f: "2 * length (tokens_of j) \<le> k" "2 * length (concat (map tokens_of js)) + 1 \<le> k"
    using Cons.prems(2) tokens_pos [of j] unfolding k by (simp, simp del: tokens_ne length_greater_0_conv)
  have v: "validateToken k e (tokens_of j @ ?tl) = Inr r' \<longleftrightarrow> conforms e j \<and> r' = ?tl" for r'
    using Cons.prems(1) f(1) by (simp add: walks_def)
  have "validateArrayElements n e (tokens_of j @ ?tl) = Inr r \<longleftrightarrow>
      (\<exists>r'. validateToken k e (tokens_of j @ ?tl) = Inr r' \<and> validateArrayElements k e r' = Inr r)"
    unfolding k by (auto split: sum.splits)
  also have "\<dots> \<longleftrightarrow> conforms e j \<and> list_all (conforms e) js \<and> r = rest"
    unfolding v using Cons.IH [OF _ f(2)] Cons.prems(1) by auto
  finally show ?case by simp
qed

lemma walks_members:
  assumes "\<forall>m \<in> set ms. walks (snd m)" "2 * length (members_of ms) + 1 \<le> n"
  shows "validateObject n fs seen (members_of ms @ TObjEnd # rest) = Inr r \<longleftrightarrow>
    distinct (map fst ms) \<and> fst ` set ms \<inter> set seen = {} \<and> set (requiredJSONFields fs) \<subseteq> fst ` set ms \<union> set seen \<and>
    list_all (\<lambda>m. case map_of (jsonFieldTypes fs) (fst m) of None \<Rightarrow> False | Some t \<Rightarrow> conforms t (snd m)) ms \<and> r = rest"
  using assms
proof (induction ms arbitrary: n seen)
  case Nil
  then obtain k where "n = Suc k" by (cases n) simp_all
  moreover have "find (\<lambda>name. name \<notin> set seen) (requiredJSONFields fs) = None \<longleftrightarrow> set (requiredJSONFields fs) \<subseteq> set seen"
    by (auto simp: find_None_iff)
  ultimately show ?case by (cases "find (\<lambda>name. name \<notin> set seen) (requiredJSONFields fs)") auto
next
  case (Cons m ms)
  then obtain k where k: "n = Suc k" by (cases n) simp_all
  let ?tl = "members_of ms @ TObjEnd # rest"
  have f: "2 * length (tokens_of (snd m)) \<le> k" "2 * length (members_of ms) + 1 \<le> k"
    using Cons.prems(2) by (simp_all add: k)
  have v: "validateToken k t (tokens_of (snd m) @ ?tl) = Inr r' \<longleftrightarrow> conforms t (snd m) \<and> r' = ?tl" for r' t
    using Cons.prems(1) f(1) by (simp add: walks_def)
  have "validateObject n fs seen (TString (fst m) # tokens_of (snd m) @ ?tl) = Inr r \<longleftrightarrow>
      (\<exists>t. map_of (jsonFieldTypes fs) (fst m) = Some t \<and> fst m \<notin> set seen \<and>
        (\<exists>r'. validateToken k t (tokens_of (snd m) @ ?tl) = Inr r' \<and> validateObject k fs (fst m # seen) r' = Inr r))"
    unfolding k by (auto split: sum.splits option.splits)
  also have "\<dots> \<longleftrightarrow> (\<exists>t. map_of (jsonFieldTypes fs) (fst m) = Some t \<and> fst m \<notin> set seen \<and> conforms t (snd m) \<and>
      validateObject k fs (fst m # seen) ?tl = Inr r)"
    unfolding v by blast
  also have "\<dots> \<longleftrightarrow> distinct (map fst (m # ms)) \<and> fst ` set (m # ms) \<inter> set seen = {} \<and>
      set (requiredJSONFields fs) \<subseteq> fst ` set (m # ms) \<union> set seen \<and>
      list_all (\<lambda>m. case map_of (jsonFieldTypes fs) (fst m) of None \<Rightarrow> False | Some t \<Rightarrow> conforms t (snd m)) (m # ms) \<and> r = rest"
    using Cons.IH [of k "fst m # seen"] Cons.prems(1) f(2) by (cases "map_of (jsonFieldTypes fs) (fst m)") auto
  finally show ?case by simp
qed

lemma walks_scalar: "tokens_of j = [k] \<Longrightarrow> walks j"
proof (unfold walks_def, intro allI impI)
  fix n t rest r assume j: "tokens_of j = [k]" and n: "2 * length (tokens_of j) \<le> n"
  then obtain i where "n = Suc i" by (cases n) simp_all
  with j show "validateToken n t (tokens_of j @ rest) = Inr r \<longleftrightarrow> conforms t j \<and> r = rest" by (cases j) auto
qed

lemma walks_all: "walks j"
proof (induction j)
  case (JArray js)
  show ?case
    unfolding walks_def
  proof (intro allI impI)
    fix n t rest r assume n: "2 * length (tokens_of (JArray js)) \<le> n"
    then obtain k where k: "n = Suc k" by (cases n) simp_all
    have "validateArrayElements k e (concat (map tokens_of js) @ TArrEnd # rest) = Inr r \<longleftrightarrow> list_all (conforms e) js \<and> r = rest" for e
      using n JArray by (intro walks_elements) (simp_all add: k)
    then show "validateToken n t (tokens_of (JArray js) @ rest) = Inr r \<longleftrightarrow> conforms t (JArray js) \<and> r = rest"
      using skip_inside(1) [of js rest] unfolding k by (auto split: gotype.splits)
  qed
next
  case (JObject ms)
  show ?case
    unfolding walks_def
  proof (intro allI impI)
    fix n t rest r assume n: "2 * length (tokens_of (JObject ms)) \<le> n"
    then obtain k where k: "n = Suc k" by (cases n) simp_all
    have "\<forall>m \<in> set ms. walks (snd m)" using JObject by (auto simp: snds.simps)
    then have "validateObject k fs [] (members_of ms @ TObjEnd # rest) = Inr r \<longleftrightarrow>
        distinct (map fst ms) \<and> set (requiredJSONFields fs) \<subseteq> fst ` set ms \<and>
        list_all (\<lambda>m. case map_of (jsonFieldTypes fs) (fst m) of None \<Rightarrow> False | Some t \<Rightarrow> conforms t (snd m)) ms \<and> r = rest" for fs
      using n walks_members [of ms k fs "[]" rest r] by (simp add: k)
    then show "validateToken n t (tokens_of (JObject ms) @ rest) = Inr r \<longleftrightarrow> conforms t (JObject ms) \<and> r = rest"
      using skip_inside(2) [of ms rest] unfolding k by (auto split: gotype.splits)
  qed
qed (rule walks_scalar, simp)+

lemma validateJSONKeys_None:
  assumes "jr_tokens rd data = tokens_of j" "jr_ends rd data"
  shows "validateJSONKeys rd t data = None \<longleftrightarrow> conforms t j"
proof -
  let ?n = "2 * length (tokens_of j) + 1"
  have "2 * length (tokens_of j) \<le> ?n" by simp
  then have v: "validateToken ?n t (tokens_of j @ []) = Inr r \<longleftrightarrow> conforms t j \<and> r = []" for r
    using walks_all [of j] unfolding walks_def by blast
  show ?thesis
  proof (cases "validateToken ?n t (tokens_of j)")
    case (Inl e)
    then have "\<not> conforms t j" using v [of "[]"] by simp
    with Inl assms show ?thesis by (simp add: validateJSONKeys_def Let_def)
  next
    case (Inr r)
    then have "conforms t j \<and> r = []" using v [of r] by simp
    with Inr assms show ?thesis by (simp add: validateJSONKeys_def Let_def)
  qed
qed

lemma decodeStrict_Inr:
  assumes "jr_tokens rd data = tokens_of j" "jr_ends rd data" "data = text_of ps" "list_all piece_ok ps"
  shows "decodeStrict rd read t data = Inr x \<longleftrightarrow> utf8_valid data \<and> paired ps \<and> conforms t j \<and> read data = Inr x"
  using validateJSONKeys_None [OF assms(1,2), of t] validateJSONSurrogates_None [OF assms(4)] assms(3)
  by (auto simp: decodeStrict_def split: option.splits)

end
