(* ===== verification/Go_Base64.thy ===== *)
theory Go_Base64
  imports Go_Std
begin

text \<open>
  The standard base64 encoding of \<open>encoding/base64\<close> with padding, decoded as \<open>StdEncoding.Strict\<close>
  does: every quantum complete, and the unused bits of the last one zero.
\<close>

section \<open>Standard base64, strict\<close>

definition b64_char :: "nat \<Rightarrow> char" where
  "b64_char n = char_of (if n < 26 then 65 + n else if n < 52 then 71 + n else if n < 62 then n - 4 else if n = 62 then 43 else 47)"

definition b64_val :: "char \<Rightarrow> nat option" where
  "b64_val c = (let n = byte c in
     if 65 \<le> n \<and> n \<le> 90 then Some (n - 65) else if 97 \<le> n \<and> n \<le> 122 then Some (n - 71)
     else if 48 \<le> n \<and> n \<le> 57 then Some (n + 4) else if n = 43 then Some 62 else if n = 47 then Some 63 else None)"

fun b64_encode :: "string \<Rightarrow> string" where
  "b64_encode [] = []"
| "b64_encode [a] = [b64_char (byte a div 4), b64_char (byte a mod 4 * 16), CHR ''='', CHR ''='']"
| "b64_encode [a, b] = [b64_char (byte a div 4), b64_char (byte a mod 4 * 16 + byte b div 16), b64_char (byte b mod 16 * 4), CHR ''='']"
| "b64_encode (a # b # c # s) =
     [b64_char (byte a div 4), b64_char (byte a mod 4 * 16 + byte b div 16),
      b64_char (byte b mod 16 * 4 + byte c div 64), b64_char (byte c mod 64)] @ b64_encode s"

fun b64_quanta :: "string \<Rightarrow> string option" where
  "b64_quanta [] = Some []"
| "b64_quanta (w # x # y # z # s) =
     (case (b64_val w, b64_val x) of (Some i, Some j) \<Rightarrow>
        if y = CHR ''='' then (if z = CHR ''='' \<and> s = [] \<and> j mod 16 = 0 then Some [char_of (i * 4 + j div 16)] else None)
        else (case b64_val y of None \<Rightarrow> None | Some k \<Rightarrow>
          if z = CHR ''='' then
            (if s = [] \<and> k mod 4 = 0 then Some [char_of (i * 4 + j div 16), char_of (j mod 16 * 16 + k div 4)] else None)
          else (case (b64_val z, b64_quanta s) of (Some l, Some r) \<Rightarrow>
              Some (char_of (i * 4 + j div 16) # char_of (j mod 16 * 16 + k div 4) # char_of (k mod 4 * 64 + l) # r)
            | _ \<Rightarrow> None))
      | _ \<Rightarrow> None)"
| "b64_quanta _ = None"

text \<open>The decoder skips carriage returns and newlines.\<close>

definition b64_decode :: "string \<Rightarrow> string option" where
  "b64_decode s = b64_quanta (filter (\<lambda>c. c \<noteq> CHR 0x0A \<and> c \<noteq> CHR 0x0D) s)"

definition b64_code :: "nat \<Rightarrow> nat" where
  "b64_code n = (if n < 26 then 65 + n else if n < 52 then 71 + n else if n < 62 then n - 4 else if n = 62 then 43 else 47)"

lemma b64_code_char: "n < 64 \<Longrightarrow> byte (b64_char n) = b64_code n"
  by (simp add: b64_char_def b64_code_def byte_def)

lemma b64_code_plain: "n < 64 \<Longrightarrow> b64_code n \<notin> {10, 13, 61}"
  by (auto simp: b64_code_def)

lemma b64_char:
  assumes "n < 64"
  shows "b64_val (b64_char n) = Some n" "b64_char n \<noteq> CHR ''=''" "b64_char n \<noteq> CHR 0x0A" "b64_char n \<noteq> CHR 0x0D"
proof -
  show "b64_val (b64_char n) = Some n"
    unfolding b64_val_def b64_code_char [OF assms] Let_def using assms by (simp add: b64_code_def) arith
  have "b64_char n \<noteq> c" if "byte c \<in> {10, 13, 61}" for c
    using that b64_code_plain [OF assms] b64_code_char [OF assms] by auto
  then show "b64_char n \<noteq> CHR ''=''" "b64_char n \<noteq> CHR 0x0A" "b64_char n \<noteq> CHR 0x0D" by (simp_all add: byte_def)
qed

lemma char_of_byte [simp]: "char_of (byte c) = c" by (simp add: byte_def)

text \<open>The groups of six bits of three bytes: each is below 64, and they give the bytes back.\<close>

lemma sextets:
  assumes "x < 256" "y < 256" "z < (256::nat)"
  shows "x div 4 < 64" "x mod 4 * 16 < 64" "x mod 4 * 16 + y div 16 < 64" "y mod 16 * 4 < 64"
    "y mod 16 * 4 + z div 64 < 64" "z mod 64 < 64"
  using assms by linarith+

lemma sextet_join:
  assumes "x < 256" "y < 256" "z < (256::nat)"
  shows "x div 4 * 4 + (x mod 4 * 16 + y div 16) div 16 = x"
    "x div 4 * 4 + x mod 4 * 16 div 16 = x"
    "(x mod 4 * 16 + y div 16) mod 16 * 16 + (y mod 16 * 4 + z div 64) div 4 = y"
    "(x mod 4 * 16 + y div 16) mod 16 * 16 + y mod 16 * 4 div 4 = y"
    "(y mod 16 * 4 + z div 64) mod 4 * 64 + z mod 64 = z"
proof -
  have q: "y div 16 < 16" "z div 64 < 4" using assms by linarith+
  have d: "(x mod 4 * 16 + y div 16) div 16 = x mod 4" "(y mod 16 * 4 + z div 64) div 4 = y mod 16"
    "(x mod 4 * 16 + y div 16) mod 16 = y div 16" "(y mod 16 * 4 + z div 64) mod 4 = z div 64"
    using q by simp_all
  show "x div 4 * 4 + (x mod 4 * 16 + y div 16) div 16 = x" "x div 4 * 4 + x mod 4 * 16 div 16 = x"
    "(x mod 4 * 16 + y div 16) mod 16 * 16 + (y mod 16 * 4 + z div 64) div 4 = y"
    "(x mod 4 * 16 + y div 16) mod 16 * 16 + y mod 16 * 4 div 4 = y"
    "(y mod 16 * 4 + z div 64) mod 4 * 64 + z mod 64 = z"
    unfolding d by simp_all
qed

lemmas sextet = sextets [OF byte_less byte_less byte_less] sextet_join [OF byte_less byte_less byte_less]

lemma b64_group:
  assumes "i < 64" "j < 64"
  shows "j mod 16 = 0 \<Longrightarrow> b64_quanta [b64_char i, b64_char j, CHR ''='', CHR ''=''] = Some [char_of (i * 4 + j div 16)]"
    "k < 64 \<Longrightarrow> k mod 4 = 0 \<Longrightarrow> b64_quanta [b64_char i, b64_char j, b64_char k, CHR ''=''] =
       Some [char_of (i * 4 + j div 16), char_of (j mod 16 * 16 + k div 4)]"
    "k < 64 \<Longrightarrow> l < 64 \<Longrightarrow> b64_quanta s = Some r \<Longrightarrow> b64_quanta ([b64_char i, b64_char j, b64_char k, b64_char l] @ s) =
       Some (char_of (i * 4 + j div 16) # char_of (j mod 16 * 16 + k div 4) # char_of (k mod 4 * 64 + l) # r)"
  using assms by (simp_all add: b64_char)

lemma b64_quanta_encode: "b64_quanta (b64_encode s) = Some s"
proof (induction s rule: b64_encode.induct)
  case (2 a)
  show ?case unfolding b64_encode.simps
    by (subst b64_group (1)) (simp_all only: sextet char_of_byte, simp)
next
  case (3 a b)
  show ?case unfolding b64_encode.simps
    by (subst b64_group (2)) (simp_all only: sextet char_of_byte, simp)
next
  case (4 a b c s)
  show ?case unfolding b64_encode.simps
    by (subst b64_group (3) [OF _ _ _ _ 4]) (simp_all only: sextet char_of_byte)
qed simp

lemma b64_encode_alphabet: "set (b64_encode s) \<subseteq> insert (CHR ''='') (b64_char ` {..<64})"
  by (induction s rule: b64_encode.induct)
     (simp_all only: b64_encode.simps set_append list.set insert_subset Un_subset_iff empty_subsetI simp_thms
        insert_iff imageI lessThan_iff sextets [OF byte_less byte_less byte_less])

lemma b64_encode_plain: "c \<in> set (b64_encode s) \<Longrightarrow> c \<noteq> CHR 0x0A \<and> c \<noteq> CHR 0x0D"
proof -
  assume "c \<in> set (b64_encode s)"
  then consider "c = CHR ''=''" | n where "n < 64" "c = b64_char n" using b64_encode_alphabet [of s] by blast
  then show ?thesis by cases (simp_all add: b64_char)
qed

lemma b64_round_trip: "b64_decode (b64_encode s) = Some s"
proof -
  have "filter (\<lambda>c. c \<noteq> CHR 0x0A \<and> c \<noteq> CHR 0x0D) (b64_encode s) = b64_encode s"
    using b64_encode_plain by (intro filter_True) blast
  then show ?thesis by (simp add: b64_decode_def b64_quanta_encode)
qed

end
