(* ===== verification/Dhnt_Native.thy ===== *)
theory Dhnt_Native
  imports Dhnt_Canonical Go_Base64
begin

text \<open>
  The bounded result channel (\<open>dhnt/native_result.go\<close>): the envelope of one small file in the
  terminal message of a Pod, its construction, its validation and the verification of a message.
  The JSON text of an envelope and \<open>decodeStrict\<close> are the parameters \<open>enc\<close> and \<open>dec\<close>.
\<close>

section \<open>Native results\<close>

record native_result =
  nr_schema :: string
  nr_artifact :: artifact
  nr_encoding :: string
  nr_bytes :: int
  nr_payload :: string
  nr_run :: run

record native_expectation =
  ne_artifact :: artifact
  ne_executor :: executor

definition NativeResultSchema :: string where "NativeResultSchema = ''dhnt.native-result/v1''"
definition NativeResultMarker :: string where "NativeResultMarker = ''DKS_NATIVE_RESULT:''"
definition MaxNativeResultMessageBytes :: nat where "MaxNativeResultMessageBytes = 4 * 1024"
definition MaxNativeResultArtifactBytes :: nat where "MaxNativeResultArtifactBytes = 2 * 1024"

definition validateNativeResult :: "native_result \<Rightarrow> native_expectation \<Rightarrow> verr + string" where
  "validateNativeResult r expected =
     (case first_error [
        refuse (nr_schema r \<noteq> NativeResultSchema) (Bad ''native result schema'' (Unknown (nr_schema r))),
        refuse (a_kind (nr_artifact r) \<noteq> ArtifactFile \<or> a_algorithm (nr_artifact r) \<noteq> DigestSHA256FileV1)
          (Bad ''native result artifact'' (Unknown (a_kind (nr_artifact r)))),
        validateArtifacts ''native result artifact'' [nr_artifact r] True RunSchemaV2,
        refuse (nr_artifact r \<noteq> ne_artifact expected) (Bad ''native result artifact'' (Mismatch (a_name (nr_artifact r)))),
        refuse (nr_encoding r \<noteq> ''base64'') (Bad ''native result encoding'' (Unknown (nr_encoding r))),
        refuse (nr_bytes r < 0 \<or> nr_bytes r > int MaxNativeResultArtifactBytes) (Bad ''native result artifactBytes'' OutOfRange)] of
       Some e \<Rightarrow> Inl e
     | None \<Rightarrow>
        (case b64_decode (nr_payload r) of
           None \<Rightarrow> Inl (Bad ''native result payload'' NotClean)
         | Some payload \<Rightarrow>
           (case first_error [
              refuse (int (length payload) \<noteq> nr_bytes r) (Bad ''native result artifactBytes'' (Mismatch [])),
              refuse (sha256_hex payload \<noteq> a_sha256 (nr_artifact r)) (Bad ''native result payload'' (Mismatch (a_sha256 (nr_artifact r)))),
              map_option (Within ''native result run'') (validateRun (nr_run r)),
              refuse (ru_schema (nr_run r) \<noteq> RunSchemaV2) (Bad ''native result run schema'' (Unknown (ru_schema (nr_run r)))),
              refuse (r_class (ru_result (nr_run r)) \<noteq> ''pass'') (Bad ''native result run'' (Unknown (r_class (ru_result (nr_run r))))),
              refuse (ru_executor (nr_run r) \<noteq> ne_executor expected) (Bad ''native result executor'' (Mismatch (x_node (ru_executor (nr_run r))))),
              refuse (ru_outputs (nr_run r) \<noteq> [nr_artifact r]) (Bad ''native result run outputs'' (Mismatch []))] of
             Some e \<Rightarrow> Inl e
           | None \<Rightarrow> Inr payload)))"

definition MarshalNativeResult :: "(native_result \<Rightarrow> string) \<Rightarrow> native_result \<Rightarrow> verr + string" where
  "MarshalNativeResult enc r =
     (case validateNativeResult r \<lparr>ne_artifact = nr_artifact r, ne_executor = ru_executor (nr_run r)\<rparr> of
        Inl e \<Rightarrow> Inl e | Inr payload \<Rightarrow> Inr (marshalLine enc r))"

definition NewNativeResult :: "(native_result \<Rightarrow> string) \<Rightarrow> run \<Rightarrow> artifact \<Rightarrow> string \<Rightarrow> verr + native_result" where
  "NewNativeResult enc run art payload =
     (if length payload > MaxNativeResultArtifactBytes then Inl (Bad ''native result payload'' OutOfRange)
      else
        let r = \<lparr>nr_schema = NativeResultSchema, nr_artifact = art, nr_encoding = ''base64'', nr_bytes = int (length payload),
                 nr_payload = b64_encode payload, nr_run = run\<rparr>
        in case MarshalNativeResult enc r of
             Inl e \<Rightarrow> Inl e
           | Inr encoded \<Rightarrow>
               if length NativeResultMarker + length encoded > MaxNativeResultMessageBytes then Inl (Bad ''native result'' OutOfRange)
               else Inr r)"

fun split_lines :: "string \<Rightarrow> string list" where
  "split_lines [] = [[]]"
| "split_lines (c # s) = (if c = CHR 0x0A then [] # split_lines s
     else case split_lines s of [] \<Rightarrow> [[c]] | w # ws \<Rightarrow> (c # w) # ws)"

definition marker_step :: "nat \<Rightarrow> string option \<Rightarrow> string \<Rightarrow> verr + string option" where
  "marker_step i found line =
     (if has_prefix line NativeResultMarker then
        (if found \<noteq> None then Inl (Bad ''native result message'' (Duplicate NativeResultMarker))
         else Inr (Some (drop (length NativeResultMarker) line)))
      else Inr found)"

definition VerifyNativeResultMessage ::
  "(string \<Rightarrow> verr + native_result) \<Rightarrow> (native_result \<Rightarrow> string) \<Rightarrow> string \<Rightarrow> native_expectation \<Rightarrow> verr + (string \<times> run)" where
  "VerifyNativeResultMessage dec enc message expected =
     (if length message > MaxNativeResultMessageBytes then Inl (Bad ''native result message'' OutOfRange)
      else case scan marker_step 0 None (split_lines message) of
        Inl e \<Rightarrow> Inl e
      | Inr None \<Rightarrow> Inl (Bad ''native result message'' NotPresent)
      | Inr (Some encoded) \<Rightarrow>
          if encoded = [] then Inl (Bad ''native result marker'' MustNotBeEmpty)
          else (case dec encoded of
              Inl e \<Rightarrow> Inl (Within ''native result'' e)
            | Inr r \<Rightarrow>
                if encoded @ [CHR 0x0A] \<noteq> marshalLine enc r then Inl (Bad ''native result'' NotClean)
                else (case validateNativeResult r expected of Inl e \<Rightarrow> Inl e | Inr payload \<Rightarrow> Inr (payload, nr_run r))))"

text \<open>What a validated result binds.\<close>

definition native_ok :: "native_result \<Rightarrow> native_expectation \<Rightarrow> string \<Rightarrow> bool" where
  "native_ok r expected payload \<longleftrightarrow>
     nr_schema r = NativeResultSchema \<and> nr_encoding r = ''base64'' \<and> nr_artifact r = ne_artifact expected \<and>
     a_kind (nr_artifact r) = ArtifactFile \<and> a_algorithm (nr_artifact r) = DigestSHA256FileV1 \<and>
     artifacts_ok RunSchemaV2 [nr_artifact r] \<and>
     b64_decode (nr_payload r) = Some payload \<and> int (length payload) = nr_bytes r \<and> length payload \<le> MaxNativeResultArtifactBytes \<and>
     sha256_hex payload = a_sha256 (nr_artifact r) \<and>
     run_ok (nr_run r) \<and> ru_schema (nr_run r) = RunSchemaV2 \<and> r_class (ru_result (nr_run r)) = ''pass'' \<and>
     ru_executor (nr_run r) = ne_executor expected \<and> ru_outputs (nr_run r) = [nr_artifact r]"

lemma first_error_Inr: "(case first_error cs of Some e \<Rightarrow> Inl e | None \<Rightarrow> x) = Inr p \<longleftrightarrow> first_error cs = None \<and> x = Inr p"
  by (cases "first_error cs") simp_all

lemma decoded_Inr: "(case x of None \<Rightarrow> Inl e | Some y \<Rightarrow> f y) = Inr p \<longleftrightarrow> (\<exists>y. x = Some y \<and> f y = Inr p)"
  by (cases x) simp_all

lemma validateNativeResult_Inr: "validateNativeResult r expected = Inr payload \<longleftrightarrow> native_ok r expected payload"
  unfolding validateNativeResult_def native_ok_def first_error_Inr decoded_Inr
  by (simp only: accept_simps validateRun_None option.map_disc_iff sum.inject) auto

section \<open>The message channel\<close>

lemma marker_scan: "scan marker_step n found ls = Inr res \<longleftrightarrow>
  (case filter (\<lambda>l. has_prefix l NativeResultMarker) ls of
     [] \<Rightarrow> res = found
   | [l] \<Rightarrow> found = None \<and> res = Some (drop (length NativeResultMarker) l)
   | _ \<Rightarrow> False)"
  by (induction ls arbitrary: n found) (auto simp: marker_step_def split: list.splits)

lemma marked_lines: "scan marker_step 0 None ls = Inr (Some e) \<longleftrightarrow>
   filter (\<lambda>l. has_prefix l NativeResultMarker) ls = [NativeResultMarker @ e]"
proof -
  let ?M = "filter (\<lambda>l. has_prefix l NativeResultMarker) ls"
  have pre: "has_prefix l NativeResultMarker" if "?M = [l]" for l
    using that filter_eq_ConsD [OF that] by blast
  consider "?M = []" | l where "?M = [l]" | l l' ls' where "?M = l # l' # ls'" by (metis list.exhaust)
  then show ?thesis
  proof cases
    case (2 l)
    obtain t where "l = NativeResultMarker @ t" using pre [OF 2] unfolding has_prefix_iff by blast
    with 2 show ?thesis by (auto simp: marker_scan)
  qed (simp_all add: marker_scan)
qed

lemma VerifyNativeResultMessage_Inr:
  "VerifyNativeResultMessage dec enc message expected = Inr (payload, r) \<longleftrightarrow>
     length message \<le> MaxNativeResultMessageBytes \<and>
     (\<exists>e n. filter (\<lambda>l. has_prefix l NativeResultMarker) (split_lines message) = [NativeResultMarker @ e] \<and>
        e \<noteq> [] \<and> dec e = Inr n \<and> e = enc n \<and> native_ok n expected payload \<and> r = nr_run n)"
proof -
  have c: "e @ [CHR 0x0A] = marshalLine enc n \<longleftrightarrow> e = enc n" for e n by (simp add: marshalLine_def)
  show ?thesis
    unfolding VerifyNativeResultMessage_def c validateNativeResult_Inr [symmetric] marked_lines [symmetric]
    by (auto split: sum.splits option.splits if_splits)
qed

lemma split_lines_ne [simp]: "split_lines s \<noteq> []"
  by (induction s) (auto split: list.splits)

lemma split_lines_single: "CHR 0x0A \<notin> set w \<Longrightarrow> split_lines w = [w]"
  by (induction w) auto

lemma split_lines_append: "CHR 0x0A \<notin> set w \<Longrightarrow> split_lines (w @ CHR 0x0A # s) = w # split_lines s"
  by (induction w) auto

text \<open>What \<open>NewNativeResult\<close> builds: an envelope that fits the message with its marker.\<close>

lemma NewNativeResult_Inr:
  "NewNativeResult enc run art payload = Inr r \<longleftrightarrow>
     r = \<lparr>nr_schema = NativeResultSchema, nr_artifact = art, nr_encoding = ''base64'', nr_bytes = int (length payload),
          nr_payload = b64_encode payload, nr_run = run\<rparr> \<and>
     native_ok r \<lparr>ne_artifact = art, ne_executor = ru_executor run\<rparr> payload \<and>
     length (NativeResultMarker @ marshalLine enc r) \<le> MaxNativeResultMessageBytes"
proof -
  let ?r = "\<lparr>nr_schema = NativeResultSchema, nr_artifact = art, nr_encoding = ''base64'', nr_bytes = int (length payload),
          nr_payload = b64_encode payload, nr_run = run\<rparr>"
  let ?x = "\<lparr>ne_artifact = art, ne_executor = ru_executor run\<rparr>"
  have v: "validateNativeResult ?r ?x = Inr p \<longleftrightarrow> native_ok ?r ?x payload \<and> p = payload" for p
    unfolding validateNativeResult_Inr by (auto simp: native_ok_def b64_round_trip)
  have len: "native_ok ?r ?x payload \<Longrightarrow> length payload \<le> MaxNativeResultArtifactBytes" by (simp add: native_ok_def)
  show ?thesis
  proof (cases "validateNativeResult ?r ?x")
    case (Inl e)
    then have "\<not> native_ok ?r ?x payload" using v [of payload] by auto
    with Inl show ?thesis by (auto simp: NewNativeResult_def MarshalNativeResult_def Let_def)
  next
    case (Inr p)
    then have "native_ok ?r ?x payload" using v by blast
    with len Inr have "NewNativeResult enc run art payload = Inr r \<longleftrightarrow>
        length (NativeResultMarker @ marshalLine enc ?r) \<le> MaxNativeResultMessageBytes \<and> r = ?r"
      by (auto simp: NewNativeResult_def MarshalNativeResult_def Let_def)
    with \<open>native_ok ?r ?x payload\<close> show ?thesis by metis
  qed
qed

text \<open>The terminal message that carries a result, and its round trip.\<close>

definition native_message :: "(native_result \<Rightarrow> string) \<Rightarrow> native_result \<Rightarrow> string" where
  "native_message enc r = NativeResultMarker @ marshalLine enc r"

lemma native_marker_lines: "CHR 0x0A \<notin> set w \<Longrightarrow>
   filter (\<lambda>l. has_prefix l NativeResultMarker) (split_lines (NativeResultMarker @ w @ [CHR 0x0A])) = [NativeResultMarker @ w]"
proof -
  assume "CHR 0x0A \<notin> set w"
  moreover have "CHR 0x0A \<notin> set NativeResultMarker" by (simp add: NativeResultMarker_def)
  ultimately have "split_lines ((NativeResultMarker @ w) @ CHR 0x0A # []) = (NativeResultMarker @ w) # split_lines []"
    by (intro split_lines_append) simp
  then show ?thesis by (simp add: has_prefix_def NativeResultMarker_def)
qed

lemma native_round_trip:
  assumes new: "NewNativeResult enc run art payload = Inr r"
    and codec: "dec (enc r) = Inr r" "enc r \<noteq> []" "CHR 0x0A \<notin> set (enc r)"
  shows "VerifyNativeResultMessage dec enc (native_message enc r) \<lparr>ne_artifact = art, ne_executor = ru_executor run\<rparr> =
           Inr (payload, run)"
  unfolding VerifyNativeResultMessage_Inr
proof (intro conjI exI)
  show "length (native_message enc r) \<le> MaxNativeResultMessageBytes" "native_ok r \<lparr>ne_artifact = art, ne_executor = ru_executor run\<rparr> payload"
    "run = nr_run r"
    using new [unfolded NewNativeResult_Inr, folded native_message_def] by (blast, blast, metis native_result.select_convs(6))
  show "filter (\<lambda>l. has_prefix l NativeResultMarker) (split_lines (native_message enc r)) = [NativeResultMarker @ enc r]"
    using native_marker_lines [OF codec(3)] by (simp add: native_message_def marshalLine_def)
qed (use codec in simp_all)

end
