(* ===== verification/Dhnt_Runner.thy ===== *)
theory Dhnt_Runner
  imports Dhnt_Canonical
begin

text \<open>
  The runner's execution contract (\<open>dhnt/runner_spec.go\<close>): \<open>RunnerSpec\<close>, its validation, its
  canonical form and its decoder, which accepts canonical bytes only. \<open>allPaths\<close> is an association
  list with the newest path first. The JSON text of a struct and \<open>decodeStrict\<close> are the parameters
  \<open>enc\<close> and \<open>dec\<close>.
\<close>

section \<open>The contract\<close>

record runner_artifact =
  ra_name :: string
  ra_kind :: string
  ra_algorithm :: string
  ra_sha256 :: string
  ra_path :: string

record runner_spec =
  rs_schema :: string
  rs_pipeline :: string
  rs_task :: string
  rs_source :: source
  rs_argv :: "string list"
  rs_workdir :: string
  rs_environment :: "environment list"
  rs_inputs :: "runner_artifact list"
  rs_outputs :: "runner_artifact list"
  rs_evidence :: string
  rs_commit :: string
  rs_nonzero :: string
  rs_platform :: platform

definition RunnerSpecSchema :: string where "RunnerSpecSchema = ''dhnt.runner-spec/v1''"

definition RunnerArtifact_Artifact :: "runner_artifact \<Rightarrow> artifact" where
  "RunnerArtifact_Artifact a =
     \<lparr>a_name = ra_name a, a_kind = ra_kind a, a_algorithm = ra_algorithm a, a_sha256 = ra_sha256 a\<rparr>"

definition sortedRunnerArtifacts :: "runner_artifact list \<Rightarrow> runner_artifact list" where
  "sortedRunnerArtifacts as = sort_key ra_name as"

section \<open>Paths\<close>

definition cleanRelativePath :: "string \<Rightarrow> bool" where
  "cleanRelativePath v \<longleftrightarrow> v \<noteq> [] \<and> v \<noteq> ''.'' \<and> \<not> has_prefix v ''/'' \<and> nul \<notin> set v \<and> CHR 0x5C \<notin> set v \<and>
     path_clean v = v \<and> v \<noteq> ''..'' \<and> \<not> has_prefix v ''../''"

definition reservedRunnerPath :: "string \<Rightarrow> bool" where
  "reservedRunnerPath v \<longleftrightarrow> v = ''.dhnt-staging'' \<or> has_prefix v ''.dhnt-staging/''"

definition pathWithin :: "string \<Rightarrow> string \<Rightarrow> bool" where
  "pathWithin parent child \<longleftrightarrow> parent = child \<or> (parent \<noteq> ''.'' \<and> has_prefix child (parent @ ''/''))"

type_synonym paths = "(string \<times> string) list"

fun reject_from :: "string list \<Rightarrow> verr option" where
  "reject_from [] = None"
| "reject_from (name # others) =
     (case each_from (\<lambda>_ other. refuse (pathWithin name other \<or> pathWithin other name) (Bad ''path alias'' (Alias name other))) 0 others of
        Some e \<Rightarrow> Some e
      | None \<Rightarrow> reject_from others)"

definition rejectPathAliases :: "paths \<Rightarrow> verr option" where
  "rejectPathAliases ps = reject_from (sort (map fst ps))"

section \<open>Validation\<close>

text \<open>The body of the loop in the local function \<open>validate\<close>: names, portable artifacts, all paths.\<close>

definition runner_artifact_step ::
  "string \<Rightarrow> bool \<Rightarrow> nat \<Rightarrow> string list \<times> artifact list \<times> paths \<Rightarrow> runner_artifact \<Rightarrow> verr + string list \<times> artifact list \<times> paths" where
  "runner_artifact_step field output i st a =
     (case first_error [
        refuse (ra_name a \<in> set (fst st)) (At field i (Bad ''name'' (Duplicate (ra_name a)))),
        refuse (\<not> (ra_kind a = ArtifactFile \<and> ra_algorithm a = DigestSHA256FileV1 \<or>
                   ra_kind a = ArtifactTree \<and> ra_algorithm a = DigestSHA256TreeV1)) (At field i (Bad ''kind'' (Unknown (ra_kind a)))),
        refuse (\<not> cleanRelativePath (ra_path a) \<or> reservedRunnerPath (ra_path a)) (At field i (Bad ''path'' NotClean)),
        refuse (output \<and> path_base (ra_path a) \<noteq> ra_sha256 a) (At field i (Bad ''path'' (Mismatch (ra_sha256 a)))),
        (case map_of (snd (snd st)) (ra_path a) of
           Some prior \<Rightarrow> Some (At field i (Bad ''path'' (Alias (ra_path a) prior))) | None \<Rightarrow> None)] of
       Some e \<Rightarrow> Inl e
     | None \<Rightarrow> Inr (ra_name a # fst st, fst (snd st) @ [RunnerArtifact_Artifact a],
                    (ra_path a, field @ '' '' @ ra_name a) # snd (snd st)))"

definition validate_artifacts_of :: "string \<Rightarrow> runner_artifact list \<Rightarrow> bool \<Rightarrow> paths \<Rightarrow> verr + paths" where
  "validate_artifacts_of field as output all_paths =
     (if as = [] then Inl (Bad field MustNotBeEmpty)
      else case scan (runner_artifact_step field output) 0 ([], [], all_paths) as of
        Inl e \<Rightarrow> Inl e
      | Inr st \<Rightarrow> (case validateArtifacts field (fst (snd st)) True RunSchemaV2 of Some e \<Rightarrow> Inl e | None \<Rightarrow> Inr (snd (snd st))))"

definition runner_task :: "runner_spec \<Rightarrow> task" where
  "runner_task s = \<lparr>t_id = rs_task s, t_lane = ''cluster'', t_distribution = ''single'', t_needs = [], t_argv = rs_argv s,
     t_workdir = rs_workdir s, t_environment = rs_environment s, t_placement = None, t_reducer = []\<rparr>"

definition RunnerSpec_Validate :: "runner_spec \<Rightarrow> verr option" where
  "RunnerSpec_Validate s = first_error [
     refuse (rs_schema s \<noteq> RunnerSpecSchema) (Bad ''schema'' (Unknown (rs_schema s))),
     validateID ''pipeline'' (rs_pipeline s),
     validateSource (rs_source s),
     map_option (Within ''task'') (validateTask (runner_task s)),
     validateNonSecretEnvironment (rs_environment s),
     refuse (p_backend (rs_platform s) \<noteq> ''k3s'' \<or> p_os (rs_platform s) \<noteq> ''linux'') (Bad ''platform'' (Unknown (p_backend (rs_platform s)))),
     validatePlatform (rs_platform s),
     refuse (rs_nonzero s \<notin> {''test-fail'', ''infra-fail''}) (Bad ''nonzeroClass'' (Unknown (rs_nonzero s))),
     refuse (\<not> cleanRelativePath (rs_evidence s)) (Bad ''evidenceDirectory'' NotClean),
     refuse (\<not> cleanRelativePath (rs_commit s)) (Bad ''commitManifestPath'' NotClean),
     refuse (reservedRunnerPath (rs_evidence s) \<or> reservedRunnerPath (rs_commit s)) (Bad ''runner paths'' (Reserved ''.dhnt-staging'')),
     refuse (rs_evidence s = rs_commit s) (Bad ''path alias'' (Alias (rs_evidence s) (rs_commit s))),
     (case validate_artifacts_of ''inputs'' (rs_inputs s) False
             [(rs_commit s, ''commit manifest''), (rs_evidence s, ''evidence directory'')] of
        Inl e \<Rightarrow> Some e
      | Inr ps \<Rightarrow> (case validate_artifacts_of ''outputs'' (rs_outputs s) True ps of
          Inl e \<Rightarrow> Some e
        | Inr ps \<Rightarrow> rejectPathAliases ps))]"

definition canonicalRunnerSpec :: "runner_spec \<Rightarrow> runner_spec" where
  "canonicalRunnerSpec s = s\<lparr>rs_environment := sort_key e_name (rs_environment s),
     rs_inputs := sortedRunnerArtifacts (rs_inputs s), rs_outputs := sortedRunnerArtifacts (rs_outputs s)\<rparr>"

definition MarshalRunnerSpec :: "(runner_spec \<Rightarrow> string) \<Rightarrow> runner_spec \<Rightarrow> verr + string" where
  "MarshalRunnerSpec = marshal_valid RunnerSpec_Validate canonicalRunnerSpec"

definition DecodeRunnerSpec :: "(string \<Rightarrow> verr + runner_spec) \<Rightarrow> (runner_spec \<Rightarrow> string) \<Rightarrow> string \<Rightarrow> verr + runner_spec" where
  "DecodeRunnerSpec dec enc data =
     (case decode_valid RunnerSpec_Validate dec data of
        Inl e \<Rightarrow> Inl e
      | Inr s \<Rightarrow> (case MarshalRunnerSpec enc s of
          Inl e \<Rightarrow> Inl e
        | Inr canonical \<Rightarrow> if data \<noteq> canonical then Inl (Bad ''runner spec'' NotClean) else Inr s))"

definition runnerSpecEqualArgv :: "runner_spec \<Rightarrow> string list \<Rightarrow> bool" where
  "runnerSpecEqualArgv s argv \<longleftrightarrow> rs_argv s = argv"

section \<open>What the paths mean\<close>

lemma split_slash_cat: "split_slash (p @ CHR ''/'' # t) = split_slash p @ split_slash t"
proof (induction p)
  case (Cons c p)
  show ?case
  proof (cases "split_slash p")
    case Nil
    then show ?thesis by simp
  next
    case (Cons w ws)
    with Cons.IH show ?thesis by simp
  qed
qed simp

text \<open>Path elements: one path is within another when its elements extend the other's.\<close>

definition below :: "string \<Rightarrow> string \<Rightarrow> bool" where
  "below parent child \<longleftrightarrow> (\<exists>rest. split_slash child = split_slash parent @ rest)"

lemma split_slash_inject: "split_slash p = split_slash c \<longleftrightarrow> p = c"
  by (metis join_split)

lemma pathWithin_below: "parent \<noteq> ''.'' \<Longrightarrow> pathWithin parent child \<longleftrightarrow> below parent child"
proof
  assume "parent \<noteq> ''.''" "pathWithin parent child"
  then consider "parent = child" | t where "child = parent @ CHR ''/'' # t"
    by (auto simp: pathWithin_def has_prefix_iff)
  then show "below parent child" by cases (auto simp: below_def split_slash_cat)
next
  assume p: "parent \<noteq> ''.''" and "below parent child"
  then obtain rest where r: "split_slash child = split_slash parent @ rest" by (auto simp: below_def)
  show "pathWithin parent child"
  proof (cases "rest = []")
    case True
    with r show ?thesis by (simp add: pathWithin_def split_slash_inject)
  next
    case False
    have "child = join_slash (split_slash parent @ rest)" by (metis join_split r)
    also have "\<dots> = parent @ CHR ''/'' # join_slash rest"
    proof -
      have "join_slash (ws @ rest) = join_slash ws @ CHR ''/'' # join_slash rest" if "ws \<noteq> []" for ws
        using that False by (induction ws rule: join_slash.induct) (auto simp: neq_Nil_conv)
      from this [of "split_slash parent"] show ?thesis by simp
    qed
    finally show ?thesis using p by (simp add: pathWithin_def has_prefix_iff)
  qed
qed

definition apart :: "string \<Rightarrow> string \<Rightarrow> bool" where
  "apart p q \<longleftrightarrow> \<not> below p q \<and> \<not> below q p"

lemma apart_sym: "apart p q \<Longrightarrow> apart q p" and not_apart [simp]: "\<not> apart p p"
  by (auto simp: apart_def below_def)

lemma symp_apart: "symp apart"
  by (rule sympI) (rule apart_sym)

lemma reject_from_None: "(\<And>p. p \<in> set ps \<Longrightarrow> p \<noteq> ''.'') \<Longrightarrow> reject_from ps = None \<longleftrightarrow> sorted_wrt apart ps"
proof (induction ps)
  case (Cons p ps)
  have "reject_from (p # ps) = None \<longleftrightarrow> (\<forall>q \<in> set ps. \<not> (pathWithin p q \<or> pathWithin q p)) \<and> reject_from ps = None"
    by (simp only: reject_from.simps chain_None each_from_accept [OF refuse_None])
  moreover have "pathWithin p q \<or> pathWithin q p \<longleftrightarrow> \<not> apart p q" if "q \<in> set ps" for q
    using that Cons.prems by (simp add: pathWithin_below apart_def)
  moreover have "reject_from ps = None \<longleftrightarrow> sorted_wrt apart ps" using Cons by simp
  ultimately show ?case by auto
qed simp

lemma sorted_wrt_insort:
  assumes "symp R"
  shows "sorted_wrt R (insort x xs) \<longleftrightarrow> (\<forall>y \<in> set xs. R x y) \<and> sorted_wrt R xs"
  using assms by (induction xs) (auto simp: set_insort_key dest: sympD)

lemma sorted_wrt_sort: "symp R \<Longrightarrow> sorted_wrt R (sort xs) \<longleftrightarrow> sorted_wrt R xs"
  by (induction xs) (simp_all add: sorted_wrt_insort)

section \<open>What the validation accepts\<close>

definition runner_artifact_ok :: "bool \<Rightarrow> runner_artifact \<Rightarrow> bool" where
  "runner_artifact_ok output a \<longleftrightarrow> artifact_ok RunSchemaV2 (RunnerArtifact_Artifact a) \<and>
     cleanRelativePath (ra_path a) \<and> \<not> reservedRunnerPath (ra_path a) \<and> (output \<longrightarrow> path_base (ra_path a) = ra_sha256 a)"

definition runner_artifacts_ok :: "bool \<Rightarrow> runner_artifact list \<Rightarrow> bool" where
  "runner_artifacts_ok output as \<longleftrightarrow> as \<noteq> [] \<and> distinct (map ra_name as) \<and> (\<forall>a \<in> set as. runner_artifact_ok output a)"

definition runner_paths :: "runner_spec \<Rightarrow> string list" where
  "runner_paths s = rs_evidence s # rs_commit s # map ra_path (rs_inputs s) @ map ra_path (rs_outputs s)"

definition runner_ok :: "runner_spec \<Rightarrow> bool" where
  "runner_ok s \<longleftrightarrow> rs_schema s = RunnerSpecSchema \<and> identifierRE (rs_pipeline s) \<and> source_ok (rs_source s) \<and>
     task_ok (runner_task s) \<and> nonsecret_env (rs_environment s) \<and>
     p_backend (rs_platform s) = ''k3s'' \<and> p_os (rs_platform s) = ''linux'' \<and> p_arch (rs_platform s) \<in> {''amd64'', ''arm64''} \<and>
     rs_nonzero s \<in> {''test-fail'', ''infra-fail''} \<and>
     (\<forall>p \<in> {rs_evidence s, rs_commit s}. cleanRelativePath p \<and> \<not> reservedRunnerPath p) \<and>
     runner_artifacts_ok False (rs_inputs s) \<and> runner_artifacts_ok True (rs_outputs s) \<and>
     sorted_wrt apart (runner_paths s)"

text \<open>The loop body accepts what follows, and then records the artifact in all three collections.\<close>

definition step_ok :: "bool \<Rightarrow> runner_artifact \<Rightarrow> bool" where
  "step_ok output a \<longleftrightarrow> typed_ok RunSchemaV2 (RunnerArtifact_Artifact a) \<and> cleanRelativePath (ra_path a) \<and>
     \<not> reservedRunnerPath (ra_path a) \<and> (output \<longrightarrow> path_base (ra_path a) = ra_sha256 a)"

abbreviation "label_of field a \<equiv> (ra_path a, field @ '' '' @ ra_name a)"

lemma path_map_None: "(case map_of ps x of None \<Rightarrow> None | Some y \<Rightarrow> Some (f y)) = None \<longleftrightarrow> x \<notin> fst ` set ps"
  unfolding map_of_eq_None_iff [symmetric] by (cases "map_of ps x") simp_all

lemma runner_artifact_step_Inr:
  "runner_artifact_step field output i st a = Inr st' \<longleftrightarrow>
     ra_name a \<notin> set (fst st) \<and> step_ok output a \<and> ra_path a \<notin> fst ` set (snd (snd st)) \<and>
     st' = (ra_name a # fst st, fst (snd st) @ [RunnerArtifact_Artifact a], label_of field a # snd (snd st))"
proof -
  have t: "typed_ok RunSchemaV2 (RunnerArtifact_Artifact a) \<longleftrightarrow>
      ra_kind a = ArtifactFile \<and> ra_algorithm a = DigestSHA256FileV1 \<or> ra_kind a = ArtifactTree \<and> ra_algorithm a = DigestSHA256TreeV1"
    by (auto simp: typed_ok_def RunnerArtifact_Artifact_def)
  have f: "(case first_error cs of Some e \<Rightarrow> Inl e | None \<Rightarrow> Inr x) = Inr y \<longleftrightarrow> first_error cs = None \<and> y = x"
    for cs :: "verr option list" and x y by (auto split: option.split)
  show ?thesis
    unfolding runner_artifact_step_def step_ok_def t f
    by (simp only: first_error_None refuse_None path_map_None) blast
qed

lemma runner_scan_Inr:
  "scan (runner_artifact_step field output) n st as = Inr st' \<longleftrightarrow>
     (\<forall>a \<in> set as. step_ok output a) \<and> distinct (map ra_name as) \<and> set (map ra_name as) \<inter> set (fst st) = {} \<and>
     distinct (map ra_path as) \<and> set (map ra_path as) \<inter> fst ` set (snd (snd st)) = {} \<and>
     st' = (rev (map ra_name as) @ fst st, fst (snd st) @ map RunnerArtifact_Artifact as, rev (map (label_of field) as) @ snd (snd st))"
proof (induction as arbitrary: n st)
  case (Cons a as)
  let ?st = "(ra_name a # fst st, fst (snd st) @ [RunnerArtifact_Artifact a], label_of field a # snd (snd st))"
  have "scan (runner_artifact_step field output) n st (a # as) = Inr st' \<longleftrightarrow>
      runner_artifact_step field output n st a = Inr ?st \<and> scan (runner_artifact_step field output) (Suc n) ?st as = Inr st'"
    using runner_artifact_step_Inr [of field "output" n st a]
    by (cases "runner_artifact_step field output n st a") (simp_all, metis)
  then show ?case unfolding Cons.IH runner_artifact_step_Inr by auto
qed (cases st, auto)

lemma runner_artifacts_ok_split:
  "runner_artifacts_ok output as \<longleftrightarrow> (\<forall>a \<in> set as. step_ok output a) \<and> artifacts_ok RunSchemaV2 (map RunnerArtifact_Artifact as)"
proof -
  have n: "map a_name (map RunnerArtifact_Artifact as) = map ra_name as"
    by (simp add: RunnerArtifact_Artifact_def)
  show ?thesis unfolding runner_artifacts_ok_def artifacts_ok_def n
    by (auto simp: runner_artifact_ok_def step_ok_def artifact_ok_def)
qed

lemma validate_artifacts_of_Inr:
  "validate_artifacts_of field as output ps = Inr ps' \<longleftrightarrow>
     runner_artifacts_ok output as \<and> distinct (map ra_path as) \<and> set (map ra_path as) \<inter> fst ` set ps = {} \<and>
     ps' = rev (map (label_of field) as) @ ps"
proof -
  let ?st = "(rev (map ra_name as), map RunnerArtifact_Artifact as, rev (map (label_of field) as) @ ps)"
  have "distinct (map ra_name as)" if "artifacts_ok RunSchemaV2 (map RunnerArtifact_Artifact as)"
    using that by (simp add: artifacts_ok_def RunnerArtifact_Artifact_def comp_def)
  then have s: "(\<exists>st. scan (runner_artifact_step field output) 0 ([], [], ps) as = Inr st \<and>
       artifacts_ok RunSchemaV2 (fst (snd st)) \<and> ps' = snd (snd st)) \<longleftrightarrow>
     (\<forall>a \<in> set as. step_ok output a) \<and> artifacts_ok RunSchemaV2 (map RunnerArtifact_Artifact as) \<and>
     distinct (map ra_path as) \<and> set (map ra_path as) \<inter> fst ` set ps = {} \<and> ps' = rev (map (label_of field) as) @ ps"
    unfolding runner_scan_Inr by auto
  have "validate_artifacts_of field as output ps = Inr ps' \<longleftrightarrow> as \<noteq> [] \<and>
     (\<exists>st. scan (runner_artifact_step field output) 0 ([], [], ps) as = Inr st \<and> artifacts_ok RunSchemaV2 (fst (snd st)) \<and> ps' = snd (snd st))"
    by (auto simp: validate_artifacts_of_def validateArtifacts_None [of field, symmetric] split: sum.splits option.splits)
  moreover have "artifacts_ok RunSchemaV2 (map RunnerArtifact_Artifact as) \<Longrightarrow> as \<noteq> []" by (auto simp: artifacts_ok_def)
  ultimately show ?thesis unfolding s runner_artifacts_ok_split by blast
qed

lemma sorted_wrt_apart_distinct: "sorted_wrt apart ps \<Longrightarrow> distinct ps"
  by (induction ps) auto

lemma sorted_wrt_cong: "symp R \<Longrightarrow> mset xs = mset ys \<Longrightarrow> sorted_wrt R xs \<longleftrightarrow> sorted_wrt R ys" for xs ys :: "'a::linorder list"
  by (metis sorted_list_of_multiset_mset sorted_wrt_sort)

lemma RunnerSpec_Validate_None: "RunnerSpec_Validate s = None \<longleftrightarrow> runner_ok s"
proof -
  let ?ps = "[(rs_commit s, ''commit manifest''), (rs_evidence s, ''evidence directory'')]"
  let ?all = "rev (map (label_of ''outputs'') (rs_outputs s)) @ rev (map (label_of ''inputs'') (rs_inputs s)) @ ?ps"
  let ?clean = "cleanRelativePath (rs_evidence s) \<and> cleanRelativePath (rs_commit s) \<and>
     runner_artifacts_ok False (rs_inputs s) \<and> runner_artifacts_ok True (rs_outputs s)"
  have fst: "map fst (map (label_of f) as) = map ra_path as" for f as by (induction as) simp_all
  have "mset (map fst ?all) = mset (runner_paths s)"
    unfolding map_append rev_map [symmetric] fst runner_paths_def by simp
  then have perm: "mset (sort (map fst ?all)) = mset (runner_paths s)" unfolding mset_sort .
  have rejects: "rejectPathAliases ?all = None \<longleftrightarrow> sorted_wrt apart (runner_paths s)" if c: ?clean
  proof -
    have "p \<noteq> ''.''" if "p \<in> set (runner_paths s)" for p
      using that c by (auto simp: runner_paths_def runner_artifacts_ok_def runner_artifact_ok_def cleanRelativePath_def)
    then have "p \<noteq> ''.''" if "p \<in> set (sort (map fst ?all))" for p
      using that mset_eq_setD [OF perm] by blast
    then show ?thesis unfolding rejectPathAliases_def
      by (subst reject_from_None) (blast, rule sorted_wrt_cong [OF symp_apart perm])
  qed
  have disj: "rs_evidence s \<noteq> rs_commit s \<and> distinct (map ra_path (rs_inputs s)) \<and> set (map ra_path (rs_inputs s)) \<inter> fst ` set ?ps = {} \<and>
      distinct (map ra_path (rs_outputs s)) \<and>
      set (map ra_path (rs_outputs s)) \<inter> fst ` set (rev (map (label_of ''inputs'') (rs_inputs s)) @ ?ps) = {}"
    if "sorted_wrt apart (runner_paths s)"
    using sorted_wrt_apart_distinct [OF that] by (auto simp: runner_paths_def) (metis IntI emptyE imageI)
  have paths: "(case validate_artifacts_of ''inputs'' (rs_inputs s) False ?ps of Inl e \<Rightarrow> Some e
      | Inr ps \<Rightarrow> (case validate_artifacts_of ''outputs'' (rs_outputs s) True ps of Inl e \<Rightarrow> Some e | Inr ps \<Rightarrow> rejectPathAliases ps)) = None \<longleftrightarrow>
    (\<exists>ps ps'. validate_artifacts_of ''inputs'' (rs_inputs s) False ?ps = Inr ps \<and>
       validate_artifacts_of ''outputs'' (rs_outputs s) True ps = Inr ps' \<and> rejectPathAliases ps' = None)"
    by (auto split: sum.splits)
  have c: "cleanRelativePath (rs_evidence s) \<Longrightarrow> cleanRelativePath (rs_commit s) \<Longrightarrow>
    rs_evidence s \<noteq> rs_commit s \<and>
    (\<exists>ps ps'. validate_artifacts_of ''inputs'' (rs_inputs s) False ?ps = Inr ps \<and>
       validate_artifacts_of ''outputs'' (rs_outputs s) True ps = Inr ps' \<and> rejectPathAliases ps' = None) \<longleftrightarrow>
    runner_artifacts_ok False (rs_inputs s) \<and> runner_artifacts_ok True (rs_outputs s) \<and> sorted_wrt apart (runner_paths s)"
    unfolding validate_artifacts_of_Inr using rejects disj by blast
  have p: "platform_ok (rs_platform s) \<longleftrightarrow> p_arch (rs_platform s) \<in> {''amd64'', ''arm64''}"
    if "p_backend (rs_platform s) = ''k3s''" "p_os (rs_platform s) = ''linux''"
    using that by (simp add: platform_ok_def)
  show ?thesis
    unfolding RunnerSpec_Validate_def runner_ok_def
    by (simp only: accept_simps paths option.map_disc_iff validateNonSecretEnvironment_None) (use c p in auto)
qed

section \<open>The canonical form\<close>

lemma runner_artifacts_ok_sorted: "runner_artifacts_ok output (sortedRunnerArtifacts as) = runner_artifacts_ok output as"
proof -
  have "sort_key ra_name as = [] \<longleftrightarrow> as = []" by (metis length_0_conv length_sort)
  then show ?thesis by (simp add: runner_artifacts_ok_def sortedRunnerArtifacts_def distinct_map_sort)
qed

lemma canonical_runner_ok:
  assumes "runner_ok s"
  shows "runner_ok (canonicalRunnerSpec s)"
proof -
  have t: "task_ok (runner_task (canonicalRunnerSpec s)) = task_ok (runner_task s)"
    by (simp add: task_ok_def runner_task_def canonicalRunnerSpec_def env_ok_def distinct_map_sort)
  have n: "nonsecret_env (rs_environment (canonicalRunnerSpec s)) = nonsecret_env (rs_environment s)"
    by (simp add: nonsecret_env_def canonicalRunnerSpec_def)
  have "mset (map f (sort_key g xs)) = mset (map f xs)" for f :: "runner_artifact \<Rightarrow> string" and g :: "runner_artifact \<Rightarrow> string" and xs
    by simp
  then have "mset (runner_paths (canonicalRunnerSpec s)) = mset (runner_paths s)"
    by (simp add: runner_paths_def canonicalRunnerSpec_def sortedRunnerArtifacts_def)
  then have p: "sorted_wrt apart (runner_paths (canonicalRunnerSpec s)) = sorted_wrt apart (runner_paths s)"
    by (rule sorted_wrt_cong [OF symp_apart])
  show ?thesis using assms unfolding runner_ok_def t n p by (simp add: canonicalRunnerSpec_def runner_artifacts_ok_sorted)
qed

interpretation runner_form: canonical_form RunnerSpec_Validate runner_ok canonicalRunnerSpec
  by unfold_locales (simp_all add: RunnerSpec_Validate_None canonical_runner_ok, simp add: canonicalRunnerSpec_def sortedRunnerArtifacts_def)

text \<open>Only the canonical bytes of a valid specification decode.\<close>

lemma DecodeRunnerSpec_Inr:
  "DecodeRunnerSpec dec enc data = Inr s \<longleftrightarrow> dec data = Inr s \<and> runner_ok s \<and> data = marshalLine enc (canonicalRunnerSpec s)"
proof -
  have m: "MarshalRunnerSpec enc s = Inr c \<longleftrightarrow> runner_ok s \<and> c = marshalLine enc (canonicalRunnerSpec s)" for c s
    unfolding MarshalRunnerSpec_def by (rule runner_form.marshal_Inr)
  have "DecodeRunnerSpec dec enc data = Inr s \<longleftrightarrow>
     decode_valid RunnerSpec_Validate dec data = Inr s \<and> MarshalRunnerSpec enc s = Inr data"
    by (auto simp: DecodeRunnerSpec_def split: sum.splits if_splits)
  then show ?thesis unfolding runner_form.decode_Inr m by blast
qed

end
