(* ===== verification/Dhnt_Documents.thy ===== *)
theory Dhnt_Documents
  imports Dhnt_Strict Dhnt_Native Dhnt_Runner
begin

text \<open>
  The documents of \<open>dhnt/\<close> as Go types: the fields, types and \<open>json\<close> tags of the structs, in the order of
  the source, for the strict decoder. Named string types, integers and maps are \<open>GOther\<close>. All fields are
  exported and none is embedded.
\<close>

definition tagged_field :: "string \<Rightarrow> string \<Rightarrow> gotype \<Rightarrow> field_info \<times> gotype" where
  "tagged_field name tag t = (\<lparr>fi_name = name, fi_exported = True, fi_anonymous = False, fi_tag = tag\<rparr>, t)"

section \<open>The structs\<close>

definition source_type :: gotype where
  "source_type = GStruct [
     tagged_field ''Repository'' ''repository'' GOther,
     tagged_field ''Commit'' ''commit'' GOther,
     tagged_field ''SHA256'' ''sha256'' GOther]"

definition artifact_type :: gotype where
  "artifact_type = GStruct [
     tagged_field ''Name'' ''name'' GOther,
     tagged_field ''Kind'' ''kind,omitempty'' GOther,
     tagged_field ''DigestAlgorithm'' ''digestAlgorithm,omitempty'' GOther,
     tagged_field ''SHA256'' ''sha256'' GOther]"

definition environment_type :: gotype where
  "environment_type = GStruct [
     tagged_field ''Name'' ''name'' GOther,
     tagged_field ''Value'' ''value'' GOther]"

definition platform_type :: gotype where
  "platform_type = GStruct [
     tagged_field ''Backend'' ''backend'' GOther,
     tagged_field ''OS'' ''os'' GOther,
     tagged_field ''Arch'' ''arch'' GOther]"

definition placement_type :: gotype where
  "placement_type = GStruct [
     tagged_field ''CPU'' ''cpu,omitempty'' GOther,
     tagged_field ''MemoryBytes'' ''memoryBytes,omitempty'' GOther,
     tagged_field ''AcceleratorKind'' ''acceleratorKind,omitempty'' GOther,
     tagged_field ''AcceleratorFamily'' ''acceleratorFamily,omitempty'' GOther,
     tagged_field ''AcceleratorCount'' ''acceleratorCount,omitempty'' GOther,
     tagged_field ''AcceleratorMemoryBytes'' ''acceleratorMemoryBytes,omitempty'' GOther,
     tagged_field ''MinimumCapacity'' ''minimumCapacity,omitempty'' GOther,
     tagged_field ''TopologyKey'' ''topologyKey,omitempty'' GOther,
     tagged_field ''CohortSize'' ''cohortSize,omitempty'' GOther]"

definition task_type :: gotype where
  "task_type = GStruct [
     tagged_field ''ID'' ''id'' GOther,
     tagged_field ''Lane'' ''lane'' GOther,
     tagged_field ''Distribution'' ''distribution'' GOther,
     tagged_field ''Needs'' ''needs'' (GSlice GOther),
     tagged_field ''Argv'' ''argv'' (GSlice GOther),
     tagged_field ''WorkingDirectory'' ''workingDirectory'' GOther,
     tagged_field ''Environment'' ''environment'' (GSlice environment_type),
     tagged_field ''Placement'' ''placement,omitempty'' (GPtr placement_type),
     tagged_field ''Reducer'' ''reducer,omitempty'' GOther]"

definition chunk_type :: gotype where
  "chunk_type = GStruct [
     tagged_field ''Index'' ''index'' GOther,
     tagged_field ''Count'' ''count'' GOther,
     tagged_field ''ManifestSHA256'' ''manifestSha256'' GOther]"

definition matrix_entry_type :: gotype where
  "matrix_entry_type = GStruct [
     tagged_field ''Task'' ''task'' GOther,
     tagged_field ''Platform'' ''platform'' platform_type,
     tagged_field ''Chunk'' ''chunk,omitempty'' (GPtr chunk_type),
     tagged_field ''Inputs'' ''inputs'' (GSlice artifact_type),
     tagged_field ''Outputs'' ''outputs'' (GSlice artifact_type)]"

definition pipeline_type :: gotype where
  "pipeline_type = GStruct [
     tagged_field ''Schema'' ''schema'' GOther,
     tagged_field ''Pipeline'' ''pipeline'' GOther,
     tagged_field ''Source'' ''source'' source_type,
     tagged_field ''Tasks'' ''tasks'' (GSlice task_type),
     tagged_field ''Matrix'' ''matrix'' (GSlice matrix_entry_type)]"

definition output_commit_type :: gotype where
  "output_commit_type = GStruct [
     tagged_field ''Schema'' ''schema'' GOther,
     tagged_field ''DigestAlgorithm'' ''digestAlgorithm'' GOther,
     tagged_field ''SHA256'' ''sha256'' GOther]"

definition executor_type :: gotype where
  "executor_type = GStruct [
     tagged_field ''Node'' ''node'' GOther,
     tagged_field ''Backend'' ''backend'' GOther,
     tagged_field ''OS'' ''os'' GOther,
     tagged_field ''Arch'' ''arch'' GOther]"

definition result_type :: gotype where
  "result_type = GStruct [
     tagged_field ''Class'' ''class'' GOther,
     tagged_field ''ExitCode'' ''exitCode'' (GPtr GOther)]"

definition run_type :: gotype where
  "run_type = GStruct [
     tagged_field ''Schema'' ''schema'' GOther,
     tagged_field ''Pipeline'' ''pipeline'' GOther,
     tagged_field ''Task'' ''task'' GOther,
     tagged_field ''Run'' ''run'' GOther,
     tagged_field ''Source'' ''source'' source_type,
     tagged_field ''Inputs'' ''inputs'' (GSlice artifact_type),
     tagged_field ''Executor'' ''executor'' executor_type,
     tagged_field ''Result'' ''result'' result_type,
     tagged_field ''Outputs'' ''outputs'' (GSlice artifact_type),
     tagged_field ''OutputCommit'' ''outputCommit,omitempty'' (GPtr output_commit_type),
     tagged_field ''StartedAt'' ''startedAt'' GOther,
     tagged_field ''FinishedAt'' ''finishedAt'' GOther,
     tagged_field ''TraceID'' ''traceId'' GOther]"

definition native_result_type :: gotype where
  "native_result_type = GStruct [
     tagged_field ''Schema'' ''schema'' GOther,
     tagged_field ''Artifact'' ''artifact'' artifact_type,
     tagged_field ''Encoding'' ''encoding'' GOther,
     tagged_field ''ArtifactBytes'' ''artifactBytes'' GOther,
     tagged_field ''Payload'' ''payload'' GOther,
     tagged_field ''Run'' ''run'' run_type]"

definition runner_artifact_type :: gotype where
  "runner_artifact_type = GStruct [
     tagged_field ''Name'' ''name'' GOther,
     tagged_field ''Kind'' ''kind'' GOther,
     tagged_field ''DigestAlgorithm'' ''digestAlgorithm'' GOther,
     tagged_field ''SHA256'' ''sha256'' GOther,
     tagged_field ''Path'' ''path'' GOther]"

definition runner_spec_type :: gotype where
  "runner_spec_type = GStruct [
     tagged_field ''Schema'' ''schema'' GOther,
     tagged_field ''Pipeline'' ''pipeline'' GOther,
     tagged_field ''Task'' ''task'' GOther,
     tagged_field ''Source'' ''source'' source_type,
     tagged_field ''Argv'' ''argv'' (GSlice GOther),
     tagged_field ''WorkingDirectory'' ''workingDirectory'' GOther,
     tagged_field ''Environment'' ''environment'' (GSlice environment_type),
     tagged_field ''Inputs'' ''inputs'' (GSlice runner_artifact_type),
     tagged_field ''Outputs'' ''outputs'' (GSlice runner_artifact_type),
     tagged_field ''EvidenceDirectory'' ''evidenceDirectory'' GOther,
     tagged_field ''CommitManifestPath'' ''commitManifestPath'' GOther,
     tagged_field ''NonzeroClass'' ''nonzeroClass'' GOther,
     tagged_field ''Platform'' ''platform'' platform_type]"


section \<open>Decoding documents\<close>

lemma field_types_plain:
  assumes "\<And>f. f \<in> set fs \<Longrightarrow> fi_exported (fst f) \<and> \<not> fi_anonymous (fst f) \<and> fi_tag (fst f) \<noteq> ''-''"
  shows "field_types fs m = fold (\<lambda>f. AList.update (json_name (fst f)) (snd f)) fs m"
  using assms by (induction fs arbitrary: m) simp_all

lemma decode_strict_valid:
  assumes "jr_tokens rd data = tokens_of j" "jr_ends rd data" "data = text_of ps" "list_all piece_ok ps"
    and "\<And>x. check x = None \<longleftrightarrow> ok x"
  shows "decode_valid check (decodeStrict rd read t) data = Inr x \<longleftrightarrow>
    utf8_valid data \<and> paired ps \<and> conforms t j \<and> read data = Inr x \<and> ok x"
proof -
  have "decode_valid check (decodeStrict rd read t) data = Inr x \<longleftrightarrow> decodeStrict rd read t data = Inr x \<and> ok x"
    by (auto simp: decode_valid_def assms(5) [symmetric] split: option.splits sum.splits)
  then show ?thesis unfolding decodeStrict_Inr [OF assms(1-4)] by blast
qed

lemma DecodePipeline_strict:
  assumes "jr_tokens rd data = tokens_of j" "jr_ends rd data" "data = text_of ps" "list_all piece_ok ps" "enumerates rng"
  shows "DecodePipeline rng (decodeStrict rd read pipeline_type) data = Inr p \<longleftrightarrow>
    utf8_valid data \<and> paired ps \<and> conforms pipeline_type j \<and> read data = Inr p \<and> pipeline_ok p"
  unfolding DecodePipeline_def by (rule decode_strict_valid [OF assms(1-4)]) (rule validatePipeline_None [OF assms(5)])

lemma DecodeRun_strict:
  assumes "jr_tokens rd data = tokens_of j" "jr_ends rd data" "data = text_of ps" "list_all piece_ok ps"
  shows "DecodeRun (decodeStrict rd read run_type) data = Inr r \<longleftrightarrow>
    utf8_valid data \<and> paired ps \<and> conforms run_type j \<and> read data = Inr r \<and> run_ok r"
  unfolding DecodeRun_def by (rule decode_strict_valid [OF assms]) (rule validateRun_None)

end
