(* ===== verification/Dhnt_Codec_Properties.thy ===== *)
theory Dhnt_Codec_Properties
  imports Dhnt_Properties Dhnt_Documents
begin

text \<open>
  The properties of the canonical forms and of the two envelopes of \<open>dhnt/\<close>: the bounded result
  channel and the runner's execution contract.
\<close>

section \<open>Canonical pipelines\<close>

text \<open>The canonical form names a pipeline up to the order of what it lists: two valid pipelines have
  the same canonical form, hence the same canonical bytes, exactly when their schema, name and source agree
  and they list the same tasks and the same matrix entries, each up to the order of its own lists.\<close>

theorem canonical_pipelines_agree:
  assumes "pipeline_ok p" and "pipeline_ok q"
  shows "canonicalPipeline p = canonicalPipeline q \<longleftrightarrow> same_listing p q"
  using assms by (rule canonical_eq_iff)

definition sample_two :: pipeline where
  "sample_two = sample_pipeline\<lparr>pi_tasks := [sample_task ''a'' [], sample_task ''o'' []],
     pi_matrix := [sample_entry ''a'', sample_entry ''o'']\<rparr>"

definition sample_swapped :: pipeline where
  "sample_swapped = sample_two\<lparr>pi_tasks := rev (pi_tasks sample_two), pi_matrix := rev (pi_matrix sample_two)\<rparr>"

lemma sample_two_ok: "pipeline_ok sample_two" "pipeline_ok sample_swapped"
proof -
  have t: "task_ok (sample_task i [])" if "i \<in> {''a'', ''o''}" for i
    using that by (auto simp: sample_task_def task_ok_def sample_ids Lanes_def Distributions_def sample_dot nul_def env_ok_def)
  have e: "entry_ok PipelineSchema ts (sample_entry i)" if "map_of ts i = Some (sample_task i [])" for ts i
    using that by (simp add: sample_entry_def entry_ok_def sample_platform_def platform_ok_def sample_arts sample_task_def)
  have a: "acyclic (dependencies ts)" if "\<And>i t. (i, t) \<in> set ts \<Longrightarrow> t_needs t = []" for ts
  proof -
    have "needs_of ts i = []" for i using that by (auto simp: needs_of_def dest: map_of_SomeD split: option.splits)
    then have "dependencies ts = {}" by (auto simp: dependencies_def depends_def)
    then show ?thesis by (simp add: acyclic_def)
  qed
  have "acyclic (dependencies (task_map sample_two))" "acyclic (dependencies (task_map sample_swapped))"
    by (auto intro!: a simp: task_map_def sample_swapped_def sample_two_def sample_task_def)
  then show "pipeline_ok sample_two" "pipeline_ok sample_swapped"
    using t e by (simp_all add: pipeline_ok_def sample_swapped_def sample_two_def sample_pipeline_def sample_source_ok
      sample_ids task_map_def same_chunk_def)
     (simp_all add: sample_task_def sample_entry_def schema_task_ok_def)
qed

lemma canonical_pipelines_agree_witness:
  "sample_swapped \<noteq> sample_two \<and> canonicalPipeline sample_swapped = canonicalPipeline sample_two"
proof
  show "sample_swapped \<noteq> sample_two" by (simp add: sample_swapped_def sample_two_def sample_task_def sample_pipeline_def)
  show "canonicalPipeline sample_swapped = canonicalPipeline sample_two"
    by (subst canonical_pipelines_agree [OF sample_two_ok(2,1)])
       (simp add: same_listing_def sample_swapped_def)
qed

lemma pipeline_canonical_form:
  "enumerates rng \<Longrightarrow> canonical_form (validatePipeline rng) pipeline_ok canonicalPipeline"
  by unfold_locales (simp_all add: validatePipeline_None canonical_ok canonical_idem)

text \<open>Encoding and decoding a pipeline are inverse up to its canonical form, for every codec of the
  canonical value: a valid pipeline encodes to one line, the line decodes to the canonical form, and
  encoding that gives the same line again.\<close>

theorem Pipeline_codec_round_trip:
  assumes "enumerates rng" and "pipeline_ok p"
    and "dec (marshalLine enc (canonicalPipeline p)) = Inr (canonicalPipeline p)"
  shows "\<exists>line. MarshalPipeline rng enc p = Inr line \<and> DecodePipeline rng dec line = Inr (canonicalPipeline p) \<and>
           MarshalPipeline rng enc (canonicalPipeline p) = Inr line"
  unfolding MarshalPipeline_def DecodePipeline_def
  by (rule canonical_form.round_trip [OF pipeline_canonical_form [OF assms(1)]]) (use assms in simp_all)

definition name_of_line :: "string \<Rightarrow> verr + pipeline" where
  "name_of_line s = (if last s = CHR 0x0A then Inr ((canonicalPipeline sample_pipeline)\<lparr>pi_name := butlast s\<rparr>)
     else Inl (Bad ''malformed JSON'' NotClean))"

lemma Pipeline_codec_round_trip_witness:
  "\<exists>line. MarshalPipeline (\<lambda>_ ks. ks) pi_name sample_pipeline = Inr line \<and>
     DecodePipeline (\<lambda>_ ks. ks) name_of_line line = Inr (canonicalPipeline sample_pipeline) \<and>
     MarshalPipeline (\<lambda>_ ks. ks) pi_name (canonicalPipeline sample_pipeline) = Inr line"
proof (rule Pipeline_codec_round_trip [OF enumerates_id sample_pipeline_ok])
  show "name_of_line (marshalLine pi_name (canonicalPipeline sample_pipeline)) = Inr (canonicalPipeline sample_pipeline)"
    by (simp add: name_of_line_def marshalLine_def)
qed

section \<open>The bounded result channel\<close>

text \<open>C22. A terminal message is accepted exactly when it fits the budget, has one line with the result
  marker, and that line carries the canonical bytes of an envelope whose payload has the expected digest and
  size and whose run is valid v2 evidence of a pass on the expected executor with the carried artifact as its
  only output. The caller gets the decoded payload and that run.\<close>

theorem native_message_verified:
  "VerifyNativeResultMessage dec enc message expected = Inr (payload, r) \<longleftrightarrow>
     length message \<le> MaxNativeResultMessageBytes \<and>
     (\<exists>e n. filter (\<lambda>l. has_prefix l NativeResultMarker) (split_lines message) = [NativeResultMarker @ e] \<and>
        e \<noteq> [] \<and> dec e = Inr n \<and> e = enc n \<and> native_ok n expected payload \<and> r = nr_run n)"
  by (rule VerifyNativeResultMessage_Inr)

text \<open>C37. What the runner publishes, the controller reads: an envelope that \<open>NewNativeResult\<close> builds, put
  behind the marker as one line of a message, is accepted by \<open>VerifyNativeResultMessage\<close> for the artifact and
  executor it was built for, and gives back the payload and the run. The codec reads back its own text, which
  holds no line break.\<close>

theorem native_result_round_trip:
  assumes "NewNativeResult enc run art payload = Inr r"
    and "dec (enc r) = Inr r" and "enc r \<noteq> []" and "CHR 0x0A \<notin> set (enc r)"
  shows "VerifyNativeResultMessage dec enc (native_message enc r) \<lparr>ne_artifact = art, ne_executor = ru_executor run\<rparr> =
           Inr (payload, run)"
  using assms by (rule native_round_trip)

definition abc_artifact :: artifact where
  "abc_artifact = \<lparr>a_name = ''o'', a_kind = ''file'', a_algorithm = DigestSHA256FileV1, a_sha256 = sha256_hex ''abc''\<rparr>"

definition abc_run :: run where
  "abc_run = sample_run2\<lparr>ru_outputs := [abc_artifact],
     ru_commit := Some \<lparr>oc_schema = OutputCommitSchema, oc_algorithm = DigestSHA256OutputCommitV1,
       oc_sha256 = sha256_hex (json_manifest (sortedArtifacts [abc_artifact]))\<rparr>\<rparr>"

definition abc_result :: native_result where
  "abc_result = \<lparr>nr_schema = NativeResultSchema, nr_artifact = abc_artifact, nr_encoding = ''base64'', nr_bytes = 3,
     nr_payload = b64_encode ''abc'', nr_run = abc_run\<rparr>"

lemma abc_artifacts_ok: "artifacts_ok RunSchemaV2 [abc_artifact]"
  by (simp add: artifacts_ok_def abc_artifact_def artifact_ok_def typed_ok_def sample_ids sha256_hex_RE)

lemma abc_run_ok: "run_ok abc_run"
  using sample_run2_ok by (simp add: run_ok_def abc_run_def abc_artifacts_ok commit_ok_def NewOutputCommit_Inr)
    (simp add: sample_run2_def sample_run_def)

lemma abc_result_new: "NewNativeResult nr_payload abc_run abc_artifact ''abc'' = Inr abc_result"
  unfolding NewNativeResult_Inr
proof (intro conjI)
  show "native_ok abc_result \<lparr>ne_artifact = abc_artifact, ne_executor = ru_executor abc_run\<rparr> ''abc''"
    using abc_run_ok by (simp add: native_ok_def abc_result_def abc_artifacts_ok b64_round_trip MaxNativeResultArtifactBytes_def del: b64_encode.simps)
      (simp add: abc_artifact_def abc_run_def sample_run2_def sample_run_def)
qed (simp_all add: abc_result_def MaxNativeResultMessageBytes_def NativeResultMarker_def marshalLine_def)

lemma native_result_round_trip_witness:
  "VerifyNativeResultMessage (\<lambda>s. Inr (abc_result\<lparr>nr_payload := s\<rparr>)) nr_payload (native_message nr_payload abc_result)
     \<lparr>ne_artifact = abc_artifact, ne_executor = ru_executor abc_run\<rparr> = Inr (''abc'', abc_run)"
proof (rule native_result_round_trip [OF abc_result_new])
  show "CHR 0x0A \<notin> set (nr_payload abc_result)" using b64_encode_plain [of "CHR 0x0A" "''abc''"] by (auto simp: abc_result_def simp del: b64_encode.simps)
qed (simp_all add: abc_result_def)

section \<open>The runner's contract\<close>

text \<open>C17. \<open>RunnerSpec.Validate\<close> returns nil exactly on the contracts of the trusted runner: valid fields, a
  literal non-secret environment, a k3s/linux platform, inputs and outputs with distinct names, v2 types and
  clean paths outside the staging directory, outputs stored under their digest, and all paths, the evidence
  directory and the commit manifest included, neither equal nor ancestors of one another, element by element.\<close>

theorem RunnerSpec_Validate_correct: "RunnerSpec_Validate s = None \<longleftrightarrow> runner_ok s"
  by (rule RunnerSpec_Validate_None)

text \<open>Only canonical bytes decode: \<open>DecodeRunnerSpec\<close> returns a specification exactly when the strict
  decoder yields it, it is valid, and the input is the canonical encoding of it; a digest of the bytes is then
  a digest of the contract.\<close>

theorem DecodeRunnerSpec_canonical:
  "DecodeRunnerSpec dec enc data = Inr s \<longleftrightarrow> dec data = Inr s \<and> runner_ok s \<and> data = marshalLine enc (canonicalRunnerSpec s)"
  by (rule DecodeRunnerSpec_Inr)

section \<open>Strict decoding\<close>

text \<open>C29. On a text whose tokens are those of a JSON value, the strict decoder adds four refusals to the reader
  of the value and no others: invalid UTF-8, an unpaired surrogate escape, a null where the Go type has no
  pointer, and an object for a struct with an unknown, repeated or missing key, at any depth.\<close>

theorem decodeStrict_correct:
  assumes "jr_tokens rd data = tokens_of j" and "jr_ends rd data"
    and "data = text_of ps" and "list_all piece_ok ps"
  shows "decodeStrict rd read t data = Inr x \<longleftrightarrow> utf8_valid data \<and> paired ps \<and> conforms t j \<and> read data = Inr x"
  using assms by (rule decodeStrict_Inr)

text \<open>The document \<open>{"name":"a","value":"x"}\<close>, the same with the surrogate pair of U+1F600 for the value, and
  readers that know these texts.\<close>

definition dquote :: char where "dquote = CHR 0x22"

definition pair_pieces :: "piece list" where
  "pair_pieces = map Plain (''{'' @ dquote # ''name'' @ dquote # '':'' @ dquote # ''a'' @ dquote # '','' @ dquote # ''value'' @ dquote # '':'' @ [dquote]) @
     [Unicode ''D83D'', Unicode ''DE00''] @ map Plain (dquote # ''}'')"

definition pair_json :: json where
  "pair_json = JObject [(''name'', JString ''a''), (''value'', JString (map char_of [0xF0, 0x9F, 0x98, 0x80 :: nat]))]"

definition pair_reader :: json_reader where
  "pair_reader = \<lparr>jr_tokens = (\<lambda>s. if s = text_of pair_pieces then tokens_of pair_json else []), jr_ends = (\<lambda>s. s = text_of pair_pieces)\<rparr>"

definition pair_read :: "string \<Rightarrow> verr + environment" where
  "pair_read s = (if s = text_of pair_pieces then Inr \<lparr>e_name = ''a'', e_value = map char_of [0xF0, 0x9F, 0x98, 0x80 :: nat]\<rparr>
     else Inl (Bad ''malformed JSON'' NotPresent))"

lemma pair_ascii: "list_all (\<lambda>c. byte c < 128) s \<Longrightarrow> utf8_valid s"
  by (induction s) (auto simp: utf8_valid_def RuneError_def)

lemma decodeStrict_correct_witness:
  "decodeStrict pair_reader pair_read environment_type (text_of pair_pieces) =
     Inr \<lparr>e_name = ''a'', e_value = map char_of [0xF0, 0x9F, 0x98, 0x80 :: nat]\<rparr>"
proof -
  have ok: "list_all piece_ok pair_pieces"
    by (simp add: pair_pieces_def dquote_def hex_digit_char_def byte_def)
  have u: "utf8_valid (text_of pair_pieces)"
    by (rule pair_ascii) (simp add: pair_pieces_def dquote_def byte_def)
  have p: "paired pair_pieces"
    by (simp add: pair_pieces_def high_half_def low_half_def parseHex4_def hex_value_def byte_def upt_rec)
  have c: "conforms environment_type pair_json"
    by (simp add: pair_json_def environment_type_def tagged_field_def jsonFieldTypes_def json_name_def field_required_def Let_def)
  have r: "jr_tokens pair_reader (text_of pair_pieces) = tokens_of pair_json" "jr_ends pair_reader (text_of pair_pieces)"
    by (simp_all add: pair_reader_def)
  show ?thesis
    using decodeStrict_correct [OF r refl ok, of pair_read environment_type] u p c by (simp add: pair_read_def)
qed

end
