(* ===== verification/Act_Event.thy ===== *)
theory Act_Event
  imports Go_Std
begin

text \<open>
  The activity envelope (\<open>internal/agentos/activity/event.go\<close>): the event, its vocabularies, its
  validator, its content-derived identity and its one-line rendering. The package-level set
  \<open>registeredSources\<close> is the argument \<open>srcs\<close>, a list of names; \<open>RegisterSource\<close> returns the new
  one. Times are nanoseconds since 1970 in UTC. \<open>checkField\<close> ranges over runes; the runes it looks
  for are single bytes in UTF-8, so the model ranges over bytes.
\<close>

section \<open>Data\<close>

abbreviation "SchemaVersion \<equiv> ''bashy-activity-v1''"
abbreviation "SourceActivity \<equiv> ''activity''"
abbreviation "ActionRead \<equiv> ''read''"
abbreviation "StatusOK \<equiv> ''ok''"

definition builtin_sources :: "string list" where
  "builtin_sources = [''mb'', ''meet'', ''weave'', ''sprint'', ''todo'', ''inbox'', ''ping'', ''notify'', SourceActivity]"

definition knownActions :: "string list" where
  "knownActions = [''create'', ActionRead, ''update'', ''delete'', ''start'', ''finish'', ''fail'', ''cancel'', ''block'']"

definition knownStatus :: "string list" where
  "knownStatus = [StatusOK, ''failed'', ''blocked'', ''pending'']"

definition MaxFieldBytes :: nat where "MaxFieldBytes = 96"
definition MaxActorBytes :: nat where "MaxActorBytes = 64"
definition MaxListLen :: nat where "MaxListLen = 32"
definition MaxHop :: int where "MaxHop = 3"
definition MaxSubjectBytes :: nat where "MaxSubjectBytes = 256"

record scope =
  sc_repo :: string
  sc_sprint :: string
  sc_topic :: string
  sc_room :: string

record event =
  ev_schema :: string
  ev_id :: string
  ev_seq :: int
  ev_at :: int
  ev_source :: string
  ev_actor :: string
  ev_action :: string
  ev_noun :: string
  ev_object :: string
  ev_scope :: scope
  ev_status :: string
  ev_mentions :: "string list"
  ev_owner :: string
  ev_assignees :: "string list"
  ev_depends :: "string list"
  ev_members :: "string list"
  ev_cause :: string
  ev_hop :: int
  ev_token :: string

definition scope_empty :: "scope \<Rightarrow> bool" where
  "scope_empty s \<longleftrightarrow> sc_repo s = [] \<and> sc_sprint s = [] \<and> sc_topic s = [] \<and> sc_room s = []"

text \<open>The errors of the package, one per refusal.\<close>

datatype act_error =
    UnknownSource string | UnknownAction string | UnknownStatus string
  | ActorRequired | NounRequired | ObjectRequired | HopLimit int
  | FieldTooLong string nat nat | ControlCharacter string | LooksLikeCredential string string
  | TooManyEntries string nat
  | ReservedSource | NoStore | NoLock | Unreadable | WriteFailed
  | NeedsSubscriber | NoInterest string | NilAdapter

section \<open>Validation\<close>

definition credentialPrefixes :: "string list" where
  "credentialPrefixes = [
     ''sk-'', ''sk_live_'', ''sk_test_'', ''ghp_'', ''gho_'', ''ghu_'', ''ghs_'', ''ghr_'',
     ''github_pat_'', ''xoxb-'', ''xoxp-'', ''xoxa-'', ''AKIA'', ''ASIA'', ''AIza'', ''ya29.'',
     ''glpat-'', ''npm_'', ''dop_v1_'', ''hf_'', ''-----BEGIN'']"

definition control :: "char \<Rightarrow> bool" where
  "control c \<longleftrightarrow> byte c < 32 \<or> byte c = 127"

definition checkField :: "string \<Rightarrow> string \<Rightarrow> nat \<Rightarrow> act_error option" where
  "checkField name value mx = first_error [
     refuse (length value > mx) (FieldTooLong name (length value) mx),
     refuse (list_ex control value) (ControlCharacter name),
     each_from (\<lambda>_ p. refuse (contains value p) (LooksLikeCredential name p)) 0 credentialPrefixes]"

definition RegisterSource :: "string list \<Rightarrow> string \<Rightarrow> act_error + string list" where
  "RegisterSource srcs name =
     (let name = trim_space name in
      case checkField ''source'' name MaxFieldBytes of
        Some e \<Rightarrow> Inl e
      | None \<Rightarrow> Inr (List.insert name srcs))"

definition Sources :: "string list \<Rightarrow> string list" where
  "Sources srcs = sort (remdups srcs)"

definition Actions :: "string list" where
  "Actions = sort knownActions"

definition event_fields :: "event \<Rightarrow> (string \<times> string \<times> nat) list" where
  "event_fields e = [
     (''actor'', ev_actor e, MaxActorBytes),
     (''noun'', ev_noun e, MaxFieldBytes),
     (''object'', ev_object e, MaxFieldBytes),
     (''owner'', ev_owner e, MaxActorBytes),
     (''scope.repo'', sc_repo (ev_scope e), MaxFieldBytes),
     (''scope.sprint'', sc_sprint (ev_scope e), MaxFieldBytes),
     (''scope.topic'', sc_topic (ev_scope e), MaxFieldBytes),
     (''scope.room'', sc_room (ev_scope e), MaxFieldBytes),
     (''cause'', ev_cause e, MaxFieldBytes),
     (''token'', ev_token e, MaxFieldBytes)]"

definition event_lists :: "event \<Rightarrow> (string \<times> string list \<times> nat) list" where
  "event_lists e = [
     (''mentions'', ev_mentions e, MaxActorBytes),
     (''assignees'', ev_assignees e, MaxActorBytes),
     (''depends_on'', ev_depends e, MaxFieldBytes),
     (''members'', ev_members e, MaxActorBytes)]"

definition check_nonempty :: "string \<times> string \<times> nat \<Rightarrow> act_error option" where
  "check_nonempty f = (case f of (name, value, mx) \<Rightarrow> if value = [] then None else checkField name value mx)"

definition check_list :: "string \<times> string list \<times> nat \<Rightarrow> act_error option" where
  "check_list l = (case l of (name, values, mx) \<Rightarrow> first_error [
     refuse (length values > MaxListLen) (TooManyEntries name (length values)),
     each_from (\<lambda>_ v. checkField name v mx) 0 values])"

definition validateEvent :: "string list \<Rightarrow> event \<Rightarrow> act_error option" where
  "validateEvent srcs e = first_error [
     refuse (ev_source e \<notin> set srcs) (UnknownSource (ev_source e)),
     refuse (ev_action e \<notin> set knownActions) (UnknownAction (ev_action e)),
     refuse (ev_status e \<noteq> [] \<and> ev_status e \<notin> set knownStatus) (UnknownStatus (ev_status e)),
     refuse (trim_space (ev_actor e) = []) ActorRequired,
     refuse (trim_space (ev_noun e) = []) NounRequired,
     refuse (trim_space (ev_object e) = []) ObjectRequired,
     refuse (ev_hop e < 0 \<or> ev_hop e \<ge> MaxHop) (HopLimit (ev_hop e)),
     each_from (\<lambda>_. check_nonempty) 0 (event_fields e),
     each_from (\<lambda>_. check_list) 0 (event_lists e)]"

section \<open>Identity and rendering\<close>

definition id_fields :: "event \<Rightarrow> string list" where
  "id_fields e = [ev_source e, ev_actor e, ev_action e, ev_noun e, ev_object e,
     sc_repo (ev_scope e), sc_sprint (ev_scope e), sc_topic (ev_scope e), sc_room (ev_scope e), ev_token e]"

definition id_preimage :: "event \<Rightarrow> string" where
  "id_preimage e = concat (map (\<lambda>f. f @ [nul]) (id_fields e))"

definition computeID :: "event \<Rightarrow> string" where
  "computeID e = take 20 (sha256_hex (id_preimage e))"

fun join_with :: "string \<Rightarrow> string list \<Rightarrow> string" where
  "join_with sep [] = []"
| "join_with sep [x] = x"
| "join_with sep (x # xs) = x @ sep @ join_with sep xs"

definition subject_head :: "event \<Rightarrow> string" where
  "subject_head e = ev_source e @ '' '' @ ev_action e @ '' '' @ ev_noun e @ '' '' @ ev_object e @
     (if ev_status e \<noteq> [] then '' '' @ ev_status e else [])"

definition subject_scope :: "event \<Rightarrow> (string \<times> string) list" where
  "subject_scope e = [(''room'', sc_room (ev_scope e)), (''topic'', sc_topic (ev_scope e)),
     (''sprint'', sc_sprint (ev_scope e)), (''repo'', sc_repo (ev_scope e))]"

text \<open>The line with the first \<open>drop\<close> scope fields left out; \<open>parts\<close> are collected from the last.\<close>

definition subject_line :: "event \<Rightarrow> nat \<Rightarrow> string" where
  "subject_line e n =
     (let parts = map (\<lambda>(k, v). k @ ''='' @ v) (filter (\<lambda>(k, v). v \<noteq> []) (rev (drop n (subject_scope e))))
      in subject_head e @ (if parts \<noteq> [] then '' ['' @ join_with '' '' parts @ '']'' else []) @ '' id='' @ ev_id e)"

function subject_from :: "event \<Rightarrow> nat \<Rightarrow> string" where
  "subject_from e n =
     (if n > length (subject_scope e) then subject_head e @ '' id='' @ ev_id e
      else if length (subject_line e n) \<le> MaxSubjectBytes \<or> n = length (subject_scope e) then subject_line e n
      else subject_from e (Suc n))"
  by pat_completeness auto
termination
  by (relation "measure (\<lambda>(e, n). Suc (length (subject_scope e)) - n)") auto

declare subject_from.simps [simp del]

definition Subject :: "event \<Rightarrow> string" where
  "Subject e = subject_from e 0"

section \<open>What the validator accepts\<close>

definition field_ok :: "nat \<Rightarrow> string \<Rightarrow> bool" where
  "field_ok mx v \<longleftrightarrow> length v \<le> mx \<and> (\<forall>c\<in>set v. \<not> control c) \<and>
     (\<forall>p\<in>set credentialPrefixes. \<not> contains v p)"

definition event_ok :: "string list \<Rightarrow> event \<Rightarrow> bool" where
  "event_ok srcs e \<longleftrightarrow> ev_source e \<in> set srcs \<and> ev_action e \<in> set knownActions \<and>
     (ev_status e = [] \<or> ev_status e \<in> set knownStatus) \<and>
     trim_space (ev_actor e) \<noteq> [] \<and> trim_space (ev_noun e) \<noteq> [] \<and> trim_space (ev_object e) \<noteq> [] \<and>
     0 \<le> ev_hop e \<and> ev_hop e < MaxHop \<and>
     (\<forall>(_, v, mx)\<in>set (event_fields e). field_ok mx v) \<and>
     (\<forall>(_, vs, mx)\<in>set (event_lists e). length vs \<le> MaxListLen \<and> (\<forall>v\<in>set vs. field_ok mx v))"

definition sources_ok :: "string list \<Rightarrow> bool" where
  "sources_ok srcs \<longleftrightarrow> (\<forall>s\<in>set srcs. field_ok MaxFieldBytes s)"

lemma prefix_nonempty: "p \<in> set credentialPrefixes \<Longrightarrow> p \<noteq> []"
  by (auto simp: credentialPrefixes_def)

lemma field_ok_Nil [simp]: "field_ok mx []"
  by (auto simp: field_ok_def dest: prefix_nonempty)

lemma checkField_None [accept_simps]: "checkField name v mx = None \<longleftrightarrow> field_ok mx v"
  unfolding checkField_def field_ok_def
  by (simp only: first_error_None refuse_None each_from_accept [OF refuse_None])
    (auto simp: list_ex_iff)

lemma check_nonempty_None: "check_nonempty f = None \<longleftrightarrow> (case f of (_, v, mx) \<Rightarrow> field_ok mx v)"
  by (auto simp: check_nonempty_def checkField_None split: prod.split)

lemma check_list_None:
  "check_list l = None \<longleftrightarrow> (case l of (_, vs, mx) \<Rightarrow> length vs \<le> MaxListLen \<and> (\<forall>v\<in>set vs. field_ok mx v))"
  by (auto simp: check_list_def accept_simps each_from_const split: prod.split)

lemma validateEvent_None: "validateEvent srcs e = None \<longleftrightarrow> event_ok srcs e"
  unfolding validateEvent_def event_ok_def
  by (simp only: first_error_None refuse_None each_from_const check_nonempty_None check_list_None)
    (auto simp: not_less not_le)

interpretation event_v: validator "validateEvent srcs" "event_ok srcs" for srcs
  by unfold_locales (rule validateEvent_None)

lemma RegisterSource_Inr:
  "RegisterSource srcs name = Inr srcs' \<longleftrightarrow> field_ok MaxFieldBytes (trim_space name) \<and> srcs' = List.insert (trim_space name) srcs"
  using checkField_None [of "''source''" "trim_space name" MaxFieldBytes]
  by (cases "checkField ''source'' (trim_space name) MaxFieldBytes") (auto simp: RegisterSource_def)

lemma sources_ok_register: "sources_ok srcs \<Longrightarrow> RegisterSource srcs name = Inr srcs' \<Longrightarrow> sources_ok srcs'"
  by (auto simp: RegisterSource_Inr sources_ok_def)

section \<open>The envelope is bounded\<close>

definition list_bytes :: "string list \<Rightarrow> nat" where
  "list_bytes vs = sum_list (map length vs)"

definition envelope_bytes :: "event \<Rightarrow> nat" where
  "envelope_bytes e = list_bytes (id_fields e) + length (ev_status e) + length (ev_owner e) + length (ev_cause e) +
     list_bytes (ev_mentions e) + list_bytes (ev_assignees e) + list_bytes (ev_depends e) + list_bytes (ev_members e)"

definition envelope_strings :: "event \<Rightarrow> string set" where
  "envelope_strings e = set (id_fields e) \<union> {ev_status e, ev_owner e, ev_cause e} \<union>
     set (ev_mentions e) \<union> set (ev_assignees e) \<union> set (ev_depends e) \<union> set (ev_members e)"

lemma list_bytes_bound: "(\<forall>v\<in>set vs. length v \<le> mx) \<Longrightarrow> length vs \<le> k \<Longrightarrow> list_bytes vs \<le> k * mx"
proof -
  assume *: "\<forall>v\<in>set vs. length v \<le> mx" and k: "length vs \<le> k"
  have "list_bytes vs \<le> length vs * mx"
    using * by (induction vs) (auto simp: list_bytes_def)
  also have "\<dots> \<le> k * mx" using k by simp
  finally show ?thesis .
qed

lemma word_ok: "v \<in> set knownActions \<or> v \<in> set knownStatus \<Longrightarrow> length v \<le> 7 \<and> (\<forall>c\<in>set v. \<not> control c)"
  by (auto simp: knownActions_def knownStatus_def control_def byte_def)

lemma event_ok_fields:
  assumes "event_ok srcs e"
  shows "field_ok MaxActorBytes (ev_actor e)" "field_ok MaxFieldBytes (ev_noun e)" "field_ok MaxFieldBytes (ev_object e)"
    "field_ok MaxActorBytes (ev_owner e)" "field_ok MaxFieldBytes (sc_repo (ev_scope e))"
    "field_ok MaxFieldBytes (sc_sprint (ev_scope e))" "field_ok MaxFieldBytes (sc_topic (ev_scope e))"
    "field_ok MaxFieldBytes (sc_room (ev_scope e))" "field_ok MaxFieldBytes (ev_cause e)" "field_ok MaxFieldBytes (ev_token e)"
  using assms by (auto simp: event_ok_def event_fields_def)

lemma event_ok_lists:
  assumes "event_ok srcs e"
  shows "list_bytes (ev_mentions e) \<le> 2048" "list_bytes (ev_assignees e) \<le> 2048"
    "list_bytes (ev_depends e) \<le> 3072" "list_bytes (ev_members e) \<le> 2048"
    "v \<in> set (ev_mentions e) \<union> set (ev_assignees e) \<union> set (ev_depends e) \<union> set (ev_members e) \<Longrightarrow> field_ok MaxFieldBytes v"
  using assms list_bytes_bound [of "ev_mentions e" 64 32] list_bytes_bound [of "ev_assignees e" 64 32]
    list_bytes_bound [of "ev_depends e" 96 32] list_bytes_bound [of "ev_members e" 64 32]
  by (auto simp: event_ok_def event_lists_def field_ok_def MaxListLen_def MaxActorBytes_def MaxFieldBytes_def)

lemma envelope_strings_ok:
  assumes "sources_ok srcs" "event_ok srcs e" "v \<in> envelope_strings e"
  shows "length v \<le> MaxFieldBytes \<and> (\<forall>c\<in>set v. \<not> control c)"
proof -
  have "field_ok MaxFieldBytes (ev_source e)" using assms(1,2) by (auto simp: sources_ok_def event_ok_def)
  moreover have "length (ev_action e) \<le> 7 \<and> (\<forall>c\<in>set (ev_action e). \<not> control c)"
    "length (ev_status e) \<le> 7 \<and> (\<forall>c\<in>set (ev_status e). \<not> control c)"
    using assms(2) word_ok by (auto simp: event_ok_def)
  ultimately show ?thesis
    using assms(3) event_ok_fields [OF assms(2)] event_ok_lists(5) [OF assms(2), of v]
    by (auto simp: envelope_strings_def id_fields_def field_ok_def MaxFieldBytes_def MaxActorBytes_def)
qed

section \<open>Identity\<close>

lemma concat_nul_inject:
  assumes "length xs = length ys" "\<forall>x\<in>set xs \<union> set ys. nul \<notin> set x"
  shows "concat (map (\<lambda>f. f @ [nul]) xs) = concat (map (\<lambda>f. f @ [nul]) ys) \<longleftrightarrow> xs = ys"
  using assms
proof (induction xs ys rule: list_induct2)
  case (Cons x xs y ys)
  have split: "nul \<notin> set a \<Longrightarrow> nul \<notin> set b \<Longrightarrow> a @ nul # u = b @ nul # v \<longleftrightarrow> a = b \<and> u = v" for a b u v
    by (induction a arbitrary: b) (case_tac b; auto)+
  from Cons show ?case by (auto simp: split)
qed simp

lemma control_nul: "control nul"
  by (simp add: control_def nul_def byte_def)

lemma id_fields_nul:
  assumes "sources_ok srcs" "event_ok srcs e" "v \<in> set (id_fields e)"
  shows "nul \<notin> set v"
  using envelope_strings_ok [OF assms(1,2), of v] assms(3) control_nul by (auto simp: envelope_strings_def)

section \<open>Rendering\<close>

lemma subject_scope_length [simp]: "length (subject_scope e) = 4"
  by (simp add: subject_scope_def)

lemma subject_line_last: "subject_line e 4 = subject_head e @ '' id='' @ ev_id e"
  by (simp add: subject_line_def subject_scope_def)

lemma subject_from_char:
  "n \<le> 4 \<Longrightarrow> \<exists>k. n \<le> k \<and> k \<le> 4 \<and> subject_from e n = subject_line e k \<and>
     (\<forall>j. n \<le> j \<and> j < k \<longrightarrow> MaxSubjectBytes < length (subject_line e j)) \<and>
     (length (subject_line e k) \<le> MaxSubjectBytes \<or> k = 4)"
proof (induction e n rule: subject_from.induct)
  case (1 e n)
  show ?case
  proof (cases "length (subject_line e n) \<le> MaxSubjectBytes \<or> n = 4")
    case True
    then show ?thesis using "1.prems" by (intro exI [of _ n]) (auto simp: subject_from.simps [of e n])
  next
    case False
    then have step: "subject_from e n = subject_from e (Suc n)" using "1.prems" by (simp add: subject_from.simps [of e n])
    have "\<exists>k. Suc n \<le> k \<and> k \<le> 4 \<and> subject_from e (Suc n) = subject_line e k \<and>
     (\<forall>j. Suc n \<le> j \<and> j < k \<longrightarrow> MaxSubjectBytes < length (subject_line e j)) \<and>
     (length (subject_line e k) \<le> MaxSubjectBytes \<or> k = 4)"
      using False "1.prems" by (intro "1.IH") auto
    then obtain k where k: "Suc n \<le> k" "k \<le> 4" "subject_from e (Suc n) = subject_line e k"
      "\<forall>j. Suc n \<le> j \<and> j < k \<longrightarrow> MaxSubjectBytes < length (subject_line e j)"
      "length (subject_line e k) \<le> MaxSubjectBytes \<or> k = 4" by blast
    have "\<forall>j. n \<le> j \<and> j < k \<longrightarrow> MaxSubjectBytes < length (subject_line e j)"
      using k(4) False by (metis le_antisym not_less not_less_eq_eq)
    with k step show ?thesis by (intro exI [of _ k]) auto
  qed
qed

end
