(* ===== verification/Act_Route.thy ===== *)
theory Act_Route
  imports Act_Event "HOL-Library.AList" "HOL-Library.Product_Lexorder"
begin

text \<open>
  The interest-routing matrix (\<open>internal/agentos/activity/route.go\<close>): which identities an event
  reaches, why, and whether it may wake them. The maps \<open>byName\<close> and \<open>best\<close> are association lists;
  the order in which Go ranges over \<open>best\<close> is the argument \<open>ord\<close>, a permutation.
\<close>

section \<open>Reasons and interests\<close>

definition reasonPrecedence :: "string list" where
  "reasonPrecedence = [''mention'', ''assignment'', ''ownership'', ''subscription'', ''dependency'', ''membership'']"

fun rank_from :: "nat \<Rightarrow> string list \<Rightarrow> string \<Rightarrow> nat" where
  "rank_from i [] r = i"
| "rank_from i (want # ws) r = (if want = r then i else rank_from (Suc i) ws r)"

definition reasonRank :: "string \<Rightarrow> nat" where
  "reasonRank r = rank_from 0 reasonPrecedence r"

definition wakeReasons :: "string list" where
  "wakeReasons = [''mention'', ''assignment'', ''ownership'']"

record interest =
  in_subscriber :: string
  in_sources :: "string list"
  in_nouns :: "string list"
  in_actions :: "string list"
  in_repos :: "string list"
  in_sprints :: "string list"
  in_topics :: "string list"
  in_objects :: "string list"
  in_audit :: bool
  in_wake :: bool
  in_max_wake :: int
  in_mute :: bool

definition DefaultMaxWakePerMin :: int where "DefaultMaxWakePerMin = 3"

definition maxWakePerMin :: "interest \<Rightarrow> int" where
  "maxWakePerMin i = (if in_max_wake i > 0 then in_max_wake i else DefaultMaxWakePerMin)"

record recipient =
  rc_subscriber :: string
  rc_reason :: string
  rc_why :: string
  rc_wake :: bool

section \<open>Matching\<close>

definition stringIn :: "string list \<Rightarrow> string \<Rightarrow> bool" where
  "stringIn vs want \<longleftrightarrow> list_ex (\<lambda>v. equal_fold (trim_space v) (trim_space want)) vs"

definition admits :: "interest \<Rightarrow> event \<Rightarrow> bool" where
  "admits i e =
     (if in_sources i \<noteq> [] \<and> \<not> stringIn (in_sources i) (ev_source e) \<and> \<not> stringIn (in_sources i) ''*'' then False
      else if in_nouns i \<noteq> [] \<and> \<not> stringIn (in_nouns i) (ev_noun e) \<and> \<not> stringIn (in_nouns i) ''*'' then False
      else if in_actions i \<noteq> [] \<and> \<not> stringIn (in_actions i) (ev_action e) \<and> \<not> stringIn (in_actions i) ''*'' then False
      else True)"

definition subscriptionMatch :: "interest \<Rightarrow> event \<Rightarrow> string option" where
  "subscriptionMatch i e =
     (let s = ev_scope e in
      if in_mute i then None
      else if \<not> admits i e then None
      else if stringIn (in_objects i) (ev_object e) then Some (''watching object '' @ ev_object e)
      else if sc_repo s \<noteq> [] \<and> stringIn (in_repos i) (sc_repo s) then Some (''subscribed to repo '' @ sc_repo s)
      else if sc_sprint s \<noteq> [] \<and> stringIn (in_sprints i) (sc_sprint s) then Some (''subscribed to sprint '' @ sc_sprint s)
      else if sc_topic s \<noteq> [] \<and> stringIn (in_topics i) (sc_topic s) then Some (''subscribed to topic '' @ sc_topic s)
      else if in_repos i = [] \<and> in_sprints i = [] \<and> in_topics i = [] \<and> in_objects i = [] then
        (if in_sources i \<noteq> [] then Some (''subscribed to source '' @ ev_source e)
         else if in_nouns i \<noteq> [] then Some (''subscribed to noun '' @ ev_noun e)
         else None)
      else None)"

definition scopeLabel :: "scope \<Rightarrow> string" where
  "scopeLabel s =
     (let parts = (if sc_repo s \<noteq> [] then [''repo '' @ sc_repo s] else []) @
                  (if sc_sprint s \<noteq> [] then [''sprint '' @ sc_sprint s] else []) @
                  (if sc_topic s \<noteq> [] then [''topic '' @ sc_topic s] else []) @
                  (if sc_room s \<noteq> [] then [''room '' @ sc_room s] else [])
      in if parts = [] then ''this event'' @ CHR 0x27 # ''s scope'' else join_with '', '' parts)"

section \<open>Routing\<close>

definition by_name :: "interest list \<Rightarrow> (string \<times> interest) list" where
  "by_name ints = fold (\<lambda>i m. if trim_space (in_subscriber i) \<noteq> []
                               then AList.update (trim_space (in_subscriber i)) i m else m) ints []"

text \<open>The closure \<open>offer\<close>: one (name, reason, why) against the best recipient kept for the name.\<close>

type_synonym offered = "string \<times> string \<times> string"

definition offer :: "event \<Rightarrow> (string \<times> interest) list \<Rightarrow> offered \<Rightarrow> (string \<times> recipient) list \<Rightarrow> (string \<times> recipient) list" where
  "offer e byName off best = (case off of (n, reason, why) \<Rightarrow>
     let name = trim_space n in
     if name = [] then best
     else if equal_fold name (trim_space (ev_actor e)) then best
     else
       let sub = map_of byName name in
       if (case sub of Some i \<Rightarrow> in_mute i | None \<Rightarrow> False) then best
       else if ev_action e = ActionRead \<and>
               (case sub of Some i \<Rightarrow> \<not> (in_audit i \<or> stringIn (in_actions i) ActionRead) | None \<Rightarrow> True) then best
       else if ev_action e = ActionRead \<and> reason = ''membership'' then best
       else if (case sub of Some i \<Rightarrow> \<not> admits i e | None \<Rightarrow> False) then best
       else
         let wake = (reason \<in> set wakeReasons \<and> (case sub of Some i \<Rightarrow> in_wake i | None \<Rightarrow> True));
             cand = \<lparr>rc_subscriber = name, rc_reason = reason, rc_why = why, rc_wake = wake\<rparr>
         in case map_of best name of
              None \<Rightarrow> AList.update name cand best
            | Some prev \<Rightarrow>
                if reasonRank reason < reasonRank (rc_reason prev) then AList.update name cand best
                else if wake \<and> \<not> rc_wake prev \<and> reasonRank reason = reasonRank (rc_reason prev)
                then AList.update name (prev\<lparr>rc_wake := True\<rparr>) best
                else best)"

text \<open>The offers in the order the body of \<open>Route\<close> makes them.\<close>

definition dependency_offer :: "event \<Rightarrow> interest \<Rightarrow> offered list" where
  "dependency_offer e i = (case find (stringIn (in_objects i)) (ev_depends e) of
      None \<Rightarrow> []
    | Some dep \<Rightarrow> [(in_subscriber i, ''dependency'', ev_object e @ '' depends on watched '' @ dep)])"

definition offers :: "event \<Rightarrow> interest list \<Rightarrow> offered list" where
  "offers e ints =
     map (\<lambda>m. (m, ''mention'', ''mentioned in '' @ ev_object e)) (ev_mentions e) @
     map (\<lambda>a. (a, ''assignment'', ''assigned to '' @ ev_object e)) (ev_assignees e) @
     [(ev_owner e, ''ownership'', ''owns '' @ ev_object e)] @
     concat (map (\<lambda>i. case subscriptionMatch i e of
                        Some why \<Rightarrow> [(in_subscriber i, ''subscription'', why)] | None \<Rightarrow> []) ints) @
     concat (map (dependency_offer e) ints) @
     map (\<lambda>m. (m, ''membership'', ''member of '' @ scopeLabel (ev_scope e))) (ev_members e)"

definition Route :: "(recipient list \<Rightarrow> recipient list) \<Rightarrow> event \<Rightarrow> interest list \<Rightarrow> recipient list" where
  "Route ord e ints =
     (if ev_source e = SourceActivity then []
      else if ev_hop e \<ge> MaxHop then []
      else sort_key (\<lambda>r. (reasonRank (rc_reason r), rc_subscriber r))
             (ord (map snd (fold (offer e (by_name ints)) (offers e ints) []))))"

section \<open>What routing promises\<close>

text \<open>An offer stands when none of the guards of \<open>offer\<close> refuses it.\<close>

definition stands :: "event \<Rightarrow> interest list \<Rightarrow> string \<Rightarrow> string \<Rightarrow> bool" where
  "stands e ints name reason \<longleftrightarrow> name \<noteq> [] \<and> \<not> equal_fold name (trim_space (ev_actor e)) \<and>
     (case map_of (by_name ints) name of
        None \<Rightarrow> ev_action e \<noteq> ActionRead
      | Some i \<Rightarrow> \<not> in_mute i \<and> admits i e \<and>
          (ev_action e = ActionRead \<longrightarrow> (in_audit i \<or> stringIn (in_actions i) ActionRead) \<and> reason \<noteq> ''membership''))"

definition may_wake :: "interest list \<Rightarrow> string \<Rightarrow> string \<Rightarrow> bool" where
  "may_wake ints name reason \<longleftrightarrow> reason \<in> set wakeReasons \<and>
     (case map_of (by_name ints) name of Some i \<Rightarrow> in_wake i | None \<Rightarrow> True)"

definition standing :: "event \<Rightarrow> interest list \<Rightarrow> offered set \<Rightarrow> string \<Rightarrow> string set" where
  "standing e ints X name = {reason. \<exists>n why. (n, reason, why) \<in> X \<and> trim_space n = name \<and> stands e ints name reason}"

text \<open>What \<open>best\<close> holds for a name: the strongest of the reasons \<open>R\<close> that stand.\<close>

definition best_for :: "event \<Rightarrow> interest list \<Rightarrow> string \<Rightarrow> string set \<Rightarrow> recipient option \<Rightarrow> bool" where
  "best_for e ints name R b = (case b of
      None \<Rightarrow> R = {}
    | Some r \<Rightarrow> rc_subscriber r = name \<and> rc_reason r \<in> R \<and> (\<forall>q\<in>R. reasonRank (rc_reason r) \<le> reasonRank q) \<and>
        rc_wake r = may_wake ints name (rc_reason r))"

definition best_rep :: "event \<Rightarrow> interest list \<Rightarrow> offered set \<Rightarrow> (string \<times> recipient) list \<Rightarrow> bool" where
  "best_rep e ints X best \<longleftrightarrow> distinct (map fst best) \<and>
     (\<forall>name. best_for e ints name (standing e ints X name) (map_of best name))"

lemma reasonRank_inject:
  "r \<in> set reasonPrecedence \<Longrightarrow> q \<in> set reasonPrecedence \<Longrightarrow> reasonRank r = reasonRank q \<longleftrightarrow> r = q"
  by (auto simp: reasonPrecedence_def reasonRank_def)

lemma offer_skip:
  "\<not> stands e ints (trim_space n) reason \<Longrightarrow> offer e (by_name ints) (n, reason, why) best = best"
  by (cases "map_of (by_name ints) (trim_space n)") (auto simp: offer_def stands_def Let_def)

lemma offer_take:
  assumes "stands e ints (trim_space n) reason"
  shows "offer e (by_name ints) (n, reason, why) best =
     (let name = trim_space n;
          cand = \<lparr>rc_subscriber = name, rc_reason = reason, rc_why = why, rc_wake = may_wake ints name reason\<rparr>
      in case map_of best name of
           None \<Rightarrow> AList.update name cand best
         | Some prev \<Rightarrow> if reasonRank reason < reasonRank (rc_reason prev) then AList.update name cand best
             else if may_wake ints name reason \<and> \<not> rc_wake prev \<and> reasonRank reason = reasonRank (rc_reason prev)
             then AList.update name (prev\<lparr>rc_wake := True\<rparr>) best
             else best)"
  using assms
  by (cases "map_of (by_name ints) (trim_space n)")
     (auto simp: offer_def stands_def may_wake_def Let_def split: option.split)

lemma standing_insert:
  "standing e ints (insert (n, reason, why) X) name =
     (if trim_space n = name \<and> stands e ints name reason then insert reason (standing e ints X name) else standing e ints X name)"
  by (auto simp: standing_def)

definition known_reasons :: "offered set \<Rightarrow> bool" where
  "known_reasons X \<longleftrightarrow> (\<forall>(n, reason, why)\<in>X. reason \<in> set reasonPrecedence)"

lemma standing_known: "known_reasons X \<Longrightarrow> q \<in> standing e ints X name \<Longrightarrow> q \<in> set reasonPrecedence"
  by (auto simp: standing_def known_reasons_def)

lemma best_for_offer:
  assumes b: "best_for e ints name R b" and known: "insert reason R \<subseteq> set reasonPrecedence"
    and name: "name = trim_space n"
  shows "best_for e ints name (insert reason R)
     (let cand = \<lparr>rc_subscriber = name, rc_reason = reason, rc_why = why, rc_wake = may_wake ints name reason\<rparr>
      in case b of
           None \<Rightarrow> Some cand
         | Some prev \<Rightarrow> if reasonRank reason < reasonRank (rc_reason prev) then Some cand
             else if may_wake ints name reason \<and> \<not> rc_wake prev \<and> reasonRank reason = reasonRank (rc_reason prev)
             then Some (prev\<lparr>rc_wake := True\<rparr>)
             else b)"
proof (cases b)
  case None
  then show ?thesis using b by (simp add: best_for_def)
next
  case (Some prev)
  then have prev: "rc_subscriber prev = name" "rc_reason prev \<in> R"
      "\<forall>q\<in>R. reasonRank (rc_reason prev) \<le> reasonRank q" "rc_wake prev = may_wake ints name (rc_reason prev)"
    using b by (simp_all add: best_for_def)
  consider "reasonRank reason < reasonRank (rc_reason prev)" | "reason = rc_reason prev"
    | "reasonRank (rc_reason prev) < reasonRank reason"
    using known prev(2) reasonRank_inject by (metis insert_subset linorder_neqE_nat subsetD)
  then show ?thesis
  proof cases
    case 1
    then have "\<forall>q\<in>R. reasonRank reason \<le> reasonRank q" using prev(3) by (meson less_imp_le order_trans)
    with 1 show ?thesis by (simp add: Some best_for_def)
  next
    case 2
    with prev show ?thesis by (simp add: Some best_for_def insert_absorb)
  next
    case 3
    with prev show ?thesis by (simp add: Some best_for_def)
  qed
qed

lemma best_rep_offer:
  assumes rep: "best_rep e ints X best" and known: "known_reasons (insert (n, reason, why) X)"
  shows "best_rep e ints (insert (n, reason, why) X) (offer e (by_name ints) (n, reason, why) best)"
proof (cases "stands e ints (trim_space n) reason")
  case False
  then have "standing e ints (insert (n, reason, why) X) name = standing e ints X name" for name
    by (auto simp: standing_insert)
  then show ?thesis using rep False by (simp add: best_rep_def offer_skip)
next
  case True
  let ?best = "offer e (by_name ints) (n, reason, why) best" and ?name = "trim_space n"
  have d: "distinct (map fst ?best)"
    using rep by (simp add: offer_take [OF True] Let_def best_rep_def distinct_update split: option.split)
  have rep': "best_for e ints name (standing e ints X name) (map_of best name)" for name
    using rep by (simp only: best_rep_def)
  have known': "insert reason (standing e ints X ?name) \<subseteq> set reasonPrecedence"
    using known standing_known [of X] by (auto simp: known_reasons_def)
  have here: "map_of ?best ?name =
     (let cand = \<lparr>rc_subscriber = ?name, rc_reason = reason, rc_why = why, rc_wake = may_wake ints ?name reason\<rparr>
      in case map_of best ?name of
           None \<Rightarrow> Some cand
         | Some prev \<Rightarrow> if reasonRank reason < reasonRank (rc_reason prev) then Some cand
             else if may_wake ints ?name reason \<and> \<not> rc_wake prev \<and> reasonRank reason = reasonRank (rc_reason prev)
             then Some (prev\<lparr>rc_wake := True\<rparr>)
             else map_of best ?name)"
    by (simp add: offer_take [OF True] Let_def update_conv split: option.split)
  have there: "map_of ?best name = map_of best name" if "name \<noteq> ?name" for name
    using that by (simp add: offer_take [OF True] Let_def update_conv split: option.split)
  have "best_for e ints name (standing e ints (insert (n, reason, why) X) name) (map_of ?best name)" for name
  proof (cases "name = ?name")
    case eq: True
    have "best_for e ints ?name (insert reason (standing e ints X ?name)) (map_of ?best ?name)"
      unfolding here by (rule best_for_offer [OF rep' known' refl])
    then show ?thesis using True by (simp add: eq standing_insert)
  next
    case False
    then show ?thesis using rep' by (simp add: there standing_insert)
  qed
  with d show ?thesis unfolding best_rep_def by blast
qed

lemma best_rep_fold:
  assumes "best_rep e ints X best" "known_reasons (X \<union> set os)"
  shows "best_rep e ints (X \<union> set os) (fold (offer e (by_name ints)) os best)"
  using assms
proof (induction os arbitrary: X best)
  case (Cons off os)
  obtain n reason why where off: "off = (n, reason, why)" by (cases off)
  have "best_rep e ints (insert off X) (offer e (by_name ints) off best)"
    using Cons.prems unfolding off by (intro best_rep_offer) (auto simp: known_reasons_def)
  from Cons.IH [OF this] Cons.prems show ?case by simp
qed simp

lemma best_rep_Nil: "best_rep e ints {} []"
  by (simp add: best_rep_def standing_def best_for_def)

lemma offers_known: "known_reasons (set (offers e ints))"
  by (auto simp: known_reasons_def offers_def dependency_offer_def reasonPrecedence_def split: option.splits)

lemma best_rep_route: "best_rep e ints (set (offers e ints)) (fold (offer e (by_name ints)) (offers e ints) [])"
  using best_rep_fold [OF best_rep_Nil, of "offers e ints" e ints] offers_known [of e ints] by simp

text \<open>The specification: who is told, for which reason, and who may be woken.\<close>

definition reasons_for :: "event \<Rightarrow> interest list \<Rightarrow> string \<Rightarrow> string set" where
  "reasons_for e ints name = standing e ints (set (offers e ints)) name"

definition routable :: "event \<Rightarrow> bool" where
  "routable e \<longleftrightarrow> ev_source e \<noteq> SourceActivity \<and> ev_hop e < MaxHop"

lemma Route_set:
  assumes "\<And>xs. mset (ord xs) = mset xs" and "routable e"
  shows "set (Route ord e ints) = snd ` set (fold (offer e (by_name ints)) (offers e ints) [])"
proof -
  have "set (ord xs) = set xs" for xs using assms(1) by (metis mset_eq_setD)
  then show ?thesis using assms(2) by (simp add: Route_def routable_def)
qed

lemma map_of_set: "distinct (map fst m) \<Longrightarrow> (k, v) \<in> set m \<longleftrightarrow> map_of m k = Some v"
  by (simp add: map_of_eq_Some_iff)

abbreviation best_of :: "event \<Rightarrow> interest list \<Rightarrow> (string \<times> recipient) list" where
  "best_of e ints \<equiv> fold (offer e (by_name ints)) (offers e ints) []"

lemma best_of_distinct: "distinct (map fst (best_of e ints))"
  using best_rep_route [of e ints] by (simp only: best_rep_def)

lemma best_of_for: "best_for e ints name (reasons_for e ints name) (map_of (best_of e ints) name)"
  using best_rep_route [of e ints] by (simp only: best_rep_def reasons_for_def)

lemma best_of_entry:
  assumes "(k, r) \<in> set (best_of e ints)"
  shows "rc_subscriber r = k" "best_for e ints k (reasons_for e ints k) (Some r)"
proof -
  have "map_of (best_of e ints) k = Some r" using assms map_of_set [OF best_of_distinct] by blast
  then show "best_for e ints k (reasons_for e ints k) (Some r)" using best_of_for [of e ints k] by simp
  then show "rc_subscriber r = k" by (simp add: best_for_def)
qed

lemma Route_recipient:
  assumes "\<And>xs. mset (ord xs) = mset xs" and "routable e" and "r \<in> set (Route ord e ints)"
  shows "best_for e ints (rc_subscriber r) (reasons_for e ints (rc_subscriber r)) (Some r)"
proof -
  obtain k where "(k, r) \<in> set (best_of e ints)" using assms(3) by (auto simp: Route_set [OF assms(1,2)])
  from best_of_entry [OF this] show ?thesis by simp
qed

lemma Route_complete:
  assumes "\<And>xs. mset (ord xs) = mset xs" and "routable e" and "reasons_for e ints name \<noteq> {}"
  shows "\<exists>r\<in>set (Route ord e ints). rc_subscriber r = name"
proof -
  obtain r where r: "map_of (best_of e ints) name = Some r"
    using best_of_for [of e ints name] assms(3) by (cases "map_of (best_of e ints) name") (auto simp: best_for_def)
  then have m: "(name, r) \<in> set (best_of e ints)" by (rule map_of_SomeD)
  have "r \<in> set (Route ord e ints)" using m by (force simp: Route_set [OF assms(1,2)])
  then show ?thesis using best_of_entry(1) [OF m] by blast
qed

lemma best_subscribers: "map rc_subscriber (map snd (best_of e ints)) = map fst (best_of e ints)"
proof -
  have "map (rc_subscriber \<circ> snd) (best_of e ints) = map fst (best_of e ints)"
    by (rule map_cong [OF refl]) (auto simp: best_of_entry(1))
  then show ?thesis by simp
qed

lemma Route_mset:
  assumes "\<And>xs. mset (ord xs) = mset xs" and "routable e"
  shows "mset (Route ord e ints) = mset (map snd (best_of e ints))"
  using assms by (simp add: Route_def routable_def)

lemma Route_distinct:
  assumes "\<And>xs. mset (ord xs) = mset xs"
  shows "distinct (map rc_subscriber (Route ord e ints))"
proof (cases "routable e")
  case True
  have "mset (map rc_subscriber (Route ord e ints)) = mset (map rc_subscriber (map snd (best_of e ints)))"
    using Route_mset [OF assms True, of ints] by (metis mset_map)
  then show ?thesis
    unfolding best_subscribers using best_of_distinct by (metis mset_eq_imp_distinct_iff)
next
  case False
  then show ?thesis by (auto simp: Route_def routable_def)
qed

text \<open>No two recipients have the same place in the order, so the order is that of a set.\<close>

lemma Route_ord:
  assumes "\<And>xs. mset (ord xs) = mset xs" and "\<And>xs. mset (ord' xs) = mset xs"
  shows "Route ord e ints = Route ord' e ints"
proof (cases "routable e")
  case True
  let ?k = "\<lambda>r. (reasonRank (rc_reason r), rc_subscriber r)"
  have "distinct (map rc_subscriber (map snd (best_of e ints)))"
    unfolding best_subscribers by (rule best_of_distinct)
  then have inj: "inj_on ?k (snd ` set (best_of e ints))"
    by (auto simp: inj_on_def distinct_map)
  have "set (ord xs) = set xs" for xs using assms(1) by (metis mset_eq_setD)
  then have "sort_key ?k (ord (map snd (best_of e ints))) = sort_key ?k (ord' (map snd (best_of e ints)))"
    using inj assms by (intro sort_key_inj_key_eq) simp_all
  then show ?thesis by (simp add: Route_def)
next
  case False
  then show ?thesis by (auto simp: Route_def routable_def)
qed

end
