(* ===== verification/Act_Store.thy ===== *)
theory Act_Store
  imports Act_Route
begin

text \<open>
  The outbox (\<open>internal/agentos/activity/store.go\<close>): the append-only journal, the fold that reads it,
  sequence assignment, pruning, and the interest file. The journal is the list of its lines: a
  record, a line that does not parse, or an unterminated fragment at the end, left by a write cut
  short (which may already hold the whole record and lack only the newline). Writing to the disk
  can fail; the outcome is an oracle argument. A Go map that may be nil is an option of an
  association list; \<open>on_disk\<close> is what \<open>omitempty\<close> makes of it, an empty map reading back as nil.
  Otherwise a record reads back as it was written: strings are taken to be valid UTF-8, which
  \<open>json.Marshal\<close> keeps, while it would replace each invalid byte.
\<close>

section \<open>Records\<close>

abbreviation "WakeSteered \<equiv> ''steered''"
abbreviation "WakeQueued \<equiv> ''queued''"
abbreviation "WakeCoalesced \<equiv> ''coalesced''"
abbreviation "WakeRateLimited \<equiv> ''rate-limited''"
abbreviation "WakeUnreachable \<equiv> ''unreachable''"

definition MaxJournalRecords :: nat where "MaxJournalRecords = 5000"

record outbox_record =
  rd_event :: event
  rd_recipients :: "recipient list"
  rd_delivered :: "(string \<times> bool) list option"
  rd_published :: bool
  rd_wakes :: "(string \<times> string) list option"
  rd_note :: string

definition rd_id :: "outbox_record \<Rightarrow> string" where
  "rd_id r = ev_id (rd_event r)"

text \<open>\<open>m[k]\<close> and \<open>m[k] = v\<close>; a nil map reads as empty.\<close>

definition mget :: "(string \<times> 'v) list option \<Rightarrow> string \<Rightarrow> 'v option" where
  "mget m k = (case m of None \<Rightarrow> None | Some al \<Rightarrow> map_of al k)"

definition mput :: "(string \<times> 'v) list option \<Rightarrow> string \<Rightarrow> 'v \<Rightarrow> (string \<times> 'v) list option" where
  "mput m k v = map_option (AList.update k v) m"

definition made :: "(string \<times> 'v) list option \<Rightarrow> (string \<times> 'v) list option" where
  "made m = (case m of None \<Rightarrow> Some [] | Some al \<Rightarrow> Some al)"

definition omitempty :: "'a list option \<Rightarrow> 'a list option" where
  "omitempty m = (if m = Some [] then None else m)"

definition on_disk :: "outbox_record \<Rightarrow> outbox_record" where
  "on_disk r = r\<lparr>rd_delivered := omitempty (rd_delivered r), rd_wakes := omitempty (rd_wakes r)\<rparr>"

section \<open>The journal\<close>

datatype jline = Torn | Line outbox_record | Partial "outbox_record option"

definition line_record :: "jline \<Rightarrow> outbox_record option" where
  "line_record l = (case l of Torn \<Rightarrow> None | Line r \<Rightarrow> Some r | Partial p \<Rightarrow> p)"

definition fold_line :: "jline \<Rightarrow> (string \<times> outbox_record) list \<Rightarrow> (string \<times> outbox_record) list" where
  "fold_line l m = (case line_record l of
      None \<Rightarrow> m
    | Some r \<Rightarrow> if rd_id r = [] then m else AList.update (rd_id r) r m)"

text \<open>
  \<open>load\<close>: \<open>byID\<close> and \<open>order\<close> together are an association list in order of first appearance, which
  \<open>AList.update\<close> keeps. The final sort is stable, as \<open>sort.SliceStable\<close> is.
\<close>

definition load :: "jline list \<Rightarrow> outbox_record list" where
  "load j = sort_key (\<lambda>r. (ev_source (rd_event r), ev_seq (rd_event r))) (map snd (fold fold_line j []))"

definition findRecord :: "outbox_record list \<Rightarrow> string \<Rightarrow> outbox_record option" where
  "findRecord rs i = find (\<lambda>r. rd_id r = i) rs"

definition nextSeq :: "outbox_record list \<Rightarrow> string \<Rightarrow> int" where
  "nextSeq rs src = int64 (fold (\<lambda>r high. if ev_source (rd_event r) = src \<and> ev_seq (rd_event r) > high
                                           then ev_seq (rd_event r) else high) rs 0 + 1)"

text \<open>A line appended after an unterminated fragment runs into it, and neither parses.\<close>

definition append_line :: "jline list \<Rightarrow> jline \<Rightarrow> jline list" where
  "append_line j l =
     (if j \<noteq> [] \<and> (case last j of Partial _ \<Rightarrow> True | _ \<Rightarrow> False) then butlast j @ [Torn] else j @ [l])"

text \<open>
  The outcomes of \<open>append\<close>: synced; written but not synced; cut after the record but before the
  newline, or inside the record; or not written at all. Only the first returns nil.
\<close>

datatype write_outcome = Synced | Unsynced | CutLine bool | NotWritten

definition store_append :: "write_outcome \<Rightarrow> jline list \<Rightarrow> outbox_record \<Rightarrow> bool \<times> jline list" where
  "store_append out j r = (case out of
      Synced \<Rightarrow> (True, append_line j (Line (on_disk r)))
    | Unsynced \<Rightarrow> (False, append_line j (Line (on_disk r)))
    | CutLine whole \<Rightarrow> (False, if j \<noteq> [] \<and> (case last j of Partial _ \<Rightarrow> True | _ \<Rightarrow> False)
                              then butlast j @ [Partial None]
                              else j @ [Partial (if whole then Some (on_disk r) else None)])
    | NotWritten \<Rightarrow> (False, j))"

definition prune_keep :: "outbox_record list \<Rightarrow> outbox_record list" where
  "prune_keep rs = (let d = length rs - MaxJournalRecords in
     map snd (filter (\<lambda>(i, r). \<not> (i < d \<and> rd_published r)) (enumerate 0 rs)))"

text \<open>\<open>prune\<close> replaces the journal through a temporary file and a rename, or fails and leaves it.\<close>

definition prune :: "bool \<Rightarrow> outbox_record list \<Rightarrow> jline list \<Rightarrow> bool \<times> jline list" where
  "prune ok rs j =
     (if length rs \<le> MaxJournalRecords then (True, j)
      else if ok then (True, map (Line \<circ> on_disk) (prune_keep rs))
      else (False, j))"

section \<open>Interests\<close>

datatype interests_file = NoFile | Unparsed | Interests "interest list"

definition loadInterests :: "interests_file \<Rightarrow> act_error + interest list" where
  "loadInterests f = (case f of NoFile \<Rightarrow> Inr [] | Unparsed \<Rightarrow> Inl Unreadable
     | Interests is \<Rightarrow> Inr (sort_key in_subscriber is))"

definition saveInterests :: "interest list \<Rightarrow> interests_file" where
  "saveInterests is = Interests (sort_key in_subscriber is)"

definition mustInterests :: "interests_file \<Rightarrow> interest list" where
  "mustInterests f = (case loadInterests f of Inl _ \<Rightarrow> [] | Inr is \<Rightarrow> is)"

fun replace_interest :: "interest \<Rightarrow> interest list \<Rightarrow> interest list option" where
  "replace_interest i [] = None"
| "replace_interest i (x # xs) =
     (if equal_fold (in_subscriber x) (in_subscriber i) then Some (i # xs)
      else map_option ((#) x) (replace_interest i xs))"

text \<open>
  \<open>gate\<close> is an error of \<open>openStore\<close> or of taking the lock, \<open>saved\<close> whether the temporary file could be
  written and renamed.
\<close>

definition save_result :: "bool \<Rightarrow> interest list \<Rightarrow> interests_file \<Rightarrow> act_error option \<times> interests_file" where
  "save_result saved is f = (if saved then (None, saveInterests is) else (Some WriteFailed, f))"

definition Subscribe :: "act_error option \<Rightarrow> bool \<Rightarrow> interest \<Rightarrow> interests_file \<Rightarrow> act_error option \<times> interests_file" where
  "Subscribe gate saved i f =
     (if trim_space (in_subscriber i) = [] then (Some NeedsSubscriber, f)
      else case gate of
        Some e \<Rightarrow> (Some e, f)
      | None \<Rightarrow> (case loadInterests f of
          Inl e \<Rightarrow> (Some e, f)
        | Inr existing \<Rightarrow> save_result saved (case replace_interest i existing of
              Some is \<Rightarrow> is | None \<Rightarrow> existing @ [i]) f))"

definition Unsubscribe :: "act_error option \<Rightarrow> bool \<Rightarrow> string \<Rightarrow> interests_file \<Rightarrow> act_error option \<times> interests_file" where
  "Unsubscribe gate saved name f =
     (case gate of
        Some e \<Rightarrow> (Some e, f)
      | None \<Rightarrow> (case loadInterests f of
          Inl e \<Rightarrow> (Some e, f)
        | Inr existing \<Rightarrow>
            if \<not> list_ex (\<lambda>i. equal_fold (in_subscriber i) name) existing then (Some (NoInterest name), f)
            else save_result saved (filter (\<lambda>i. \<not> equal_fold (in_subscriber i) name) existing) f))"

text \<open>\<open>StateDir\<close>: the two environment variables and \<open>os.UserHomeDir\<close>, absent when it fails.\<close>

definition StateDir :: "string \<Rightarrow> string \<Rightarrow> string option \<Rightarrow> string" where
  "StateDir activity_dir bashy_home user_home =
     (if trim_space activity_dir \<noteq> [] then trim_space activity_dir
      else if trim_space bashy_home \<noteq> [] then path_clean (trim_space bashy_home @ ''/activity'')
      else case user_home of
        Some home \<Rightarrow> if home \<noteq> [] then path_clean (home @ ''/.config/bashy/activity'') else []
      | None \<Rightarrow> [])"

section \<open>Latest line wins\<close>

definition latest :: "jline list \<Rightarrow> string \<Rightarrow> outbox_record option" where
  "latest j i = (case find (\<lambda>l. case line_record l of None \<Rightarrow> False | Some r \<Rightarrow> rd_id r = i \<and> i \<noteq> []) (rev j) of
      None \<Rightarrow> None | Some l \<Rightarrow> line_record l)"

lemma latest_Nil [simp]: "latest [] i = None"
  by (simp add: latest_def)

lemma latest_snoc:
  "latest (j @ [l]) i = (case line_record l of
      None \<Rightarrow> latest j i
    | Some r \<Rightarrow> if rd_id r = i \<and> i \<noteq> [] then Some r else latest j i)"
  by (simp add: latest_def split: option.split)

lemma fold_line_map_of: "map_of (fold fold_line j []) i = latest j i"
  by (induction j rule: rev_induct) (auto simp: latest_snoc fold_line_def update_conv split: option.split)

lemma fold_line_keys:
  "distinct (map fst (fold fold_line j [])) \<and> (\<forall>(k, r)\<in>set (fold fold_line j []). rd_id r = k \<and> k \<noteq> [])"
proof (induction j rule: rev_induct)
  case (snoc l j)
  have mem: "(k, v) \<in> set (AList.update k' v' m) \<Longrightarrow> (k = k' \<and> v = v') \<or> (k, v) \<in> set m"
    for k k' v v' and m :: "(string \<times> outbox_record) list"
    by (induction m) (auto split: if_splits)
  show ?case
  proof (cases "line_record l")
    case None
    then show ?thesis using snoc by (simp add: fold_line_def)
  next
    case (Some r)
    show ?thesis
    proof (cases "rd_id r = []")
      case True
      then show ?thesis using snoc Some by (simp add: fold_line_def)
    next
      case False
      then have f: "fold fold_line (j @ [l]) [] = AList.update (rd_id r) r (fold fold_line j [])"
        using Some by (simp add: fold_line_def)
      have d: "distinct (map fst (AList.update (rd_id r) r (fold fold_line j [])))"
        using snoc by (simp add: distinct_update)
      moreover have "rd_id v = k \<and> k \<noteq> []" if "(k, v) \<in> set (AList.update (rd_id r) r (fold fold_line j []))" for k v
        using mem [OF that] snoc False by auto
      ultimately show ?thesis unfolding f by blast
    qed
  qed
qed simp

lemma set_load: "set (load j) = snd ` set (fold fold_line j [])"
  by (simp add: load_def)

lemma fold_line_key: "(k, r) \<in> set (fold fold_line j []) \<Longrightarrow> rd_id r = k"
  using fold_line_keys [of j] by blast

lemma load_ids: "map rd_id (map snd (fold fold_line j [])) = map fst (fold fold_line j [])"
proof -
  have "map (rd_id \<circ> snd) (fold fold_line j []) = map fst (fold fold_line j [])"
  proof (rule map_cong [OF refl])
    fix x assume "x \<in> set (fold fold_line j [])"
    then have "(fst x, snd x) \<in> set (fold fold_line j [])" by simp
    then show "(rd_id \<circ> snd) x = fst x" unfolding comp_def by (rule fold_line_key)
  qed
  then show ?thesis by simp
qed

lemma load_distinct: "distinct (map rd_id (load j))"
proof -
  have m: "mset (map rd_id (load j)) = mset (map fst (fold fold_line j []))"
    unfolding load_ids [symmetric] by (simp add: load_def multiset.map_comp)
  show ?thesis
    unfolding mset_eq_imp_distinct_iff [OF m] using conjunct1 [OF fold_line_keys [of j]] .
qed

lemma findRecord_distinct:
  "distinct (map rd_id rs) \<Longrightarrow> findRecord rs i = Some r \<longleftrightarrow> r \<in> set rs \<and> rd_id r = i"
  by (induction rs) (auto simp: findRecord_def image_iff)

lemma load_member: "r \<in> set (load j) \<longleftrightarrow> latest j (rd_id r) = Some r"
proof -
  have d: "distinct (map fst (fold fold_line j []))" using fold_line_keys by blast
  have "r \<in> set (load j) \<longleftrightarrow> (rd_id r, r) \<in> set (fold fold_line j [])"
  proof
    assume "r \<in> set (load j)"
    then obtain k where "(k, r) \<in> set (fold fold_line j [])" by (auto simp: set_load)
    with fold_line_key [OF this] show "(rd_id r, r) \<in> set (fold fold_line j [])" by simp
  next
    assume "(rd_id r, r) \<in> set (fold fold_line j [])"
    then show "r \<in> set (load j)" unfolding set_load by (rule image_eqI [rotated]) simp
  qed
  also have "\<dots> \<longleftrightarrow> latest j (rd_id r) = Some r"
    by (simp add: map_of_eq_Some_iff [OF d, symmetric] fold_line_map_of)
  finally show ?thesis .
qed

lemma latest_id: "latest j i = Some r \<Longrightarrow> rd_id r = i \<and> i \<noteq> []"
  by (induction j rule: rev_induct) (auto simp: latest_snoc split: option.splits if_splits)

lemma find_load: "findRecord (load j) i = latest j i"
proof -
  have "findRecord (load j) i = Some r \<longleftrightarrow> latest j i = Some r" for r
    by (auto simp: findRecord_distinct [OF load_distinct] load_member dest: latest_id)
  then show ?thesis by (metis not_Some_eq)
qed

text \<open>A journal that ends with a complete line.\<close>

definition sealed :: "jline list \<Rightarrow> bool" where
  "sealed j \<longleftrightarrow> j = [] \<or> (case last j of Partial _ \<Rightarrow> False | _ \<Rightarrow> True)"

lemma sealed_append_line: "sealed (append_line j (Line r))"
  by (simp add: append_line_def) (simp add: sealed_def)

lemma append_line_sealed: "sealed j \<Longrightarrow> append_line j l = j @ [l]"
  by (auto simp: sealed_def append_line_def split: jline.splits)

text \<open>
  The contract the delivery path has with its journal: what was added last under an identity is
  what is found, other identities are untouched, and the journal stays in shape.
\<close>

locale outbox =
  fixes find_in :: "'j \<Rightarrow> 'i \<Rightarrow> 'r option" and add :: "'j \<Rightarrow> 'r \<Rightarrow> 'j"
    and ident :: "'r \<Rightarrow> 'i" and named :: "'i \<Rightarrow> bool" and shape :: "'j \<Rightarrow> bool"
  assumes find_add: "shape j \<Longrightarrow> named (ident r) \<Longrightarrow> find_in (add j r) i = (if ident r = i then Some r else find_in j i)"
    and add_shape: "shape j \<Longrightarrow> shape (add j r)"
begin

lemma find_added [simp]: "shape j \<Longrightarrow> named (ident r) \<Longrightarrow> find_in (add j r) (ident r) = Some r"
  by (simp add: find_add)

lemma adds_shape: "shape j \<Longrightarrow> shape (foldl add j rs)"
  by (induction rs arbitrary: j) (auto intro: add_shape)

lemma find_adds_other:
  "shape j \<Longrightarrow> \<forall>r\<in>set rs. named (ident r) \<and> ident r \<noteq> i \<Longrightarrow> find_in (foldl add j rs) i = find_in j i"
  by (induction rs arbitrary: j) (auto simp: find_add add_shape)

lemma find_adds_last:
  "shape j \<Longrightarrow> \<forall>r\<in>set (rs @ [q]). named (ident r) \<Longrightarrow> find_in (foldl add j (rs @ [q])) (ident q) = Some q"
  by (simp add: find_add adds_shape)

end

definition add_line :: "jline list \<Rightarrow> outbox_record \<Rightarrow> jline list" where
  "add_line j r = append_line j (Line r)"

text \<open>The record just added is found exactly when the journal ended in a complete line; after a cut line it is
  joined to the fragment, and the line before shows.\<close>

lemma latest_add_cut: "\<not> sealed j \<Longrightarrow> latest (add_line j r) i = latest (butlast j) i"
  by (auto simp: sealed_def add_line_def append_line_def latest_snoc line_record_def split: jline.splits)

lemma latest_butlast: "latest j i = None \<Longrightarrow> latest (butlast j) i = None"
  by (cases j rule: rev_cases) (auto simp: latest_snoc split: option.splits if_splits)

lemma latest_add_fresh:
  assumes "latest j (rd_id r) = None" "rd_id r \<noteq> []"
  shows "latest (add_line j r) (rd_id r) = Some r \<longleftrightarrow> sealed j"
proof (cases "sealed j")
  case True
  then show ?thesis using assms(2) by (simp add: add_line_def append_line_sealed latest_snoc line_record_def)
next
  case False
  then show ?thesis using latest_butlast [OF assms(1)] by (simp add: latest_add_cut)
qed

interpretation journal: outbox latest add_line rd_id "\<lambda>i. i \<noteq> []" sealed
proof
  fix j r i
  assume "sealed j" "rd_id r \<noteq> []"
  then show "latest (add_line j r) i = (if rd_id r = i then Some r else latest j i)"
    by (auto simp: add_line_def append_line_sealed latest_snoc line_record_def)
next
  fix j r
  assume "sealed j"
  then show "sealed (add_line j r)" by (simp add: add_line_def sealed_append_line)
qed

lemma on_disk_fields [simp]:
  "rd_event (on_disk r) = rd_event r" "rd_recipients (on_disk r) = rd_recipients r"
  "rd_published (on_disk r) = rd_published r" "rd_id (on_disk r) = rd_id r"
  by (simp_all add: on_disk_def rd_id_def)

lemma mget_omitempty [simp]: "mget (omitempty m) k = mget m k"
  by (auto simp: omitempty_def mget_def)

lemma on_disk_maps [simp]:
  "mget (rd_delivered (on_disk r)) k = mget (rd_delivered r) k"
  "mget (rd_wakes (on_disk r)) k = mget (rd_wakes r) k"
  by (simp_all add: on_disk_def)

section \<open>Sequence numbers\<close>

lemma high_bound:
  "(h::int) \<le> fold (\<lambda>r high. if ev_source (rd_event r) = src \<and> ev_seq (rd_event r) > high
                          then ev_seq (rd_event r) else high) rs h"
  "r \<in> set rs \<Longrightarrow> ev_source (rd_event r) = src \<Longrightarrow>
     ev_seq (rd_event r) \<le> fold (\<lambda>r high. if ev_source (rd_event r) = src \<and> ev_seq (rd_event r) > high
                          then ev_seq (rd_event r) else high) rs h"
proof -
  let ?f = "\<lambda>r high. if ev_source (rd_event r) = src \<and> ev_seq (rd_event r) > high then ev_seq (rd_event r) else high"
  have up: "h \<le> fold ?f rs h" for rs and h :: int
  proof (induction rs arbitrary: h)
    case (Cons x xs)
    have "h \<le> ?f x h" by simp
    also have "\<dots> \<le> fold ?f xs (?f x h)" by (rule Cons.IH)
    finally show ?case by simp
  qed simp
  then show "h \<le> fold ?f rs h" .
  show "r \<in> set rs \<Longrightarrow> ev_source (rd_event r) = src \<Longrightarrow> ev_seq (rd_event r) \<le> fold ?f rs h"
  proof (induction rs arbitrary: h)
    case (Cons x xs)
    show ?case
    proof (cases "r = x")
      case True
      have "ev_seq (rd_event r) \<le> ?f x h" using True Cons.prems by simp
      also have "\<dots> \<le> fold ?f xs (?f x h)" by (rule up)
      finally show ?thesis by simp
    next
      case False
      then show ?thesis using Cons by simp
    qed
  qed simp
qed

lemma fold_high_bounded:
  "(\<forall>r\<in>set rs. ev_seq (rd_event r) < B) \<Longrightarrow> h < B \<Longrightarrow>
     fold (\<lambda>r high. if ev_source (rd_event r) = src \<and> ev_seq (rd_event r) > high
                     then ev_seq (rd_event r) else high) rs h < (B::int)"
  by (induction rs arbitrary: h) auto

lemma nextSeq_above:
  assumes "\<forall>r\<in>set rs. ev_seq (rd_event r) < 2 ^ 63 - 1" and "r \<in> set rs" and "ev_source (rd_event r) = src"
  shows "ev_seq (rd_event r) < nextSeq rs src \<and> 0 < nextSeq rs src"
proof -
  let ?h = "fold (\<lambda>r high. if ev_source (rd_event r) = src \<and> ev_seq (rd_event r) > high
                     then ev_seq (rd_event r) else high) rs (0::int)"
  have lo: "0 \<le> ?h" by (rule high_bound(1))
  have hi: "?h < 2 ^ 63 - 1" using assms(1) by (intro fold_high_bounded) auto
  have "int64 (?h + 1) = ?h + 1" using lo hi by (intro int64_id) linarith+
  moreover have "ev_seq (rd_event r) \<le> ?h" using assms(2,3) by (rule high_bound(2))
  ultimately show ?thesis using lo by (simp add: nextSeq_def)
qed

section \<open>Pruning\<close>

lemma prune_keep_member:
  assumes r: "r \<in> set rs" "\<not> rd_published r"
  shows "r \<in> set (prune_keep rs)"
proof -
  obtain k where "k < length rs" "rs ! k = r" using r by (auto simp: in_set_conv_nth)
  then have "(k, r) \<in> set (enumerate 0 rs)" by (simp add: in_set_enumerate_eq)
  with r show ?thesis by (force simp: prune_keep_def Let_def)
qed

lemma prune_keep_sub: "set (prune_keep rs) \<subseteq> set rs"
  by (auto simp: prune_keep_def Let_def in_set_enumerate_eq)

end
