(* ===== verification/Act_Deliver.thy ===== *)
theory Act_Deliver
  imports Act_Store
begin

text \<open>
  Delivery (\<open>internal/agentos/activity/deliver.go\<close>) and the adapters that call it (\<open>adapter.go\<close>).
  The bus is outside the repository: \<open>EnsureInbox\<close>, \<open>PublishDurable\<close> and \<open>WakeLive\<close> are oracles that
  answer each call, given its position in the trace, and the trace records the calls. A crash is a
  prefix of the trace. The clock and the disk are oracles of the same kind.

  Go passes records by value but their maps by reference. \<open>rec\<close> is a copy of an entry of the
  history, so writing to its maps changes that entry when they are not nil: \<open>shared\<close>.
\<close>

section \<open>The environment and the world\<close>

datatype call =
    Journal outbox_record bool
  | Inbox string bool
  | Publish string string string string string bool
  | WakeCall string string bool

record env =
  en_gate :: "act_error option"
  en_readable :: bool
  en_prune :: bool
  en_now :: "nat \<Rightarrow> int"
  en_disk :: "nat \<Rightarrow> write_outcome"
  en_inbox :: "nat \<Rightarrow> bool"
  en_publish :: "nat \<Rightarrow> bool"
  en_wake :: "nat \<Rightarrow> bool"
  en_order :: "recipient list \<Rightarrow> recipient list"

record world =
  w_journal :: "jline list"
  w_interests :: interests_file
  w_trace :: "call list"

definition here :: "world \<Rightarrow> nat" where
  "here w = length (w_trace w)"

definition called :: "call \<Rightarrow> world \<Rightarrow> world" where
  "called c w = w\<lparr>w_trace := w_trace w @ [c]\<rparr>"

definition do_append :: "env \<Rightarrow> world \<Rightarrow> outbox_record \<Rightarrow> bool \<times> world" where
  "do_append env w r = (case store_append (en_disk env (here w)) (w_journal w) r of
     (ok, j) \<Rightarrow> (ok, called (Journal r ok) w\<lparr>w_journal := j\<rparr>))"

datatype delivery_error = InboxFailed string | PublishFailed string | PruneFailed

record result =
  rs_event :: event
  rs_recipients :: "recipient list"
  rs_duplicate :: bool
  rs_wakes :: "(string \<times> string) list"
  rs_errors :: "delivery_error list"

definition no_event :: event where
  "no_event = \<lparr>ev_schema = [], ev_id = [], ev_seq = 0, ev_at = - 62135596800000000000, ev_source = [], ev_actor = [], ev_action = [],
     ev_noun = [], ev_object = [], ev_scope = \<lparr>sc_repo = [], sc_sprint = [], sc_topic = [], sc_room = []\<rparr>,
     ev_status = [], ev_mentions = [], ev_owner = [], ev_assignees = [], ev_depends = [], ev_members = [],
     ev_cause = [], ev_hop = 0, ev_token = []\<rparr>"

definition no_result :: result where
  "no_result = \<lparr>rs_event = no_event, rs_recipients = [], rs_duplicate = False, rs_wakes = [], rs_errors = []\<rparr>"

section \<open>Waking\<close>

definition CoalesceWindow :: int where "CoalesceWindow = 10 * 1000000000"
definition Minute :: int where "Minute = 60 * 1000000000"

definition TopicFor :: "string \<Rightarrow> string" where
  "TopicFor src = ''activity.'' @ src"

text \<open>Was \<open>name\<close> woken by \<open>prior\<close>, and was that less than \<open>window\<close> before \<open>now\<close>?\<close>

definition woken_within :: "int \<Rightarrow> int \<Rightarrow> string \<Rightarrow> outbox_record \<Rightarrow> bool" where
  "woken_within now window name prior \<longleftrightarrow>
     mget (rd_wakes prior) name = Some WakeSteered \<and> now - ev_at (rd_event prior) < window"

definition coalesces :: "int \<Rightarrow> event \<Rightarrow> string \<Rightarrow> outbox_record list \<Rightarrow> bool" where
  "coalesces now e name history \<longleftrightarrow>
     list_ex (\<lambda>prior. ev_source (rd_event prior) = ev_source e \<and> ev_object (rd_event prior) = ev_object e \<and>
                      woken_within now CoalesceWindow name prior) history"

definition woken_count :: "int \<Rightarrow> string \<Rightarrow> outbox_record list \<Rightarrow> int" where
  "woken_count now name history = int (length (filter (woken_within now Minute name) history))"

definition wake_cap :: "interests_file \<Rightarrow> string \<Rightarrow> int" where
  "wake_cap f name = (case find (\<lambda>i. equal_fold (in_subscriber i) name) (mustInterests f) of
      Some i \<Rightarrow> if in_subscriber i \<noteq> [] then maxWakePerMin i else DefaultMaxWakePerMin
    | None \<Rightarrow> DefaultMaxWakePerMin)"

definition wakeOutcome :: "env \<Rightarrow> world \<Rightarrow> outbox_record list \<Rightarrow> event \<Rightarrow> recipient \<Rightarrow> string \<Rightarrow> string \<times> world" where
  "wakeOutcome env w history e r subject =
     (let now = en_now env (here w); name = rc_subscriber r in
      if coalesces now e name history then (WakeCoalesced, w)
      else if woken_count now name history \<ge> wake_cap (w_interests w) name then (WakeRateLimited, w)
      else let ok = en_wake env (here w); w' = called (WakeCall name subject ok) w
           in (if ok then WakeSteered else WakeUnreachable, w'))"

section \<open>deliver\<close>

record progress =
  pg_rec :: outbox_record
  pg_history :: "outbox_record list"
  pg_wakes :: "(string \<times> string) list"
  pg_errors :: "delivery_error list"
  pg_all :: bool
  pg_world :: world

definition shared :: "outbox_record \<Rightarrow> outbox_record list \<Rightarrow> outbox_record list" where
  "shared rec history = map (\<lambda>h. if rd_id h = rd_id rec
     then h\<lparr>rd_delivered := (if rd_delivered h = None then None else rd_delivered rec),
            rd_wakes := (if rd_wakes h = None then None else rd_wakes rec)\<rparr>
     else h) history"

definition priority_of :: "recipient \<Rightarrow> string" where
  "priority_of r = (if rc_wake r then ''interrupt'' else ''queued'')"

text \<open>One turn of the recipient loop.\<close>

definition deliver_one :: "env \<Rightarrow> string \<Rightarrow> string \<Rightarrow> recipient \<Rightarrow> progress \<Rightarrow> progress" where
  "deliver_one env subject topic r pg =
     (let rec = pg_rec pg; name = rc_subscriber r; w = pg_world pg in
      if mget (rd_delivered rec) name = Some True then
        (case mget (rd_wakes rec) name of
           Some outcome \<Rightarrow> pg\<lparr>pg_wakes := AList.update name outcome (pg_wakes pg)\<rparr>
         | None \<Rightarrow> pg)
      else
        let inbox = en_inbox env (here w); w1 = called (Inbox name inbox) w in
        if \<not> inbox then pg\<lparr>pg_errors := pg_errors pg @ [InboxFailed name], pg_all := False, pg_world := w1\<rparr>
        else
          let ok = en_publish env (here w1);
              w2 = called (Publish (ev_source (rd_event rec)) name subject topic (priority_of r) ok) w1 in
          if \<not> ok then pg\<lparr>pg_errors := pg_errors pg @ [PublishFailed name], pg_all := False, pg_world := w2\<rparr>
          else
            let rec1 = rec\<lparr>rd_delivered := mput (rd_delivered rec) name True\<rparr>;
                (outcome, w3) = (if rc_wake r then wakeOutcome env w2 (shared rec1 (pg_history pg)) (rd_event rec) r subject
                                 else (WakeQueued, w2));
                rec2 = rec1\<lparr>rd_wakes := mput (rd_wakes rec1) name outcome\<rparr>
            in pg\<lparr>pg_rec := rec2, pg_history := shared rec2 (pg_history pg),
                  pg_wakes := AList.update name outcome (pg_wakes pg), pg_world := w3\<rparr>)"

definition deliver :: "env \<Rightarrow> world \<Rightarrow> outbox_record list \<Rightarrow> outbox_record \<Rightarrow> result \<times> progress" where
  "deliver env w history rec =
     (let rec0 = rec\<lparr>rd_delivered := made (rd_delivered rec), rd_wakes := made (rd_wakes rec)\<rparr>;
          pg0 = \<lparr>pg_rec = rec0, pg_history = history, pg_wakes = [], pg_errors = [], pg_all = True, pg_world = w\<rparr>;
          res = (\<lambda>pg. \<lparr>rs_event = rd_event rec, rs_recipients = rd_recipients rec, rs_duplicate = False,
                      rs_wakes = pg_wakes pg, rs_errors = pg_errors pg\<rparr>)
      in if rd_recipients rec = [] then (res pg0, pg0\<lparr>pg_rec := rec0\<lparr>rd_published := True\<rparr>\<rparr>)
         else
           let pg = fold (deliver_one env (Subject (rd_event rec)) (TopicFor (ev_source (rd_event rec))))
                         (rd_recipients rec) pg0;
               note = (if pg_all pg then [] else ''partial delivery; recover will re-drive the remainder'')
           in (res pg, pg\<lparr>pg_rec := (pg_rec pg)\<lparr>rd_published := pg_all pg, rd_note := note\<rparr>\<rparr>))"

section \<open>Emit and Recover\<close>

definition new_record :: "env \<Rightarrow> world \<Rightarrow> outbox_record list \<Rightarrow> event \<Rightarrow> outbox_record" where
  "new_record env w records e =
     (let e' = e\<lparr>ev_at := en_now env (here w), ev_seq := nextSeq records (ev_source e)\<rparr>
      in \<lparr>rd_event = e', rd_recipients = Route (en_order env) e' (mustInterests (w_interests w)),
          rd_delivered = None, rd_published = False, rd_wakes = Some [], rd_note = []\<rparr>)"

text \<open>From \<open>deliver\<close> to the return: the second append and pruning.\<close>

definition finish_emit :: "env \<Rightarrow> outbox_record list \<Rightarrow> outbox_record \<Rightarrow> world \<Rightarrow> (result \<times> act_error option) \<times> world" where
  "finish_emit env records rec w =
     (let (res, pg) = deliver env w records rec;
          (ok, w1) = do_append env (pg_world pg) (pg_rec pg)
      in if \<not> ok then ((res, Some WriteFailed), w1)
         else
           let (pruned, j) = prune (en_prune env) (pg_history pg @ [pg_rec pg]) (w_journal w1)
           in ((if pruned then res else res\<lparr>rs_errors := rs_errors res @ [PruneFailed]\<rparr>, None),
               w1\<lparr>w_journal := j\<rparr>))"

definition Emit :: "env \<Rightarrow> string list \<Rightarrow> event \<Rightarrow> world \<Rightarrow> (result \<times> act_error option) \<times> world" where
  "Emit env srcs e w =
     (if ev_source e = SourceActivity then ((no_result, Some ReservedSource), w)
      else case validateEvent srcs e of
        Some err \<Rightarrow> ((no_result, Some err), w)
      | None \<Rightarrow>
          let e1 = e\<lparr>ev_schema := SchemaVersion, ev_id := computeID e\<rparr> in
          (case en_gate env of
             Some err \<Rightarrow> ((no_result, Some err), w)
           | None \<Rightarrow>
               if \<not> en_readable env then ((no_result, Some Unreadable), w)
               else
                 let records = load (w_journal w) in
                 (case findRecord records (ev_id e1) of
                    Some prior \<Rightarrow>
                      if rd_published prior then
                        ((\<lparr>rs_event = rd_event prior, rs_recipients = rd_recipients prior, rs_duplicate = True,
                           rs_wakes = (case rd_wakes prior of None \<Rightarrow> [] | Some m \<Rightarrow> m), rs_errors = []\<rparr>, None), w)
                      else finish_emit env records prior w
                  | None \<Rightarrow>
                      let rec = new_record env w records e1; (ok, w1) = do_append env w rec in
                      if \<not> ok then ((no_result, Some WriteFailed), w1)
                      else finish_emit env records rec w1)))"

text \<open>The loop of \<open>Recover\<close> over the indices of \<open>records\<close>, whose maps the deliveries may change.\<close>

fun recover_from :: "env \<Rightarrow> nat list \<Rightarrow> outbox_record list \<Rightarrow> result list \<Rightarrow> world \<Rightarrow> (result list \<times> act_error option) \<times> world" where
  "recover_from env [] records out w = ((out, None), w)"
| "recover_from env (i # is) records out w =
     (let rec = records ! i in
      if rd_published rec then recover_from env is records out w
      else
        let (res, pg) = deliver env w records rec;
            (ok, w1) = do_append env (pg_world pg) (pg_rec pg)
        in if \<not> ok then ((out, Some WriteFailed), w1)
           else recover_from env is (pg_history pg) (out @ [res]) w1)"

definition Recover :: "env \<Rightarrow> world \<Rightarrow> (result list \<times> act_error option) \<times> world" where
  "Recover env w =
     (case en_gate env of
        Some err \<Rightarrow> (([], Some err), w)
      | None \<Rightarrow>
          if \<not> en_readable env then (([], Some Unreadable), w)
          else let records = load (w_journal w) in recover_from env [0..<length records] records [] w)"

section \<open>Reading back\<close>

text \<open>\<open>openStore\<close> and \<open>load\<close>, with the error of either.\<close>

definition read_outbox :: "act_error option \<Rightarrow> bool \<Rightarrow> jline list \<Rightarrow> act_error + outbox_record list" where
  "read_outbox gate readable j = (case gate of
      Some err \<Rightarrow> Inl err
    | None \<Rightarrow> if readable then Inr (load j) else Inl Unreadable)"

definition Tail :: "int \<Rightarrow> string \<Rightarrow> act_error + outbox_record list \<Rightarrow> act_error + outbox_record list" where
  "Tail limit src opened = (case opened of
      Inl err \<Rightarrow> Inl err
    | Inr records \<Rightarrow>
        let records = (if src \<noteq> [] then filter (\<lambda>r. ev_source (rd_event r) = src) records else records)
        in Inr (if limit > 0 \<and> int (length records) > limit then drop (length records - nat limit) records else records))"

definition Since :: "string \<Rightarrow> int \<Rightarrow> act_error + outbox_record list \<Rightarrow> act_error + outbox_record list" where
  "Since src n opened = map_sum id (filter (\<lambda>r. ev_source (rd_event r) = src \<and> ev_seq (rd_event r) > n)) opened"

definition Show :: "string \<Rightarrow> act_error + outbox_record list \<Rightarrow> act_error + outbox_record option" where
  "Show i opened = map_sum id (\<lambda>records. findRecord records i) opened"

definition LoadInterests :: "act_error option \<Rightarrow> interests_file \<Rightarrow> act_error + interest list" where
  "LoadInterests gate f = (case gate of Some err \<Rightarrow> Inl err | None \<Rightarrow> loadInterests f)"

section \<open>Adapters\<close>

record adapter =
  ad_source :: string
  ad_actor :: string
  ad_scope :: scope

record interested =
  it_mentions :: "string list"
  it_owner :: string
  it_assignees :: "string list"
  it_depends :: "string list"
  it_members :: "string list"

definition For :: "string list \<Rightarrow> string \<Rightarrow> act_error + adapter" where
  "For srcs src = (let src = trim_space src in
     if src = SourceActivity then Inl ReservedSource
     else if src \<notin> set srcs then Inl (UnknownSource src)
     else Inr \<lparr>ad_source = src, ad_actor = [], ad_scope = \<lparr>sc_repo = [], sc_sprint = [], sc_topic = [], sc_room = []\<rparr>\<rparr>)"

definition As :: "adapter \<Rightarrow> string \<Rightarrow> adapter" where
  "As a actor = a\<lparr>ad_actor := trim_space actor\<rparr>"

definition In :: "adapter \<Rightarrow> scope \<Rightarrow> adapter" where
  "In a s = a\<lparr>ad_scope := s\<rparr>"

definition announcement :: "adapter \<Rightarrow> string \<Rightarrow> string \<Rightarrow> string \<Rightarrow> string \<Rightarrow> string \<Rightarrow> interested \<Rightarrow> event" where
  "announcement a action noun object status token who = no_event\<lparr>
     ev_source := ad_source a, ev_actor := ad_actor a, ev_action := action, ev_noun := noun, ev_object := object,
     ev_scope := ad_scope a, ev_status := status, ev_token := token,
     ev_mentions := it_mentions who, ev_owner := it_owner who, ev_assignees := it_assignees who,
     ev_depends := it_depends who, ev_members := it_members who\<rparr>"

definition Announce :: "env \<Rightarrow> string list \<Rightarrow> adapter option \<Rightarrow> string \<Rightarrow> string \<Rightarrow> string \<Rightarrow> string \<Rightarrow> string \<Rightarrow> interested \<Rightarrow>
    world \<Rightarrow> (result \<times> act_error option) \<times> world" where
  "Announce env srcs a action noun object status token who w = (case a of
      None \<Rightarrow> ((no_result, Some NilAdapter), w)
    | Some a \<Rightarrow> Emit env srcs (announcement a action noun object status token who) w)"

text \<open>The shorthands, with their receiver and the world last.\<close>

type_synonym announcer = "string \<Rightarrow> string \<Rightarrow> string \<Rightarrow> interested \<Rightarrow> world \<Rightarrow> (result \<times> act_error option) \<times> world"

definition Created :: "env \<Rightarrow> string list \<Rightarrow> adapter option \<Rightarrow> announcer" where
  "Created env srcs a noun object token who w = Announce env srcs a ''create'' noun object StatusOK token who w"

definition Updated :: "env \<Rightarrow> string list \<Rightarrow> adapter option \<Rightarrow> announcer" where
  "Updated env srcs a noun object token who w = Announce env srcs a ''update'' noun object StatusOK token who w"

definition Deleted :: "env \<Rightarrow> string list \<Rightarrow> adapter option \<Rightarrow> announcer" where
  "Deleted env srcs a noun object token who w = Announce env srcs a ''delete'' noun object StatusOK token who w"

definition Read :: "env \<Rightarrow> string list \<Rightarrow> adapter option \<Rightarrow> announcer" where
  "Read env srcs a noun object token who w = Announce env srcs a ActionRead noun object StatusOK token who w"

definition Lifecycle :: "env \<Rightarrow> string list \<Rightarrow> adapter option \<Rightarrow> string \<Rightarrow> string \<Rightarrow> announcer" where
  "Lifecycle env srcs a action status noun object token who w = Announce env srcs a action noun object status token who w"

definition Reacting :: "env \<Rightarrow> string list \<Rightarrow> adapter \<Rightarrow> event \<Rightarrow> string \<Rightarrow> string \<Rightarrow> string \<Rightarrow> string \<Rightarrow> string \<Rightarrow> interested \<Rightarrow>
    world \<Rightarrow> (result \<times> act_error option) \<times> world" where
  "Reacting env srcs a cause action noun object status token who w =
     Emit env srcs ((announcement a action noun object status token who)
       \<lparr>ev_cause := ev_id cause, ev_hop := int64 (ev_hop cause + 1)\<rparr>) w"

end
