(* ===== verification/Act_Delivery_Laws.thy ===== *)
theory Act_Delivery_Laws
  imports Act_Deliver
begin

text \<open>
  What one delivery does to the record, the trace and the journal: who was published to, that the
  record accounts for it, and in which order the calls are made.
\<close>

section \<open>Publications\<close>

text \<open>The names durably published to, in order.\<close>

fun published_to :: "call list \<Rightarrow> string list" where
  "published_to [] = []"
| "published_to (Publish p n s t pr ok # cs) = (if ok then n # published_to cs else published_to cs)"
| "published_to (_ # cs) = published_to cs"

lemma published_to_append [simp]: "published_to (xs @ ys) = published_to xs @ published_to ys"
  by (induction xs rule: published_to.induct) auto

definition delivered :: "outbox_record \<Rightarrow> string \<Rightarrow> bool" where
  "delivered rec n \<longleftrightarrow> mget (rd_delivered rec) n = Some True"

definition ready :: "outbox_record \<Rightarrow> bool" where
  "ready rec \<longleftrightarrow> rd_delivered rec \<noteq> None \<and> rd_wakes rec \<noteq> None"

lemma mget_mput: "m \<noteq> None \<Longrightarrow> mget (mput m k v) k' = (if k' = k then Some v else mget m k')"
  by (auto simp: mget_def mput_def update_conv)

lemma mput_made [simp]: "mput m k v = None \<longleftrightarrow> m = None"
  by (simp add: mput_def)

lemma made_ready [simp]: "made m \<noteq> None" "mget (made m) k = mget m k"
  by (simp_all add: made_def mget_def split: option.split)

text \<open>
  The calls for one recipient: an inbox is ensured, the event published, and only then the
  recipient woken.
\<close>

inductive service :: "string \<Rightarrow> string \<Rightarrow> string \<Rightarrow> string \<Rightarrow> call list \<Rightarrow> bool" where
  skipped: "service src subject topic n []"
| no_inbox: "service src subject topic n [Inbox n False]"
| refused: "service src subject topic n [Inbox n True, Publish src n subject topic pr False]"
| queued: "service src subject topic n [Inbox n True, Publish src n subject topic pr True]"
| woken: "service src subject topic n [Inbox n True, Publish src n subject topic pr True, WakeCall n subject ok]"

inductive_simps service_Nil [simp]: "service src subject topic n []"

inductive services :: "string \<Rightarrow> string \<Rightarrow> string \<Rightarrow> string list \<Rightarrow> call list \<Rightarrow> bool" where
  none: "services src subject topic [] []"
| more: "services src subject topic ns xs \<Longrightarrow> service src subject topic n cs \<Longrightarrow> services src subject topic (ns @ [n]) (xs @ cs)"

lemma called_simps [simp]:
  "w_journal (called c w) = w_journal w" "w_interests (called c w) = w_interests w"
  "w_trace (called c w) = w_trace w @ [c]"
  by (simp_all add: called_def)

lemma wakeOutcome_world:
  assumes "wakeOutcome env w h e r subject = (out, w')"
  shows "w_journal w' = w_journal w \<and> w_interests w' = w_interests w \<and>
     (w' = w \<or> (\<exists>ok. w_trace w' = w_trace w @ [WakeCall (rc_subscriber r) subject ok]))"
  using assms by (auto simp: wakeOutcome_def Let_def split: if_splits)

definition step_calls :: "progress \<Rightarrow> progress \<Rightarrow> call list" where
  "step_calls pg pg' = drop (length (w_trace (pg_world pg))) (w_trace (pg_world pg'))"

text \<open>Everything one turn of the loop does, in one statement.\<close>

definition turn_ok :: "string \<Rightarrow> string \<Rightarrow> recipient \<Rightarrow> progress \<Rightarrow> progress \<Rightarrow> call list \<Rightarrow> bool" where
  "turn_ok subject topic r pg pg' cs \<longleftrightarrow>
     w_trace (pg_world pg') = w_trace (pg_world pg) @ cs \<and>
     w_journal (pg_world pg') = w_journal (pg_world pg) \<and> w_interests (pg_world pg') = w_interests (pg_world pg) \<and>
     service (ev_source (rd_event (pg_rec pg))) subject topic (rc_subscriber r) cs \<and>
     rd_event (pg_rec pg') = rd_event (pg_rec pg) \<and> rd_recipients (pg_rec pg') = rd_recipients (pg_rec pg) \<and>
     ready (pg_rec pg') \<and>
     (\<forall>n. delivered (pg_rec pg') n \<longleftrightarrow> delivered (pg_rec pg) n \<or> n \<in> set (published_to cs)) \<and>
     published_to cs = (if delivered (pg_rec pg') (rc_subscriber r) \<and> \<not> delivered (pg_rec pg) (rc_subscriber r)
                        then [rc_subscriber r] else []) \<and>
     (pg_all pg' \<longleftrightarrow> pg_all pg \<and> delivered (pg_rec pg') (rc_subscriber r)) \<and>
     (pg_all pg' \<longrightarrow> pg_errors pg' = pg_errors pg)"

lemma deliver_one_turn:
  assumes ready: "ready (pg_rec pg)"
  shows "\<exists>cs. turn_ok subject topic r pg (deliver_one env subject topic r pg) cs"
proof -
  let ?n = "rc_subscriber r" and ?w = "pg_world pg"
  let ?w1 = "called (Inbox ?n (en_inbox env (here ?w))) ?w"
  let ?P = "Publish (ev_source (rd_event (pg_rec pg))) ?n subject topic (priority_of r)"
  consider (skip) "mget (rd_delivered (pg_rec pg)) ?n = Some True"
    | (inbox) "mget (rd_delivered (pg_rec pg)) ?n \<noteq> Some True" "\<not> en_inbox env (here ?w)"
    | (refused) "mget (rd_delivered (pg_rec pg)) ?n \<noteq> Some True" "en_inbox env (here ?w)" "\<not> en_publish env (here ?w1)"
    | (served) "mget (rd_delivered (pg_rec pg)) ?n \<noteq> Some True" "en_inbox env (here ?w)" "en_publish env (here ?w1)"
    by blast
  then show ?thesis
  proof cases
    case skip
    then have "turn_ok subject topic r pg (deliver_one env subject topic r pg) []"
      using ready by (auto simp: turn_ok_def deliver_one_def delivered_def Let_def split: option.split)
    then show ?thesis ..
  next
    case inbox
    then have "turn_ok subject topic r pg (deliver_one env subject topic r pg) [Inbox ?n False]"
      using ready by (simp add: turn_ok_def deliver_one_def delivered_def Let_def no_inbox)
    then show ?thesis ..
  next
    case refused
    then have "turn_ok subject topic r pg (deliver_one env subject topic r pg) [Inbox ?n True, ?P False]"
      using ready by (simp add: turn_ok_def deliver_one_def delivered_def Let_def service.refused)
    then show ?thesis ..
  next
    case served
    define rec1 where "rec1 = (pg_rec pg)\<lparr>rd_delivered := mput (rd_delivered (pg_rec pg)) ?n True\<rparr>"
    define w2 where "w2 = called (?P True) (called (Inbox ?n True) ?w)"
    obtain out w3 where o: "(if rc_wake r then wakeOutcome env w2 (shared rec1 (pg_history pg)) (rd_event (pg_rec pg)) r subject
        else (WakeQueued, w2)) = (out, w3)" by (cases "if rc_wake r then wakeOutcome env w2 (shared rec1 (pg_history pg)) (rd_event (pg_rec pg)) r subject
        else (WakeQueued, w2)")
    have w3: "w_journal w3 = w_journal ?w \<and> w_interests w3 = w_interests ?w \<and>
        (\<exists>cs. w_trace w3 = w_trace ?w @ [Inbox ?n True, ?P True] @ cs \<and> (cs = [] \<or> (\<exists>ok. cs = [WakeCall ?n subject ok])))"
      using o wakeOutcome_world [of env w2 "shared rec1 (pg_history pg)" "rd_event (pg_rec pg)" r subject out w3]
      by (auto simp: w2_def split: if_splits)
    then obtain cs where cs: "w_trace w3 = w_trace ?w @ [Inbox ?n True, ?P True] @ cs"
        "cs = [] \<or> (\<exists>ok. cs = [WakeCall ?n subject ok])" by blast
    let ?pg' = "pg\<lparr>pg_rec := rec1\<lparr>rd_wakes := mput (rd_wakes rec1) ?n out\<rparr>,
        pg_history := shared (rec1\<lparr>rd_wakes := mput (rd_wakes rec1) ?n out\<rparr>) (pg_history pg),
        pg_wakes := AList.update ?n out (pg_wakes pg), pg_world := w3\<rparr>"
    have d1: "deliver_one env subject topic r pg = ?pg'"
      using served o by (cases "rc_wake r") (simp_all add: deliver_one_def Let_def rec1_def [symmetric] w2_def [symmetric])
    have srv: "service (ev_source (rd_event (pg_rec pg))) subject topic ?n ([Inbox ?n True, ?P True] @ cs)"
      using cs(2) by (auto intro: service.queued service.woken)
    have pub: "published_to ([Inbox ?n True, ?P True] @ cs) = [?n]"
      using cs(2) by auto
    have nd: "\<not> delivered (pg_rec pg) ?n" using served by (simp add: delivered_def)
    have del: "delivered rec1 n \<longleftrightarrow> delivered (pg_rec pg) n \<or> n = ?n" for n
      using ready by (simp add: delivered_def rec1_def ready_def mget_mput)
    have del': "delivered (rec1\<lparr>rd_wakes := x\<rparr>) n \<longleftrightarrow> delivered rec1 n" for n x by (simp add: delivered_def)
    have rdy: "ready (rec1\<lparr>rd_wakes := mput (rd_wakes rec1) ?n out\<rparr>)"
      using ready by (simp add: ready_def rec1_def)
    have "turn_ok subject topic r pg ?pg' ([Inbox ?n True, ?P True] @ cs)"
      unfolding turn_ok_def pub
      using cs(1) w3 srv rdy nd del by (simp add: del') (simp add: rec1_def)
    then show ?thesis unfolding d1 ..
  qed
qed

section \<open>The whole loop\<close>

definition loop_ok :: "string \<Rightarrow> string \<Rightarrow> recipient list \<Rightarrow> progress \<Rightarrow> progress \<Rightarrow> call list \<Rightarrow> bool" where
  "loop_ok subject topic rs pg pg' cs \<longleftrightarrow>
     w_trace (pg_world pg') = w_trace (pg_world pg) @ cs \<and>
     w_journal (pg_world pg') = w_journal (pg_world pg) \<and> w_interests (pg_world pg') = w_interests (pg_world pg) \<and>
     services (ev_source (rd_event (pg_rec pg))) subject topic (map rc_subscriber rs) cs \<and>
     rd_event (pg_rec pg') = rd_event (pg_rec pg) \<and> rd_recipients (pg_rec pg') = rd_recipients (pg_rec pg) \<and>
     ready (pg_rec pg') \<and>
     (\<forall>n. delivered (pg_rec pg') n \<longleftrightarrow> delivered (pg_rec pg) n \<or> n \<in> set (published_to cs)) \<and>
     distinct (published_to cs) \<and> (\<forall>n\<in>set (published_to cs). n \<in> rc_subscriber ` set rs \<and> \<not> delivered (pg_rec pg) n) \<and>
     (distinct (map rc_subscriber rs) \<longrightarrow>
        published_to cs = filter (\<lambda>n. delivered (pg_rec pg') n \<and> \<not> delivered (pg_rec pg) n) (map rc_subscriber rs)) \<and>
     (pg_all pg' \<longrightarrow> pg_all pg \<and> (\<forall>r\<in>set rs. delivered (pg_rec pg') (rc_subscriber r)) \<and> pg_errors pg' = pg_errors pg) \<and>
     (distinct (map rc_subscriber rs) \<and> pg_all pg \<and> (\<forall>r\<in>set rs. delivered (pg_rec pg') (rc_subscriber r)) \<longrightarrow> pg_all pg')"

lemma loop_okD:
  assumes "loop_ok subject topic rs pg pg' cs"
  shows "w_trace (pg_world pg') = w_trace (pg_world pg) @ cs"
    and "w_journal (pg_world pg') = w_journal (pg_world pg) \<and> w_interests (pg_world pg') = w_interests (pg_world pg)"
    and "services (ev_source (rd_event (pg_rec pg))) subject topic (map rc_subscriber rs) cs"
    and "rd_event (pg_rec pg') = rd_event (pg_rec pg) \<and> rd_recipients (pg_rec pg') = rd_recipients (pg_rec pg)"
    and "ready (pg_rec pg')"
    and "delivered (pg_rec pg') n \<longleftrightarrow> delivered (pg_rec pg) n \<or> n \<in> set (published_to cs)"
    and "distinct (published_to cs)"
    and "n \<in> set (published_to cs) \<Longrightarrow> n \<in> rc_subscriber ` set rs \<and> \<not> delivered (pg_rec pg) n"
    and "distinct (map rc_subscriber rs) \<Longrightarrow>
        published_to cs = filter (\<lambda>n. delivered (pg_rec pg') n \<and> \<not> delivered (pg_rec pg) n) (map rc_subscriber rs)"
    and "pg_all pg' \<Longrightarrow> pg_all pg \<and> (\<forall>r\<in>set rs. delivered (pg_rec pg') (rc_subscriber r)) \<and> pg_errors pg' = pg_errors pg"
    and "distinct (map rc_subscriber rs) \<Longrightarrow> pg_all pg \<Longrightarrow> \<forall>r\<in>set rs. delivered (pg_rec pg') (rc_subscriber r) \<Longrightarrow> pg_all pg'"
  using assms unfolding loop_ok_def by blast+

lemma turn_okD:
  assumes "turn_ok subject topic r pg pg' cs"
  shows "w_trace (pg_world pg') = w_trace (pg_world pg) @ cs"
    and "w_journal (pg_world pg') = w_journal (pg_world pg) \<and> w_interests (pg_world pg') = w_interests (pg_world pg)"
    and "service (ev_source (rd_event (pg_rec pg))) subject topic (rc_subscriber r) cs"
    and "rd_event (pg_rec pg') = rd_event (pg_rec pg) \<and> rd_recipients (pg_rec pg') = rd_recipients (pg_rec pg)"
    and "ready (pg_rec pg')"
    and "delivered (pg_rec pg') n \<longleftrightarrow> delivered (pg_rec pg) n \<or> n \<in> set (published_to cs)"
    and "published_to cs = (if delivered (pg_rec pg') (rc_subscriber r) \<and> \<not> delivered (pg_rec pg) (rc_subscriber r)
                        then [rc_subscriber r] else [])"
    and "pg_all pg' \<longleftrightarrow> pg_all pg \<and> delivered (pg_rec pg') (rc_subscriber r)"
    and "pg_all pg' \<Longrightarrow> pg_errors pg' = pg_errors pg"
  using assms unfolding turn_ok_def by blast+

lemma deliver_loop:
  assumes "ready (pg_rec pg)"
  shows "\<exists>cs. loop_ok subject topic rs pg (fold (deliver_one env subject topic) rs pg) cs"
proof (induction rs rule: rev_induct)
  case Nil
  have "loop_ok subject topic [] pg pg []" using assms by (simp add: loop_ok_def services.none)
  then show ?case by auto
next
  case (snoc r rs)
  define pg1 where "pg1 = fold (deliver_one env subject topic) rs pg"
  define pg2 where "pg2 = deliver_one env subject topic r pg1"
  define n where "n = rc_subscriber r"
  obtain xs where xs: "loop_ok subject topic rs pg pg1 xs" using snoc by (auto simp: pg1_def)
  note x = loop_okD [OF xs]
  obtain cs where cs: "turn_ok subject topic r pg1 pg2 cs"
    using deliver_one_turn [OF x(5)] unfolding pg2_def by blast
  note t = turn_okD [OF cs]
  have pub: "published_to (xs @ cs) = published_to xs @ (if delivered (pg_rec pg2) n \<and> \<not> delivered (pg_rec pg1) n then [n] else [])"
    unfolding published_to_append t(7) n_def ..
  have del: "delivered (pg_rec pg2) m \<longleftrightarrow> delivered (pg_rec pg) m \<or> m \<in> set (published_to (xs @ cs))" for m
    unfolding t(6) x(6) published_to_append by auto
  have mono: "delivered (pg_rec pg1) m \<Longrightarrow> delivered (pg_rec pg2) m" for m
    by (simp only: t(6) simp_thms)
  have del1: "delivered (pg_rec pg2) m \<longleftrightarrow> delivered (pg_rec pg1) m" if "m \<noteq> n" for m
  proof -
    have "set (published_to cs) \<subseteq> {n}" by (subst t(7)) (auto simp: n_def)
    then show ?thesis using t(6) [of m] that by auto
  qed
  have old: "m \<in> set (published_to xs) \<Longrightarrow> delivered (pg_rec pg1) m" for m
    unfolding x(6) by blast
  have dpub: "distinct (published_to (xs @ cs))"
    unfolding pub using x(7) old by auto
  have new: "m \<in> rc_subscriber ` set (rs @ [r]) \<and> \<not> delivered (pg_rec pg) m" if "m \<in> set (published_to (xs @ cs))" for m
  proof (cases "m \<in> set (published_to xs)")
    case True
    with x(8) [OF this] show ?thesis by auto
  next
    case False
    with that have "m = n" "\<not> delivered (pg_rec pg1) n" unfolding pub by (auto split: if_splits)
    then show ?thesis by (auto simp: n_def x(6))
  qed
  have fpub: "published_to (xs @ cs) = filter (\<lambda>m. delivered (pg_rec pg2) m \<and> \<not> delivered (pg_rec pg) m) (map rc_subscriber (rs @ [r]))"
    if d: "distinct (map rc_subscriber (rs @ [r]))"
  proof -
    have n: "n \<notin> rc_subscriber ` set rs" using d by (auto simp: n_def)
    have "published_to xs = filter (\<lambda>m. delivered (pg_rec pg1) m \<and> \<not> delivered (pg_rec pg) m) (map rc_subscriber rs)"
      using d by (intro x(9)) simp
    also have "\<dots> = filter (\<lambda>m. delivered (pg_rec pg2) m \<and> \<not> delivered (pg_rec pg) m) (map rc_subscriber rs)"
    proof (rule filter_cong [OF refl])
      fix m assume "m \<in> set (map rc_subscriber rs)"
      with n have "m \<noteq> n" by auto
      then have "delivered (pg_rec pg2) m = delivered (pg_rec pg1) m" by (rule del1)
      then show "(delivered (pg_rec pg1) m \<and> \<not> delivered (pg_rec pg) m) = (delivered (pg_rec pg2) m \<and> \<not> delivered (pg_rec pg) m)"
        by simp
    qed
    finally have xs': "published_to xs = filter (\<lambda>m. delivered (pg_rec pg2) m \<and> \<not> delivered (pg_rec pg) m) (map rc_subscriber rs)" .
    have "n \<notin> set (published_to xs)" using x(8) [of n] n by blast
    then have "delivered (pg_rec pg1) n \<longleftrightarrow> delivered (pg_rec pg) n" by (simp add: x(6))
    then show ?thesis unfolding pub xs' by (simp add: n_def)
  qed
  have all1: "pg_all pg \<and> (\<forall>q\<in>set (rs @ [r]). delivered (pg_rec pg2) (rc_subscriber q)) \<and> pg_errors pg2 = pg_errors pg"
    if "pg_all pg2"
  proof -
    have "pg_all pg1" "delivered (pg_rec pg2) n" using that by (simp_all add: t(8) n_def)
    with x(10) mono t(9) [OF that] show ?thesis by (auto simp: n_def)
  qed
  have all2: "pg_all pg2" if "distinct (map rc_subscriber (rs @ [r]))" "pg_all pg"
      "\<forall>q\<in>set (rs @ [r]). delivered (pg_rec pg2) (rc_subscriber q)"
  proof -
    have "\<forall>q\<in>set rs. delivered (pg_rec pg1) (rc_subscriber q)"
    proof
      fix q assume q: "q \<in> set rs"
      then have "rc_subscriber q \<in> rc_subscriber ` set rs" by blast
      then have "rc_subscriber q \<noteq> n" using that(1) by (auto simp: n_def)
      moreover have "delivered (pg_rec pg2) (rc_subscriber q)" using that(3) q by simp
      ultimately show "delivered (pg_rec pg1) (rc_subscriber q)" using del1 by blast
    qed
    then have "pg_all pg1" using x(11) that(1,2) by simp
    then show ?thesis using that(3) by (simp add: t(8))
  qed
  have srv: "services (ev_source (rd_event (pg_rec pg))) subject topic (map rc_subscriber (rs @ [r])) (xs @ cs)"
    using services.more [OF x(3) t(3) [unfolded conjunct1 [OF x(4)]]] by simp
  have "loop_ok subject topic (rs @ [r]) pg pg2 (xs @ cs)"
    unfolding loop_ok_def
  proof (intro conjI impI allI ballI)
    show "w_trace (pg_world pg2) = w_trace (pg_world pg) @ xs @ cs" by (simp add: t(1) x(1))
    show "w_journal (pg_world pg2) = w_journal (pg_world pg)" "w_interests (pg_world pg2) = w_interests (pg_world pg)"
      by (simp_all add: t(2) x(2))
    show "rd_event (pg_rec pg2) = rd_event (pg_rec pg)" "rd_recipients (pg_rec pg2) = rd_recipients (pg_rec pg)"
      by (simp_all add: t(4) x(4))
  qed (use srv t(5) del dpub new fpub all1 all2 in blast)+
  then show ?case by (auto simp: pg1_def pg2_def)
qed

section \<open>One delivery\<close>

definition deliver_ok :: "outbox_record \<Rightarrow> world \<Rightarrow> result \<Rightarrow> progress \<Rightarrow> call list \<Rightarrow> bool" where
  "deliver_ok rec w res pg cs \<longleftrightarrow> (let rec' = pg_rec pg; names = map rc_subscriber (rd_recipients rec) in
     w_trace (pg_world pg) = w_trace w @ cs \<and>
     w_journal (pg_world pg) = w_journal w \<and> w_interests (pg_world pg) = w_interests w \<and>
     services (ev_source (rd_event rec)) (Subject (rd_event rec)) (TopicFor (ev_source (rd_event rec))) names cs \<and>
     rd_event rec' = rd_event rec \<and> rd_recipients rec' = rd_recipients rec \<and>
     (\<forall>n. delivered rec' n \<longleftrightarrow> delivered rec n \<or> n \<in> set (published_to cs)) \<and>
     distinct (published_to cs) \<and> (\<forall>n\<in>set (published_to cs). n \<in> set names \<and> \<not> delivered rec n) \<and>
     (distinct names \<longrightarrow> published_to cs = filter (\<lambda>n. delivered rec' n \<and> \<not> delivered rec n) names) \<and>
     (rd_published rec' \<longrightarrow> (\<forall>n\<in>set names. delivered rec' n) \<and> rs_errors res = []) \<and>
     (distinct names \<and> (\<forall>n\<in>set names. delivered rec' n) \<longrightarrow> rd_published rec') \<and>
     rs_event res = rd_event rec \<and> rs_recipients res = rd_recipients rec \<and> \<not> rs_duplicate res)"

lemma deliver_okD:
  assumes "deliver_ok rec w res pg cs"
  shows "w_trace (pg_world pg) = w_trace w @ cs"
    and "w_journal (pg_world pg) = w_journal w \<and> w_interests (pg_world pg) = w_interests w"
    and "services (ev_source (rd_event rec)) (Subject (rd_event rec)) (TopicFor (ev_source (rd_event rec)))
          (map rc_subscriber (rd_recipients rec)) cs"
    and "rd_event (pg_rec pg) = rd_event rec \<and> rd_recipients (pg_rec pg) = rd_recipients rec"
    and "delivered (pg_rec pg) n \<longleftrightarrow> delivered rec n \<or> n \<in> set (published_to cs)"
    and "distinct (published_to cs)"
    and "n \<in> set (published_to cs) \<Longrightarrow> n \<in> rc_subscriber ` set (rd_recipients rec) \<and> \<not> delivered rec n"
    and "distinct (map rc_subscriber (rd_recipients rec)) \<Longrightarrow> published_to cs =
          filter (\<lambda>n. delivered (pg_rec pg) n \<and> \<not> delivered rec n) (map rc_subscriber (rd_recipients rec))"
    and "rd_published (pg_rec pg) \<Longrightarrow> (\<forall>n\<in>rc_subscriber ` set (rd_recipients rec). delivered (pg_rec pg) n) \<and> rs_errors res = []"
    and "distinct (map rc_subscriber (rd_recipients rec)) \<Longrightarrow>
          \<forall>n\<in>rc_subscriber ` set (rd_recipients rec). delivered (pg_rec pg) n \<Longrightarrow> rd_published (pg_rec pg)"
    and "rs_event res = rd_event rec \<and> rs_recipients res = rd_recipients rec \<and> \<not> rs_duplicate res"
  using assms unfolding deliver_ok_def Let_def set_map by blast+

lemma deliver_runs:
  assumes "deliver env w history rec = (res, pg)"
  shows "\<exists>cs. deliver_ok rec w res pg cs"
proof -
  define rec0 where "rec0 = rec\<lparr>rd_delivered := made (rd_delivered rec), rd_wakes := made (rd_wakes rec)\<rparr>"
  define pg0 where "pg0 = \<lparr>pg_rec = rec0, pg_history = history, pg_wakes = [], pg_errors = [], pg_all = True, pg_world = w\<rparr>"
  have rec0: "ready rec0" "rd_event rec0 = rd_event rec" "rd_recipients rec0 = rd_recipients rec"
    "delivered rec0 n \<longleftrightarrow> delivered rec n" for n
    by (simp_all add: rec0_def ready_def delivered_def)
  have upd: "delivered (r\<lparr>rd_published := b\<rparr>) n \<longleftrightarrow> delivered r n" "delivered (r\<lparr>rd_published := b, rd_note := x\<rparr>) n \<longleftrightarrow> delivered r n" for r b x n
    by (simp_all add: delivered_def)
  show ?thesis
  proof (cases "rd_recipients rec = []")
    case True
    then have "deliver_ok rec w res pg []"
      using assms by (auto simp: deliver_def Let_def deliver_ok_def services.none delivered_def)
    then show ?thesis ..
  next
    case False
    let ?s = "Subject (rd_event rec)" and ?t = "TopicFor (ev_source (rd_event rec))"
    define pg1 where "pg1 = fold (deliver_one env ?s ?t) (rd_recipients rec) pg0"
    have "ready (pg_rec pg0)" using rec0 by (simp add: pg0_def)
    from deliver_loop [OF this] obtain cs where cs: "loop_ok ?s ?t (rd_recipients rec) pg0 pg1 cs"
      unfolding pg1_def by blast
    note l = loop_okD [OF cs]
    have eq: "pg_rec pg = (pg_rec pg1)\<lparr>rd_published := pg_all pg1, rd_note := (if pg_all pg1 then [] else
        ''partial delivery; recover will re-drive the remainder'')\<rparr>" "pg_world pg = pg_world pg1"
      "rs_event res = rd_event rec" "rs_recipients res = rd_recipients rec" "\<not> rs_duplicate res" "rs_errors res = pg_errors pg1"
      using assms False by (auto simp: deliver_def Let_def pg1_def pg0_def rec0_def)
    have p0: "pg_world pg0 = w" "pg_rec pg0 = rec0" "pg_all pg0" "pg_errors pg0 = []" by (simp_all add: pg0_def)
    have del: "delivered (pg_rec pg) n \<longleftrightarrow> delivered (pg_rec pg1) n" for n by (simp add: eq upd)
    have "deliver_ok rec w res pg cs"
      unfolding deliver_ok_def Let_def
    proof (intro conjI impI allI ballI)
      show "w_trace (pg_world pg) = w_trace w @ cs" using l(1) by (simp add: eq p0)
      show "w_journal (pg_world pg) = w_journal w" "w_interests (pg_world pg) = w_interests w" using l(2) by (simp_all add: eq p0)
      show "services (ev_source (rd_event rec)) ?s ?t (map rc_subscriber (rd_recipients rec)) cs"
        using l(3) by (simp add: p0 rec0)
      show "rd_event (pg_rec pg) = rd_event rec" "rd_recipients (pg_rec pg) = rd_recipients rec"
        using l(4) by (simp_all add: eq p0 rec0)
      show "delivered (pg_rec pg) n \<longleftrightarrow> delivered rec n \<or> n \<in> set (published_to cs)" for n
        unfolding del using l(6) [of n] by (simp only: p0 rec0)
      show "distinct (published_to cs)" by (rule l(7))
      show "n \<in> set (map rc_subscriber (rd_recipients rec))" "\<not> delivered rec n" if "n \<in> set (published_to cs)" for n
        using l(8) [OF that] by (simp_all add: p0 rec0)
      show "published_to cs = filter (\<lambda>n. delivered (pg_rec pg) n \<and> \<not> delivered rec n) (map rc_subscriber (rd_recipients rec))"
        if "distinct (map rc_subscriber (rd_recipients rec))"
        using l(9) [OF that] by (simp only: p0 rec0 del)
      show "delivered (pg_rec pg) n" if "rd_published (pg_rec pg)" "n \<in> set (map rc_subscriber (rd_recipients rec))" for n
        unfolding del using l(10) that by (auto simp: eq)
      show "rs_errors res = []" if "rd_published (pg_rec pg)" using l(10) that by (simp add: eq p0)
      show "rd_published (pg_rec pg)" if "distinct (map rc_subscriber (rd_recipients rec)) \<and>
          (\<forall>n\<in>set (map rc_subscriber (rd_recipients rec)). delivered (pg_rec pg) n)"
        using l(11) that by (simp add: eq p0 upd)
    qed (use eq in auto)
    then show ?thesis ..
  qed
qed

text \<open>With a bus that answers, every recipient is served.\<close>

definition bus_up :: "env \<Rightarrow> bool" where
  "bus_up env \<longleftrightarrow> (\<forall>k. en_inbox env k) \<and> (\<forall>k. en_publish env k)"

lemma deliver_one_up: "bus_up env \<Longrightarrow> pg_all (deliver_one env s t r pg) = pg_all pg"
  by (auto simp: deliver_one_def bus_up_def Let_def split: option.split prod.split)

lemma deliver_up:
  assumes "bus_up env" and "deliver env w history rec = (res, pg)"
  shows "rd_published (pg_rec pg) \<and> rs_errors res = [] \<and> (\<forall>n\<in>rc_subscriber ` set (rd_recipients rec). delivered (pg_rec pg) n)"
proof -
  have up: "pg_all (fold (deliver_one env s t) rs pg) = pg_all pg" for s t rs pg
    by (induction rs arbitrary: pg) (simp_all add: deliver_one_up [OF assms(1)])
  have "rd_published (pg_rec pg)"
    using assms(2) by (auto simp: deliver_def Let_def up split: if_splits)
  moreover obtain cs where "deliver_ok rec w res pg cs" using deliver_runs [OF assms(2)] by blast
  ultimately show ?thesis using deliver_okD(9) by blast
qed

section \<open>The appends\<close>

lemma do_append_world:
  assumes "do_append env w r = (ok, w')"
  shows "w_interests w' = w_interests w" "w_trace w' = w_trace w @ [Journal r ok]"
    and "ok \<Longrightarrow> w_journal w' = add_line (w_journal w) (on_disk r)"
    and "en_disk env (here w) = Synced \<Longrightarrow> ok" "ok \<Longrightarrow> sealed (w_journal w')"
  using assms by (auto simp: do_append_def store_append_def add_line_def sealed_append_line split: write_outcome.splits prod.splits)

lemma prune_keep_last: "\<exists>ks. prune_keep (rs @ [r]) = ks @ [r]"
proof -
  have "\<not> length rs < Suc (length rs) - MaxJournalRecords" by (simp add: MaxJournalRecords_def)
  then show ?thesis by (simp add: prune_keep_def Let_def enumerate_append_eq)
qed

lemma latest_lines: "rd_id r \<noteq> [] \<Longrightarrow> latest (map (Line \<circ> on_disk) (ks @ [r])) (rd_id r) = Some (on_disk r)"
  by (simp add: latest_snoc line_record_def)

lemma sealed_lines: "sealed (map (Line \<circ> f) rs)"
  by (cases rs rule: rev_cases) (simp_all add: sealed_def)

lemma finish_emit_runs:
  assumes "finish_emit env records rec w = ((res, err), w')"
  shows "\<exists>cs res0 pg ok. deliver_ok rec w res0 pg cs \<and> w_trace w' = w_trace w @ cs @ [Journal (pg_rec pg) ok] \<and>
     w_interests w' = w_interests w \<and> (err = None \<longleftrightarrow> ok) \<and>
     rs_event res = rd_event rec \<and> rs_recipients res = rd_recipients rec \<and> \<not> rs_duplicate res \<and>
     set (rs_errors res0) \<subseteq> set (rs_errors res) \<and> deliver env w records rec = (res0, pg) \<and>
     (err = None \<and> sealed (w_journal w) \<and> rd_id rec \<noteq> [] \<longrightarrow>
        sealed (w_journal w') \<and> latest (w_journal w') (rd_id rec) = Some (on_disk (pg_rec pg)))"
proof -
  obtain res0 pg where d: "deliver env w records rec = (res0, pg)" by fastforce
  obtain cs where cs: "deliver_ok rec w res0 pg cs" using deliver_runs [OF d] by blast
  note D = deliver_okD [OF cs]
  obtain ok w1 where a: "do_append env (pg_world pg) (pg_rec pg) = (ok, w1)" by fastforce
  note A = do_append_world [OF a]
  have id: "rd_id (pg_rec pg) = rd_id rec" using D(4) by (simp add: rd_id_def)
  show ?thesis
  proof (cases ok)
    case False
    then have "res = res0" "err = Some WriteFailed" "w' = w1" using assms by (simp_all add: finish_emit_def d a)
    then show ?thesis using cs A D(1,2,11) False d
      by (intro exI [of _ cs] exI [of _ res0] exI [of _ pg] exI [of _ ok]) auto
  next
    case True
    obtain pruned j where p: "prune (en_prune env) (pg_history pg @ [pg_rec pg]) (w_journal w1) = (pruned, j)" by fastforce
    have eq: "err = None" "w' = w1\<lparr>w_journal := j\<rparr>" "rs_event res = rs_event res0" "rs_recipients res = rs_recipients res0"
        "rs_duplicate res = rs_duplicate res0" "set (rs_errors res0) \<subseteq> set (rs_errors res)"
      using assms True by (auto simp: finish_emit_def d a p split: if_splits)
    have j: "sealed j \<and> latest j (rd_id rec) = Some (on_disk (pg_rec pg))" if s: "sealed (w_journal w)" and i: "rd_id rec \<noteq> []"
    proof (cases "j = w_journal w1")
      case True
      have w1: "w_journal w1 = add_line (w_journal w) (on_disk (pg_rec pg))" using A(3) [OF \<open>ok\<close>] D(2) by simp
      show ?thesis
        unfolding True w1 using journal.find_added [OF s, of "on_disk (pg_rec pg)"] journal.add_shape [OF s] i id by simp
    next
      case False
      then have "j = map (Line \<circ> on_disk) (prune_keep (pg_history pg @ [pg_rec pg]))"
        using p by (auto simp: prune_def split: if_splits)
      then show ?thesis
        using prune_keep_last [of "pg_history pg" "pg_rec pg"] latest_lines [of "pg_rec pg"] i id sealed_lines [of on_disk]
        by fastforce
    qed
    show ?thesis using cs A D(1,2,11) True eq j d
      by (intro exI [of _ cs] exI [of _ res0] exI [of _ pg] exI [of _ ok]) auto
  qed
qed

section \<open>Errors, wakes and history\<close>

lemma deliver_errors:
  assumes "deliver env w history rec = (res, pg)"
  shows "rd_published (pg_rec pg) \<longleftrightarrow> rs_errors res = []"
proof -
  have one: "pg_all pg = (pg_errors pg = []) \<Longrightarrow>
      pg_all (deliver_one env s t r pg) = (pg_errors (deliver_one env s t r pg) = [])" for s t r pg
    by (auto simp: deliver_one_def Let_def split: option.split prod.split)
  have "pg_all pg = (pg_errors pg = []) \<Longrightarrow>
      pg_all (fold (deliver_one env s t) rs pg) = (pg_errors (fold (deliver_one env s t) rs pg) = [])" for s t rs pg
    by (induction rs arbitrary: pg) (simp_all add: one)
  then show ?thesis using assms by (auto simp: deliver_def Let_def split: if_splits)
qed

lemma service_wake:
  assumes "service src subject topic m cs" and "cs = xs @ WakeCall n s ok # ys"
  shows "s = subject \<and> ys = [] \<and> (\<exists>pr. xs = [Inbox n True, Publish src n s topic pr True])"
  using assms by (cases rule: service.cases) (auto simp: Cons_eq_append_conv append_eq_Cons_conv)

lemma services_wake:
  assumes "services src subject topic ns cs" and "cs = xs @ WakeCall n s ok # ys"
  shows "s = subject \<and> (\<exists>zs pr. xs = zs @ [Inbox n True, Publish src n s topic pr True])"
  using assms
proof (induction arbitrary: ys rule: services.induct)
  case (more src subject topic ns as m cs)
  have "as @ cs = xs @ WakeCall n s ok # ys" using more.prems .
  then consider (left) zs where "as = xs @ WakeCall n s ok # zs" "ys = zs @ cs"
    | (right) zs where "xs = as @ zs" "cs = zs @ WakeCall n s ok # ys"
  proof (rule append_eq_append_conv2 [THEN iffD1, THEN exE], elim disjE conjE)
    fix us assume "as = xs @ us" "us @ cs = WakeCall n s ok # ys"
    then show thesis using that by (cases us) auto
  next
    fix us assume "as @ us = xs" "cs = us @ WakeCall n s ok # ys"
    then show thesis using that(2) by blast
  qed
  then show ?case
  proof cases
    case left
    then show ?thesis using more.IH by blast
  next
    case right
    from service_wake [OF more.hyps(2) right(2)] right(1) show ?thesis by auto
  qed
qed simp

text \<open>Delivering one record changes, of the history, at most the maps of that record.\<close>

definition agree :: "string \<Rightarrow> outbox_record \<Rightarrow> outbox_record \<Rightarrow> bool" where
  "agree i x y \<longleftrightarrow> rd_id x = rd_id y \<and> (rd_id x \<noteq> i \<longrightarrow> x = y)"

definition same_but :: "string \<Rightarrow> outbox_record list \<Rightarrow> outbox_record list \<Rightarrow> bool" where
  "same_but i h h' \<longleftrightarrow> list_all2 (agree i) h h'"

lemma agree_refl [simp]: "agree i x x"
  by (simp add: agree_def)

lemma agree_trans:
  assumes x: "agree i x y" and y: "agree i y z"
  shows "agree i x z"
proof -
  have "rd_id x = rd_id y" using x unfolding agree_def by (rule conjunct1)
  also have "\<dots> = rd_id z" using y unfolding agree_def by (rule conjunct1)
  finally have "rd_id x = rd_id z" .
  moreover have "x = z" if n: "rd_id x \<noteq> i"
  proof -
    have "x = y" using x n unfolding agree_def by blast
    then show ?thesis using y n unfolding agree_def by blast
  qed
  ultimately show ?thesis unfolding agree_def by blast
qed

lemma same_but_refl: "same_but i h h"
  by (simp add: same_but_def list_all2_refl)

lemma same_but_trans:
  assumes "same_but i h h'" "same_but i h' h''"
  shows "same_but i h h''"
  using assms list_all2_trans [of "agree i" "agree i" "agree i" h h' h''] agree_trans [of i]
  unfolding same_but_def by blast

lemma same_but_shared: "same_but (rd_id rec) h (shared rec h)"
  by (auto simp: same_but_def shared_def list_all2_map2 agree_def rd_id_def intro!: list_all2_refl)

lemma same_but_nth: "same_but i h h' \<Longrightarrow> k < length h \<Longrightarrow> rd_id (h ! k) \<noteq> i \<Longrightarrow> h' ! k = h ! k"
  unfolding same_but_def by (drule list_all2_nthD) (auto simp: agree_def)

lemma same_but_ids: "same_but i h h' \<Longrightarrow> map rd_id h' = map rd_id h"
  unfolding same_but_def by (induction rule: list_all2_induct) (auto simp: agree_def)

lemma deliver_one_history:
  "same_but (rd_id (pg_rec pg)) (pg_history pg) (pg_history (deliver_one env s t r pg)) \<and>
   rd_id (pg_rec (deliver_one env s t r pg)) = rd_id (pg_rec pg)"
proof -
  have id: "rd_id (rec\<lparr>rd_delivered := d\<rparr>) = rd_id rec" "rd_id (rec\<lparr>rd_wakes := d'\<rparr>) = rd_id rec"
    "rd_id (rec\<lparr>rd_delivered := d, rd_wakes := d'\<rparr>) = rd_id rec" for rec d d'
    by (simp_all add: rd_id_def)
  have sh: "same_but (rd_id rec) h (shared (rec\<lparr>rd_delivered := d, rd_wakes := d'\<rparr>) h)" for rec h d d'
    using same_but_shared [of "rec\<lparr>rd_delivered := d, rd_wakes := d'\<rparr>" h] by (simp only: id)
  show ?thesis
    by (auto simp: deliver_one_def Let_def id sh same_but_refl split: option.split prod.split)
qed

lemma deliver_history:
  assumes "deliver env w history rec = (res, pg)"
  shows "same_but (rd_id rec) history (pg_history pg)"
proof -
  have "same_but (rd_id (pg_rec pg)) (pg_history pg) (pg_history (fold (deliver_one env s t) rs pg))" for s t rs pg
  proof (induction rs arbitrary: pg)
    case (Cons r rs)
    have "same_but (rd_id (pg_rec pg)) (pg_history pg) (pg_history (deliver_one env s t r pg))"
      using deliver_one_history by blast
    moreover have "same_but (rd_id (pg_rec pg)) (pg_history (deliver_one env s t r pg))
        (pg_history (fold (deliver_one env s t) rs (deliver_one env s t r pg)))"
      using Cons.IH [of "deliver_one env s t r pg"] conjunct2 [OF deliver_one_history [of pg env s t r]] by simp
    ultimately show ?case by (simp add: same_but_trans)
  qed (simp add: same_but_refl)
  from this [of "\<lparr>pg_rec = rec\<lparr>rd_delivered := made (rd_delivered rec), rd_wakes := made (rd_wakes rec)\<rparr>,
      pg_history = history, pg_wakes = [], pg_errors = [], pg_all = True, pg_world = w\<rparr>"]
  show ?thesis using assms by (auto simp: deliver_def Let_def rd_id_def same_but_refl split: if_splits)
qed

section \<open>Recovery\<close>

definition disk_up :: "env \<Rightarrow> bool" where
  "disk_up env \<longleftrightarrow> (\<forall>k. en_disk env k = Synced)"

definition owed :: "outbox_record list \<Rightarrow> nat list \<Rightarrow> string set" where
  "owed records is = (\<lambda>i. rd_id (records ! i)) ` {i \<in> set is. \<not> rd_published (records ! i)}"

definition recovered :: "nat list \<Rightarrow> outbox_record list \<Rightarrow> world \<Rightarrow> world \<Rightarrow> bool" where
  "recovered is records w w' \<longleftrightarrow>
     (\<exists>cs. w_trace w' = w_trace w @ cs \<and> (\<forall>i\<in>set is. \<not> rd_published (records ! i) \<longrightarrow>
        (\<forall>n\<in>rc_subscriber ` set (rd_recipients (records ! i)). delivered (records ! i) n \<or> n \<in> set (published_to cs)))) \<and>
     (owed records is = {} \<and> w' = w \<or> sealed (w_journal w')) \<and>
     (sealed (w_journal w) \<longrightarrow>
       (\<forall>i\<in>set is. \<not> rd_published (records ! i) \<longrightarrow>
          (\<exists>r. latest (w_journal w') (rd_id (records ! i)) = Some r \<and> rd_published r)) \<and>
       (\<forall>k. k \<notin> owed records is \<longrightarrow> latest (w_journal w') k = latest (w_journal w) k))"

text \<open>Whatever the journal, recovery serves what is owed; where it ends in a complete line, the outcome of each is found
  in it afterwards. A cut line swallows the first outcome, and the journal is then whole.\<close>

lemma recover_from_runs:
  assumes "bus_up env" "disk_up env" "distinct is" "\<forall>i\<in>set is. i < length records" "distinct (map rd_id records)"
    and "\<forall>r\<in>set records. rd_id r \<noteq> []"
    and "recover_from env is records out w = ((out', err), w')"
  shows "err = None \<and> recovered is records w w'"
  using assms(3-)
proof (induction "is" arbitrary: records out w)
  case Nil
  then show ?case by (auto simp: recovered_def owed_def)
next
  case (Cons i "is")
  define rec where "rec = records ! i"
  show ?case
  proof (cases "rd_published rec")
    case True
    then have "recover_from env is records out w = ((out', err), w')"
      using Cons.prems(5) by (simp add: rec_def)
    from Cons.IH [OF _ _ Cons.prems(3,4) this] Cons.prems(1,2)
    have "err = None \<and> recovered is records w w'" by simp
    moreover have "owed records (i # is) = owed records is" using True by (auto simp: owed_def rec_def)
    ultimately show ?thesis using True by (simp add: recovered_def rec_def)
  next
    case False
    obtain res pg where d: "deliver env w records rec = (res, pg)" by fastforce
    obtain cs where cs: "deliver_ok rec w res pg cs" using deliver_runs [OF d] by blast
    note D = deliver_okD [OF cs]
    obtain ok w1 where a: "do_append env (pg_world pg) (pg_rec pg) = (ok, w1)" by fastforce
    note A = do_append_world [OF a]
    have ok: ok using A(4) assms(2) by (simp add: disk_up_def)
    have rest: "recover_from env is (pg_history pg) (out @ [res]) w1 = ((out', err), w')"
      using Cons.prems(5) False ok by (simp add: rec_def [symmetric] d a)
    have i: "i < length records" using Cons.prems(2) by simp
    have h: "same_but (rd_id rec) records (pg_history pg)" by (rule deliver_history [OF d])
    note ids = same_but_ids [OF h]
    have len: "length (pg_history pg) = length records" using ids by (metis length_map)
    have other: "rd_id (records ! k) \<noteq> rd_id rec" if "k \<in> set is" for k
    proof -
      have "k \<noteq> i" "k < length records" using that Cons.prems(1,2) by auto
      then show ?thesis using Cons.prems(3) i by (auto simp: rec_def distinct_conv_nth)
    qed
    have same: "pg_history pg ! k = records ! k" if "k \<in> set is" for k
      using same_but_nth [OF h _ other [OF that]] that Cons.prems(2) by simp
    have id: "rd_id (pg_rec pg) = rd_id rec" using D(4) by (simp add: rd_id_def)
    have named: "rd_id rec \<noteq> []" using Cons.prems(4) i by (simp add: rec_def)
    have w1: "w_journal w1 = add_line (w_journal w) (on_disk (pg_rec pg))" using A(3) [OF ok] D(2) by simp
    have s1: "sealed (w_journal w1)" by (rule A(5) [OF ok])
    have l1: "latest (w_journal w1) k = (if k = rd_id rec then Some (on_disk (pg_rec pg)) else latest (w_journal w) k)"
      if "sealed (w_journal w)" for k
      unfolding w1 using journal.find_add [OF that, of "on_disk (pg_rec pg)" k] id named by simp
    have idset: "\<forall>r\<in>set (pg_history pg). rd_id r \<noteq> []"
      using Cons.prems(4) ids by (metis (no_types, lifting) image_iff list.set_map)
    have bnd: "\<forall>k\<in>set is. k < length (pg_history pg)" using Cons.prems(2) len by simp
    have "err = None \<and> recovered is (pg_history pg) w1 w'"
      using Cons.IH [OF _ bnd _ idset rest] Cons.prems(1,3) ids by simp
    then obtain ds where r: "err = None" "sealed (w_journal w')" "w_trace w' = w_trace w1 @ ds"
      "\<forall>k\<in>set is. \<not> rd_published (pg_history pg ! k) \<longrightarrow>
        (\<forall>n\<in>rc_subscriber ` set (rd_recipients (pg_history pg ! k)). delivered (pg_history pg ! k) n \<or> n \<in> set (published_to ds))"
      "\<forall>k\<in>set is. \<not> rd_published (pg_history pg ! k) \<longrightarrow>
        (\<exists>r. latest (w_journal w') (rd_id (pg_history pg ! k)) = Some r \<and> rd_published r)"
      "\<forall>k. k \<notin> owed (pg_history pg) is \<longrightarrow> latest (w_journal w') k = latest (w_journal w1) k"
      using s1 unfolding recovered_def by blast
    have ow: "owed (pg_history pg) is = owed records is" using same unfolding owed_def by (intro image_cong) auto
    have "rd_id rec \<notin> owed records is"
    proof
      assume "rd_id rec \<in> owed records is"
      then obtain k where "k \<in> set is" "rd_id rec = rd_id (records ! k)" by (auto simp: owed_def)
      with other show False by metis
    qed
    then have here: "latest (w_journal w') (rd_id rec) = Some (on_disk (pg_rec pg))" if "sealed (w_journal w)"
      using r(6) l1 [OF that] by (simp add: ow)
    have pub: "rd_published (on_disk (pg_rec pg))" "\<forall>n\<in>rc_subscriber ` set (rd_recipients rec). delivered (pg_rec pg) n"
      using deliver_up [OF assms(1) d] by simp_all
    have tr: "w_trace w' = w_trace w @ (cs @ Journal (pg_rec pg) ok # ds)" using r(3) A(2) D(1) by simp
    have served: "\<forall>n\<in>rc_subscriber ` set (rd_recipients (records ! k)). delivered (records ! k) n \<or> n \<in> set (published_to (cs @ Journal (pg_rec pg) ok # ds))"
      if "k \<in> set (i # is)" "\<not> rd_published (records ! k)" for k
    proof (cases "k = i")
      case True
      then show ?thesis using pub D(5) by (auto simp: rec_def)
    next
      case False
      then have k: "k \<in> set is" using that(1) by simp
      from r(4) [THEN bspec, OF k] that(2) show ?thesis unfolding same [OF k] by auto
    qed
    have found: "\<exists>r. latest (w_journal w') (rd_id (records ! k)) = Some r \<and> rd_published r"
      if "k \<in> set (i # is)" "\<not> rd_published (records ! k)" "sealed (w_journal w)" for k
    proof (cases "k = i")
      case True
      then show ?thesis using here [OF that(3)] pub by (simp add: rec_def)
    next
      case False
      then have k: "k \<in> set is" using that(1) by simp
      from r(5) [THEN bspec, OF k] that(2) show ?thesis unfolding same [OF k] by blast
    qed
    have rest_same: "latest (w_journal w') k = latest (w_journal w) k" if "sealed (w_journal w)" "k \<notin> owed records (i # is)" for k
    proof -
      have "k \<noteq> rd_id rec" "k \<notin> owed records is" using that(2) False by (auto simp: owed_def rec_def)
      then show ?thesis using r(6) l1 [OF that(1)] by (simp add: ow)
    qed
    have "recovered (i # is) records w w'"
      unfolding recovered_def using tr r(2) served found rest_same by blast
    then show ?thesis using r(1) by simp
  qed
qed

end
