(* ===== verification/Act_Properties.thy ===== *)
theory Act_Properties
  imports Act_Delivery_Laws
begin

text \<open>
  The properties of the activity plane, with a sample event, environment and world at which the
  conditional ones are applied: \<open>agent\<close> reports the creation of \<open>o1\<close> and mentions \<open>bob\<close>, on a host
  with an empty outbox, no declared interests, and a bus and disk that answer.
\<close>

section \<open>Samples\<close>

definition sample_event :: event where
  "sample_event = no_event\<lparr>ev_source := ''mb'', ev_actor := ''agent'', ev_action := ''create'', ev_noun := ''post'',
     ev_object := ''o1'', ev_mentions := [''bob'']\<rparr>"

definition sample_env :: env where
  "sample_env = \<lparr>en_gate = None, en_readable = True, en_prune = True, en_now = (\<lambda>_. 5), en_disk = (\<lambda>_. Synced),
     en_inbox = (\<lambda>_. True), en_publish = (\<lambda>_. True), en_wake = (\<lambda>_. True), en_order = (\<lambda>rs. rs)\<rparr>"

definition sample_world :: world where
  "sample_world = \<lparr>w_journal = [], w_interests = NoFile, w_trace = []\<rparr>"

lemma sample_words: "trim_space ''agent'' = ''agent''" "trim_space ''post'' = ''post''" "trim_space ''o1'' = ''o1''"
  "trim_space ''bob'' = ''bob''"
  by (simp_all add: trim_space_word byte_def)

lemma sample_fields: "field_ok 64 ''agent''" "field_ok 96 ''post''" "field_ok 96 ''o1''" "field_ok 64 ''bob''"
  by (simp_all add: field_ok_def credentialPrefixes_def control_def byte_def has_prefix_def)

lemma sample_event_ok: "event_ok builtin_sources sample_event"
  by (simp add: event_ok_def sample_event_def no_event_def builtin_sources_def knownActions_def sample_words MaxHop_def
      event_fields_def event_lists_def sample_fields MaxActorBytes_def MaxFieldBytes_def MaxListLen_def)

lemma builtin_sources_ok: "sources_ok builtin_sources"
  by (simp add: sources_ok_def builtin_sources_def field_ok_def credentialPrefixes_def control_def byte_def
      has_prefix_def MaxFieldBytes_def)

lemma bob_apart: "\<not> equal_fold ''bob'' ''agent''"
  by (simp add: equal_fold_def ascii_lower_def byte_def)

definition sample_stamped :: event where
  "sample_stamped = sample_event\<lparr>ev_schema := SchemaVersion, ev_id := computeID sample_event, ev_at := 5, ev_seq := 1\<rparr>"

definition bob_told :: recipient where
  "bob_told = \<lparr>rc_subscriber = ''bob'', rc_reason = ''mention'', rc_why = ''mentioned in o1'', rc_wake = True\<rparr>"

definition sample_record :: outbox_record where
  "sample_record = \<lparr>rd_event = sample_stamped, rd_recipients = [bob_told], rd_delivered = None, rd_published = False,
     rd_wakes = Some [], rd_note = []\<rparr>"

lemma sample_route: "Route (\<lambda>rs. rs) sample_stamped [] = [bob_told]"
  by (simp add: Route_def sample_stamped_def sample_event_def no_event_def MaxHop_def offers_def offer_def by_name_def Let_def
     bob_told_def sample_words bob_apart wakeReasons_def)

lemma load_Nil: "load [] = []" by (simp add: load_def)

lemma sample_new: "new_record sample_env sample_world [] (sample_event\<lparr>ev_schema := SchemaVersion, ev_id := computeID sample_event\<rparr>) = sample_record"
proof -
  have e: "(sample_event\<lparr>ev_schema := SchemaVersion, ev_id := computeID sample_event\<rparr>)\<lparr>ev_at := 5, ev_seq := 1\<rparr> = sample_stamped"
    by (simp add: sample_stamped_def)
  show ?thesis
    using sample_route by (simp add: new_record_def sample_env_def sample_world_def nextSeq_def int64_def mustInterests_def loadInterests_def
      Let_def sample_record_def e)
qed

lemma sample_env_simps [simp]:
  "en_gate sample_env = None" "en_readable sample_env" "en_prune sample_env" "en_now sample_env k = 5"
  "en_disk sample_env k = Synced" "en_inbox sample_env k" "en_publish sample_env k" "en_wake sample_env k"
  by (simp_all add: sample_env_def)

lemma sample_world_simps [simp]: "w_journal sample_world = []" "w_interests sample_world = NoFile" "w_trace sample_world = []"
  by (simp_all add: sample_world_def)

definition sample_journaled :: world where
  "sample_journaled = \<lparr>w_journal = [Line (on_disk sample_record)], w_interests = NoFile, w_trace = [Journal sample_record True]\<rparr>"

lemma sample_append: "do_append sample_env sample_world sample_record = (True, sample_journaled)"
  by (simp add: do_append_def store_append_def append_line_def called_def sample_journaled_def)

lemma sample_emit: "Emit sample_env builtin_sources sample_event sample_world = finish_emit sample_env [] sample_record sample_journaled"
proof -
  have "validateEvent builtin_sources sample_event = None" by (simp add: validateEvent_None sample_event_ok)
  moreover have "ev_source sample_event \<noteq> SourceActivity" by (simp add: sample_event_def)
  ultimately show ?thesis
    by (simp add: Emit_def Let_def load_Nil findRecord_def sample_new sample_append)
qed

definition sample_done :: outbox_record where
  "sample_done = sample_record\<lparr>rd_delivered := Some [(''bob'', True)], rd_published := True, rd_wakes := Some [(''bob'', WakeSteered)]\<rparr>"

definition sample_calls :: "call list" where
  "sample_calls = [Journal sample_record True, Inbox ''bob'' True,
     Publish ''mb'' ''bob'' (Subject sample_stamped) ''activity.mb'' ''interrupt'' True,
     WakeCall ''bob'' (Subject sample_stamped) True, Journal sample_done True]"

lemma sample_fields_simps [simp]: "rd_event sample_record = sample_stamped" "rd_recipients sample_record = [bob_told]"
  "ev_source sample_stamped = ''mb''" "rd_delivered sample_record = None" "rd_wakes sample_record = Some []"
  "rc_subscriber bob_told = ''bob''" "rc_wake bob_told" "ev_id sample_stamped = computeID sample_event"
  by (simp_all add: sample_record_def sample_stamped_def sample_event_def no_event_def bob_told_def)

lemma sample_finish: "finish_emit sample_env [] sample_record sample_journaled =
  ((\<lparr>rs_event = sample_stamped, rs_recipients = [bob_told], rs_duplicate = False, rs_wakes = [(''bob'', WakeSteered)], rs_errors = []\<rparr>, None),
   \<lparr>w_journal = [Line (on_disk sample_record), Line (on_disk sample_done)], w_interests = NoFile, w_trace = sample_calls\<rparr>)"
  by (simp add: finish_emit_def deliver_def deliver_one_def Let_def TopicFor_def made_def mget_def mput_def priority_of_def
     wakeOutcome_def coalesces_def woken_count_def wake_cap_def mustInterests_def loadInterests_def DefaultMaxWakePerMin_def
     shared_def do_append_def store_append_def append_line_def prune_def MaxJournalRecords_def sample_calls_def
     sample_journaled_def called_def) (simp add: sample_done_def sample_record_def)

section \<open>Delivery\<close>

lemma computeID_length: "length (computeID e) = 20"
  by (simp add: computeID_def)

lemma computeID_ne: "computeID e \<noteq> []"
  using computeID_length [of e] by auto

text \<open>How an \<open>Emit\<close> that is not refused proceeds.\<close>

lemma Emit_cases:
  assumes "Emit env srcs e w = ((res, None), w')"
  obtains (duplicate) prior where "latest (w_journal w) (computeID e) = Some prior" "rd_published prior" "w' = w"
      "res = \<lparr>rs_event = rd_event prior, rs_recipients = rd_recipients prior, rs_duplicate = True,
             rs_wakes = (case rd_wakes prior of None \<Rightarrow> [] | Some m \<Rightarrow> m), rs_errors = []\<rparr>"
    | (resumed) prior where "latest (w_journal w) (computeID e) = Some prior" "\<not> rd_published prior"
      "finish_emit env (load (w_journal w)) prior w = ((res, None), w')"
    | (fresh) rec w1 where "latest (w_journal w) (computeID e) = None"
      "rec = new_record env w (load (w_journal w)) (e\<lparr>ev_schema := SchemaVersion, ev_id := computeID e\<rparr>)"
      "do_append env w rec = (True, w1)" "finish_emit env (load (w_journal w)) rec w1 = ((res, None), w')"
proof -
  show ?thesis
    using assms that
    by (auto simp: Emit_def find_load Let_def split: if_splits option.splits prod.splits)
qed

lemma Emit_accepted:
  "Emit env srcs e w = ((res, None), w') \<Longrightarrow> ev_source e \<noteq> SourceActivity \<and> validateEvent srcs e = None"
  by (auto simp: Emit_def split: if_splits option.splits)

lemma finish_emit_published:
  assumes f: "finish_emit env records rec w = ((res, None), w')" and clean: "rs_errors res = []"
    and j: "sealed (w_journal w)" "rd_id rec \<noteq> []"
  shows "sealed (w_journal w') \<and> (\<exists>r. latest (w_journal w') (rd_id rec) = Some r \<and> rd_published r \<and>
     rd_event r = rd_event rec \<and> rd_recipients r = rd_recipients rec)"
proof -
  obtain cs res0 pg ok where r: "deliver_ok rec w res0 pg cs" "set (rs_errors res0) \<subseteq> set (rs_errors res)"
      "deliver env w records rec = (res0, pg)"
      "sealed (w_journal w') \<and> latest (w_journal w') (rd_id rec) = Some (on_disk (pg_rec pg))"
    using finish_emit_runs [OF f] j by blast
  have "rd_published (pg_rec pg)" using deliver_errors [OF r(3)] r(2) clean by simp
  then show ?thesis using r(4) deliver_okD(4) [OF r(1)] by simp
qed

lemma Emit_recorded:
  assumes "Emit env srcs e w = ((res, None), w')" and "rs_errors res = []"
    and "sealed (w_journal w) \<or> (\<forall>prior. latest (w_journal w) (computeID e) = Some prior \<longrightarrow> rd_published prior)"
  shows "\<exists>r. latest (w_journal w') (computeID e) = Some r \<and> rd_published r"
  using assms(1)
proof (cases rule: Emit_cases)
  case (resumed prior)
  moreover from resumed assms(3) have "sealed (w_journal w)" by blast
  ultimately show ?thesis
    using finish_emit_published [OF resumed(3) assms(2)] latest_id [OF resumed(1)] by auto
next
  case (fresh rec w1)
  have id: "rd_id rec = computeID e" by (simp add: fresh(2) new_record_def Let_def rd_id_def)
  have "sealed (w_journal w1)" using do_append_world(5) [OF fresh(3)] by simp
  from finish_emit_published [OF fresh(4) assms(2) this] show ?thesis by (auto simp: id computeID_ne)
qed auto

text \<open>C3. \<open>Emit\<close> is idempotent: after an emit without errors, emitting the same event again, under any
  clock, bus, disk and interests, delivers nothing, writes nothing and reports a duplicate. This holds for
  every journal that ends in a complete line, and after a write cut short for every event that the journal does
  not hold as owed. It does not hold in the case left out, an owed event in a journal with a cut last line:
  the outcome is joined to the fragment, and the next emit publishes again (\<open>Emit_again_after_cut_line\<close>).\<close>

theorem Emit_idempotent:
  assumes "Emit env srcs e w = ((res, None), w')" and "rs_errors res = []"
    and "sealed (w_journal w) \<or> (\<forall>prior. latest (w_journal w) (computeID e) = Some prior \<longrightarrow> rd_published prior)"
    and "en_gate env' = None" and "en_readable env'"
  shows "\<exists>res'. Emit env' srcs e w' = ((res', None), w') \<and> rs_duplicate res'"
proof -
  obtain r where r: "latest (w_journal w') (computeID e) = Some r" "rd_published r"
    using Emit_recorded [OF assms(1-3)] by blast
  then show ?thesis using Emit_accepted [OF assms(1)] assms(4,5)
    by (simp add: Emit_def find_load Let_def)
qed

lemma sample_sealed: "sealed (w_journal sample_world)"
  by (simp add: sealed_def)

definition sample_after :: world where
  "sample_after = \<lparr>w_journal = [Line (on_disk sample_record), Line (on_disk sample_done)], w_interests = NoFile, w_trace = sample_calls\<rparr>"

lemma Emit_idempotent_witness:
  "\<exists>res'. Emit (sample_env\<lparr>en_publish := (\<lambda>_. False)\<rparr>) builtin_sources sample_event sample_after = ((res', None), sample_after) \<and> rs_duplicate res'"
proof -
  let ?env = "sample_env\<lparr>en_publish := (\<lambda>_. False)\<rparr>"
  have "en_gate ?env = None" "en_readable ?env" by (simp_all add: sample_env_def)
  from Emit_idempotent [OF _ _ disjI1 [OF sample_sealed] this, of sample_env builtin_sources sample_event] show ?thesis
    by (simp add: sample_emit sample_finish sample_after_def)
qed

text \<open>C5. A new event is written to the journal, unpublished and with its recipients, before the first call to the
  bus, and the second journal write comes after the last. The journal between the two writes is what a
  crash leaves: it holds the record as owed exactly when the journal ended in a complete line before the emit.
  After a write cut short the record is joined to the fragment, and the event is published without evidence.
  The record written shows none of the deliveries made in between, so that recovery repeats them.\<close>

theorem Emit_crash_evidence:
  assumes "Emit env srcs e w = ((res, None), w')"
    and "latest (w_journal w) (computeID e) = None"
  shows "\<exists>rec cs rec' ok. w_trace w' = w_trace w @ Journal rec True # cs @ [Journal rec' ok] \<and>
     rd_id rec = computeID e \<and> \<not> rd_published rec \<and>
     set (published_to cs) \<subseteq> rc_subscriber ` set (rd_recipients rec) \<and>
     services (ev_source (rd_event rec)) (Subject (rd_event rec)) (TopicFor (ev_source (rd_event rec)))
       (map rc_subscriber (rd_recipients rec)) cs \<and>
     (latest (add_line (w_journal w) (on_disk rec)) (computeID e) = Some (on_disk rec) \<longleftrightarrow> sealed (w_journal w)) \<and>
     (\<forall>n. \<not> delivered (on_disk rec) n)"
  using assms(1)
proof (cases rule: Emit_cases)
  case (fresh rec w1)
  have id: "rd_id rec = computeID e" by (simp add: fresh(2) new_record_def Let_def rd_id_def)
  have pub: "\<not> rd_published rec" "\<not> delivered rec n" for n
    by (simp_all add: fresh(2) new_record_def Let_def delivered_def mget_def)
  have w1: "w_trace w1 = w_trace w @ [Journal rec True]" by (rule do_append_world(2) [OF fresh(3)])
  obtain cs res0 pg ok where r: "deliver_ok rec w1 res0 pg cs" "w_trace w' = w_trace w1 @ cs @ [Journal (pg_rec pg) ok]"
    using finish_emit_runs [OF fresh(4)] by blast
  have "latest (add_line (w_journal w) (on_disk rec)) (computeID e) = Some (on_disk rec) \<longleftrightarrow> sealed (w_journal w)"
    using latest_add_fresh [of "w_journal w" "on_disk rec"] assms(2) by (simp add: id computeID_ne)
  moreover have "delivered (on_disk rec) n \<longleftrightarrow> delivered rec n" for n by (simp add: delivered_def)
  moreover have "set (published_to cs) \<subseteq> rc_subscriber ` set (rd_recipients rec)" using deliver_okD(7) [OF r(1)] by blast
  ultimately show ?thesis using r(2) w1 id pub deliver_okD(3) [OF r(1)] by auto
qed (use assms(2) in simp_all)

lemma Emit_crash_evidence_witness:
  "\<exists>rec cs rec' ok. sample_calls = Journal rec True # cs @ [Journal rec' ok] \<and> rd_id rec = computeID sample_event \<and>
     \<not> rd_published rec \<and> (\<forall>n. \<not> delivered (on_disk rec) n)"
proof -
  have "latest (w_journal sample_world) (computeID sample_event) = None" by simp
  from Emit_crash_evidence [OF sample_emit [unfolded sample_finish] this] show ?thesis by auto
qed

text \<open>C10. A wake is always downstream of the durable append: in whatever an emit does, each wake of a
  recipient comes directly after ensuring its inbox and publishing the same subject to it.\<close>

theorem wake_after_publish:
  assumes "Emit env srcs e w = ((res, None), w')" and "w_trace w' = w_trace w @ xs @ WakeCall n s ok # ys"
  shows "\<exists>zs src t pr. xs = zs @ [Inbox n True, Publish src n s t pr True]"
proof -
  have tail: "\<exists>zs src t pr. xs = zs @ [Inbox n True, Publish src n s t pr True]"
    if f: "finish_emit env records rec w1 = ((res, None), w')" and js: "w_trace w1 = w_trace w @ js" "js = [] \<or> (\<exists>r. js = [Journal r True])"
    for records rec w1 js
  proof -
    obtain cs res0 pg ok' where r: "deliver_ok rec w1 res0 pg cs" "w_trace w' = w_trace w1 @ cs @ [Journal (pg_rec pg) ok']"
      using finish_emit_runs [OF f] by blast
    have eq: "xs @ WakeCall n s ok # ys = js @ cs @ [Journal (pg_rec pg) ok']" using assms(2) r(2) js(1) by simp
    obtain us vs where "cs = us @ WakeCall n s ok # vs" "xs = js @ us"
    proof -
      have "WakeCall n s ok \<notin> set js" "WakeCall n s ok \<noteq> Journal (pg_rec pg) ok'" using js(2) by auto
      then have a: "\<exists>us. xs = js @ us \<and> us @ WakeCall n s ok # ys = cs @ [Journal (pg_rec pg) ok']"
        using eq by (auto simp: append_eq_append_conv2 append_eq_Cons_conv Cons_eq_append_conv)
      then obtain us where us: "xs = js @ us" "us @ WakeCall n s ok # ys = cs @ [Journal (pg_rec pg) ok']" by blast
      then have "ys \<noteq> []" by (metis \<open>WakeCall n s ok \<noteq> Journal (pg_rec pg) ok'\<close> append1_eq_conv)
      then have "us @ WakeCall n s ok # butlast ys = cs"
        using us(2) by (metis append_Cons append_assoc append_butlast_last_id butlast_snoc)
      with us(1) that show thesis by blast
    qed
    with services_wake [OF deliver_okD(3) [OF r(1)]] show ?thesis by (metis append_assoc)
  qed
  from assms(1) show ?thesis
  proof (cases rule: Emit_cases)
    case (duplicate prior)
    then show ?thesis using assms(2) by simp
  next
    case (resumed prior)
    from tail [OF resumed(3), of "[]"] show ?thesis by simp
  next
    case (fresh rec w1)
    from tail [OF fresh(4) do_append_world(2) [OF fresh(3)]] show ?thesis by simp
  qed
qed

lemma wake_after_publish_witness:
  "\<exists>zs src t pr. [Journal sample_record True, Inbox ''bob'' True,
     Publish ''mb'' ''bob'' (Subject sample_stamped) ''activity.mb'' ''interrupt'' True] =
     zs @ [Inbox ''bob'' True, Publish src ''bob'' (Subject sample_stamped) t pr True]"
proof -
  have "w_trace sample_after = w_trace sample_world @ [Journal sample_record True, Inbox ''bob'' True,
     Publish ''mb'' ''bob'' (Subject sample_stamped) ''activity.mb'' ''interrupt'' True] @
     WakeCall ''bob'' (Subject sample_stamped) True # [Journal sample_done True]"
    by (simp add: sample_after_def sample_calls_def)
  from wake_after_publish [OF sample_emit [unfolded sample_finish, folded sample_after_def] this] show ?thesis .
qed

lemma Recover_runs:
  assumes "bus_up env" and "disk_up env" and "en_gate env = None" and "en_readable env"
  obtains out w' where "Recover env w = ((out, None), w')"
    "recovered [0..<length (load (w_journal w))] (load (w_journal w)) w w'"
proof -
  let ?rs = "load (w_journal w)"
  obtain out err w' where run: "recover_from env [0..<length ?rs] ?rs [] w = ((out, err), w')" by (metis prod.collapse)
  have named: "\<forall>r\<in>set ?rs. rd_id r \<noteq> []" using load_member latest_id by blast
  have "err = None \<and> recovered [0..<length ?rs] ?rs w w'"
    by (rule recover_from_runs [OF assms(1,2) _ _ load_distinct named run]) simp_all
  with run assms(3,4) that [of out w'] show thesis by (simp add: Recover_def)
qed

lemma recovered_served:
  assumes "recovered [0..<length rs] rs w w'"
  shows "\<exists>cs. w_trace w' = w_trace w @ cs \<and> (\<forall>r\<in>set rs. \<not> rd_published r \<longrightarrow>
     (\<forall>n\<in>rc_subscriber ` set (rd_recipients r). delivered r n \<or> n \<in> set (published_to cs)))"
proof -
  obtain cs where c: "w_trace w' = w_trace w @ cs" "\<forall>i\<in>set [0..<length rs]. \<not> rd_published (rs ! i) \<longrightarrow>
        (\<forall>n\<in>rc_subscriber ` set (rd_recipients (rs ! i)). delivered (rs ! i) n \<or> n \<in> set (published_to cs))"
    using assms unfolding recovered_def by blast
  have "\<forall>n\<in>rc_subscriber ` set (rd_recipients r). delivered r n \<or> n \<in> set (published_to cs)" if q: "r \<in> set rs" "\<not> rd_published r" for r
  proof -
    obtain i where "i < length rs" "r = rs ! i" using q(1) by (auto simp: in_set_conv_nth)
    with c(2) q(2) show ?thesis by simp
  qed
  with c(1) show ?thesis by blast
qed

lemma recovered_published:
  assumes r: "recovered [0..<length (load (w_journal w))] (load (w_journal w)) w w'" and s: "sealed (w_journal w)"
    and m: "q \<in> set (load (w_journal w'))"
  shows "rd_published q"
proof (rule ccontr)
  let ?rs = "load (w_journal w)"
  assume np: "\<not> rd_published q"
  have l: "latest (w_journal w') (rd_id q) = Some q" using m load_member by blast
  have found: "\<exists>r. latest (w_journal w') (rd_id (?rs ! i)) = Some r \<and> rd_published r" if "i < length ?rs" "\<not> rd_published (?rs ! i)" for i
    using r s that by (simp add: recovered_def)
  have "rd_id q \<notin> owed ?rs [0..<length ?rs]" using found l np by (fastforce simp: owed_def)
  moreover from this have "latest (w_journal w) (rd_id q) = Some q" using r s l by (simp add: recovered_def)
  then obtain i where "i < length ?rs" "q = ?rs ! i" using load_member by (metis in_set_conv_nth)
  ultimately show False using np by (auto simp: owed_def)
qed

lemma recovered_nothing_owed:
  "recovered [0..<length rs] rs w w' \<Longrightarrow> sealed (w_journal w') \<or> w' = w \<and> (\<forall>r\<in>set rs. rd_published r)"
  by (fastforce simp: recovered_def owed_def in_set_conv_nth)


text \<open>A journal that holds the sample record as owed, and after it the fragment of a write cut short.\<close>

definition sample_cut :: world where
  "sample_cut = \<lparr>w_journal = [Line (on_disk sample_record), Partial None], w_interests = NoFile, w_trace = []\<rparr>"

lemma sample_cut_load: "load (w_journal sample_cut) = [on_disk sample_record]"
  "load [Line (on_disk sample_record), Torn] = [on_disk sample_record]"
  by (simp_all add: sample_cut_def load_def fold_line_def line_record_def rd_id_def computeID_ne)


definition sample_calls_again :: "call list" where
  "sample_calls_again = [Inbox ''bob'' True, Publish ''mb'' ''bob'' (Subject sample_stamped) ''activity.mb'' ''interrupt'' True,
     WakeCall ''bob'' (Subject sample_stamped) True]"

definition sample_told :: result where
  "sample_told = \<lparr>rs_event = sample_stamped, rs_recipients = [bob_told], rs_duplicate = False, rs_wakes = [(''bob'', WakeSteered)], rs_errors = []\<rparr>"

lemma sample_redelivered:
  assumes "w_interests w = NoFile"
  shows "deliver sample_env w [on_disk sample_record] (on_disk sample_record) = (sample_told,
    \<lparr>pg_rec = sample_done, pg_history = [on_disk sample_record], pg_wakes = [(''bob'', WakeSteered)], pg_errors = [], pg_all = True,
     pg_world = w\<lparr>w_trace := w_trace w @ sample_calls_again\<rparr>\<rparr>)"
  by (simp add: assms deliver_def deliver_one_def Let_def TopicFor_def made_def mget_def mput_def priority_of_def
     wakeOutcome_def coalesces_def woken_count_def woken_within_def wake_cap_def mustInterests_def loadInterests_def DefaultMaxWakePerMin_def
     shared_def on_disk_def omitempty_def rd_id_def called_def sample_told_def sample_calls_again_def)
     (simp add: sample_done_def sample_record_def)

text \<open>The journal after it: the outcome ran into the fragment.\<close>

definition sample_joined :: world where
  "sample_joined = \<lparr>w_journal = [Line (on_disk sample_record), Torn], w_interests = NoFile, w_trace = sample_calls_again @ [Journal sample_done True]\<rparr>"

lemma sample_joined_load: "load (w_journal sample_joined) = [on_disk sample_record]"
  by (simp add: sample_joined_def sample_cut_load)

lemma sample_unpublished: "\<not> rd_published sample_record" "rd_id sample_record = computeID sample_event"
  by (simp add: sample_record_def) (simp add: rd_id_def)

lemma sample_cut_append: "do_append sample_env (sample_cut\<lparr>w_trace := sample_calls_again\<rparr>) sample_done = (True, sample_joined)"
  by (simp add: do_append_def store_append_def append_line_def called_def sample_cut_def sample_joined_def)

lemma Recover_after_cut_line:
  "bus_up sample_env \<and> disk_up sample_env \<and> Recover sample_env sample_cut = (([sample_told], None), sample_joined) \<and>
   (\<exists>r\<in>set (load (w_journal sample_joined)). \<not> rd_published r)"
proof -
  have c: "w_interests sample_cut = NoFile" "w_trace sample_cut = []" by (simp_all add: sample_cut_def)
  have "Recover sample_env sample_cut = (([sample_told], None), sample_joined)"
    by (simp add: Recover_def Let_def sample_cut_load sample_unpublished sample_redelivered [OF c(1)] c(2) sample_cut_append)
  then show ?thesis by (simp add: bus_up_def disk_up_def sample_joined_load sample_unpublished)
qed

lemma Emit_owed:
  assumes "load (w_journal w) = [on_disk sample_record]"
  shows "Emit sample_env builtin_sources sample_event w = finish_emit sample_env [on_disk sample_record] (on_disk sample_record) w"
proof -
  have "validateEvent builtin_sources sample_event = None" by (simp add: validateEvent_None sample_event_ok)
  moreover have "ev_source sample_event \<noteq> SourceActivity" by (simp add: sample_event_def)
  ultimately show ?thesis by (simp add: Emit_def Let_def assms findRecord_def sample_unpublished)
qed

lemma Emit_again_after_cut_line:
  "Emit sample_env builtin_sources sample_event sample_cut = ((sample_told, None), sample_joined) \<and> rs_errors sample_told = [] \<and>
   (\<exists>w'. Emit sample_env builtin_sources sample_event sample_joined = ((sample_told, None), w') \<and> \<not> rs_duplicate sample_told \<and>
     published_to (w_trace w') = [''bob'', ''bob''])"
proof -
  have c: "w_interests sample_cut = NoFile" "w_trace sample_cut = []" "w_interests sample_joined = NoFile"
    by (simp_all add: sample_cut_def sample_joined_def)
  have 1: "Emit sample_env builtin_sources sample_event sample_cut = ((sample_told, None), sample_joined)"
    by (simp add: Emit_owed [OF sample_cut_load(1)] finish_emit_def sample_redelivered [OF c(1)] c(2) sample_cut_append prune_def MaxJournalRecords_def Let_def)
  obtain ok w1 where a: "do_append sample_env (sample_joined\<lparr>w_trace := w_trace sample_joined @ sample_calls_again\<rparr>) sample_done = (ok, w1)"
    by fastforce
  have w1: "ok" "w_trace w1 = w_trace sample_joined @ sample_calls_again @ [Journal sample_done ok]"
    using do_append_world(2,4) [OF a] by simp_all
  then have "Emit sample_env builtin_sources sample_event sample_joined = ((sample_told, None), w1)"
    by (simp add: Emit_owed [OF sample_joined_load] finish_emit_def sample_redelivered [OF c(3)] a prune_def MaxJournalRecords_def Let_def)
  moreover have "published_to (w_trace w1) = [''bob'', ''bob'']"
    unfolding w1(2) by (simp add: sample_joined_def sample_calls_again_def)
  ultimately have "\<exists>w'. Emit sample_env builtin_sources sample_event sample_joined = ((sample_told, None), w') \<and> published_to (w_trace w') = [''bob'', ''bob'']"
    by blast
  with 1 show ?thesis by (simp add: sample_told_def)
qed

text \<open>C23. Each delivery is accounted for: a delivery publishes to a recipient at most once and never to
  one already served; afterwards a name is recorded as delivered exactly when it was before or has
  now been published to; and the record is published, with no error reported, exactly when every
  recipient is served.\<close>

theorem deliver_accounting:
  assumes "deliver env w history rec = (res, pg)" and "distinct (map rc_subscriber (rd_recipients rec))"
  shows "\<exists>cs. w_trace (pg_world pg) = w_trace w @ cs \<and> distinct (published_to cs) \<and>
     (\<forall>n\<in>set (published_to cs). n \<in> rc_subscriber ` set (rd_recipients rec) \<and> \<not> delivered rec n) \<and>
     (\<forall>n. delivered (pg_rec pg) n \<longleftrightarrow> delivered rec n \<or> n \<in> set (published_to cs)) \<and>
     (rd_published (pg_rec pg) \<longleftrightarrow> (\<forall>n\<in>rc_subscriber ` set (rd_recipients rec). delivered (pg_rec pg) n)) \<and>
     (rd_published (pg_rec pg) \<longleftrightarrow> rs_errors res = [])"
proof -
  obtain cs where cs: "deliver_ok rec w res pg cs" using deliver_runs [OF assms(1)] by blast
  note D = deliver_okD [OF cs]
  show ?thesis
    by (intro exI [of _ cs] conjI allI ballI) (use D assms(2) deliver_errors [OF assms(1)] in blast)+
qed

lemma deliver_accounting_witness:
  "\<exists>cs. w_trace (pg_world (snd (deliver sample_env sample_journaled [] sample_record))) = w_trace sample_journaled @ cs \<and>
     distinct (published_to cs)"
proof -
  obtain res pg where "deliver sample_env sample_journaled [] sample_record = (res, pg)" by fastforce
  moreover have "distinct (map rc_subscriber (rd_recipients sample_record))" by simp
  ultimately show ?thesis using deliver_accounting [of sample_env sample_journaled "[]" sample_record] by fastforce
qed

section \<open>Routing\<close>

text \<open>C18. \<open>Route\<close> tells exactly the names for which some offer stands, each once, for the strongest of its
  standing reasons, waking it only where that reason and its interest allow; strongest reasons
  come first, then names in order; and Go's map order does not matter.\<close>

theorem Route_correct:
  assumes "\<And>xs. mset (ord xs) = mset xs" and "\<And>xs. mset (ord' xs) = mset xs" and "routable e"
  shows "(\<forall>name. (\<exists>r\<in>set (Route ord e ints). rc_subscriber r = name) \<longleftrightarrow> reasons_for e ints name \<noteq> {}) \<and>
     (\<forall>r\<in>set (Route ord e ints). rc_reason r \<in> reasons_for e ints (rc_subscriber r) \<and>
        (\<forall>q\<in>reasons_for e ints (rc_subscriber r). reasonRank (rc_reason r) \<le> reasonRank q) \<and>
        rc_wake r = may_wake ints (rc_subscriber r) (rc_reason r)) \<and>
     distinct (map rc_subscriber (Route ord e ints)) \<and>
     sorted (map (\<lambda>r. (reasonRank (rc_reason r), rc_subscriber r)) (Route ord e ints)) \<and>
     Route ord' e ints = Route ord e ints"
proof (intro conjI allI ballI)
  have rec: "rc_reason r \<in> reasons_for e ints (rc_subscriber r) \<and>
        (\<forall>q\<in>reasons_for e ints (rc_subscriber r). reasonRank (rc_reason r) \<le> reasonRank q) \<and>
        rc_wake r = may_wake ints (rc_subscriber r) (rc_reason r)" if "r \<in> set (Route ord e ints)" for r
    using Route_recipient [OF assms(1,3) that] by (simp add: best_for_def)
  show "(\<exists>r\<in>set (Route ord e ints). rc_subscriber r = name) \<longleftrightarrow> reasons_for e ints name \<noteq> {}" for name
    using rec Route_complete [OF assms(1,3)] by blast
  show "rc_reason r \<in> reasons_for e ints (rc_subscriber r)"
    and "rc_wake r = may_wake ints (rc_subscriber r) (rc_reason r)" if "r \<in> set (Route ord e ints)" for r
    using rec [OF that] by blast+
  show "reasonRank (rc_reason r) \<le> reasonRank q" if "r \<in> set (Route ord e ints)" "q \<in> reasons_for e ints (rc_subscriber r)" for r q
    using rec [OF that(1)] that(2) by blast
  show "distinct (map rc_subscriber (Route ord e ints))" by (rule Route_distinct [OF assms(1)])
  show "sorted (map (\<lambda>r. (reasonRank (rc_reason r), rc_subscriber r)) (Route ord e ints))" by (simp add: Route_def)
  show "Route ord' e ints = Route ord e ints" by (rule Route_ord [OF assms(2,1)])
qed

lemma Route_correct_witness: "Route rev sample_stamped [] = Route (\<lambda>rs. rs) sample_stamped [] \<and> reasons_for sample_stamped [] ''bob'' \<noteq> {}"
proof -
  have "mset (rev xs) = mset xs" for xs :: "recipient list" by simp
  moreover have "routable sample_stamped" by (simp add: routable_def sample_stamped_def sample_event_def no_event_def MaxHop_def)
  ultimately show ?thesis
    using Route_correct [of "\<lambda>rs. rs" rev sample_stamped "[]"] sample_route by auto
qed

text \<open>Routing never echoes an event to its actor, never reaches a muted interest of the same name, and
  a read event reaches only a declared interest that asked for reads, never through membership.
  Nothing routes from the reserved source or at the hop limit.\<close>

theorem Route_guards:
  assumes "\<And>xs. mset (ord xs) = mset xs" and "r \<in> set (Route ord e ints)"
  shows "routable e \<and> rc_subscriber r \<noteq> [] \<and> \<not> equal_fold (rc_subscriber r) (trim_space (ev_actor e)) \<and>
     (\<forall>i. map_of (by_name ints) (rc_subscriber r) = Some i \<longrightarrow> \<not> in_mute i \<and> admits i e) \<and>
     (ev_action e = ActionRead \<longrightarrow> rc_reason r \<noteq> ''membership'' \<and>
        (\<exists>i. map_of (by_name ints) (rc_subscriber r) = Some i \<and> (in_audit i \<or> stringIn (in_actions i) ActionRead)))"
proof -
  have ro: "routable e" using assms(2) by (auto simp: Route_def routable_def split: if_splits)
  then have "rc_reason r \<in> reasons_for e ints (rc_subscriber r)"
    using Route_recipient [OF assms(1) ro assms(2)] by (simp add: best_for_def)
  then have "stands e ints (rc_subscriber r) (rc_reason r)" by (auto simp: reasons_for_def standing_def)
  with ro show ?thesis by (auto simp: stands_def split: option.splits)
qed

lemma Route_guards_witness: "\<not> equal_fold ''bob'' (trim_space (ev_actor sample_stamped))"
  using Route_guards [of "\<lambda>rs. rs" bob_told sample_stamped "[]"] sample_route by simp

section \<open>The envelope\<close>

text \<open>\<open>Event.Validate\<close> returns nil exactly when source, action and status are known, actor, noun and
  object are present, the hop count is in range, and every field and list respects its limits,
  with no control character and no credential prefix.\<close>

theorem Event_Validate_correct: "validateEvent srcs e = None \<longleftrightarrow> event_ok srcs e"
  by (rule validateEvent_None)

text \<open>The envelope cannot carry a body: whatever sources have been registered, an event that validates
  holds at most 10221 bytes in all its strings together, each at most 96 bytes and free of control
  characters.\<close>

theorem envelope_bounded:
  assumes "sources_ok srcs" and "RegisterSource srcs name = Inr srcs'" and "validateEvent srcs' e = None"
  shows "envelope_bytes e \<le> 10221 \<and> (\<forall>v\<in>envelope_strings e. length v \<le> MaxFieldBytes \<and> (\<forall>c\<in>set v. \<not> control c))"
proof -
  have s: "sources_ok srcs'" using assms(1,2) by (rule sources_ok_register)
  have ok: "event_ok srcs' e" using assms(3) by (simp add: validateEvent_None)
  have "length (ev_source e) \<le> 96" using s ok by (auto simp: sources_ok_def event_ok_def field_ok_def MaxFieldBytes_def)
  moreover have "length (ev_action e) \<le> 6" using ok by (auto simp: event_ok_def knownActions_def)
  moreover have "length (ev_status e) \<le> 7" using ok by (auto simp: event_ok_def knownStatus_def)
  ultimately have "envelope_bytes e \<le> 10221"
    using event_ok_fields [OF ok] event_ok_lists(1-4) [OF ok]
    by (simp add: envelope_bytes_def list_bytes_def id_fields_def field_ok_def MaxActorBytes_def MaxFieldBytes_def)
  with envelope_strings_ok [OF s ok] show ?thesis by blast
qed

lemma envelope_bounded_witness: "envelope_bytes sample_event \<le> 10221"
proof -
  have "RegisterSource builtin_sources ''post'' = Inr (List.insert ''post'' builtin_sources)"
    by (simp add: RegisterSource_Inr sample_words sample_fields MaxFieldBytes_def)
  moreover have "validateEvent (List.insert ''post'' builtin_sources) sample_event = None"
    using sample_event_ok by (simp add: validateEvent_None event_ok_def)
  ultimately show ?thesis using envelope_bounded [OF builtin_sources_ok] by blast
qed

text \<open>The identity hashes what the documentation says it hashes, unambiguously: two valid events have
  the same preimage exactly when they agree on source, actor, action, noun, object, scope and
  token, whatever their times and sequence numbers.\<close>

theorem identity_preimage:
  assumes "sources_ok srcs" and "validateEvent srcs a = None" and "validateEvent srcs b = None"
  shows "id_preimage a = id_preimage b \<longleftrightarrow>
     ev_source a = ev_source b \<and> ev_actor a = ev_actor b \<and> ev_action a = ev_action b \<and> ev_noun a = ev_noun b \<and>
     ev_object a = ev_object b \<and> ev_scope a = ev_scope b \<and> ev_token a = ev_token b"
proof -
  have ok: "event_ok srcs a" "event_ok srcs b" using assms(2,3) by (simp_all add: validateEvent_None)
  have "id_preimage a = id_preimage b \<longleftrightarrow> id_fields a = id_fields b"
    unfolding id_preimage_def
    by (rule concat_nul_inject) (use id_fields_nul [OF assms(1) ok(1)] id_fields_nul [OF assms(1) ok(2)] in \<open>auto simp: id_fields_def\<close>)
  also have "\<dots> \<longleftrightarrow> ev_source a = ev_source b \<and> ev_actor a = ev_actor b \<and> ev_action a = ev_action b \<and> ev_noun a = ev_noun b \<and>
     ev_object a = ev_object b \<and> ev_scope a = ev_scope b \<and> ev_token a = ev_token b"
    by (cases "ev_scope a"; cases "ev_scope b") (auto simp: id_fields_def)
  finally show ?thesis .
qed

lemma identity_preimage_witness: "id_preimage sample_event = id_preimage (sample_event\<lparr>ev_seq := 9\<rparr>)"
proof -
  have "event_ok builtin_sources (sample_event\<lparr>ev_seq := 9\<rparr>)"
    using sample_event_ok by (simp add: event_ok_def event_fields_def event_lists_def)
  then show ?thesis
    using identity_preimage [OF builtin_sources_ok, of sample_event "sample_event\<lparr>ev_seq := 9\<rparr>"] sample_event_ok
    by (simp add: validateEvent_None)
qed

text \<open>The rendered subject starts with source, action, noun and object and ends with the identity; it
  shows as many scope fields as fit, dropping room, topic, sprint and repository in that order, and
  is longer than 256 bytes only when the line without any scope already is.\<close>

theorem Subject_shape:
  "\<exists>k mid. Subject e = subject_head e @ mid @ '' id='' @ ev_id e \<and> k \<le> 4 \<and> Subject e = subject_line e k \<and>
     (\<forall>j<k. MaxSubjectBytes < length (subject_line e j)) \<and>
     length (Subject e) \<le> max MaxSubjectBytes (length (subject_head e @ '' id='' @ ev_id e))"
proof -
  obtain k where k: "k \<le> 4" "subject_from e 0 = subject_line e k" "\<forall>j. 0 \<le> j \<and> j < k \<longrightarrow> MaxSubjectBytes < length (subject_line e j)"
    "length (subject_line e k) \<le> MaxSubjectBytes \<or> k = 4"
    using subject_from_char [of 0 e] by auto
  obtain mid where "subject_line e k = subject_head e @ mid @ '' id='' @ ev_id e"
    by (simp add: subject_line_def Let_def)
  with k show ?thesis using subject_line_last [of e] by (intro exI [of _ k] exI [of _ mid]) (auto simp: Subject_def)
qed

theorem Subject_shape_witness: "\<exists>k. k \<le> 4 \<and> Subject sample_event = subject_line sample_event k"
  by (insert Subject_shape [of sample_event], elim exE conjE, rule exI, rule conjI)

section \<open>The outbox\<close>

text \<open>Reading the journal gives, for each identity, the record of its last line that parses, once, in
  the order of source and sequence, however many lines, torn lines and blanks precede it.\<close>

theorem load_latest:
  "findRecord (load j) i = latest j i \<and> distinct (map rd_id (load j)) \<and>
   (r \<in> set (load j) \<longleftrightarrow> latest j (rd_id r) = Some r) \<and>
   sorted (map (\<lambda>r. (ev_source (rd_event r), ev_seq (rd_event r))) (load j))"
proof -
  have "sorted (map (\<lambda>r. (ev_source (rd_event r), ev_seq (rd_event r))) (load j))" by (simp add: load_def)
  then show ?thesis using find_load load_distinct load_member by blast
qed

text \<open>Sequence numbers grow per source: the sequence a new event gets is positive and above that of
  every record of its source in the journal, as long as none has reached the largest 64-bit value.\<close>

theorem Emit_sequence:
  assumes "new_record env w (load j) e = rec" and "\<forall>r\<in>set (load j). ev_seq (rd_event r) < 2 ^ 63 - 1"
    and "latest j i = Some r" and "ev_source (rd_event r) = ev_source e"
  shows "ev_seq (rd_event r) < ev_seq (rd_event rec) \<and> 0 < ev_seq (rd_event rec)"
proof -
  have "r \<in> set (load j)" using assms(3) latest_id [OF assms(3)] by (simp add: load_member)
  from nextSeq_above [OF assms(2) this assms(4)] show ?thesis
    using assms(1) by (auto simp: new_record_def Let_def)
qed

lemma Emit_sequence_witness: "1 < ev_seq (rd_event (new_record sample_env sample_world (load [Line sample_record]) sample_event))"
proof -
  have n: "rd_id sample_record \<noteq> []" by (simp add: rd_id_def computeID_ne)
  have l: "latest [Line sample_record] (rd_id sample_record) = Some sample_record"
    using n latest_snoc [of "[]" "Line sample_record" "rd_id sample_record"] by (simp add: line_record_def)
  have "ev_seq (rd_event r) < 2 ^ 63 - 1" if "r \<in> set (load [Line sample_record])" for r
  proof -
    have "latest [Line sample_record] (rd_id r) = Some r" using that by (simp add: load_member)
    then have "r = sample_record" using latest_snoc [of "[]" "Line sample_record" "rd_id r"]
      by (simp add: line_record_def split: if_splits)
    then show ?thesis by (simp add: sample_stamped_def)
  qed
  then have "\<forall>r\<in>set (load [Line sample_record]). ev_seq (rd_event r) < 2 ^ 63 - 1" by blast
  from Emit_sequence [OF refl this l, of sample_event sample_env sample_world] show ?thesis
    by (simp add: sample_event_def) (simp add: sample_stamped_def)
qed

text \<open>Pruning never drops an owed delivery and adds nothing: the pruned journal reads back as a part of
  the records, with every unpublished one among them.\<close>

theorem prune_keeps_owed:
  assumes "prune ok rs j = (True, j')" and "MaxJournalRecords < length rs" and "r \<in> set rs" and "\<not> rd_published r"
  shows "Line (on_disk r) \<in> set j' \<and> set j' \<subseteq> (Line \<circ> on_disk) ` set rs"
proof -
  have "j' = map (Line \<circ> on_disk) (prune_keep rs)" using assms(1,2) by (auto simp: prune_def split: if_splits)
  then show ?thesis using prune_keep_member [OF assms(3,4)] prune_keep_sub [of rs] by auto
qed

lemma prune_keeps_owed_witness:
  "Line (on_disk sample_record) \<in> set (snd (prune True (sample_record # replicate 5000 sample_done) []))"
proof -
  let ?rs = "sample_record # replicate 5000 sample_done"
  have big: "MaxJournalRecords < length ?rs" by (simp add: MaxJournalRecords_def)
  then have p: "prune True ?rs [] = (True, snd (prune True ?rs []))" by (simp add: prune_def)
  have "\<not> rd_published sample_record" by (simp add: sample_record_def)
  with prune_keeps_owed [OF p big, of sample_record] show ?thesis by simp
qed

definition folded_names :: "interest list \<Rightarrow> string list" where
  "folded_names is = map (fold_key \<circ> in_subscriber) is"

lemma replace_interest_set:
  "distinct (folded_names is) \<Longrightarrow> (case replace_interest i is of
      None \<Rightarrow> fold_key (in_subscriber i) \<notin> set (folded_names is)
    | Some js \<Rightarrow> folded_names js = folded_names is \<and>
        set js = insert i {x \<in> set is. \<not> equal_fold (in_subscriber x) (in_subscriber i)})"
proof (induction "is")
  case (Cons x xs)
  show ?case
  proof (cases "equal_fold (in_subscriber x) (in_subscriber i)")
    case True
    then have "\<not> equal_fold (in_subscriber y) (in_subscriber i)" if "y \<in> set xs" for y
      using Cons.prems that by (auto simp: folded_names_def equal_fold_def image_iff)
    with True show ?thesis by (auto simp: folded_names_def equal_fold_def)
  next
    case False
    with Cons show ?thesis
      by (cases "replace_interest i xs") (auto simp: folded_names_def equal_fold_def)
  qed
qed (simp add: folded_names_def)

text \<open>\<open>Subscribe\<close> replaces: where the declared names are distinct up to case, afterwards they still are,
  the subscriber has exactly the new interest, and everybody else keeps theirs.\<close>

theorem Subscribe_replaces:
  assumes "loadInterests f = Inr is" and "distinct (folded_names is)" and "trim_space (in_subscriber i) \<noteq> []"
  shows "\<exists>js. Subscribe None True i f = (None, Interests js) \<and> distinct (folded_names js) \<and>
     set js = insert i {x \<in> set is. \<not> equal_fold (in_subscriber x) (in_subscriber i)}"
proof -
  define ks where "ks = (case replace_interest i is of Some js \<Rightarrow> js | None \<Rightarrow> is @ [i])"
  have ks: "distinct (folded_names ks) \<and> set ks = insert i {x \<in> set is. \<not> equal_fold (in_subscriber x) (in_subscriber i)}"
  proof (cases "replace_interest i is")
    case None
    then have n: "fold_key (in_subscriber i) \<notin> set (folded_names is)" using replace_interest_set [OF assms(2), of i] by simp
    then have "\<not> equal_fold (in_subscriber x) (in_subscriber i)" if "x \<in> set is" for x
      using n imageI [OF that, of "\<lambda>x. fold_key (in_subscriber x)"] by (auto simp: folded_names_def equal_fold_def)
    with n assms(2) None show ?thesis by (auto simp: ks_def folded_names_def)
  next
    case (Some js)
    then show ?thesis using replace_interest_set [OF assms(2), of i] assms(2) by (simp add: ks_def)
  qed
  have m: "mset (folded_names (sort_key in_subscriber ks)) = mset (folded_names ks)" by (simp add: folded_names_def)
  have "Subscribe None True i f = (None, Interests (sort_key in_subscriber ks))"
    using assms(1,3) by (simp add: Subscribe_def save_result_def saveInterests_def ks_def)
  with ks mset_eq_imp_distinct_iff [OF m] show ?thesis by auto
qed

definition sample_interest :: interest where
  "sample_interest = \<lparr>in_subscriber = ''bob'', in_sources = [], in_nouns = [], in_actions = [], in_repos = [], in_sprints = [],
     in_topics = [], in_objects = [], in_audit = False, in_wake = True, in_max_wake = 0, in_mute = True\<rparr>"

lemma Subscribe_replaces_witness: "\<exists>js. Subscribe None True sample_interest NoFile = (None, Interests js) \<and> set js = {sample_interest}"
  using Subscribe_replaces [of NoFile "[]" sample_interest]
  by (auto simp: loadInterests_def folded_names_def sample_interest_def sample_words)

section \<open>Divergences\<close>

text \<open>
  \<open>Unsubscribe\<close> is documented to stop membership routing. A member with no interest is still told.
\<close>

lemma membership_without_interest:
  "map rc_reason (Route (\<lambda>rs. rs) (sample_stamped\<lparr>ev_mentions := [], ev_members := [''bob'']\<rparr>) []) = [''membership'']"
  by (simp add: Route_def sample_stamped_def sample_event_def no_event_def MaxHop_def offers_def offer_def by_name_def Let_def
     sample_words bob_apart wakeReasons_def)

text \<open>
  \<open>Subscribe\<close> identifies names up to case and \<open>Route\<close> looks them up exactly: a muted interest does
  not hold for another spelling of its name.
\<close>

lemma mute_is_case_sensitive:
  "in_mute sample_interest \<and> equal_fold ''BOB'' (in_subscriber sample_interest) \<and>
   map rc_subscriber (Route (\<lambda>rs. rs) (sample_stamped\<lparr>ev_mentions := [''BOB'']\<rparr>) [sample_interest]) = [''BOB'']"
proof -
  have w: "trim_space ''BOB'' = ''BOB''" by (simp add: trim_space_word byte_def)
  have f: "equal_fold ''BOB'' ''bob''" "\<not> equal_fold ''BOB'' ''agent''" by code_simp+
  show ?thesis
    by (simp add: Route_def sample_stamped_def sample_event_def no_event_def MaxHop_def offers_def offer_def by_name_def Let_def
     sample_words w f wakeReasons_def sample_interest_def subscriptionMatch_def dependency_offer_def)
qed

text \<open>
  Pruning is documented to drop the oldest records. It drops the first in the order of source and
  sequence, whatever their times, and the source then starts again from its old numbers.
\<close>

lemma prune_drops_first_source:
  assumes "length rs = MaxJournalRecords" and "rd_published r"
    and "\<forall>q\<in>set rs. ev_source (rd_event q) \<noteq> ev_source (rd_event r)"
  shows "prune_keep (r # rs) = rs \<and> nextSeq (prune_keep (r # rs)) (ev_source (rd_event r)) = 1"
proof -
  have "filter (\<lambda>(i, q). i = 0 \<longrightarrow> \<not> rd_published q) (enumerate (Suc 0) rs) = enumerate (Suc 0) rs"
    by (rule filter_True) (auto simp: in_set_enumerate_eq)
  then have k: "prune_keep (r # rs) = rs" using assms(1,2) by (simp add: prune_keep_def Let_def)
  have "fold (\<lambda>r' high. if ev_source (rd_event r') = ev_source (rd_event r) \<and> ev_seq (rd_event r') > high
        then ev_seq (rd_event r') else high) rs 0 = (0::int)"
    using assms(3) by (induction rs) auto
  then show ?thesis by (simp add: k nextSeq_def int64_def)
qed

text \<open>
  A line cut short is documented to be skipped. The next record appended runs into it and is lost
  with it, although its append reports success.
\<close>

lemma append_after_cut_line:
  assumes "j = js @ [Partial p]" and "store_append Synced j r = (ok, j')" and "latest js (rd_id r) = None"
  shows "ok \<and> findRecord (load j') (rd_id r) = None"
  using assms by (auto simp: store_append_def append_line_def find_load latest_snoc line_record_def)

text \<open>\<open>RegisterSource\<close> admits the empty name.\<close>

lemma RegisterSource_blank: "RegisterSource srcs '' '' = Inr (List.insert [] srcs)"
  by (simp add: RegisterSource_Inr trim_space_blank)

text \<open>
  \<open>MaxSubjectBytes\<close> is documented to bound the subject. A registered source name, noun and object
  of 96 bytes each exceed it.
\<close>

lemma Subject_exceeds:
  assumes "length (ev_source e) = 96" "length (ev_noun e) = 96" "length (ev_object e) = 96"
  shows "MaxSubjectBytes < length (Subject e)"
proof -
  obtain k where "Subject e = subject_line e k" using subject_from_char [of 0 e] by (auto simp: Subject_def)
  then have "length (subject_head e) \<le> length (Subject e)" by (simp add: subject_line_def Let_def)
  moreover have "288 \<le> length (subject_head e)" using assms by (simp add: subject_head_def)
  ultimately show ?thesis by (simp add: MaxSubjectBytes_def)
qed

text \<open>
  The cap on wakes per minute does not hold across one recovery: a record journalled before its
  first wake reads back with no map to share, so the history that the next record is checked
  against does not show the wake.
\<close>

definition owed_record :: "string \<Rightarrow> string \<Rightarrow> int \<Rightarrow> outbox_record" where
  "owed_record i obj n = sample_record\<lparr>rd_event := sample_stamped\<lparr>ev_id := i, ev_object := obj, ev_seq := n\<rparr>, rd_wakes := None\<rparr>"

definition capped :: interest where
  "capped = sample_interest\<lparr>in_mute := False, in_max_wake := 1\<rparr>"

lemma Recover_exceeds_cap:
  "maxWakePerMin capped = 1 \<and>
   map rs_wakes (fst (fst (recover_from sample_env [0, 1] [owed_record ''i1'' ''o1'' 1, owed_record ''i2'' ''o2'' 2] []
     \<lparr>w_journal = [], w_interests = Interests [capped], w_trace = []\<rparr>))) = [[(''bob'', WakeSteered)], [(''bob'', WakeSteered)]]"
  by (simp add: owed_record_def sample_record_def deliver_def deliver_one_def Let_def TopicFor_def made_def mget_def mput_def priority_of_def
     wakeOutcome_def coalesces_def woken_count_def wake_cap_def mustInterests_def loadInterests_def DefaultMaxWakePerMin_def
     shared_def rd_id_def do_append_def store_append_def append_line_def called_def capped_def sample_interest_def maxWakePerMin_def woken_within_def)

end
