(* ===== verification/Sup_Policy.thy ===== *)
theory Sup_Policy
  imports Go_Prelude "HOL-Library.AList"
begin

text \<open>
  The policy of the service monitor (\<open>internal/agentos/supervisord_policy.go\<close>): a declaration resolved
  to values, the restart decision, the backoff ladder and the start limit.

  A declaration is \<open>fleet.Service\<close>, whose code is outside the repository; \<open>service\<close> has the fields
  the monitor reads, its methods \<open>ProviderName\<close>, \<open>Dependencies\<close> and \<open>IsRetired\<close> as fields holding
  their results, and the rest of the declaration as one field. Durations are nanoseconds in 64 bits.
  \<open>time.ParseDuration\<close>, which computes fractions in floating point, is the parameter \<open>parse\<close>.
\<close>

section \<open>Declarations\<close>

record service =
  sv_name :: string
  sv_enabled :: bool
  sv_owner :: string
  sv_provider :: string
  sv_retired :: bool
  sv_deps :: "string list"
  sv_policy :: string
  sv_min :: string
  sv_max :: string
  sv_healthy_after :: string
  sv_burst :: int
  sv_interval :: string
  sv_http :: string
  sv_tcp :: bool
  sv_exec :: "string list"
  sv_health_interval :: string
  sv_health_timeout :: string
  sv_health_failures :: int
  sv_start_period :: string
  sv_stop_signal :: string
  sv_stop_timeout :: string
  sv_ports :: "(string \<times> string \<times> int) list"
  sv_app :: "string option"
  sv_mesh :: "string list"
  sv_rest :: string

section \<open>Policy\<close>

definition second :: int where "second = 1000000000"

definition supervisordMinBackoff :: int where "supervisordMinBackoff = 1 * second"
definition supervisordMaxBackoff :: int where "supervisordMaxBackoff = 30 * second"
definition supervisordHealthyAfter :: int where "supervisordHealthyAfter = 30 * second"
definition supervisordGrace :: int where "supervisordGrace = 10 * second"

definition unitDefaultHealthInterval :: int where "unitDefaultHealthInterval = 10 * second"
definition unitDefaultHealthTimeout :: int where "unitDefaultHealthTimeout = 2 * second"
definition unitDefaultHealthFailures :: int where "unitDefaultHealthFailures = 3"
definition unitDefaultStartBurst :: int where "unitDefaultStartBurst = 5"
definition unitDefaultStartInterval :: int where "unitDefaultStartInterval = 5 * 60 * second"

datatype signal = SIGTERM | SIGINT | SIGHUP | SIGQUIT | SIGKILL

record unit_policy =
  po_restart :: string
  po_min :: int
  po_max :: int
  po_healthy_after :: int
  po_burst :: int
  po_window :: int
  po_probe :: bool
  po_health_interval :: int
  po_health_timeout :: int
  po_health_failures :: int
  po_start_period :: int
  po_stop_signal :: signal
  po_grace :: int

definition durOr :: "(string \<Rightarrow> int option) \<Rightarrow> string \<Rightarrow> int \<Rightarrow> int" where
  "durOr parse s d = (case parse s of Some v \<Rightarrow> if v > 0 then v else d | None \<Rightarrow> d)"

text \<open>
  \<open>strings.ToUpper\<close> as far as a result in ASCII goes: besides the lower-case ASCII letters, U+0131 and
  U+017F have an ASCII upper case; the bytes of other runes stand for themselves.
\<close>

fun to_upper :: "string \<Rightarrow> string" where
  "to_upper [] = []"
| "to_upper (c # s) =
     (if c = CHR 0xC4 \<and> take 1 s = [CHR 0xB1] then CHR ''I'' # to_upper (drop 1 s)
      else if c = CHR 0xC5 \<and> take 1 s = [CHR 0xBF] then CHR ''S'' # to_upper (drop 1 s)
      else ascii_upper c # to_upper s)"

definition trim_prefix :: "string \<Rightarrow> string \<Rightarrow> string" where
  "trim_prefix s p = (if has_prefix s p then drop (length p) s else s)"

definition stopSignalOf :: "string \<Rightarrow> signal" where
  "stopSignalOf s =
     (let n = trim_prefix (to_upper s) ''SIG''
      in if n = ''INT'' then SIGINT else if n = ''HUP'' then SIGHUP
         else if n = ''QUIT'' then SIGQUIT else if n = ''KILL'' then SIGKILL else SIGTERM)"

definition policyOf :: "(string \<Rightarrow> int option) \<Rightarrow> service \<Rightarrow> unit_policy" where
  "policyOf parse u =
     (let mn = durOr parse (sv_min u) supervisordMinBackoff;
          mx = durOr parse (sv_max u) supervisordMaxBackoff
      in \<lparr>po_restart = (if sv_policy u = [] then ''on-failure'' else sv_policy u),
          po_min = mn,
          po_max = (if mx < mn then mn else mx),
          po_healthy_after = durOr parse (sv_healthy_after u) supervisordHealthyAfter,
          po_burst = (if sv_burst u = 0 then unitDefaultStartBurst else sv_burst u),
          po_window = durOr parse (sv_interval u) unitDefaultStartInterval,
          po_probe = (sv_http u \<noteq> [] \<or> sv_tcp u \<or> length (sv_exec u) > 0),
          po_health_interval = durOr parse (sv_health_interval u) unitDefaultHealthInterval,
          po_health_timeout = durOr parse (sv_health_timeout u) unitDefaultHealthTimeout,
          po_health_failures = (if sv_health_failures u = 0 then unitDefaultHealthFailures else sv_health_failures u),
          po_start_period = durOr parse (sv_start_period u) 0,
          po_stop_signal = stopSignalOf (sv_stop_signal u),
          po_grace = durOr parse (sv_stop_timeout u) supervisordGrace\<rparr>)"

section \<open>Restart decisions\<close>

record child_exit =
  ex_code :: int
  ex_signaled :: bool
  ex_err :: "string option"

definition exited :: "int \<Rightarrow> child_exit" where
  "exited c = \<lparr>ex_code = c, ex_signaled = False, ex_err = None\<rparr>"

definition wantsRestart :: "unit_policy \<Rightarrow> child_exit \<Rightarrow> bool" where
  "wantsRestart p ex =
     (if po_restart p = ''no'' then False else if po_restart p = ''always'' then True
      else ex_code ex \<noteq> 0 \<or> ex_signaled ex \<or> ex_err ex \<noteq> None)"

section \<open>The backoff ladder\<close>

record ladder =
  la_min :: int
  la_max :: int
  la_healthy_after :: int
  la_next :: int

definition newBackoffLadder :: "int \<Rightarrow> int \<Rightarrow> int \<Rightarrow> ladder" where
  "newBackoffLadder mn mx h = \<lparr>la_min = mn, la_max = mx, la_healthy_after = h, la_next = mn\<rparr>"

definition backoff_delay :: "ladder \<Rightarrow> int \<Rightarrow> int \<times> ladder" where
  "backoff_delay b took =
     (let d = (if took \<ge> la_healthy_after b \<or> la_next b = 0 then la_min b else la_next b)
      in (d, b\<lparr>la_next := min (int64 (d * 2)) (la_max b)\<rparr>))"

fun delays :: "ladder \<Rightarrow> int list \<Rightarrow> int list" where
  "delays b [] = []"
| "delays b (took # tooks) = (case backoff_delay b took of (d, b') \<Rightarrow> d # delays b' tooks)"

definition ladder_ok :: "ladder \<Rightarrow> bool" where
  "ladder_ok b \<longleftrightarrow> 0 < la_min b \<and> la_min b \<le> la_next b \<and> la_next b \<le> la_max b \<and> la_max b < 2 ^ 62"

text \<open>A doubling below \<open>2 ^ 62\<close> does not wrap around, and the ladder keeps between its bounds.\<close>

lemma backoff_delay_ok:
  assumes "ladder_ok b" "backoff_delay b took = (d, b')"
  shows "ladder_ok b'" "la_min b \<le> d" "d \<le> la_max b" "la_min b' = la_min b" "la_max b' = la_max b"
    "la_healthy_after b' = la_healthy_after b" "la_next b' = min (2 * d) (la_max b)"
    "d = (if took \<ge> la_healthy_after b then la_min b else la_next b)"
proof -
  have d: "d = (if took \<ge> la_healthy_after b then la_min b else la_next b)" and b': "b' = b\<lparr>la_next := min (int64 (d * 2)) (la_max b)\<rparr>"
    using assms by (auto simp: backoff_delay_def Let_def ladder_ok_def split: if_splits)
  have lo: "la_min b \<le> d" "d \<le> la_max b" using assms(1) by (auto simp: d ladder_ok_def)
  then have "int64 (d * 2) = 2 * d" using assms(1) by (subst int64_id) (auto simp: ladder_ok_def)
  with assms(1) lo d show "ladder_ok b'" "la_min b \<le> d" "d \<le> la_max b" "la_min b' = la_min b" "la_max b' = la_max b"
    "la_healthy_after b' = la_healthy_after b" "la_next b' = min (2 * d) (la_max b)"
    "d = (if took \<ge> la_healthy_after b then la_min b else la_next b)"
    by (auto simp: b' ladder_ok_def)
qed

lemma delays_bounded: "ladder_ok b \<Longrightarrow> d \<in> set (delays b tooks) \<Longrightarrow> la_min b \<le> d \<and> d \<le> la_max b"
proof (induction tooks arbitrary: b)
  case (Cons took tooks)
  obtain d' b' where b': "backoff_delay b took = (d', b')" by fastforce
  note ok = backoff_delay_ok [OF Cons.prems(1) b']
  show ?case using Cons.IH [OF ok(1)] Cons.prems(2) ok by (auto simp: b')
qed simp

text \<open>After runs that all fail early the delays are the doublings of the start, cut at the maximum.\<close>

lemma min_double:
  assumes "0 < (a::int)" "0 < m"
  shows "min (2 * min (a * 2 ^ k) m) m = min (a * 2 ^ Suc k) m"
proof -
  have "0 < a * 2 ^ k" using assms by simp
  then show ?thesis using assms(2) by (simp add: min_def mult.left_commute)
qed

lemma delays_doubling:
  assumes "ladder_ok b" "la_next b = min (a * 2 ^ k) (la_max b)" "0 < a" "\<forall>took \<in> set tooks. took < la_healthy_after b" "i < length tooks"
  shows "delays b tooks ! i = min (a * 2 ^ (k + i)) (la_max b)"
  using assms
proof (induction tooks arbitrary: b k i)
  case (Cons took tooks)
  obtain d' b' where b': "backoff_delay b took = (d', b')" by fastforce
  note ok = backoff_delay_ok [OF Cons.prems(1) b']
  have d': "d' = min (a * 2 ^ k) (la_max b)" using ok(8) Cons.prems by auto
  have nxt: "la_next b' = min (a * 2 ^ Suc k) (la_max b')"
    using min_double [of a "la_max b" k] Cons.prems(1,3) ok by (auto simp: d' ladder_ok_def)
  show ?case
  proof (cases i)
    case 0 then show ?thesis by (simp add: b' d')
  next
    case (Suc j)
    have "delays b' tooks ! j = min (a * 2 ^ (Suc k + j)) (la_max b')"
      by (rule Cons.IH [OF ok(1) nxt]) (use Cons.prems Suc ok in auto)
    with Suc show ?thesis by (simp add: b' ok)
  qed
qed simp

section \<open>The start limit\<close>

record limiter =
  li_burst :: int
  li_window :: int
  li_starts :: "int list"

text \<open>\<open>Time.Sub\<close> saturates.\<close>

definition time_sub :: "int \<Rightarrow> int \<Rightarrow> int" where
  "time_sub a b = max (- (2 ^ 63)) (min (2 ^ 63 - 1) (a - b))"

lemma time_sub_less: "- (2 ^ 63) < w \<Longrightarrow> w < 2 ^ 63 \<Longrightarrow> time_sub a b < w \<longleftrightarrow> a - b < w"
  by (auto simp: time_sub_def max_def min_def)

definition limiter_allow :: "limiter \<Rightarrow> int \<Rightarrow> bool \<times> limiter" where
  "limiter_allow l now =
     (let keep = filter (\<lambda>t. time_sub now t < li_window l) (li_starts l)
      in if int (length keep) \<ge> li_burst l then (False, l\<lparr>li_starts := keep\<rparr>)
         else (True, l\<lparr>li_starts := keep @ [now]\<rparr>))"

definition limiter_reset :: "limiter \<Rightarrow> limiter" where
  "limiter_reset l = l\<lparr>li_starts := []\<rparr>"

text \<open>The starts allowed among a sequence of attempts.\<close>

fun allowed :: "limiter \<Rightarrow> int list \<Rightarrow> int list" where
  "allowed l [] = []"
| "allowed l (t # ts) = (case limiter_allow l t of (ok, l') \<Rightarrow> if ok then t # allowed l' ts else allowed l' ts)"

lemma limiter_allow_same: "limiter_allow l t = (ok, l') \<Longrightarrow> li_burst l' = li_burst l \<and> li_window l' = li_window l"
  by (auto simp: limiter_allow_def Let_def split: if_splits)

definition within :: "int \<Rightarrow> int \<Rightarrow> int list \<Rightarrow> int list" where
  "within x w ts = filter (\<lambda>t. x \<le> t \<and> t < x + w) ts"

text \<open>
  The starts a limiter remembers, with those it goes on to allow, never number more than the burst in
  one window, if those remembered do not.
\<close>

lemma allowed_set: "set (allowed l ts) \<subseteq> set ts"
proof (induction ts arbitrary: l)
  case (Cons t ts)
  obtain ok l' where "limiter_allow l t = (ok, l')" by fastforce
  with Cons [of l'] show ?case by auto
qed simp

lemma filter_le: "int (length ts) \<le> n \<Longrightarrow> int (length (filter P ts)) \<le> n"
  by (rule order_trans [OF of_nat_mono [OF length_filter_le]])

lemma within_le: "int (length ts) \<le> n \<Longrightarrow> int (length (within x w ts)) \<le> n"
  by (simp add: within_def filter_le)

lemma allowed_within:
  assumes "sorted ts" "\<forall>s \<in> set (li_starts l). \<forall>t \<in> set ts. s \<le> t"
    and "0 < li_window l" "li_window l < 2 ^ 63" "0 \<le> li_burst l" "int (length (li_starts l)) \<le> li_burst l"
  shows "int (length (within x (li_window l) (li_starts l @ allowed l ts))) \<le> li_burst l"
  using assms
proof (induction ts arbitrary: l)
  case Nil
  then show ?case by (simp add: within_le)
next
  case (Cons t ts)
  define keep where "keep = filter (\<lambda>s. t - s < li_window l) (li_starts l)"
  have keep: "filter (\<lambda>s. time_sub t s < li_window l) (li_starts l) = keep"
    using Cons.prems(3,4) by (simp add: keep_def time_sub_less)
  obtain ok l' where l': "limiter_allow l t = (ok, l')" by fastforce
  note same = limiter_allow_same [OF l']
  have st: "li_starts l' = (if ok then keep @ [t] else keep)" and ok: "ok \<longleftrightarrow> int (length keep) < li_burst l"
    using l' by (auto simp: limiter_allow_def keep Let_def split: if_splits)
  have bound: "int (length keep) \<le> li_burst l"
    using Cons.prems(6) by (simp add: keep_def filter_le)
  have IH: "int (length (within x (li_window l) (li_starts l' @ allowed l' ts))) \<le> li_burst l"
    using Cons.IH [of l'] Cons.prems same st ok bound by (auto simp: keep_def split: if_splits)
  have all: "allowed l (t # ts) = (if ok then t # allowed l' ts else allowed l' ts)" by (simp add: l')
  show ?case
  proof (cases "\<exists>a \<in> set (allowed l (t # ts)). a < x + li_window l")
    case True
    then obtain a where "a \<in> set (t # ts)" "a < x + li_window l" using allowed_set by blast
    then have "t < x + li_window l" using Cons.prems(1) by auto
    then have "within x (li_window l) (li_starts l) = within x (li_window l) keep"
      by (auto simp: within_def keep_def intro!: filter_cong)
    with IH st same show ?thesis unfolding all by (auto simp: within_def split: if_splits)
  next
    case False
    then have "within x (li_window l) (allowed l (t # ts)) = []" by (auto simp: within_def filter_empty_conv simp del: allowed.simps)
    with within_le [OF Cons.prems(6)] show ?thesis by (simp add: within_def del: allowed.simps)
  qed
qed

end
