(* ===== verification/Sup_Delegated.thy ===== *)
theory Sup_Delegated
  imports Sup_Policy
begin

text \<open>
  The internal provider, delegated to the process that owns the capability
  (\<open>delegatedInternal\<close> in \<open>internal/agentos/supervisord_ipc.go\<close>). The monitor's calls and the owner's
  reports run one at a time under the provider's mutex; each is a function on its state. Whether a state is
  exposed is decided outside the repository: the parameter \<open>exposed\<close>. Times are arguments.
\<close>

datatype run_state = Inactive | Starting | Active | Degraded | Stopping | Failed

record owner_status =
  os_unit :: string
  os_state :: run_state
  os_reason :: string
  os_health :: string

record delegated_unit =
  du_want :: bool
  du_reported :: bool
  du_enabled :: bool
  du_state :: run_state
  du_reason :: string
  du_health :: string
  du_since :: int
  du_gen :: nat

type_synonym delegated = "(string \<times> delegated_unit) list"

datatype health_answer = Healthy | Pending | Unhealthy string

text \<open>\<open>Activate\<close> keeps the monitor's callback, which carries the generation \<open>g\<close> it was made for.\<close>

definition d_activate :: "int \<Rightarrow> nat \<Rightarrow> service \<Rightarrow> delegated \<Rightarrow> delegated" where
  "d_activate now g u d = AList.update (sv_name u)
     \<lparr>du_want = True, du_reported = False, du_enabled = sv_enabled u, du_state = Starting,
      du_reason = ''awaiting owner '' @ sv_owner u, du_health = [], du_since = now, du_gen = g\<rparr> d"

definition d_deactivate :: "int \<Rightarrow> string \<Rightarrow> delegated \<Rightarrow> delegated" where
  "d_deactivate now n d = (case map_of d n of None \<Rightarrow> d
     | Some u \<Rightarrow> AList.update n (u\<lparr>du_want := False, du_reported := False, du_state := Inactive, du_since := now\<rparr>) d)"

definition d_health :: "(run_state \<Rightarrow> bool) \<Rightarrow> (run_state \<Rightarrow> string) \<Rightarrow> string \<Rightarrow> delegated \<Rightarrow> health_answer" where
  "d_health exposed state_text n d = (case map_of d n of
       None \<Rightarrow> Unhealthy (''service: '' @ n @ '' is not active'')
     | Some u \<Rightarrow> if \<not> du_want u then Unhealthy (''service: '' @ n @ '' is not active'')
         else if \<not> du_reported u then Pending
         else if exposed (du_state u) then Healthy
         else Unhealthy (''service: '' @ n @ '': owner reports '' @ state_text (du_state u) @ '': '' @ du_reason u))"

definition d_wants :: "string \<Rightarrow> delegated \<Rightarrow> bool" where
  "d_wants n d = (case map_of d n of None \<Rightarrow> False | Some u \<Rightarrow> du_want u)"

text \<open>The events a report sends back to the monitor: unit, generation, state reached and reason.\<close>

type_synonym emitted = "(string \<times> nat \<times> run_state \<times> string) option"

definition d_report :: "int \<Rightarrow> owner_status \<Rightarrow> delegated \<Rightarrow> (string + emitted) \<times> delegated" where
  "d_report now st d =
     (let refused = (Inl (''service: '' @ os_unit st @ '' is not activated by this monitor''), d)
      in case map_of d (os_unit st) of None \<Rightarrow> refused
       | Some u \<Rightarrow> if \<not> du_want u then refused
         else
           let from = du_state u;
               u' = u\<lparr>du_reported := True, du_state := os_state st, du_reason := os_reason st, du_health := os_health st,
                      du_since := (if from \<noteq> os_state st then now else du_since u)\<rparr>
           in (Inr (if from \<noteq> os_state st then Some (os_unit st, du_gen u, os_state st, os_reason st) else None),
               AList.update (os_unit st) u' d))"

end
