(* ===== verification/Sup_Monitor.thy ===== *)
theory Sup_Monitor
  imports Sup_Delegated
begin

text \<open>
  The service monitor (\<open>internal/agentos/supervisord_monitor.go\<close>): one loop owns every unit and handles
  one message at a time.

  Calls that block run off the loop and answer with a message. They are the entries of \<open>m_flight\<close>: what was
  started, for which unit and under which generation, until the answer is handled. The closures that run when
  a deactivation answers are the constructors of \<open>after\<close>. What the monitor asks of its surroundings (the
  clock, the registry, the build gate, the ports, the provider's status) is answered by oracles; \<open>m_reads\<close>
  counts the questions, so that two questions may get two answers. \<open>m_events\<close> is the log of transitions
  offered to the event queue, which drops them when it is full.

  A handler works on a unit through its pointer. Here it takes the monitor and the unit and returns both;
  \<open>with_unit\<close> reads the unit and writes it back. Other units are read from the monitor.
\<close>

section \<open>State\<close>

datatype after =
    After_stop string
  | After_exit child_exit string
  | After_reconfigure string
  | After_restart

datatype flight =
    Activating string nat service
  | Deactivating string nat after
  | Configuring string nat service
  | Probing string nat int
  | Sleeping string nat string int
  | Applied string nat

record unit_run =
  un_decl :: service
  un_print :: string
  un_pol :: unit_policy
  un_prov :: "string option"
  un_state :: run_state
  un_since :: int
  un_restarts :: nat
  un_health :: string
  un_reason :: string
  un_gen :: nat
  un_busy :: bool
  un_waiting :: bool
  un_restart :: bool
  un_latched :: bool
  un_held :: bool
  un_dirty :: bool
  un_adhoc :: bool
  un_gone :: bool
  un_ladder :: ladder
  un_limit :: limiter
  un_started_at :: int
  un_fails :: nat

record transition_event =
  te_unit :: string
  te_from :: run_state
  te_to :: run_state
  te_reason :: string
  te_at :: int

record monitor =
  m_units :: "(string \<times> unit_run) list"
  m_only :: "string list option"
  m_force :: bool
  m_until_done :: bool
  m_stopping :: bool
  m_cancelled :: bool
  m_flight :: "flight list"
  m_events :: "transition_event list"
  m_reads :: nat
  m_delegated :: "delegated option"

record sup_env =
  se_now :: "nat \<Rightarrow> int"
  se_load :: "nat \<Rightarrow> service list \<times> string list"
  se_build :: "nat \<Rightarrow> service \<Rightarrow> string option"
  se_ports :: "nat \<Rightarrow> service \<Rightarrow> string option"
  se_status :: "nat \<Rightarrow> string \<Rightarrow> int \<times> int option"
  se_provider :: "service \<Rightarrow> string option"
  se_parse :: "string \<Rightarrow> int option"
  se_print :: "service \<Rightarrow> string"
  se_exposed :: "run_state \<Rightarrow> bool"
  se_duration :: "int \<Rightarrow> string"
  se_quote :: "string \<Rightarrow> string"
  se_pid :: int

type_synonym cfg = "monitor \<times> unit_run"

definition unit_at :: "monitor \<Rightarrow> string \<Rightarrow> unit_run option" where
  "unit_at m n = map_of (m_units m) n"

definition put_unit :: "string \<Rightarrow> cfg \<Rightarrow> monitor" where
  "put_unit n c = (fst c)\<lparr>m_units := AList.update n (snd c) (m_units (fst c))\<rparr>"

definition with_unit :: "string \<Rightarrow> (cfg \<Rightarrow> cfg) \<Rightarrow> monitor \<Rightarrow> monitor" where
  "with_unit n f m = (case unit_at m n of None \<Rightarrow> m | Some u \<Rightarrow> put_unit n (f (m, u)))"

definition asked :: "monitor \<Rightarrow> monitor" where
  "asked m = m\<lparr>m_reads := Suc (m_reads m)\<rparr>"

definition launch :: "flight \<Rightarrow> monitor \<Rightarrow> monitor" where
  "launch f m = m\<lparr>m_flight := m_flight m @ [f]\<rparr>"

section \<open>Desired state\<close>

definition running :: "unit_run \<Rightarrow> bool" where
  "running u \<longleftrightarrow> (case un_state u of Starting \<Rightarrow> True | Active \<Rightarrow> True | Degraded \<Rightarrow> True | _ \<Rightarrow> False)"

definition wantUp :: "monitor \<Rightarrow> unit_run \<Rightarrow> bool" where
  "wantUp m u \<longleftrightarrow> (if m_stopping m \<or> un_gone u \<or> un_held u then False
     else sv_enabled (un_decl u) \<or> un_adhoc u \<or> m_force m)"

definition depsOf :: "monitor \<Rightarrow> unit_run \<Rightarrow> string list" where
  "depsOf m u = filter (\<lambda>d. case m_only m of None \<Rightarrow> True | Some only \<Rightarrow> d \<in> set only) (sv_deps (un_decl u))"

fun deps_ready :: "sup_env \<Rightarrow> monitor \<Rightarrow> string list \<Rightarrow> bool \<times> string \<times> bool" where
  "deps_ready e m [] = (True, [], False)"
| "deps_ready e m (n # ns) = (case unit_at m n of
       None \<Rightarrow> (False, ''requires unknown unit '' @ n, True)
     | Some d \<Rightarrow>
         if un_gone d then (False, ''requires unknown unit '' @ n, True)
         else if \<not> wantUp m d \<and> \<not> m_stopping m then (False, ''requires '' @ n @ '', which is disabled or stopped'', True)
         else if se_exposed e (un_state d) then deps_ready e m ns
         else if un_state d = Failed then (False, ''dependency '' @ n @ '' failed'', True)
         else (False, ''waiting for '' @ n, False))"

definition depsReady :: "sup_env \<Rightarrow> monitor \<Rightarrow> unit_run \<Rightarrow> bool \<times> string \<times> bool" where
  "depsReady e m u = deps_ready e m (depsOf m u)"

definition hasRunningDependents :: "monitor \<Rightarrow> string \<Rightarrow> bool" where
  "hasRunningDependents m n \<longleftrightarrow>
     list_ex (\<lambda>(k, o'). k \<noteq> n \<and> (running o' \<or> un_busy o' \<or> un_state o' = Stopping) \<and> n \<in> set (depsOf m o')) (m_units m)"

section \<open>Transitions\<close>

definition transition :: "sup_env \<Rightarrow> run_state \<Rightarrow> string \<Rightarrow> cfg \<Rightarrow> cfg" where
  "transition e to reason c = (case c of (m, u) \<Rightarrow>
     if un_state u = to then (m, u\<lparr>un_reason := reason\<rparr>)
     else let t = se_now e (m_reads m) in
       ((asked m)\<lparr>m_events := m_events m @
          [\<lparr>te_unit = sv_name (un_decl u), te_from = un_state u, te_to = to, te_reason = reason, te_at = t\<rparr>]\<rparr>,
        u\<lparr>un_reason := reason, un_state := to, un_since := t\<rparr>))"

definition fail_unit :: "sup_env \<Rightarrow> string \<Rightarrow> cfg \<Rightarrow> cfg" where
  "fail_unit e reason c = transition e Failed reason (fst c, (snd c)\<lparr>un_latched := True, un_health := []\<rparr>)"

definition start_now :: "sup_env \<Rightarrow> cfg \<Rightarrow> cfg" where
  "start_now e c = (case c of (m, u) \<Rightarrow>
     let u1 = (if un_restart u then u\<lparr>un_restarts := Suc (un_restarts u), un_restart := False\<rparr> else u);
         u2 = u1\<lparr>un_gen := Suc (un_gen u1), un_busy := True, un_fails := 0, un_health := [], un_dirty := False,
                 un_started_at := se_now e (m_reads m)\<rparr>;
         (m3, u3) = transition e Starting [] (asked m, u2)
     in (launch (Activating (sv_name (un_decl u3)) (un_gen u3) (un_decl u3)) m3, u3))"

definition start_limit :: "sup_env \<Rightarrow> cfg \<Rightarrow> bool \<times> cfg" where
  "start_limit e c = (case c of (m, u) \<Rightarrow>
     (case limiter_allow (un_limit u) (se_now e (m_reads m)) of (ok, l) \<Rightarrow> (ok, asked m, u\<lparr>un_limit := l\<rparr>)))"

definition gates :: "sup_env \<Rightarrow> cfg \<Rightarrow> cfg" where
  "gates e c = (case c of (m, u) \<Rightarrow>
     (case se_build e (m_reads m) (un_decl u) of
        Some err \<Rightarrow> fail_unit e err (asked m, u)
      | None \<Rightarrow>
          if sv_provider (un_decl u) = ''process'' then
            (case se_ports e (m_reads (asked m)) (un_decl u) of
               Some err \<Rightarrow> fail_unit e err (asked (asked m), u)
             | None \<Rightarrow> start_now e (asked (asked m), u))
          else start_now e (asked m, u)))"

definition activate :: "sup_env \<Rightarrow> bool \<Rightarrow> cfg \<Rightarrow> cfg" where
  "activate e exempt c =
     (if un_prov (snd c) = None then fail_unit e (''no provider '' @ se_quote e (sv_provider (un_decl (snd c)))) c
      else if exempt then gates e c
      else case start_limit e c of (ok, c') \<Rightarrow>
        if ok then gates e c'
        else fail_unit e (''start limit hit: '' @ int_text (po_burst (un_pol (snd c'))) @ '' starts within '' @
                            se_duration e (po_window (un_pol (snd c')))) c')"

definition tick :: "bool \<Rightarrow> cfg \<Rightarrow> cfg" where
  "tick first c = (case c of (m, u) \<Rightarrow>
     let p = un_pol u;
         delay = (if first then (if po_probe p \<and> po_start_period p > 0 then min (po_start_period p) (po_health_interval p) else 0)
                  else po_health_interval p)
     in (launch (Probing (sv_name (un_decl u)) (un_gen u) delay) m, u))"

definition deactivate :: "sup_env \<Rightarrow> bool \<Rightarrow> string \<Rightarrow> after option \<Rightarrow> cfg \<Rightarrow> cfg" where
  "deactivate e announce reason act c = (case c of (m, u) \<Rightarrow>
     let u1 = u\<lparr>un_gen := Suc (un_gen u), un_busy := True\<rparr>;
         (m2, u2) = (if announce then transition e Stopping reason (m, u1) else (m, u1))
     in (launch (Deactivating (sv_name (un_decl u2)) (un_gen u2) (case act of None \<Rightarrow> After_stop reason | Some a \<Rightarrow> a)) m2, u2))"

definition configure :: "cfg \<Rightarrow> cfg" where
  "configure c = (case c of (m, u) \<Rightarrow>
     (launch (Configuring (sv_name (un_decl u)) (un_gen u) (un_decl u)) m, u\<lparr>un_busy := True\<rparr>))"

definition refreshEnabled :: "sup_env \<Rightarrow> cfg \<Rightarrow> cfg" where
  "refreshEnabled e c = (case c of (m, u) \<Rightarrow>
     (asked m,
      case find (\<lambda>d. sv_name d = sv_name (un_decl u)) (fst (se_load e (m_reads m))) of
        None \<Rightarrow> u | Some d \<Rightarrow> u\<lparr>un_decl := (un_decl u)\<lparr>sv_enabled := sv_enabled d\<rparr>\<rparr>))"

definition afterExit :: "sup_env \<Rightarrow> child_exit \<Rightarrow> string \<Rightarrow> cfg \<Rightarrow> cfg" where
  "afterExit e ex reason c =
     (let took = time_sub (se_now e (m_reads (fst c))) (un_started_at (snd c));
          (m, u) = refreshEnabled e (asked (fst c), (snd c)\<lparr>un_health := []\<rparr>)
      in if \<not> wantUp m u then transition e Inactive reason (m, u)
         else if wantsRestart (un_pol u) ex then
           (case backoff_delay (un_ladder u) took of (d, l) \<Rightarrow>
             (case transition e Inactive (reason @ ''; restarting in '' @ se_duration e d)
                     (m, u\<lparr>un_ladder := l, un_waiting := True, un_restart := True\<rparr>) of
                (m', u') \<Rightarrow> (launch (Sleeping (sv_name (un_decl u')) (un_gen u') ''restart'' d) m', u')))
         else if ex_code ex = 0 \<and> \<not> ex_signaled ex \<and> ex_err ex = None then
           transition e Inactive (''completed ('' @ reason @ '')'') (m, u\<lparr>un_latched := True\<rparr>)
         else fail_unit e reason (m, u))"

text \<open>The closure a deactivation was given, run on the loop once the unit is down.\<close>

definition run_after :: "sup_env \<Rightarrow> after \<Rightarrow> cfg \<Rightarrow> cfg" where
  "run_after e a c = (case a of
       After_stop reason \<Rightarrow> transition e Inactive reason c
     | After_exit ex reason \<Rightarrow> afterExit e ex reason c
     | After_reconfigure reason \<Rightarrow> (case transition e Inactive reason c of (m, u) \<Rightarrow>
         if wantUp m u then activate e True (m, u\<lparr>un_restart := True\<rparr>) else (m, u))
     | After_restart \<Rightarrow> (case transition e Inactive ''restart requested'' c of (m, u) \<Rightarrow> (m, u\<lparr>un_restart := True\<rparr>)))"

end
