(* ===== verification/Sup_Loop.thy ===== *)
theory Sup_Loop
  imports Sup_Monitor
begin

text \<open>
  The loop of the service monitor (\<open>supervisord_monitor.go\<close>): the handlers of its messages, the step of
  one unit towards its desired state and the sweep over all of them, the reload of the registry, the verbs
  of the control socket, shutdown and the end of the loop; and \<open>mon_step\<close>, one turn of the loop.
\<close>

section \<open>Answers\<close>

datatype config_answer = Applied_live | Restart_required | Config_error string

datatype ctl_op = Op_status | Op_start | Op_stop | Op_restart | Op_reload | Op_report | Op_desired | Op_other string

record ctl_request =
  rq_op :: ctl_op
  rq_unit :: string
  rq_owner :: string
  rq_status :: owner_status

datatype msg =
    Activated string nat "string option"
  | Deactivated string nat after
  | Configured string nat config_answer
  | Provider string nat run_state string
  | Probe string nat health_answer
  | Timer string nat string
  | Control ctl_request

text \<open>An answer counts only for the generation it was asked under.\<close>

definition answered :: "string \<Rightarrow> nat \<Rightarrow> (cfg \<Rightarrow> cfg) \<Rightarrow> monitor \<Rightarrow> monitor" where
  "answered n g f m = with_unit n (\<lambda>c. if un_gen (snd c) = g then f c else c) m"

definition activated :: "sup_env \<Rightarrow> string option \<Rightarrow> cfg \<Rightarrow> cfg" where
  "activated e err c =
     (let c1 = (fst c, (snd c)\<lparr>un_busy := False\<rparr>)
      in case err of Some x \<Rightarrow> fail_unit e x c1 | None \<Rightarrow> tick True c1)"

definition onActivated :: "sup_env \<Rightarrow> string \<Rightarrow> nat \<Rightarrow> string option \<Rightarrow> monitor \<Rightarrow> monitor" where
  "onActivated e n g err = answered n g (activated e err)"

definition deactivated :: "sup_env \<Rightarrow> after \<Rightarrow> cfg \<Rightarrow> cfg" where
  "deactivated e a c = run_after e a (fst c, (snd c)\<lparr>un_busy := False\<rparr>)"

definition onDeactivated :: "sup_env \<Rightarrow> string \<Rightarrow> nat \<Rightarrow> after \<Rightarrow> monitor \<Rightarrow> monitor" where
  "onDeactivated e n g a = answered n g (deactivated e a)"

definition configured :: "sup_env \<Rightarrow> config_answer \<Rightarrow> cfg \<Rightarrow> cfg" where
  "configured e answer c =
     (let c1 = (fst c, (snd c)\<lparr>un_busy := False\<rparr>)
      in if answer = Applied_live then c1
         else let reason = (case answer of Config_error x \<Rightarrow> ''reconfigure: '' @ x | _ \<Rightarrow> ''reconfigured'')
              in deactivate e True reason (Some (After_reconfigure reason)) c1)"

definition onConfigured :: "sup_env \<Rightarrow> string \<Rightarrow> nat \<Rightarrow> config_answer \<Rightarrow> monitor \<Rightarrow> monitor" where
  "onConfigured e n g answer = answered n g (configured e answer)"

definition count_failure :: "sup_env \<Rightarrow> string \<Rightarrow> cfg \<Rightarrow> cfg" where
  "count_failure e err c =
     (let c2 = (fst c, (snd c)\<lparr>un_fails := Suc (un_fails (snd c))\<rparr>)
      in if un_state (snd c2) = Active then transition e Degraded (''health: '' @ err) c2 else c2)"

definition probe_failed :: "sup_env \<Rightarrow> string \<Rightarrow> cfg \<Rightarrow> cfg" where
  "probe_failed e err c = (case c of (m, u) \<Rightarrow>
     let u1 = u\<lparr>un_health := err\<rparr>;
         starting = (un_state u1 = Starting);
         in_start = (starting \<and> time_sub (se_now e (m_reads m)) (un_started_at u1) < po_start_period (un_pol u1));
         m1 = (if starting then asked m else m)
     in if in_start then tick False (m1, u1)
        else
          let c3 = count_failure e err (m1, u1)
          in if int (un_fails (snd c3)) \<ge> po_health_failures (un_pol (snd c3))
             then let reason = ''health: '' @ nat_text (un_fails (snd c3)) @ '' consecutive failures: '' @ err
                  in deactivate e True reason (Some (After_exit (exited 1) reason)) c3
             else tick False c3)"

lemma probe_failed_cases:
  fixes m u err
  defines "c1 \<equiv> (if un_state u = Starting then asked m else m, u\<lparr>un_health := err\<rparr>)"
  obtains "probe_failed e err (m, u) = tick False c1" | "probe_failed e err (m, u) = tick False (count_failure e err c1)"
    | why act where "probe_failed e err (m, u) = deactivate e True why act (count_failure e err c1)"
  by (cases "un_state u = Starting \<and> time_sub (se_now e (m_reads m)) (un_started_at u) < po_start_period (un_pol u)";
      cases "int (un_fails (snd (count_failure e err c1))) \<ge> po_health_failures (un_pol (snd (count_failure e err c1)))")
     (auto simp: probe_failed_def Let_def c1_def)

definition probe_passed :: "sup_env \<Rightarrow> cfg \<Rightarrow> cfg" where
  "probe_passed e c =
     (let c1 = (fst c, (snd c)\<lparr>un_fails := 0, un_health := ''ok''\<rparr>)
      in tick False (if un_state (snd c1) \<noteq> Active then transition e Active [] c1 else c1))"

definition probed :: "sup_env \<Rightarrow> health_answer \<Rightarrow> cfg \<Rightarrow> cfg" where
  "probed e answer c =
     (if \<not> running (snd c) then c
      else if un_busy (snd c) then tick False c
      else case answer of
        Healthy \<Rightarrow> probe_passed e c
      | Pending \<Rightarrow> tick False (fst c, (snd c)\<lparr>un_health := ''pending''\<rparr>)
      | Unhealthy err \<Rightarrow> probe_failed e err c)"

definition onProbe :: "sup_env \<Rightarrow> string \<Rightarrow> nat \<Rightarrow> health_answer \<Rightarrow> monitor \<Rightarrow> monitor" where
  "onProbe e n g answer = answered n g (probed e answer)"

definition observed :: "sup_env \<Rightarrow> run_state \<Rightarrow> string \<Rightarrow> cfg \<Rightarrow> cfg" where
  "observed e to why c = (case c of (m, u) \<Rightarrow>
     if \<not> running u then (m, u)
     else if to = Inactive \<or> to = Failed then
       let internal = (sv_provider (un_decl u) = ''internal'');
           code = (case snd (se_status e (m_reads m) (sv_name (un_decl u))) of
                     Some x \<Rightarrow> x | None \<Rightarrow> if to = Inactive \<and> \<not> internal then 0 else 1);
           reason = (if why = [] \<and> internal then ''owner went inactive'' else why)
       in deactivate e False reason (Some (After_exit (exited code) reason)) (asked m, u)
     else if to = Active \<and> un_state u = Starting \<and> \<not> po_probe (un_pol u)
       then (launch (Applied (sv_name (un_decl u)) (un_gen u)) m, u)
     else (m, u))"

definition onProvider :: "sup_env \<Rightarrow> string \<Rightarrow> nat \<Rightarrow> run_state \<Rightarrow> string \<Rightarrow> monitor \<Rightarrow> monitor" where
  "onProvider e n g to why = answered n g (observed e to why)"

definition rung :: "string \<Rightarrow> cfg \<Rightarrow> cfg" where
  "rung kind c = (fst c, if kind = ''restart'' then (snd c)\<lparr>un_waiting := False\<rparr> else snd c)"

definition onTimer :: "string \<Rightarrow> nat \<Rightarrow> string \<Rightarrow> monitor \<Rightarrow> monitor" where
  "onTimer n g kind = answered n g (rung kind)"

section \<open>Stepping towards the desired state\<close>

definition step_running :: "sup_env \<Rightarrow> string \<Rightarrow> cfg \<Rightarrow> cfg" where
  "step_running e n c = (case c of (m, u) \<Rightarrow>
     if \<not> wantUp m u then
       (if \<not> hasRunningDependents m n then deactivate e True ''stopped'' None (m, u) else (m, u))
     else case depsReady e m u of (ok, why, _) \<Rightarrow>
       if \<not> ok then deactivate e True why None (m, u)
       else if un_dirty u then configure (m, u\<lparr>un_dirty := False\<rparr>)
       else (m, u))"

definition step_down :: "sup_env \<Rightarrow> cfg \<Rightarrow> bool \<times> cfg" where
  "step_down e c = (case c of (m, u) \<Rightarrow>
     let changed = (\<lambda>c'. (un_state (snd c') \<noteq> un_state u, c'))
     in if \<not> wantUp m u \<or> un_waiting u \<or> un_latched u then
          changed (if \<not> wantUp m u \<and> \<not> un_latched u \<and> un_state u = Failed then transition e Inactive ''disabled'' (m, u) else (m, u))
        else if m_stopping m then (False, m, u)
        else case depsReady e m u of (ok, why, failed) \<Rightarrow>
          if \<not> ok then
            let to = (if failed then Failed else Inactive)
            in if un_reason u \<noteq> why \<or> un_state u \<noteq> to then (True, transition e to why (m, u\<lparr>un_reason := why\<rparr>))
               else (False, m, u)
          else changed (activate e False (m, u)))"

definition step_unit :: "sup_env \<Rightarrow> string \<Rightarrow> cfg \<Rightarrow> bool \<times> cfg" where
  "step_unit e n c =
     (if un_busy (snd c) then (False, c)
      else if running (snd c) then
        let c' = step_running e n c in (un_state (snd c') \<noteq> un_state (snd c), c')
      else step_down e c)"

definition step :: "sup_env \<Rightarrow> string \<Rightarrow> monitor \<Rightarrow> bool \<times> monitor" where
  "step e n m = (case unit_at m n of None \<Rightarrow> (False, m)
     | Some u \<Rightarrow> (case step_unit e n (m, u) of (changed, c) \<Rightarrow> (changed, put_unit n c)))"

fun step_each :: "sup_env \<Rightarrow> string list \<Rightarrow> monitor \<Rightarrow> bool \<times> monitor" where
  "step_each e [] m = (False, m)"
| "step_each e (n # ns) m =
     (case step e n m of (c1, m1) \<Rightarrow> case step_each e ns m1 of (c2, m2) \<Rightarrow> (c1 \<or> c2, m2))"

fun rounds :: "sup_env \<Rightarrow> string list \<Rightarrow> nat \<Rightarrow> monitor \<Rightarrow> monitor" where
  "rounds e ns 0 m = m"
| "rounds e ns (Suc k) m = (case step_each e ns m of (changed, m') \<Rightarrow> if changed then rounds e ns k m' else m')"

definition removable :: "unit_run \<Rightarrow> bool" where
  "removable u \<longleftrightarrow> un_gone u \<and> \<not> un_busy u \<and> \<not> running u \<and> \<not> un_waiting u"

definition stepAll :: "sup_env \<Rightarrow> monitor \<Rightarrow> monitor" where
  "stepAll e m =
     (let names = sort (map fst (m_units m));
          m' = rounds e names (length names + 1) m
      in m'\<lparr>m_units := filter (\<lambda>(n, u). \<not> removable u) (m_units m')\<rparr>)"

section \<open>The registry\<close>

definition new_unit :: "sup_env \<Rightarrow> service \<Rightarrow> int \<Rightarrow> unit_run" where
  "new_unit e d now =
     (let pol = policyOf (se_parse e) d in
      \<lparr>un_decl = d, un_print = se_print e d, un_pol = pol, un_prov = se_provider e d,
       un_state = Inactive, un_since = now, un_restarts = 0, un_health = [], un_reason = [],
       un_gen = 0, un_busy = False, un_waiting = False, un_restart = False, un_latched = False, un_held = False,
       un_dirty = False, un_adhoc = False, un_gone = False,
       un_ladder = newBackoffLadder (po_min pol) (po_max pol) (po_healthy_after pol),
       un_limit = \<lparr>li_burst = po_burst pol, li_window = po_window pol, li_starts = []\<rparr>,
       un_started_at = 0, un_fails = 0\<rparr>)"

definition add_unit :: "sup_env \<Rightarrow> service \<Rightarrow> monitor \<Rightarrow> monitor" where
  "add_unit e d m = put_unit (sv_name d) (asked m, new_unit e d (se_now e (m_reads m)))"

definition redeclare :: "sup_env \<Rightarrow> service \<Rightarrow> unit_run \<Rightarrow> unit_run" where
  "redeclare e d u =
     (let pol = policyOf (se_parse e) d;
          was = sv_enabled (un_decl u);
          lim = (un_limit u)\<lparr>li_burst := po_burst pol, li_window := po_window pol\<rparr>;
          fresh = (sv_enabled d \<and> \<not> was)
      in u\<lparr>un_decl := d, un_print := se_print e d, un_pol := pol, un_gone := False,
           un_ladder := newBackoffLadder (po_min pol) (po_max pol) (po_healthy_after pol),
           un_prov := (case se_provider e d of None \<Rightarrow> un_prov u | Some p \<Rightarrow> Some p),
           un_latched := False,
           un_held := (if fresh then False else un_held u),
           un_limit := (if fresh then lim\<lparr>li_starts := []\<rparr> else lim),
           un_dirty := running u\<rparr>)"

definition selected :: "monitor \<Rightarrow> service \<Rightarrow> bool" where
  "selected m d \<longleftrightarrow> (case m_only m of None \<Rightarrow> True | Some only \<Rightarrow> sv_name d \<in> set only) \<and> \<not> sv_retired d"

definition reload_one :: "sup_env \<Rightarrow> service \<Rightarrow> monitor \<Rightarrow> monitor" where
  "reload_one e d m =
     (if \<not> selected m d then m
      else case unit_at m (sv_name d) of
        None \<Rightarrow> add_unit e d m
      | Some u \<Rightarrow> if se_print e d = un_print u \<and> \<not> un_gone u then m
          else put_unit (sv_name d) (m, redeclare e d u))"

definition mark_gone :: "string list \<Rightarrow> monitor \<Rightarrow> monitor" where
  "mark_gone seen m = m\<lparr>m_units := map (\<lambda>(n, u). (n, if n \<in> set seen then u else u\<lparr>un_gone := True\<rparr>)) (m_units m)\<rparr>"

definition reload :: "sup_env \<Rightarrow> monitor \<Rightarrow> string option \<times> monitor" where
  "reload e m = (case se_load e (m_reads m) of (decls, errs) \<Rightarrow>
     (case errs of [] \<Rightarrow> None | x # _ \<Rightarrow> Some x,
      mark_gone (map sv_name (filter (selected m) decls)) (fold (reload_one e) decls (asked m))))"

section \<open>Control\<close>

record unit_status =
  us_unit :: string
  us_provider :: string
  us_enabled :: bool
  us_state :: run_state
  us_since :: int
  us_restarts :: nat
  us_health :: string
  us_reason :: string
  us_pid :: int
  us_last_exit :: "int option"
  us_ports :: "string list"
  us_exposed :: "string list"

record ctl_response =
  rs_ok :: bool
  rs_error :: string
  rs_pid :: int
  rs_units :: "unit_status list"

definition unitPorts :: "service \<Rightarrow> string list" where
  "unitPorts u = map (\<lambda>(bind, proto, port).
     (if bind = [] then ''loopback'' else bind) @ '':'' @ int_text port @ ''/'' @ (if proto = [] then ''tcp'' else proto)) (sv_ports u)"

definition unitExposure :: "service \<Rightarrow> string list" where
  "unitExposure u =
     (case sv_app u of None \<Rightarrow> [] | Some a \<Rightarrow> [''app:'' @ (if a = [] then sv_name u else a)]) @ map (\<lambda>n. ''mesh:'' @ n) (sv_mesh u)"

definition status_of :: "sup_env \<Rightarrow> cfg \<Rightarrow> unit_status \<times> monitor" where
  "status_of e c = (case c of (m, u) \<Rightarrow>
     let n = sv_name (un_decl u);
         asks = (un_prov u \<noteq> None);
         (pid, last) = se_status e (m_reads m) n
     in (\<lparr>us_unit = n, us_provider = sv_provider (un_decl u), us_enabled = sv_enabled (un_decl u), us_state = un_state u,
          us_since = un_since u, us_restarts = un_restarts u, us_health = un_health u, us_reason = un_reason u,
          us_pid = (if asks \<and> (running u \<or> un_state u = Stopping) then pid else 0),
          us_last_exit = (if asks then last else None),
          us_ports = unitPorts (un_decl u),
          us_exposed = (if se_exposed e (un_state u) then unitExposure (un_decl u) else [])\<rparr>,
         if asks then asked m else m))"

fun statuses_of :: "sup_env \<Rightarrow> string list \<Rightarrow> monitor \<Rightarrow> unit_status list \<times> monitor" where
  "statuses_of e [] m = ([], m)"
| "statuses_of e (n # ns) m = (case unit_at m n of
       None \<Rightarrow> statuses_of e ns m
     | Some u \<Rightarrow> (case status_of e (m, u) of (s, m1) \<Rightarrow> case statuses_of e ns m1 of (ss, m2) \<Rightarrow> (s # ss, m2)))"

definition statuses :: "sup_env \<Rightarrow> string list \<Rightarrow> monitor \<Rightarrow> unit_status list \<times> monitor" where
  "statuses e names m = statuses_of e (if names = [] then sort (map fst (m_units m)) else names) m"

definition ctl_ok :: "sup_env \<Rightarrow> unit_status list \<Rightarrow> ctl_response" where
  "ctl_ok e us = \<lparr>rs_ok = True, rs_error = [], rs_pid = se_pid e, rs_units = us\<rparr>"

definition ctl_refused :: "sup_env \<Rightarrow> string \<Rightarrow> ctl_response" where
  "ctl_refused e err = \<lparr>rs_ok = False, rs_error = err, rs_pid = se_pid e, rs_units = []\<rparr>"

definition buildAllowed :: "sup_env \<Rightarrow> cfg \<Rightarrow> string option \<times> monitor" where
  "buildAllowed e c = (se_build e (m_reads (fst c)) (un_decl (snd c)), asked (fst c))"

text \<open>A verb on one unit: \<open>f\<close> is what it does, \<open>gated\<close> whether the build gate may refuse it.\<close>

definition unit_verb :: "sup_env \<Rightarrow> string \<Rightarrow> bool \<Rightarrow> (cfg \<Rightarrow> cfg) \<Rightarrow> monitor \<Rightarrow> ctl_response \<times> monitor" where
  "unit_verb e n gated f m = (case unit_at m n of
       None \<Rightarrow> (ctl_refused e (''no service '' @ se_quote e n), m)
     | Some u \<Rightarrow>
         (case (if gated then buildAllowed e (m, u) else (None, m)) of
            (Some err, m1) \<Rightarrow> (ctl_refused e err, m1)
          | (None, m1) \<Rightarrow> (case f (m1, u) of (m2, u2) \<Rightarrow>
              (case status_of e (m2, u2) of (s, m3) \<Rightarrow> (ctl_ok e [s], put_unit n (m3, u2))))))"

definition verb_start :: "cfg \<Rightarrow> cfg" where
  "verb_start c = (case c of (m, u) \<Rightarrow>
     (m, u\<lparr>un_held := False, un_latched := False, un_waiting := False, un_adhoc := (\<not> sv_enabled (un_decl u)),
          un_limit := limiter_reset (un_limit u)\<rparr>))"

definition verb_stop :: "cfg \<Rightarrow> cfg" where
  "verb_stop c = (case c of (m, u) \<Rightarrow> (m, u\<lparr>un_held := True, un_adhoc := False, un_waiting := False\<rparr>))"

definition verb_restart :: "sup_env \<Rightarrow> cfg \<Rightarrow> cfg" where
  "verb_restart e c = (case c of (m, u) \<Rightarrow>
     let u1 = u\<lparr>un_held := False, un_latched := False, un_waiting := False, un_limit := limiter_reset (un_limit u)\<rparr>
     in if running u1 \<and> \<not> un_busy u1 then deactivate e True ''restart requested'' (Some After_restart) (m, u1) else (m, u1))"

fun hosted_units :: "sup_env \<Rightarrow> string \<Rightarrow> delegated \<Rightarrow> string list \<Rightarrow> monitor \<Rightarrow> unit_status list \<times> monitor" where
  "hosted_units e owner d [] m = ([], m)"
| "hosted_units e owner d (n # ns) m = (case unit_at m n of
       None \<Rightarrow> hosted_units e owner d ns m
     | Some u \<Rightarrow>
         if sv_provider (un_decl u) = ''internal'' \<and> sv_owner (un_decl u) = owner then
           (case status_of e (m, u) of (s, m1) \<Rightarrow> case hosted_units e owner d ns m1 of (ss, m2) \<Rightarrow>
             (s\<lparr>us_enabled := (wantUp m u \<and> d_wants (sv_name (un_decl u)) d)\<rparr> # ss, m2))
         else hosted_units e owner d ns m)"

text \<open>What a report sends back to the loop comes as a message of its own, later.\<close>

definition hosted :: "sup_env \<Rightarrow> ctl_request \<Rightarrow> monitor \<Rightarrow> ctl_response \<times> monitor" where
  "hosted e req m =
     (let bare = (\<lambda>err. \<lparr>rs_ok = False, rs_error = err, rs_pid = 0, rs_units = []\<rparr>)
      in case m_delegated m of
           None \<Rightarrow> (bare ''internal units are not delegated by this monitor'', m)
         | Some d \<Rightarrow>
             if rq_op req = Op_report then
               (case d_report (se_now e (m_reads m)) (rq_status req) d of
                  (Inl err, d') \<Rightarrow> (bare err, (asked m)\<lparr>m_delegated := Some d'\<rparr>)
                | (Inr _, d') \<Rightarrow> (ctl_ok e [], (asked m)\<lparr>m_delegated := Some d'\<rparr>))
             else (case hosted_units e (rq_owner req) d (map fst (m_units m)) m of
                  (us, m') \<Rightarrow> (ctl_ok e (sort_key us_unit us), m')))"

definition control :: "sup_env \<Rightarrow> ctl_request \<Rightarrow> monitor \<Rightarrow> ctl_response \<times> monitor" where
  "control e req m = (let n = rq_unit req in case rq_op req of
       Op_status \<Rightarrow> (if n \<noteq> [] \<and> unit_at m n = None then (ctl_refused e (''no service '' @ se_quote e n), m)
         else case statuses e (if n = [] then [] else [n]) m of (us, m') \<Rightarrow> (ctl_ok e us, m'))
     | Op_start \<Rightarrow> unit_verb e n True verb_start m
     | Op_stop \<Rightarrow> unit_verb e n False verb_stop m
     | Op_restart \<Rightarrow> unit_verb e n True (verb_restart e) m
     | Op_reload \<Rightarrow> (case reload e m of (err, m') \<Rightarrow>
         ((ctl_ok e [])\<lparr>rs_error := (case err of None \<Rightarrow> [] | Some x \<Rightarrow> x)\<rparr>, m'))
     | Op_report \<Rightarrow> hosted e req m
     | Op_desired \<Rightarrow> hosted e req m
     | Op_other x \<Rightarrow> (ctl_refused e (''unknown op '' @ se_quote e x), m))"

section \<open>The loop\<close>

definition handle_msg :: "sup_env \<Rightarrow> msg \<Rightarrow> monitor \<Rightarrow> monitor" where
  "handle_msg e v = (case v of
       Activated n g err \<Rightarrow> onActivated e n g err
     | Deactivated n g a \<Rightarrow> onDeactivated e n g a
     | Configured n g answer \<Rightarrow> onConfigured e n g answer
     | Provider n g to why \<Rightarrow> onProvider e n g to why
     | Probe n g answer \<Rightarrow> onProbe e n g answer
     | Timer n g kind \<Rightarrow> onTimer n g kind
     | Control req \<Rightarrow> (\<lambda>m. snd (control e req m)))"

definition handle :: "sup_env \<Rightarrow> msg \<Rightarrow> monitor \<Rightarrow> monitor" where
  "handle e v m = stepAll e (handle_msg e v m)"

text \<open>A forced shutdown cancels the context, after which \<open>post\<close> may drop what is in flight (\<open>lose\<close>).\<close>

definition shutdown :: "bool \<Rightarrow> monitor \<Rightarrow> monitor" where
  "shutdown force m = m\<lparr>m_stopping := True, m_cancelled := (m_cancelled m \<or> force),
     m_units := map (\<lambda>(n, u). (n, u\<lparr>un_waiting := False\<rparr>)) (m_units m)\<rparr>"

definition settled :: "monitor \<Rightarrow> unit_run \<Rightarrow> bool" where
  "settled m u \<longleftrightarrow> \<not> (un_busy u \<or> un_waiting u \<or> un_state u \<noteq> Inactive \<and> un_state u \<noteq> Failed) \<and>
     \<not> ((m_only m \<noteq> None \<or> m_until_done m) \<and> \<not> m_stopping m \<and> wantUp m u \<and> \<not> un_latched u)"

definition finished :: "monitor \<Rightarrow> int option" where
  "finished m =
     (if \<not> m_stopping m \<and> m_only m = None \<and> \<not> m_until_done m then None
      else if \<not> list_all (\<lambda>(n, u). settled m u) (m_units m) then None
      else Some (if m_stopping m then 0 else if list_ex (\<lambda>(n, u). un_state u = Failed) (m_units m) then 1 else 0))"

text \<open>The messages what is in flight may send.\<close>

fun answers :: "flight \<Rightarrow> msg \<Rightarrow> bool" where
  "answers (Activating n g d) v \<longleftrightarrow> (case v of Activated n' g' err \<Rightarrow> n' = n \<and> g' = g | _ \<Rightarrow> False)"
| "answers (Deactivating n g a) v \<longleftrightarrow> v = Deactivated n g a"
| "answers (Configuring n g d) v \<longleftrightarrow> (case v of Configured n' g' answer \<Rightarrow> n' = n \<and> g' = g | _ \<Rightarrow> False)"
| "answers (Probing n g delay) v \<longleftrightarrow> (case v of Probe n' g' answer \<Rightarrow> n' = n \<and> g' = g | _ \<Rightarrow> False)"
| "answers (Sleeping n g kind d) v \<longleftrightarrow> v = Timer n g kind"
| "answers (Applied n g) v \<longleftrightarrow> v = Probe n g Healthy"

text \<open>What is in flight is given up: the branch of \<open>post\<close> that its context has ended.\<close>

definition lose :: "nat \<Rightarrow> monitor \<Rightarrow> monitor" where
  "lose i m = m\<lparr>m_flight := take i (m_flight m) @ drop (Suc i) (m_flight m)\<rparr>"

text \<open>
  One turn of the loop: an answer arrives, a provider reports a transition of its own, a request comes
  over the socket, the registry is polled, or a signal arrives. The delegated provider changes
  off the loop. A second signal cancels the context; \<open>post\<close>, which sends what is in flight, then
  chooses between the channel of messages and giving up, so any answer in flight may be lost from there on.
\<close>

inductive mon_step :: "sup_env \<Rightarrow> monitor \<Rightarrow> monitor \<Rightarrow> bool" for e where
  arrives: "i < length (m_flight m) \<Longrightarrow> answers (m_flight m ! i) v \<Longrightarrow>
    mon_step e m (handle e v (m\<lparr>m_flight := take i (m_flight m) @ drop (Suc i) (m_flight m)\<rparr>))"
| provides: "mon_step e m (handle e (Provider n g to why) m)"
| controls: "mon_step e m (handle e (Control req) m)"
| polls: "\<not> m_stopping m \<Longrightarrow> mon_step e m (snd (reload e m))"
| signals: "mon_step e m (stepAll e (shutdown (m_stopping m) m))"
| delegates: "mon_step e m (m\<lparr>m_delegated := d\<rparr>)"
| loses: "m_cancelled m \<Longrightarrow> i < length (m_flight m) \<Longrightarrow> mon_step e m (lose i m)"

definition newMonitor :: "string list option \<Rightarrow> bool \<Rightarrow> bool \<Rightarrow> delegated option \<Rightarrow> monitor" where
  "newMonitor only force until d = \<lparr>m_units = [], m_only = only, m_force = force, m_until_done = until, m_stopping = False,
     m_cancelled = False, m_flight = [], m_events = [], m_reads = 0, m_delegated = d\<rparr>"

definition monitor_starts :: "sup_env \<Rightarrow> monitor \<Rightarrow> monitor" where
  "monitor_starts e m = stepAll e (snd (reload e m))"

text \<open>The runs of the loop, and those of them that have not lost an answer: no second signal came before their last turn.\<close>

definition mon_run :: "sup_env \<Rightarrow> monitor \<Rightarrow> monitor \<Rightarrow> bool" where
  "mon_run e = (mon_step e)\<^sup>*\<^sup>*"

definition prompt_run :: "sup_env \<Rightarrow> monitor \<Rightarrow> monitor \<Rightarrow> bool" where
  "prompt_run e = (\<lambda>m m'. mon_step e m m' \<and> \<not> m_cancelled m)\<^sup>*\<^sup>*"

end
