(* ===== verification/Sup_Laws.thy ===== *)
theory Sup_Laws
  imports Sup_Loop
begin

text \<open>
  Laws of the monitor's handlers: what each leaves alone (\<open>alike\<close>, \<open>keeps\<close>, together \<open>works\<close>), what an
  activation may do (\<open>activation\<close>), and what becomes of a unit that must stay down (\<open>tame\<close>).
\<close>

section \<open>What a handler leaves alone\<close>

definition alike :: "monitor \<Rightarrow> monitor \<Rightarrow> bool" where
  "alike m m' \<longleftrightarrow> m_units m' = m_units m \<and> m_only m' = m_only m \<and> m_force m' = m_force m \<and> m_until_done m' = m_until_done m \<and>
     m_stopping m' = m_stopping m \<and> m_cancelled m' = m_cancelled m \<and> m_delegated m' = m_delegated m"

definition keeps :: "unit_run \<Rightarrow> unit_run \<Rightarrow> bool" where
  "keeps u u' \<longleftrightarrow> sv_name (un_decl u') = sv_name (un_decl u) \<and> sv_deps (un_decl u') = sv_deps (un_decl u) \<and>
     un_prov u' = un_prov u \<and> un_pol u' = un_pol u \<and> un_held u' = un_held u \<and> un_gone u' = un_gone u \<and> un_adhoc u' = un_adhoc u"

named_theorems frame_simps \<open>projections of the results of handlers\<close>

lemma alike_refl [frame_simps]: "alike m m" by (simp add: alike_def)
lemma keeps_refl [frame_simps]: "keeps u u" by (simp add: keeps_def)
lemma alike_trans: "alike a b \<Longrightarrow> alike b c \<Longrightarrow> alike a c" by (simp add: alike_def)
lemma keeps_trans: "keeps a b \<Longrightarrow> keeps b c \<Longrightarrow> keeps a c" by (simp add: keeps_def)

lemma asked_simps [frame_simps]: "m_units (asked m) = m_units m" "m_flight (asked m) = m_flight m" "m_stopping (asked m) = m_stopping m"
  "m_cancelled (asked m) = m_cancelled m" "alike m (asked m)" "alike m' (asked m) \<longleftrightarrow> alike m' m"
  by (simp_all add: asked_def alike_def)

lemma launch_simps [frame_simps]: "m_units (launch f m) = m_units m" "m_flight (launch f m) = m_flight m @ [f]"
  "alike m' (launch f m) \<longleftrightarrow> alike m' m" "m_stopping (launch f m) = m_stopping m"
  by (simp_all add: launch_def alike_def)

text \<open>The parts of a unit that neither a transition nor the wish to run it touches.\<close>

lemma transition_simps [frame_simps]:
  "m_flight (fst (transition e to r c)) = m_flight (fst c)" "alike m (fst (transition e to r c)) \<longleftrightarrow> alike m (fst c)"
  "un_state (snd (transition e to r c)) = to" "un_busy (snd (transition e to r c)) = un_busy (snd c)"
  "un_gen (snd (transition e to r c)) = un_gen (snd c)" "un_waiting (snd (transition e to r c)) = un_waiting (snd c)"
  "un_latched (snd (transition e to r c)) = un_latched (snd c)" "un_decl (snd (transition e to r c)) = un_decl (snd c)"
  "un_prov (snd (transition e to r c)) = un_prov (snd c)" "un_pol (snd (transition e to r c)) = un_pol (snd c)"
  "un_fails (snd (transition e to r c)) = un_fails (snd c)" "un_reason (snd (transition e to r c)) = r"
  "keeps u (snd (transition e to r c)) \<longleftrightarrow> keeps u (snd c)" "m_units (fst (transition e to r c)) = m_units (fst c)"
  "un_held (snd (transition e to r c)) = un_held (snd c)" "un_gone (snd (transition e to r c)) = un_gone (snd c)"
  "un_adhoc (snd (transition e to r c)) = un_adhoc (snd c)" "m_stopping (fst (transition e to r c)) = m_stopping (fst c)"
  by (cases c; auto simp: transition_def Let_def asked_def alike_def keeps_def)+

lemma fail_unit_simps [frame_simps]:
  "m_flight (fst (fail_unit e r c)) = m_flight (fst c)" "alike m (fst (fail_unit e r c)) \<longleftrightarrow> alike m (fst c)"
  "un_state (snd (fail_unit e r c)) = Failed" "un_busy (snd (fail_unit e r c)) = un_busy (snd c)"
  "un_gen (snd (fail_unit e r c)) = un_gen (snd c)" "un_waiting (snd (fail_unit e r c)) = un_waiting (snd c)"
  "un_latched (snd (fail_unit e r c))" "un_decl (snd (fail_unit e r c)) = un_decl (snd c)"
  "un_prov (snd (fail_unit e r c)) = un_prov (snd c)" "keeps u (snd (fail_unit e r c)) \<longleftrightarrow> keeps u (snd c)"
  by (simp_all add: fail_unit_def frame_simps keeps_def)

lemma start_now_simps [frame_simps]:
  "m_flight (fst (start_now e c)) = m_flight (fst c) @ [Activating (sv_name (un_decl (snd c))) (Suc (un_gen (snd c))) (un_decl (snd c))]"
  "alike m (fst (start_now e c)) \<longleftrightarrow> alike m (fst c)" "un_state (snd (start_now e c)) = Starting" "un_busy (snd (start_now e c))"
  "un_gen (snd (start_now e c)) = Suc (un_gen (snd c))" "un_waiting (snd (start_now e c)) = un_waiting (snd c)"
  "un_latched (snd (start_now e c)) = un_latched (snd c)" "un_prov (snd (start_now e c)) = un_prov (snd c)"
  "un_decl (snd (start_now e c)) = un_decl (snd c)" "keeps u (snd (start_now e c)) \<longleftrightarrow> keeps u (snd c)"
  by (simp_all add: start_now_def Let_def split_beta frame_simps keeps_def)

lemma tick_simps [frame_simps]:
  "snd (tick b c) = snd c" "\<exists>d. m_flight (fst (tick b c)) = m_flight (fst c) @ [Probing (sv_name (un_decl (snd c))) (un_gen (snd c)) d]"
  "alike m (fst (tick b c)) \<longleftrightarrow> alike m (fst c)"
  by (simp_all add: tick_def Let_def split_beta frame_simps)

lemma deactivate_simps [frame_simps]:
  "m_flight (fst (deactivate e b r act c)) = m_flight (fst c) @
     [Deactivating (sv_name (un_decl (snd c))) (Suc (un_gen (snd c))) (case act of None \<Rightarrow> After_stop r | Some a \<Rightarrow> a)]"
  "alike m (fst (deactivate e b r act c)) \<longleftrightarrow> alike m (fst c)"
  "un_state (snd (deactivate e b r act c)) = (if b then Stopping else un_state (snd c))" "un_busy (snd (deactivate e b r act c))"
  "un_gen (snd (deactivate e b r act c)) = Suc (un_gen (snd c))" "un_waiting (snd (deactivate e b r act c)) = un_waiting (snd c)"
  "un_latched (snd (deactivate e b r act c)) = un_latched (snd c)" "un_prov (snd (deactivate e b r act c)) = un_prov (snd c)"
  "un_decl (snd (deactivate e b r act c)) = un_decl (snd c)" "keeps u (snd (deactivate e b r act c)) \<longleftrightarrow> keeps u (snd c)"
  by (simp_all add: deactivate_def Let_def split_beta frame_simps keeps_def)

lemma configure_simps [frame_simps]:
  "m_flight (fst (configure c)) = m_flight (fst c) @ [Configuring (sv_name (un_decl (snd c))) (un_gen (snd c)) (un_decl (snd c))]"
  "alike m (fst (configure c)) \<longleftrightarrow> alike m (fst c)" "snd (configure c) = (snd c)\<lparr>un_busy := True\<rparr>"
  by (simp_all add: configure_def split_beta frame_simps)

lemma refreshEnabled_simps [frame_simps]:
  "m_flight (fst (refreshEnabled e c)) = m_flight (fst c)" "alike m (fst (refreshEnabled e c)) \<longleftrightarrow> alike m (fst c)"
  "keeps u (snd (refreshEnabled e c)) \<longleftrightarrow> keeps u (snd c)" "un_busy (snd (refreshEnabled e c)) = un_busy (snd c)"
  "un_gen (snd (refreshEnabled e c)) = un_gen (snd c)" "un_state (snd (refreshEnabled e c)) = un_state (snd c)"
  "un_waiting (snd (refreshEnabled e c)) = un_waiting (snd c)" "un_latched (snd (refreshEnabled e c)) = un_latched (snd c)"
  by (simp_all add: refreshEnabled_def split_beta frame_simps keeps_def split: option.splits)

lemma wantUp_alike: "alike m m' \<Longrightarrow> wantUp m' u = wantUp m u"
  by (simp add: alike_def wantUp_def)

section \<open>Activation\<close>

text \<open>
  An activation either fails the unit, which stays as it was otherwise, or puts exactly one start in
  flight under a new generation; and then the build gate and, for a process, the port check have
  let the unit pass.
\<close>

definition activation :: "sup_env \<Rightarrow> cfg \<Rightarrow> cfg \<Rightarrow> bool" where
  "activation e c c' \<longleftrightarrow> alike (fst c) (fst c') \<and> keeps (snd c) (snd c') \<and> un_waiting (snd c') = un_waiting (snd c) \<and>
     un_decl (snd c') = un_decl (snd c) \<and>
     (m_flight (fst c') = m_flight (fst c) \<and> un_state (snd c') = Failed \<and> un_latched (snd c') \<and>
        un_busy (snd c') = un_busy (snd c) \<and> un_gen (snd c') = un_gen (snd c) \<or>
      m_flight (fst c') = m_flight (fst c) @ [Activating (sv_name (un_decl (snd c))) (Suc (un_gen (snd c))) (un_decl (snd c))] \<and>
        un_state (snd c') = Starting \<and> un_busy (snd c') \<and> un_gen (snd c') = Suc (un_gen (snd c)) \<and> un_prov (snd c) \<noteq> None \<and>
        un_latched (snd c') = un_latched (snd c) \<and>
        (\<exists>k. se_build e k (un_decl (snd c)) = None) \<and>
        (sv_provider (un_decl (snd c)) = ''process'' \<longrightarrow> (\<exists>k. se_ports e k (un_decl (snd c)) = None)))"

lemma gates_activation: "un_prov (snd c) \<noteq> None \<Longrightarrow> activation e c (gates e c)"
  by (auto simp: gates_def activation_def split_beta frame_simps split: option.splits)

lemma activation_fail: "activation e c (fail_unit e r c)"
  by (simp add: activation_def frame_simps)

lemma activation_limit: "snd c1 = (snd c)\<lparr>un_limit := l\<rparr> \<Longrightarrow> alike (fst c) (fst c1) \<Longrightarrow> m_flight (fst c1) = m_flight (fst c) \<Longrightarrow>
   activation e c1 c' \<Longrightarrow> activation e c c'"
  by (auto simp: activation_def keeps_def alike_def)

lemma start_limit_snd: "start_limit e c = (ok, c1) \<Longrightarrow>
   alike (fst c) (fst c1) \<and> m_flight (fst c1) = m_flight (fst c) \<and> (\<exists>l. snd c1 = (snd c)\<lparr>un_limit := l\<rparr>)"
  by (auto simp: start_limit_def frame_simps split: prod.splits)

lemma activate_activation: "activation e c (activate e exempt c)"
proof (cases "un_prov (snd c) = None \<or> exempt")
  case True
  then show ?thesis using gates_activation activation_fail by (auto simp: activate_def)
next
  case False
  obtain ok c1 where c1: "start_limit e c = (ok, c1)" by (cases "start_limit e c")
  then obtain l where l: "alike (fst c) (fst c1)" "m_flight (fst c1) = m_flight (fst c)" "snd c1 = (snd c)\<lparr>un_limit := l\<rparr>"
    using start_limit_snd by blast
  have prov: "un_prov (snd c) \<noteq> None" using False by simp
  have "activate e exempt c = (if ok then gates e c1 else fail_unit e (''start limit hit: '' @ int_text (po_burst (un_pol (snd c1))) @
          '' starts within '' @ se_duration e (po_window (un_pol (snd c1)))) c1)"
    using False unfolding activate_def by (simp only: c1 if_False if_True de_Morgan_disj prod.case)
  moreover have "activation e c1 (gates e c1)" using prov by (intro gates_activation) (simp add: l(3))
  ultimately have "activation e c1 (activate e exempt c)" by (simp add: activation_fail)
  then show ?thesis by (rule activation_limit [OF l(3,1,2)])
qed

section \<open>Lifting a property of units to the monitor\<close>

fun flight_unit :: "flight \<Rightarrow> string" where
  "flight_unit (Activating n g d) = n"
| "flight_unit (Deactivating n g a) = n"
| "flight_unit (Configuring n g d) = n"
| "flight_unit (Probing n g t) = n"
| "flight_unit (Sleeping n g k t) = n"
| "flight_unit (Applied n g) = n"

text \<open>What work on the unit \<open>n\<close> does to the monitor, whatever becomes of its table of units.\<close>

definition moves :: "string \<Rightarrow> monitor \<Rightarrow> monitor \<Rightarrow> bool" where
  "moves n m m' \<longleftrightarrow> m_only m' = m_only m \<and> m_force m' = m_force m \<and> m_until_done m' = m_until_done m \<and> m_stopping m' = m_stopping m \<and>
     (\<exists>fs. m_flight m' = m_flight m @ fs \<and> (\<forall>f \<in> set fs. flight_unit f = n))"

lemma moves_alike: "alike m m' \<Longrightarrow> m_flight m' = m_flight m \<Longrightarrow> moves n m m'"
  by (simp add: moves_def alike_def)

lemma moves_one: "alike m m' \<Longrightarrow> m_flight m' = m_flight m @ [f] \<Longrightarrow> flight_unit f = n \<Longrightarrow> moves n m m'"
  by (simp add: moves_def alike_def)

lemma moves_units: "moves n m (m'\<lparr>m_units := us\<rparr>) \<longleftrightarrow> moves n m m'"
  by (simp add: moves_def)

lemma moves_delegated: "moves n m (m'\<lparr>m_delegated := d\<rparr>) \<longleftrightarrow> moves n m m'"
  by (simp add: moves_def)

lemma moves_refl: "moves n m m" by (simp add: moves_def)

lemma moves_trans: "moves n a b \<Longrightarrow> moves n b c \<Longrightarrow> moves n a c"
  by (fastforce simp: moves_def)

definition works :: "cfg \<Rightarrow> cfg \<Rightarrow> bool" where
  "works c c' \<longleftrightarrow> alike (fst c) (fst c') \<and> moves (sv_name (un_decl (snd c))) (fst c) (fst c') \<and> keeps (snd c) (snd c')"

lemma works_refl: "works c c" by (simp add: works_def frame_simps moves_refl)

lemma works_trans: "works a b \<Longrightarrow> works b c \<Longrightarrow> works a c"
proof -
  assume a: "works a b" and b: "works b c"
  then have "sv_name (un_decl (snd b)) = sv_name (un_decl (snd a))" by (simp add: works_def keeps_def)
  with a b show ?thesis unfolding works_def
    by (simp add: moves_trans [of _ "fst a" "fst b" "fst c"] alike_trans [of "fst a" "fst b" "fst c"] keeps_trans [of "snd a" "snd b" "snd c"])
qed

lemma works_same: "alike (fst c) (fst c') \<Longrightarrow> m_flight (fst c') = m_flight (fst c) \<Longrightarrow> keeps (snd c) (snd c') \<Longrightarrow> works c c'"
  by (simp add: works_def moves_alike)

lemma works_one: "alike (fst c) (fst c') \<Longrightarrow> m_flight (fst c') = m_flight (fst c) @ [f] \<Longrightarrow>
   flight_unit f = sv_name (un_decl (snd c)) \<Longrightarrow> keeps (snd c) (snd c') \<Longrightarrow> works c c'"
  by (simp add: works_def moves_one)

lemma works_transition: "works c (transition e to r c)" by (rule works_same) (simp_all add: frame_simps)
lemma works_fail: "works c (fail_unit e r c)" by (rule works_same) (simp_all add: frame_simps)
lemma works_deactivate: "works c (deactivate e b r act c)"
  by (rule works_one [OF _ deactivate_simps(1)]) (simp_all add: frame_simps)
lemma works_tick: "works c (tick b c)"
proof -
  obtain d where "m_flight (fst (tick b c)) = m_flight (fst c) @ [Probing (sv_name (un_decl (snd c))) (un_gen (snd c)) d]"
    using tick_simps(2) by blast
  then show ?thesis by (rule works_one [rotated]) (simp_all add: frame_simps)
qed

lemma works_configure: "works c (configure c)"
  by (rule works_one [OF _ configure_simps(1)]) (simp_all add: frame_simps keeps_def)
lemma works_activate: "works c (activate e x c)"
  using activate_activation [of e c x] by (auto simp: activation_def intro: works_same works_one)
lemma works_launch: "flight_unit f = sv_name (un_decl u) \<Longrightarrow> works (m, u) (launch f m, u)"
  by (rule works_one [of _ _ f]) (simp_all add: frame_simps)

lemma works_then: "works c (m, u) \<Longrightarrow> keeps u u' \<Longrightarrow> works (m, u') c' \<Longrightarrow> works c c'"
  by (rule works_trans, assumption, rule works_trans [of _ "(m, u')"], rule works_same) (simp_all add: frame_simps)

lemma works_afterExit: "works c (afterExit e ex r c)"
proof -
  obtain m u where c1: "refreshEnabled e (asked (fst c), (snd c)\<lparr>un_health := []\<rparr>) = (m, u)" by fastforce
  have "keeps (snd c) ((snd c)\<lparr>un_health := []\<rparr>)" by (simp add: keeps_def)
  then have w: "works c (m, u)"
    by (intro works_same) (simp_all add: c1 [symmetric] frame_simps)
  note then_transition = works_then [OF w _ works_transition]
  have "works c (transition e Inactive r (m, u))" for r by (rule then_transition) (simp add: keeps_refl)
  moreover have "works c (transition e Inactive r (m, u\<lparr>un_latched := True\<rparr>))" for r
    by (rule then_transition) (simp add: keeps_def)
  moreover have "works c (fail_unit e r (m, u))" by (rule works_then [OF w _ works_fail]) (simp add: keeps_refl)
  moreover have "works c (launch (Sleeping (sv_name (un_decl u')) g k d) m', u')"
    if t: "transition e Inactive r (m, u\<lparr>un_ladder := l, un_waiting := True, un_restart := True\<rparr>) = (m', u')" for l m' u' r g k d
  proof -
    have "works c (m', u')" unfolding t [symmetric] by (rule then_transition) (simp add: keeps_def)
    then show ?thesis by (rule works_trans) (simp add: works_launch)
  qed
  ultimately show ?thesis by (simp add: afterExit_def c1 Let_def split: prod.splits)
qed

lemma works_run_after: "works c (run_after e a c)"
proof (cases a)
  case (After_stop r) then show ?thesis by (simp add: run_after_def works_transition)
next
  case (After_exit ex r) then show ?thesis by (simp add: run_after_def works_afterExit)
next
  case (After_reconfigure r)
  obtain m u where t: "transition e Inactive r c = (m, u)" by fastforce
  have w: "works c (m, u)" using works_transition [of c e Inactive r] by (simp add: t)
  have "works c (activate e True (m, u\<lparr>un_restart := True\<rparr>))"
    by (rule works_then [OF w _ works_activate]) (simp add: keeps_def)
  with w show ?thesis by (simp add: run_after_def After_reconfigure t)
next
  case After_restart
  obtain m u where t: "transition e Inactive ''restart requested'' c = (m, u)" by fastforce
  have w: "works c (m, u)" using works_transition [of c e Inactive "''restart requested''"] by (simp add: t)
  have "works c (m, u\<lparr>un_restart := True\<rparr>)" by (rule works_then [OF w _ works_refl]) (simp add: keeps_def)
  then show ?thesis by (simp add: run_after_def After_restart t)
qed

lemma works_step_running: "works c (step_running e n c)"
proof (cases c)
  case (Pair m u)
  have "works c (configure (m, u\<lparr>un_dirty := False\<rparr>))"
    by (rule works_then [OF _ _ works_configure]) (simp_all add: Pair works_refl keeps_def)
  then show ?thesis
    using works_deactivate works_refl by (auto simp: step_running_def Pair split: prod.splits)
qed

lemma works_step_down: "works c (snd (step_down e c))"
proof (cases c)
  case (Pair m u)
  have "works c (transition e to w (m, u\<lparr>un_reason := w'\<rparr>))" for to w w'
    by (rule works_then [OF _ _ works_transition]) (simp_all add: Pair works_refl keeps_def)
  then show ?thesis
    using works_transition works_refl works_activate by (auto simp: step_down_def Pair Let_def split: prod.splits)
qed

lemma works_step_unit: "works c (snd (step_unit e n c))"
  by (simp add: step_unit_def works_refl works_step_running works_step_down Let_def)

lemma works_upd: "keeps u u' \<Longrightarrow> works (m, u') c' \<Longrightarrow> works (m, u) c'"
  by (rule works_then [OF works_refl])

lemma keeps_idle: "keeps u (u\<lparr>un_busy := False\<rparr>)" by (simp add: keeps_def)

section \<open>Barred units\<close>

text \<open>
  While the monitor is stopping, or a unit is held or gone, no handler puts a start of it in flight or lets
  it wait for one (\<open>tame\<close>).
\<close>

definition barred :: "cfg \<Rightarrow> bool" where
  "barred c \<longleftrightarrow> m_stopping (fst c) \<or> un_held (snd c) \<or> un_gone (snd c)"

fun is_start :: "flight \<Rightarrow> bool" where
  "is_start (Activating n g d) \<longleftrightarrow> True"
| "is_start _ \<longleftrightarrow> False"

definition starts_in :: "monitor \<Rightarrow> flight set" where
  "starts_in m = {f \<in> set (m_flight m). is_start f}"

definition tame :: "cfg \<Rightarrow> cfg \<Rightarrow> bool" where
  "tame c c' \<longleftrightarrow> works c c' \<and>
     (barred c \<longrightarrow> starts_in (fst c') \<subseteq> starts_in (fst c) \<and> (un_waiting (snd c') \<longrightarrow> un_waiting (snd c)))"

lemma barred_wantUp: "barred (m, u) \<Longrightarrow> \<not> wantUp m u"
  by (auto simp: barred_def wantUp_def)

lemma barred_works: "works c c' \<Longrightarrow> barred c' = barred c"
  by (simp add: works_def barred_def alike_def keeps_def)

lemma tame_refl: "tame c c" by (simp add: tame_def works_refl)

lemma tame_trans: "tame a b \<Longrightarrow> tame b c \<Longrightarrow> tame a c"
proof -
  assume a: "tame a b" and b: "tame b c"
  then have w: "works a b" "works b c" by (simp_all add: tame_def)
  have "works a c" "barred b = barred a" using works_trans [OF w] barred_works [OF w(1)] by simp_all
  with a b show ?thesis by (auto simp: tame_def)
qed

lemma tame_works: "works c c' \<Longrightarrow> (barred c \<Longrightarrow> m_flight (fst c') = m_flight (fst c) \<or> (\<exists>f. m_flight (fst c') = m_flight (fst c) @ [f] \<and> \<not> is_start f)) \<Longrightarrow>
    (barred c \<Longrightarrow> un_waiting (snd c') \<Longrightarrow> un_waiting (snd c)) \<Longrightarrow> tame c c'"
  by (auto simp: tame_def starts_in_def)

lemma tame_upd: "keeps u u' \<Longrightarrow> (un_waiting u' \<Longrightarrow> un_waiting u) \<Longrightarrow> tame (m, u') c' \<Longrightarrow> tame (m, u) c'"
  by (rule tame_trans [of _ "(m, u')"], rule tame_works [OF works_upd [OF _ works_refl]]) auto

lemma tame_transition: "tame c (transition e to r c)" by (rule tame_works [OF works_transition]) (simp_all add: frame_simps)
lemma tame_fail: "tame c (fail_unit e r c)" by (rule tame_works [OF works_fail]) (simp_all add: frame_simps)
lemma tame_tick: "tame c (tick b c)"
proof (rule tame_works [OF works_tick])
  obtain d where d: "m_flight (fst (tick b c)) = m_flight (fst c) @ [Probing (sv_name (un_decl (snd c))) (un_gen (snd c)) d]"
    using tick_simps(2) by blast
  show "m_flight (fst (tick b c)) = m_flight (fst c) \<or> (\<exists>f. m_flight (fst (tick b c)) = m_flight (fst c) @ [f] \<and> \<not> is_start f)"
    using d by (intro disjI2 exI [of _ "Probing (sv_name (un_decl (snd c))) (un_gen (snd c)) d"]) simp
qed (simp add: frame_simps)

lemma tame_deactivate: "tame c (deactivate e b r act c)"
  by (rule tame_works [OF works_deactivate]) (simp_all add: frame_simps)
lemma tame_configure: "tame c (configure c)"
  by (rule tame_works [OF works_configure]) (simp_all add: frame_simps)
lemma tame_activate: "\<not> barred c \<Longrightarrow> tame c (activate e x c)"
  by (simp add: tame_def works_activate)

lemma afterExit_barred:
  assumes "barred c"
  shows "m_flight (fst (afterExit e ex r c)) = m_flight (fst c)" "un_waiting (snd (afterExit e ex r c)) = un_waiting (snd c)"
proof -
  let ?c1 = "refreshEnabled e (asked (fst c), (snd c)\<lparr>un_health := []\<rparr>)"
  have "keeps (snd c) ((snd c)\<lparr>un_health := []\<rparr>)" by (simp add: keeps_def)
  then have "works c ?c1" by (intro works_same) (simp_all add: frame_simps)
  with assms have "barred (fst ?c1, snd ?c1)" using barred_works by simp
  then have "afterExit e ex r c = transition e Inactive r ?c1"
    using barred_wantUp [of "fst ?c1" "snd ?c1"] by (simp add: afterExit_def Let_def split_beta)
  then show "m_flight (fst (afterExit e ex r c)) = m_flight (fst c)" "un_waiting (snd (afterExit e ex r c)) = un_waiting (snd c)"
    by (simp_all add: frame_simps)
qed

lemma tame_run_after: "tame c (run_after e a c)"
proof (cases a)
  case (After_stop r) then show ?thesis by (simp add: run_after_def tame_transition)
next
  case (After_exit ex r)
  then show ?thesis using afterExit_barred by (intro tame_works [OF works_run_after]) (auto simp: run_after_def)
next
  case (After_reconfigure r)
  obtain m u where t: "transition e Inactive r c = (m, u)" by fastforce
  have w: "tame c (m, u)" using tame_transition [of c e Inactive r] by (simp add: t)
  have "tame (m, u) (activate e True (m, u\<lparr>un_restart := True\<rparr>))" if "wantUp m u"
    using that by (intro tame_upd [OF _ _ tame_activate]) (auto simp: keeps_def barred_def wantUp_def split: if_splits)
  with w show ?thesis by (auto simp: run_after_def After_reconfigure t intro: tame_trans)
next
  case After_restart
  obtain m u where t: "transition e Inactive ''restart requested'' c = (m, u)" by fastforce
  have w: "tame c (m, u)" using tame_transition [of c e Inactive "''restart requested''"] by (simp add: t)
  have "tame (m, u) (m, u\<lparr>un_restart := True\<rparr>)" by (rule tame_upd [OF _ _ tame_refl]) (simp_all add: keeps_def)
  with w show ?thesis by (auto simp: run_after_def After_restart t intro: tame_trans)
qed

lemma tame_idle: "tame (m, u\<lparr>un_busy := False\<rparr>) c' \<Longrightarrow> tame (m, u) c'"
  by (rule tame_upd [OF keeps_idle]) simp_all

lemma tame_bodies:
  "tame c (activated e err c)" "tame c (deactivated e a c)" "tame c (configured e answer c)" "tame c (rung kind c)"
proof -
  obtain m u where c: "c = (m, u)" by (rule prod.exhaust)
  show "tame c (activated e err c)"
    unfolding c by (rule tame_idle) (simp add: activated_def Let_def tame_fail tame_tick split: option.splits)
  show "tame c (deactivated e a c)"
    unfolding c by (rule tame_idle) (simp add: deactivated_def tame_run_after)
  show "tame c (configured e answer c)"
    unfolding c by (rule tame_idle) (simp add: configured_def Let_def tame_refl tame_deactivate)
  show "tame c (rung kind c)"
    unfolding c using tame_upd [of u "u\<lparr>un_waiting := False\<rparr>" m, OF _ _ tame_refl] by (simp add: rung_def keeps_def tame_refl)
qed

lemma tame_probe_passed: "tame c (probe_passed e c)"
proof -
  obtain m u where c: "c = (m, u)" by (rule prod.exhaust)
  have t: "tame c' (tick False (transition e Active [] c'))" for c' by (rule tame_trans [OF tame_transition tame_tick])
  show ?thesis unfolding c
    by (rule tame_upd [of _ "u\<lparr>un_fails := 0, un_health := ''ok''\<rparr>"]) (simp_all add: keeps_def probe_passed_def Let_def t tame_tick)
qed

lemma tame_asked: "tame (m, u) (asked m, u)"
  by (rule tame_works [OF works_same]) (simp_all add: frame_simps)

lemma tame_count: "tame c (count_failure e err c)"
proof -
  obtain m u where c: "c = (m, u)" by (rule prod.exhaust)
  show ?thesis unfolding c
    by (rule tame_upd [of _ "u\<lparr>un_fails := Suc (un_fails u)\<rparr>"]) (simp_all add: keeps_def count_failure_def Let_def tame_transition tame_refl)
qed

lemma tame_probe_failed: "tame (m, u) (probe_failed e err (m, u))"
proof -
  let ?c1 = "(if un_state u = Starting then asked m else m, u\<lparr>un_health := err\<rparr>)"
  have 1: "tame (m, u) ?c1"
    by (rule tame_upd [of _ "u\<lparr>un_health := err\<rparr>"]) (simp_all add: keeps_def tame_asked tame_refl)
  note 2 = tame_trans [OF 1 tame_count]
  show ?thesis
    by (rule probe_failed_cases [of e err m u]) (simp_all only: tame_trans [OF 1 tame_tick] tame_trans [OF 2 tame_tick] tame_trans [OF 2 tame_deactivate])
qed

lemma tame_probed: "tame c (probed e answer c)"
proof -
  obtain m u where c: "c = (m, u)" by (rule prod.exhaust)
  have "tame c (tick False (m, u\<lparr>un_health := ''pending''\<rparr>))"
    unfolding c by (rule tame_upd [OF _ _ tame_tick]) (simp_all add: keeps_def)
  then show ?thesis using tame_probe_passed [of c e] tame_probe_failed [of m u e]
    by (simp add: probed_def c tame_refl tame_tick split: health_answer.splits)
qed

lemma tame_observed: "tame c (observed e to why c)"
proof -
  obtain m u where c: "c = (m, u)" by (rule prod.exhaust)
  have "tame c (deactivate e b r act (asked m, u))" for b r act
    unfolding c by (rule tame_trans [OF tame_asked tame_deactivate])
  moreover have "tame c (launch (Applied (sv_name (un_decl u)) (un_gen u)) m, u)"
    unfolding c by (rule tame_works [OF works_launch]) (simp_all add: frame_simps)
  ultimately show ?thesis by (simp add: observed_def c Let_def tame_refl)
qed

lemma tame_step_unit: "tame c (snd (step_unit e n c))"
proof -
  obtain m u where c: "c = (m, u)" by (rule prod.exhaust)
  have "tame c (configure (m, u\<lparr>un_dirty := False\<rparr>))"
    unfolding c by (rule tame_upd [OF _ _ tame_configure]) (simp_all add: keeps_def)
  then have 1: "tame c (step_running e n c)"
    by (simp add: step_running_def c tame_deactivate tame_refl split: prod.splits)
  have "tame (m, u) (transition e to w (m, u\<lparr>un_reason := w'\<rparr>))" for to w w'
    by (rule tame_upd [OF _ _ tame_transition]) (simp_all add: keeps_def)
  moreover have "tame (m, u) (activate e False (m, u))" if "wantUp m u"
    using that barred_wantUp by (intro tame_activate) auto
  ultimately have 2: "tame c (snd (step_down e c))"
    by (simp add: step_down_def c Let_def tame_refl tame_transition split: prod.splits)
  from 1 2 show ?thesis by (simp add: step_unit_def tame_refl Let_def)
qed

end
