(* ===== verification/Sup_Contract.thy ===== *)
theory Sup_Contract
  imports Sup_Laws
begin

text \<open>
  Properties of units lifted to the monitor. The locale \<open>unit_contract\<close> asks of a property that work on
  another unit does not break it and that a step of the unit keeps it; then the sweep over all units keeps
  it for every unit. \<open>loop_contract\<close> adds the laws for answers, verbs and the registry; then
  every turn of the loop keeps it while no answer is lost, and so does every run up to a second signal.
  \<open>lossy_contract\<close> is for properties that bear the loss of an answer: every run keeps them.
\<close>

section \<open>The contract of units\<close>

locale unit_contract =
  fixes ok :: "monitor \<Rightarrow> string \<Rightarrow> unit_run \<Rightarrow> bool" and e :: sup_env
  assumes named: "ok m n u \<Longrightarrow> sv_name (un_decl u) = n"
    and others: "ok m n u \<Longrightarrow> k \<noteq> n \<Longrightarrow> moves k m m' \<Longrightarrow> ok m' n u"
    and steps: "ok m n u \<Longrightarrow> ok (fst (snd (step_unit e n (m, u)))) n (snd (snd (step_unit e n (m, u))))"
begin

definition all_ok :: "monitor \<Rightarrow> bool" where
  "all_ok m \<longleftrightarrow> distinct (map fst (m_units m)) \<and> (\<forall>n u. unit_at m n = Some u \<longrightarrow> ok m n u)"

lemma units_free: "ok m n u \<Longrightarrow> ok (m\<lparr>m_units := us\<rparr>) n u"
  by (rule others [of m n u "CHR ''x'' # n"]) (simp_all add: moves_units moves_refl)

lemma put_ok:
  assumes "distinct (map fst (m_units m))" "\<And>k v. k \<noteq> n \<Longrightarrow> unit_at m k = Some v \<Longrightarrow> ok m k v"
    and "moves n m (fst c)" "m_units (fst c) = m_units m" "ok (fst c) n (snd c)"
  shows "all_ok (put_unit n c)"
proof -
  have "unit_at (put_unit n c) k = (if k = n then Some (snd c) else unit_at m k)" for k
    by (simp add: unit_at_def put_unit_def update_conv' assms(4))
  moreover have "ok (put_unit n c) k v" if "ok (fst c) k v" for k v
    using units_free [OF that] by (simp add: put_unit_def)
  moreover have "ok (fst c) k v" if "k \<noteq> n" "unit_at m k = Some v" for k v
    by (rule others [OF assms(2) [OF that] that(1) [symmetric] assms(3)])
  ultimately show ?thesis using assms(1,4,5) by (auto simp: all_ok_def put_unit_def distinct_update split: if_splits)
qed

lemma step_ok: "all_ok m \<Longrightarrow> all_ok (snd (step e n m))"
proof (cases "unit_at m n")
  case (Some u)
  assume m: "all_ok m"
  obtain b c where st: "step_unit e n (m, u) = (b, c)" by (rule prod.exhaust)
  have w: "works (m, u) c" using works_step_unit [of "(m, u)" e n] by (simp add: st)
  have u: "ok m n u" using m Some by (simp add: all_ok_def)
  have "all_ok (put_unit n c)"
    using w m steps [OF u] named [OF u] by (intro put_ok [of m]) (auto simp: works_def alike_def all_ok_def st)
  then show ?thesis by (simp add: step_def Some st)
qed (simp add: step_def)

lemma step_each_ok: "all_ok m \<Longrightarrow> all_ok (snd (step_each e ns m))"
proof (induction ns arbitrary: m)
  case (Cons n ns)
  obtain b m1 where "step e n m = (b, m1)" by fastforce
  with step_ok [OF Cons.prems, of n] Cons.IH [of m1] show ?case by (auto split: prod.splits)
qed simp

lemma rounds_ok: "all_ok m \<Longrightarrow> all_ok (rounds e ns k m)"
proof (induction k arbitrary: m)
  case (Suc k)
  obtain b m1 where "step_each e ns m = (b, m1)" by fastforce
  with step_each_ok [OF Suc.prems, of ns] Suc.IH [of m1] show ?case by auto
qed simp

lemma filter_ok: "all_ok m \<Longrightarrow> all_ok (m\<lparr>m_units := filter P (m_units m)\<rparr>)"
proof -
  assume m: "all_ok m"
  have "unit_at (m\<lparr>m_units := filter P (m_units m)\<rparr>) n = Some u \<Longrightarrow> unit_at m n = Some u" for n u
    using m by (auto simp: unit_at_def all_ok_def distinct_map_filter map_of_eq_Some_iff)
  with m show ?thesis using units_free by (fastforce simp: all_ok_def distinct_map_filter)
qed

lemma stepAll_ok: "all_ok m \<Longrightarrow> all_ok (stepAll e m)"
  unfolding stepAll_def Let_def by (rule filter_ok) (rule rounds_ok)

lemma with_unit_ok:
  assumes "all_ok m" "\<And>u. ok m n u \<Longrightarrow> works (m, u) (f (m, u)) \<and> ok (fst (f (m, u))) n (snd (f (m, u)))"
  shows "all_ok (with_unit n f m)"
proof (cases "unit_at m n")
  case (Some u)
  then have u: "ok m n u" using assms(1) by (simp add: all_ok_def)
  note f = assms(2) [OF u]
  show ?thesis using f assms(1) named [OF u]
    by (simp add: with_unit_def Some) (intro put_ok [of m]; auto simp: works_def alike_def all_ok_def)
qed (simp add: with_unit_def assms(1))

end

section \<open>Turns of the loop\<close>

fun flight_gen :: "flight \<Rightarrow> nat" where
  "flight_gen (Activating n g d) = g"
| "flight_gen (Deactivating n g a) = g"
| "flight_gen (Configuring n g d) = g"
| "flight_gen (Probing n g t) = g"
| "flight_gen (Sleeping n g k t) = g"
| "flight_gen (Applied n g) = g"

fun msg_body :: "sup_env \<Rightarrow> msg \<Rightarrow> cfg \<Rightarrow> cfg" where
  "msg_body e (Activated n g err) = activated e err"
| "msg_body e (Deactivated n g a) = deactivated e a"
| "msg_body e (Configured n g answer) = configured e answer"
| "msg_body e (Provider n g to why) = observed e to why"
| "msg_body e (Probe n g answer) = probed e answer"
| "msg_body e (Timer n g kind) = rung kind"
| "msg_body e (Control req) = (\<lambda>c. c)"

lemma handle_answer: "answers f v \<Longrightarrow> handle_msg e v m = answered (flight_unit f) (flight_gen f) (msg_body e v) m"
  by (cases f; cases v)
     (auto simp: handle_msg_def onActivated_def onDeactivated_def onConfigured_def onProbe_def onTimer_def)

lemma tame_body: "tame c (msg_body e v c)"
  by (cases v) (simp_all add: tame_bodies tame_observed tame_probed tame_refl)

lemma works_body: "works c (msg_body e v c)"
  using tame_body by (simp add: tame_def)

text \<open>The answer \<open>f\<close> is taken out of what is in flight.\<close>

definition taken :: "flight \<Rightarrow> monitor \<Rightarrow> monitor \<Rightarrow> bool" where
  "taken f m m' \<longleftrightarrow> set (m_flight m) = insert f (set (m_flight m')) \<and> m_units m' = m_units m \<and> m_stopping m' = m_stopping m"

lemma taken_nth: "i < length fs \<Longrightarrow> set fs = insert (fs ! i) (set (take i fs @ drop (Suc i) fs))"
  by (metis Un_insert_right id_take_nth_drop list.simps(15) set_append)

lemma status_of_simps [frame_simps]: "m_units (snd (status_of e c)) = m_units (fst c)" "m_flight (snd (status_of e c)) = m_flight (fst c)"
  "m_stopping (snd (status_of e c)) = m_stopping (fst c)" "m_cancelled (snd (status_of e c)) = m_cancelled (fst c)"
  "alike m (snd (status_of e c)) \<longleftrightarrow> alike m (fst c)"
  by (simp_all add: status_of_def Let_def split_beta frame_simps)

text \<open>Questions, answers to a client and the delegated provider change nothing a unit depends on.\<close>

definition quiet :: "monitor \<Rightarrow> monitor \<Rightarrow> bool" where
  "quiet m m' \<longleftrightarrow> m_units m' = m_units m \<and> m_flight m' = m_flight m \<and> m_only m' = m_only m \<and> m_force m' = m_force m \<and>
     m_until_done m' = m_until_done m \<and> m_stopping m' = m_stopping m \<and> m_cancelled m' = m_cancelled m"

lemma quiet_alike: "alike m m' \<Longrightarrow> m_flight m' = m_flight m \<Longrightarrow> quiet m m'"
  by (simp add: quiet_def alike_def)

lemma quiet_refl: "quiet m m" by (simp add: quiet_def)
lemma quiet_trans: "quiet a b \<Longrightarrow> quiet b c \<Longrightarrow> quiet a c" by (simp add: quiet_def)
lemma quiet_asked: "quiet m (asked m)" by (simp add: quiet_def asked_def)
lemma quiet_status: "quiet m (snd (status_of e (m, u)))" by (rule quiet_alike) (simp_all add: frame_simps)
lemma quiet_delegated: "quiet m (m'\<lparr>m_delegated := d\<rparr>) \<longleftrightarrow> quiet m m'" by (simp add: quiet_def)
lemma quiet_moves: "quiet m m' \<Longrightarrow> moves n m m'" by (simp add: quiet_def moves_def)

lemma quiet_statuses_of: "quiet m (snd (statuses_of e ns m))"
proof (induction ns arbitrary: m)
  case (Cons n ns)
  show ?case
  proof (cases "unit_at m n")
    case (Some u)
    show ?thesis using quiet_trans [OF quiet_status Cons] by (simp add: Some split_beta)
  qed (simp add: Cons)
qed (simp add: quiet_refl)

lemma quiet_hosted_units: "quiet m (snd (hosted_units e ow d ns m))"
proof (induction ns arbitrary: m)
  case (Cons n ns)
  show ?case
  proof (cases "unit_at m n")
    case (Some u)
    show ?thesis using quiet_trans [OF quiet_status Cons] Cons [of m] by (simp add: Some split_beta)
  qed (simp add: Cons)
qed (simp add: quiet_refl)

lemma quiet_hosted: "quiet m (snd (hosted e req m))"
  by (auto simp: hosted_def Let_def split_beta quiet_refl quiet_hosted_units quiet_delegated quiet_asked split: option.splits sum.splits)

text \<open>What a verb does to the monitor, and to the unit it names.\<close>

definition verb_works :: "(cfg \<Rightarrow> cfg) \<Rightarrow> bool" where
  "verb_works f \<longleftrightarrow> (\<forall>c. alike (fst c) (fst (f c)) \<and> moves (sv_name (un_decl (snd c))) (fst c) (fst (f c)) \<and>
     un_decl (snd (f c)) = un_decl (snd c))"

lemma verbs_work: "verb_works verb_start" "verb_works verb_stop" "verb_works (verb_restart e)"
proof -
  show "verb_works verb_start" "verb_works verb_stop"
    by (simp_all add: verb_works_def verb_start_def verb_stop_def split_beta alike_refl moves_refl)
  have d: "moves (sv_name (un_decl u)) m (fst (deactivate e b r act (m, u')))" if "un_decl u' = un_decl u" for m u u' b r act
    by (rule moves_one [where f = "Deactivating (sv_name (un_decl u)) (Suc (un_gen u')) (case act of None \<Rightarrow> After_stop r | Some a \<Rightarrow> a)"])
       (simp_all add: frame_simps that)
  show "verb_works (verb_restart e)"
    by (auto simp: verb_works_def verb_restart_def split_beta Let_def alike_refl moves_refl frame_simps intro!: d)
qed

locale loop_contract = unit_contract +
  assumes changed: "ok m n u \<Longrightarrow> un_state u' = un_state u \<Longrightarrow> un_gen u' = un_gen u \<Longrightarrow> un_busy u' = un_busy u \<Longrightarrow>
      un_prov u' = un_prov u \<Longrightarrow> un_decl u' = un_decl u \<Longrightarrow> (un_waiting u' \<Longrightarrow> un_waiting u) \<Longrightarrow> ok m n u'"
    and fresh: "ok m (sv_name d) (new_unit e d t)"
    and redeclared: "ok m (sv_name d) u \<Longrightarrow> ok m (sv_name d) (redeclare e d u)"
    and restarted: "ok m n u \<Longrightarrow> ok (fst (verb_restart e (m, u))) n (snd (verb_restart e (m, u)))"
    and noticed: "ok m n u \<Longrightarrow> ok (fst (observed e to why (m, u))) n (snd (observed e to why (m, u)))"
    and unconcerned: "ok m n u \<Longrightarrow> taken f m m' \<Longrightarrow> flight_unit f \<noteq> n \<or> flight_gen f \<noteq> un_gen u \<Longrightarrow> ok m' n u"
    and concerned: "ok m (flight_unit f) u \<Longrightarrow> taken f m m' \<Longrightarrow> flight_gen f = un_gen u \<Longrightarrow> answers f v \<Longrightarrow>
      ok (fst (msg_body e v (m', u))) (flight_unit f) (snd (msg_body e v (m', u)))"
    and stopped: "ok m n u \<Longrightarrow> ok (m\<lparr>m_stopping := True, m_cancelled := b\<rparr>) n (u\<lparr>un_waiting := False\<rparr>)"
begin

lemma quiet_ok: "ok m n u \<Longrightarrow> quiet m m' \<Longrightarrow> ok m' n u"
  using others [of m n u "CHR ''x'' # n" m'] quiet_moves by auto

lemma all_quiet: "all_ok m \<Longrightarrow> quiet m m' \<Longrightarrow> all_ok m'"
  using quiet_ok [of m _ _ m'] by (auto simp: all_ok_def unit_at_def quiet_def)

lemma answer_ok:
  assumes m: "all_ok m" and t: "taken f m m'" and v: "answers f v"
  shows "all_ok (handle_msg e v m')"
proof -
  have rest: "ok m' k w" if "unit_at m k = Some w" "k \<noteq> flight_unit f \<or> flight_gen f \<noteq> un_gen w" for k w
    using m that by (intro unconcerned [OF _ t]) (auto simp: all_ok_def)
  have same: "unit_at m' = unit_at m" using t by (simp add: unit_at_def taken_def fun_eq_iff)
  have keys: "distinct (map fst (m_units m'))" using m t by (simp add: all_ok_def taken_def)
  show ?thesis
  proof (cases "unit_at m (flight_unit f)")
    case None
    then have "ok m' k w" if "unit_at m k = Some w" for k w using rest [OF that] that by (cases "k = flight_unit f") auto
    then show ?thesis using keys by (simp add: handle_answer [OF v] answered_def with_unit_def same None all_ok_def)
  next
    case (Some u)
    have u: "ok m (flight_unit f) u" using m Some by (simp add: all_ok_def)
    define c where "c = (if un_gen u = flight_gen f then msg_body e v (m', u) else (m', u))"
    have c: "works (m', u) c" "ok (fst c) (flight_unit f) (snd c)"
      using concerned [OF u t _ v] rest [OF Some] works_body [of "(m', u)" e v] works_refl [of "(m', u)"] by (auto simp: c_def)
    have "all_ok (put_unit (flight_unit f) c)"
      using c(1) keys rest named [OF u] by (intro put_ok [OF _ _ _ _ c(2), of m']) (auto simp: works_def alike_def same)
    then show ?thesis by (simp add: handle_answer [OF v] answered_def with_unit_def same Some c_def)
  qed
qed

lemma provider_ok: "all_ok m \<Longrightarrow> all_ok (onProvider e n g to why m)"
  unfolding onProvider_def answered_def
proof (erule with_unit_ok)
  fix u assume u: "ok m n u"
  have "works (m, u) (observed e to why (m, u))" using tame_observed [of "(m, u)" e to why] by (simp add: tame_def)
  with noticed [OF u] u show "works (m, u) (if un_gen (snd (m, u)) = g then observed e to why (m, u) else (m, u)) \<and>
      ok (fst (if un_gen (snd (m, u)) = g then observed e to why (m, u) else (m, u))) n
         (snd (if un_gen (snd (m, u)) = g then observed e to why (m, u) else (m, u)))"
    by (simp add: works_refl)
qed

lemma unit_verb_ok:
  assumes "all_ok m" "verb_works f" "\<And>m u. ok m n u \<Longrightarrow> ok (fst (f (m, u))) n (snd (f (m, u)))"
  shows "all_ok (snd (unit_verb e n gated f m))"
proof (cases "unit_at m n")
  case (Some u)
  define m1 where "m1 = (if gated then asked m else m)"
  have all1: "all_ok m1" using all_quiet [OF assms(1)] by (simp add: m1_def quiet_asked quiet_refl)
  have "m_units m1 = m_units m" by (simp add: m1_def frame_simps)
  then have u: "ok m1 n u" using Some all1 by (simp add: all_ok_def unit_at_def)
  let ?c = "f (m1, u)"
  have w: "moves n m1 (fst ?c)" "m_units (fst ?c) = m_units m1"
    using assms(2) named [OF u] by (auto simp: verb_works_def alike_def)
  have q: "quiet (fst ?c) (snd (status_of e ?c))" using quiet_status [of "fst ?c" e "snd ?c"] by simp
  have put: "all_ok (put_unit n (snd (status_of e ?c), snd ?c))"
    using moves_trans [OF w(1) quiet_moves [OF q]] all1 w(2) q quiet_ok [OF assms(3) [OF u] q]
    by (intro put_ok [of m1]) (simp_all add: all_ok_def quiet_def)
  have "snd (unit_verb e n gated f m) = m1 \<or> snd (unit_verb e n gated f m) = put_unit n (snd (status_of e ?c), snd ?c)"
    by (simp add: unit_verb_def Some m1_def buildAllowed_def split_beta split: option.splits)
  with all1 put show ?thesis by auto
qed (simp add: unit_verb_def assms(1))

lemma verb_simple_ok: "ok m n u \<Longrightarrow> ok (fst (verb_start (m, u))) n (snd (verb_start (m, u)))"
  "ok m n u \<Longrightarrow> ok (fst (verb_stop (m, u))) n (snd (verb_stop (m, u)))"
  by (simp_all add: verb_start_def verb_stop_def) (rule changed; simp)+

lemma reload_one_ok: "all_ok m \<Longrightarrow> all_ok (reload_one e d m)"
proof -
  assume m: "all_ok m"
  have "all_ok (put_unit (sv_name d) (m, redeclare e d u))" if "unit_at m (sv_name d) = Some u" for u
    using m that redeclared [of m d u] by (intro put_ok [of m]) (simp_all add: all_ok_def moves_refl)
  moreover have "all_ok (add_unit e d m)" unfolding add_unit_def
    using all_quiet [OF m quiet_asked] fresh by (intro put_ok [of "asked m"]) (simp_all add: all_ok_def moves_refl)
  ultimately show ?thesis using m by (simp add: reload_one_def split: option.splits)
qed

lemma map_units_ok:
  assumes "all_ok m" "\<And>n u. ok m n u \<Longrightarrow> ok m' n (f n u)" "m_units m' = m_units m"
  shows "all_ok (m'\<lparr>m_units := map (\<lambda>(n, u). (n, f n u)) (m_units m)\<rparr>)"
proof -
  have "map_of (map (\<lambda>(n, u). (n, f n u)) us) n = map_option (f n) (map_of us n)" for us :: "(string \<times> unit_run) list" and n
    by (induction us) auto
  then have "unit_at (m'\<lparr>m_units := map (\<lambda>(n, u). (n, f n u)) (m_units m)\<rparr>) n = map_option (f n) (unit_at m n)" for n
    by (simp add: unit_at_def)
  moreover have "fst \<circ> (\<lambda>(n, u). (n, f n u)) = fst" by (auto simp: fun_eq_iff)
  ultimately show ?thesis using assms(1) units_free [OF assms(2)] by (auto simp: all_ok_def)
qed

lemma reload_ok: "all_ok m \<Longrightarrow> all_ok (snd (reload e m))"
proof -
  assume m: "all_ok m"
  have f: "all_ok (fold (reload_one e) ds (asked m))" for ds
    using fold_invariant [of ds "\<lambda>_. True" all_ok "asked m" "reload_one e"] reload_one_ok all_quiet [OF m quiet_asked] by blast
  have "all_ok (mark_gone seen (fold (reload_one e) ds (asked m)))" for seen ds
    unfolding mark_gone_def by (rule map_units_ok [OF f]) (auto intro: changed)
  then show ?thesis by (simp add: reload_def split_beta)
qed

lemma control_ok: "all_ok m \<Longrightarrow> all_ok (snd (control e req m))"
proof (cases "rq_op req")
  case Op_status
  assume m: "all_ok m"
  with all_quiet [OF m] show ?thesis
    by (simp add: control_def Op_status Let_def split_beta statuses_def quiet_statuses_of)
next
  case Op_reload
  assume m: "all_ok m"
  show ?thesis using reload_ok [OF m] by (simp add: control_def Op_reload split_beta)
qed (simp_all add: control_def unit_verb_ok verbs_work verb_simple_ok restarted all_quiet [OF _ quiet_hosted])

lemma shutdown_ok: "all_ok m \<Longrightarrow> all_ok (shutdown b m)"
proof -
  assume m: "all_ok m"
  have "all_ok ((m\<lparr>m_stopping := True, m_cancelled := (m_cancelled m \<or> b)\<rparr>)\<lparr>m_units := map (\<lambda>(n, u). (n, u\<lparr>un_waiting := False\<rparr>)) (m_units m)\<rparr>)"
    by (rule map_units_ok [OF m]) (simp_all add: stopped)
  then show ?thesis by (simp add: shutdown_def)
qed

lemma turn_but_loss_ok:
  "mon_step e m m' \<Longrightarrow> all_ok m \<Longrightarrow>
   (\<And>i. m_cancelled m \<Longrightarrow> i < length (m_flight m) \<Longrightarrow> all_ok (lose i m)) \<Longrightarrow>
   all_ok m'"
proof (induction rule: mon_step.induct)
  case (arrives i m v)
  have "taken (m_flight m ! i) m (m\<lparr>m_flight := take i (m_flight m) @ drop (Suc i) (m_flight m)\<rparr>)"
    using taken_nth [OF arrives(1)] by (simp add: taken_def)
  from stepAll_ok [OF answer_ok [OF arrives(3) this arrives(2)]] show ?case by (simp add: handle_def)
next
  case (delegates m d)
  then show ?case using quiet_delegated [where m = m and m' = m and d = d] by (auto intro: all_quiet quiet_refl)
next
  case (loses m i)
  then show ?case by blast
qed (simp_all add: handle_def handle_msg_def stepAll_ok provider_ok control_ok reload_ok shutdown_ok)

lemma prompt_turn_ok: "mon_step e m m' \<Longrightarrow> \<not> m_cancelled m \<Longrightarrow> all_ok m \<Longrightarrow> all_ok m'"
  by (rule turn_but_loss_ok) auto

lemma prompt_ok: "prompt_run e m m' \<Longrightarrow> all_ok m \<Longrightarrow> all_ok m'"
  unfolding prompt_run_def by (induction rule: rtranclp_induct) (auto intro: prompt_turn_ok)

lemma start_ok: "all_ok (monitor_starts e (newMonitor only force until d))"
proof -
  have "all_ok (newMonitor only force until d)" by (simp add: newMonitor_def all_ok_def unit_at_def)
  then show ?thesis unfolding monitor_starts_def by (intro stepAll_ok reload_ok)
qed

end

locale lossy_contract = loop_contract +
  assumes lost: "ok m n u \<Longrightarrow> taken f m m' \<Longrightarrow> ok m' n u"
begin

lemma loss_ok: "all_ok m \<Longrightarrow> i < length (m_flight m) \<Longrightarrow> all_ok (lose i m)"
proof -
  assume m: "all_ok m" and i: "i < length (m_flight m)"
  have "taken (m_flight m ! i) m (lose i m)"
    using taken_nth [OF i] by (simp add: taken_def lose_def)
  from lost [OF _ this] m show ?thesis by (simp add: all_ok_def unit_at_def lose_def)
qed

lemma turn_ok: "mon_step e m m' \<Longrightarrow> all_ok m \<Longrightarrow> all_ok m'"
  by (rule turn_but_loss_ok) (auto intro: loss_ok)

lemma run_ok: "mon_run e m m' \<Longrightarrow> all_ok m \<Longrightarrow> all_ok m'"
  unfolding mon_run_def by (induction rule: rtranclp_induct) (auto intro: turn_ok)

end

end
