(* ===== verification/Sup_Feed.thy ===== *)
theory Sup_Feed
  imports Sup_Contract
begin

text \<open>
  The contract \<open>fed\<close> of a unit: whenever it runs, stops or is busy, an answer of its current generation
  is in flight that will bring the loop back to it. Every turn of the loop keeps it, whatever the
  answers, their order and the surroundings.
\<close>

fun calls :: "string \<Rightarrow> nat \<Rightarrow> flight \<Rightarrow> bool" where
  "calls n g (Activating n' g' d) \<longleftrightarrow> n' = n \<and> g' = g"
| "calls n g (Deactivating n' g' a) \<longleftrightarrow> n' = n \<and> g' = g"
| "calls n g (Configuring n' g' d) \<longleftrightarrow> n' = n \<and> g' = g"
| "calls n g _ \<longleftrightarrow> False"

fun drives :: "string \<Rightarrow> nat \<Rightarrow> flight \<Rightarrow> bool" where
  "drives n g (Activating n' g' d) \<longleftrightarrow> n' = n \<and> g' = g"
| "drives n g (Deactivating n' g' a) \<longleftrightarrow> n' = n \<and> g' = g"
| "drives n g (Probing n' g' t) \<longleftrightarrow> n' = n \<and> g' = g"
| "drives n g (Applied n' g') \<longleftrightarrow> n' = n \<and> g' = g"
| "drives n g _ \<longleftrightarrow> False"

definition unit_ok :: "flight set \<Rightarrow> string \<Rightarrow> unit_run \<Rightarrow> bool" where
  "unit_ok F n u \<longleftrightarrow> sv_name (un_decl u) = n \<and>
     (running u \<longrightarrow> un_prov u \<noteq> None \<and> (\<exists>f \<in> F. drives n (un_gen u) f)) \<and>
     (un_busy u \<longrightarrow> (\<exists>f \<in> F. calls n (un_gen u) f)) \<and>
     (un_state u = Stopping \<longrightarrow> (\<exists>a. Deactivating n (un_gen u) a \<in> F))"

definition fed :: "monitor \<Rightarrow> string \<Rightarrow> unit_run \<Rightarrow> bool" where
  "fed m n u \<longleftrightarrow> unit_ok (set (m_flight m)) n u"

lemma unit_ok_mono: "unit_ok F n u \<Longrightarrow> F \<subseteq> G \<Longrightarrow> unit_ok G n u"
  unfolding unit_ok_def by blast

lemma calls_unit: "calls n g f \<Longrightarrow> flight_unit f = n" by (cases f) auto
lemma drives_unit: "drives n g f \<Longrightarrow> flight_unit f = n" by (cases f) auto

lemma running_simps [simp]: "un_state u = Inactive \<Longrightarrow> \<not> running u" "un_state u = Failed \<Longrightarrow> \<not> running u"
  "un_state u = Stopping \<Longrightarrow> \<not> running u" "un_state u = Starting \<Longrightarrow> running u" "un_state u = Active \<Longrightarrow> running u"
  "un_state u = Degraded \<Longrightarrow> running u"
  by (simp_all add: running_def)

lemma ok_rest: "sv_name (un_decl u) = n \<Longrightarrow> un_state u = Inactive \<or> un_state u = Failed \<Longrightarrow> \<not> un_busy u \<Longrightarrow> unit_ok F n u"
  by (auto simp: unit_ok_def)

lemma ok_activation:
  "activation e c c' \<Longrightarrow> sv_name (un_decl (snd c)) = n \<Longrightarrow> \<not> un_busy (snd c) \<Longrightarrow> fed (fst c') n (snd c')"
  by (auto simp: activation_def fed_def unit_ok_def keeps_def)

lemma ok_deactivate:
  "sv_name (un_decl (snd c)) = n \<Longrightarrow> running (snd c) \<longrightarrow> un_prov (snd c) \<noteq> None \<Longrightarrow>
     b \<or> un_state (snd c) \<noteq> Stopping \<Longrightarrow> fed (fst (deactivate e b r act c)) n (snd (deactivate e b r act c))"
  by (auto simp: fed_def unit_ok_def frame_simps running_def split: run_state.splits)

lemma ok_same:
  "unit_ok F n u \<Longrightarrow> un_state u' = un_state u \<Longrightarrow> un_gen u' = un_gen u \<Longrightarrow> un_busy u' = un_busy u \<Longrightarrow>
     un_prov u \<noteq> None \<longrightarrow> un_prov u' \<noteq> None \<Longrightarrow> sv_name (un_decl u') = n \<Longrightarrow> unit_ok F n u'"
  by (auto simp: unit_ok_def running_def)

lemma ok_step_running:
  assumes "fed m n u" "running u" "\<not> un_busy u"
  shows "fed (fst (step_running e n (m, u))) n (snd (step_running e n (m, u)))"
proof -
  have d: "fed (fst (deactivate e True r act (m, u))) n (snd (deactivate e True r act (m, u)))" for r act
    using assms by (intro ok_deactivate) (auto simp: fed_def unit_ok_def)
  have "fed (fst (configure (m, u\<lparr>un_dirty := False\<rparr>))) n (snd (configure (m, u\<lparr>un_dirty := False\<rparr>)))"
    using assms by (auto simp: fed_def unit_ok_def frame_simps running_def)
  with d assms(1) show ?thesis by (auto simp: step_running_def split: prod.splits)
qed

lemma ok_step_down:
  assumes "fed m n u" "\<not> running u" "\<not> un_busy u"
  shows "fed (fst (snd (step_down e (m, u)))) n (snd (snd (step_down e (m, u))))"
proof -
  have name: "sv_name (un_decl u) = n" using assms by (simp add: fed_def unit_ok_def)
  have t: "fed (fst (transition e to r (m, u'))) n (snd (transition e to r (m, u')))"
    if "to = Inactive \<or> to = Failed" "\<not> un_busy u'" "sv_name (un_decl u') = n" for to r u'
    using that by (simp add: fed_def ok_rest frame_simps)
  have "fed (fst (activate e False (m, u))) n (snd (activate e False (m, u)))"
    using name assms(3) by (intro ok_activation [OF activate_activation]) auto
  moreover have "fed (fst (transition e to r (m, u\<lparr>un_reason := w\<rparr>))) n (snd (transition e to r (m, u\<lparr>un_reason := w\<rparr>)))"
    if "to = Inactive \<or> to = Failed" for to r w using t [OF that] name assms(3) by simp
  ultimately show ?thesis using t name assms(1,3)
    by (simp add: step_down_def Let_def split: prod.splits)
qed

lemma ok_step_unit: "fed m n u \<Longrightarrow> fed (fst (snd (step_unit e n (m, u)))) n (snd (snd (step_unit e n (m, u))))"
  using ok_step_running ok_step_down by (simp add: step_unit_def Let_def)

lemma fed_others: "fed m n u \<Longrightarrow> k \<noteq> n \<Longrightarrow> moves k m m' \<Longrightarrow> fed m' n u"
  unfolding fed_def moves_def by (elim conjE exE, rule unit_ok_mono) auto

section \<open>Handlers\<close>

text \<open>The contract less what drives a running unit, which the answer to a probe has just used up.\<close>

definition fed_but :: "monitor \<Rightarrow> string \<Rightarrow> unit_run \<Rightarrow> bool" where
  "fed_but m n u \<longleftrightarrow> sv_name (un_decl u) = n \<and> (running u \<longrightarrow> un_prov u \<noteq> None) \<and>
     (un_busy u \<longrightarrow> (\<exists>f \<in> set (m_flight m). calls n (un_gen u) f)) \<and>
     (un_state u = Stopping \<longrightarrow> (\<exists>a. Deactivating n (un_gen u) a \<in> set (m_flight m)))"

abbreviation fed_cfg :: "string \<Rightarrow> cfg \<Rightarrow> bool" where
  "fed_cfg n c \<equiv> fed (fst c) n (snd c)"

abbreviation fed_but_cfg :: "string \<Rightarrow> cfg \<Rightarrow> bool" where
  "fed_but_cfg n c \<equiv> fed_but (fst c) n (snd c)"

lemma fed_but: "fed m n u \<Longrightarrow> fed_but m n u"
  by (simp add: fed_def fed_but_def unit_ok_def)

lemma tick_ok: "fed_but_cfg n c \<Longrightarrow> fed_cfg n (tick b c)"
  using tick_simps(2) [of b c] by (auto simp: fed_def fed_but_def unit_ok_def frame_simps)

lemma deactivate_ok: "fed_but_cfg n c \<Longrightarrow> b \<or> un_state (snd c) \<noteq> Stopping \<Longrightarrow> fed_cfg n (deactivate e b r act c)"
  by (rule ok_deactivate) (simp_all add: fed_but_def)

lemma fail_ok: "fed_but_cfg n c \<Longrightarrow> \<not> un_busy (snd c) \<Longrightarrow> fed_cfg n (fail_unit e r c)"
  by (simp add: fed_but_def fed_def frame_simps ok_rest)

lemma fed_but_same: "fed_but m n u \<Longrightarrow> un_state u' = un_state u \<Longrightarrow> un_gen u' = un_gen u \<Longrightarrow> un_busy u' = un_busy u \<Longrightarrow>
    un_prov u' = un_prov u \<Longrightarrow> un_decl u' = un_decl u \<Longrightarrow> m_flight m' = m_flight m \<Longrightarrow> fed_but m' n u'"
  by (simp add: fed_but_def running_def)

lemma fed_but_idle: "fed_but m n u \<Longrightarrow> m_flight m' = m_flight m \<Longrightarrow> un_state u' = Active \<or> un_state u' = Degraded \<Longrightarrow> running u \<Longrightarrow>
    \<not> un_busy u' \<Longrightarrow> un_prov u' = un_prov u \<Longrightarrow> un_decl u' = un_decl u \<Longrightarrow> fed_but m' n u'"
  by (auto simp: fed_but_def)

lemma afterExit_rest:
  "un_state (snd (afterExit e ex r c)) = Inactive \<or> un_state (snd (afterExit e ex r c)) = Failed"
  "un_busy (snd (afterExit e ex r c)) = un_busy (snd c)"
  by (auto simp: afterExit_def Let_def frame_simps split_beta)

lemma run_after_ok:
  assumes "sv_name (un_decl u) = n" "\<not> un_busy u"
  shows "fed (fst (run_after e a (m, u))) n (snd (run_after e a (m, u)))"
proof (cases a)
  case (After_stop r)
  then show ?thesis using assms by (simp add: run_after_def fed_def ok_rest frame_simps)
next
  case (After_exit ex r)
  have "sv_name (un_decl (snd (afterExit e ex r (m, u)))) = n"
    using works_afterExit [of "(m, u)" e ex r] assms(1) by (simp add: works_def keeps_def)
  then show ?thesis using assms(2) afterExit_rest [of e ex r "(m, u)"] by (simp add: After_exit run_after_def fed_def ok_rest)
next
  case (After_reconfigure r)
  obtain m1 u1 where t: "transition e Inactive r (m, u) = (m1, u1)" by fastforce
  have u1: "un_state u1 = Inactive" "\<not> un_busy u1" "sv_name (un_decl u1) = n"
    using transition_simps(3,4,8) [of e Inactive r "(m, u)"] assms by (simp_all add: t)
  then have "fed (fst (activate e True (m1, u1\<lparr>un_restart := True\<rparr>))) n (snd (activate e True (m1, u1\<lparr>un_restart := True\<rparr>)))"
    by (intro ok_activation [OF activate_activation]) simp_all
  with u1 show ?thesis by (simp add: run_after_def After_reconfigure t fed_def ok_rest)
next
  case After_restart
  obtain m1 u1 where t: "transition e Inactive ''restart requested'' (m, u) = (m1, u1)" by fastforce
  have "un_state u1 = Inactive" "\<not> un_busy u1" "sv_name (un_decl u1) = n"
    using transition_simps(3,4,8) [of e Inactive "''restart requested''" "(m, u)"] assms by (simp_all add: t)
  then show ?thesis by (simp add: run_after_def After_restart t fed_def ok_rest)
qed

lemma count_failure_ok:
  assumes b: "fed_but m n u" and r: "running u" "\<not> un_busy u"
  shows "fed_but_cfg n (count_failure e err (m, u))"
proof -
  let ?u2 = "u\<lparr>un_fails := Suc (un_fails u)\<rparr>"
  have "fed_but_cfg n (transition e Degraded w (m, ?u2))" for w
    by (rule fed_but_idle [OF b _ _ r(1)]) (simp_all add: frame_simps r(2))
  moreover have "fed_but m n ?u2" by (rule fed_but_same [OF b]) simp_all
  ultimately show ?thesis by (simp add: count_failure_def Let_def)
qed

lemma probe_failed_ok:
  assumes b: "fed_but m n u" and r: "running u" "\<not> un_busy u"
  shows "fed_cfg n (probe_failed e err (m, u))"
proof -
  let ?m1 = "if un_state u = Starting then asked m else m" and ?u1 = "u\<lparr>un_health := err\<rparr>"
  have b1: "fed_but ?m1 n ?u1" by (rule fed_but_same [OF b]) (simp_all add: frame_simps)
  have "running ?u1" "\<not> un_busy ?u1" using r by (simp_all add: running_def)
  note 3 = count_failure_ok [OF b1 this, of e err]
  show ?thesis
    by (rule probe_failed_cases [of e err m u]) (simp_all only: tick_ok deactivate_ok b1 3 fst_conv snd_conv simp_thms)
qed

lemma probe_passed_ok:
  assumes b: "fed_but m n u" and r: "running u" "\<not> un_busy u"
  shows "fed_cfg n (probe_passed e (m, u))"
proof -
  let ?h = "u\<lparr>un_fails := 0, un_health := ''ok''\<rparr>"
  have "fed_but m n ?h" by (rule fed_but_same [OF b]) simp_all
  moreover have "fed_but_cfg n (transition e Active [] (m, ?h))"
    by (rule fed_but_idle [OF b _ _ r(1)]) (simp_all add: frame_simps r(2))
  ultimately show ?thesis by (simp add: probe_passed_def Let_def tick_ok)
qed

lemma probed_ok: "fed_but m n u \<Longrightarrow> fed_cfg n (probed e answer (m, u))"
proof -
  assume b: "fed_but m n u"
  have "fed_but m n (u\<lparr>un_health := ''pending''\<rparr>)" by (rule fed_but_same [OF b]) simp_all
  moreover have "fed m n u" if "\<not> running u" using b that by (simp add: fed_def fed_but_def unit_ok_def)
  ultimately show ?thesis
    using probe_passed_ok [OF b] probe_failed_ok [OF b] b by (simp add: probed_def tick_ok split: health_answer.splits)
qed

lemma observed_ok: "fed m n u \<Longrightarrow> fed_cfg n (observed e to why (m, u))"
proof -
  assume u: "fed m n u"
  have "fed_but (asked m) n u" using fed_but [OF u] by (simp add: fed_but_def frame_simps)
  then have d: "fed_cfg n (deactivate e False r act (asked m, u))" if "running u" for r act
    using that by (intro deactivate_ok) (auto simp: running_def)
  have "fed (launch (Applied (sv_name (un_decl u)) (un_gen u)) m) n u"
    using u unfolding fed_def by (rule unit_ok_mono) (auto simp: frame_simps)
  with d u show ?thesis by (simp add: observed_def Let_def)
qed

text \<open>What is left of the contract when an answer of the unit's generation is taken out.\<close>

lemma fed_taken: "fed m n u \<Longrightarrow> taken f m m' \<Longrightarrow> \<not> calls n (un_gen u) f \<Longrightarrow> fed_but m' n u"
proof -
  assume a: "fed m n u" "taken f m m'" "\<not> calls n (un_gen u) f"
  then have "Deactivating n (un_gen u) x \<noteq> f" for x by auto
  with a show ?thesis by (simp add: fed_def fed_but_def unit_ok_def taken_def)
qed

lemma fed_idle: "fed m n u \<Longrightarrow> taken f m m' \<Longrightarrow> \<forall>a. f \<noteq> Deactivating n (un_gen u) a \<Longrightarrow> fed_but m' n (u\<lparr>un_busy := False\<rparr>)"
  by (auto simp: fed_def fed_but_def unit_ok_def taken_def running_def)

lemma body_ok:
  assumes u: "fed m (flight_unit f) u" and t: "taken f m m'" and g: "flight_gen f = un_gen u" and v: "answers f v"
  shows "fed_cfg (flight_unit f) (msg_body e v (m', u))"
proof (cases f)
  case (Activating n h d)
  have "fed_but m' n (u\<lparr>un_busy := False\<rparr>)" using fed_idle [OF u t] by (simp add: Activating)
  with v show ?thesis
    by (cases v) (simp_all add: Activating activated_def Let_def tick_ok fail_ok split: option.splits)
next
  case (Deactivating n h a)
  have "sv_name (un_decl u) = n" using u by (simp add: fed_def unit_ok_def Deactivating)
  with v show ?thesis using run_after_ok [of "u\<lparr>un_busy := False\<rparr>" n e a m'] by (simp add: Deactivating deactivated_def)
next
  case (Configuring n h d)
  have "fed_but m' n (u\<lparr>un_busy := False\<rparr>)" using fed_idle [OF u t] by (simp add: Configuring)
  moreover have "fed m' n (u\<lparr>un_busy := False\<rparr>)" using u t
    by (auto simp: fed_def unit_ok_def taken_def running_def Configuring)
  ultimately show ?thesis using v
    by (cases v) (simp_all add: Configuring configured_def Let_def deactivate_ok)
next
  case (Probing n h d)
  have "fed_but m' n u" using fed_taken [OF u t] by (simp add: Probing)
  with v show ?thesis by (cases v) (simp_all add: Probing probed_ok)
next
  case (Sleeping n h k d)
  have "fed m' n u" using u t by (auto simp: fed_def unit_ok_def taken_def Sleeping)
  with v show ?thesis by (simp add: Sleeping rung_def fed_def unit_ok_def running_def)
next
  case (Applied n h)
  have "fed_but m' n u" using fed_taken [OF u t] by (simp add: Applied)
  with v show ?thesis by (simp add: Applied probed_ok)
qed

lemma fed_unconcerned: "fed m n u \<Longrightarrow> taken f m m' \<Longrightarrow> flight_unit f \<noteq> n \<or> flight_gen f \<noteq> un_gen u \<Longrightarrow> fed m' n u"
proof -
  assume a: "fed m n u" "taken f m m'" "flight_unit f \<noteq> n \<or> flight_gen f \<noteq> un_gen u"
  have 1: "\<not> calls n (un_gen u) f" "\<not> drives n (un_gen u) f" using a(3) by (cases f; auto)+
  then have 2: "Deactivating n (un_gen u) x \<noteq> f" for x by auto
  show ?thesis using a(1,2) by (simp add: fed_def unit_ok_def taken_def 1 2)
qed

lemma fed_restart: "fed m n u \<Longrightarrow> fed_cfg n (verb_restart e (m, u))"
proof -
  assume u: "fed m n u"
  let ?u = "u\<lparr>un_held := False, un_latched := False, un_waiting := False, un_limit := limiter_reset (un_limit u)\<rparr>"
  have f: "fed m n ?u" using u by (simp add: fed_def unit_ok_def running_def)
  then show ?thesis using fed_but [OF f] by (simp add: verb_restart_def Let_def deactivate_ok)
qed

interpretation fed: loop_contract fed e for e
proof unfold_locales
  show "fed m n u \<Longrightarrow> sv_name (un_decl u) = n" for m n u by (simp add: fed_def unit_ok_def)
  show "fed m (sv_name d) u \<Longrightarrow> fed m (sv_name d) (redeclare e d u)" for m d u
    by (auto simp: fed_def redeclare_def Let_def unit_ok_def running_def split: option.splits)
  show "fed m (sv_name d) (new_unit e d t)" for m d t
    by (simp add: fed_def new_unit_def Let_def ok_rest)
  show "fed m n u \<Longrightarrow> fed (m\<lparr>m_stopping := True, m_cancelled := b\<rparr>) n (u\<lparr>un_waiting := False\<rparr>)" for m n u b
    by (simp add: fed_def unit_ok_def running_def)
  show "fed m n u \<Longrightarrow> un_state u' = un_state u \<Longrightarrow> un_gen u' = un_gen u \<Longrightarrow> un_busy u' = un_busy u \<Longrightarrow>
      un_prov u' = un_prov u \<Longrightarrow> un_decl u' = un_decl u \<Longrightarrow> (un_waiting u' \<Longrightarrow> un_waiting u) \<Longrightarrow> fed m n u'" for m n u u'
    by (simp add: fed_def unit_ok_def running_def)
qed (rule fed_others ok_step_unit fed_restart observed_ok fed_unconcerned body_ok; assumption)+

end
