(* ===== verification/Sup_Down.thy ===== *)
theory Sup_Down
  imports Sup_Feed
begin

text \<open>
  Units on their way down: a stopping monitor starts nothing and lets nothing wait (\<open>calm\<close>), a held unit
  stays down, and what a step that starts or stops a unit has checked before.
\<close>

section \<open>A stopping monitor\<close>

definition calm :: "monitor \<Rightarrow> string \<Rightarrow> unit_run \<Rightarrow> bool" where
  "calm m n u \<longleftrightarrow> sv_name (un_decl u) = n \<and> (m_stopping m \<longrightarrow> \<not> un_waiting u)"

lemma calm_tame: "tame (m, u) c' \<Longrightarrow> calm m n u \<Longrightarrow> calm (fst c') n (snd c')"
  by (auto simp: calm_def tame_def works_def alike_def keeps_def barred_def)

lemma calm_restart: "calm m n u \<Longrightarrow> calm (fst (verb_restart e (m, u))) n (snd (verb_restart e (m, u)))"
  using deactivate_simps(2) [of "fst (m, u)" e] by (simp add: calm_def verb_restart_def Let_def frame_simps)

interpretation calm: lossy_contract calm e for e
proof unfold_locales
  show "calm m n u \<Longrightarrow> k \<noteq> n \<Longrightarrow> moves k m m' \<Longrightarrow> calm m' n u" for m n u k m'
    by (auto simp: calm_def moves_def)
  show "calm m n u \<Longrightarrow> calm (fst (snd (step_unit e n (m, u)))) n (snd (snd (step_unit e n (m, u))))" for m n u
    by (rule calm_tame [OF tame_step_unit])
  show "calm m n u \<Longrightarrow> calm (fst (observed e to why (m, u))) n (snd (observed e to why (m, u)))" for m n u to why
    by (rule calm_tame [OF tame_observed])
  show "calm m n u \<Longrightarrow> taken f m m' \<Longrightarrow> flight_unit f \<noteq> n \<or> flight_gen f \<noteq> un_gen u \<Longrightarrow> calm m' n u" for m n u f m'
    by (auto simp: calm_def taken_def)
  show "calm m (flight_unit f) u \<Longrightarrow> taken f m m' \<Longrightarrow> flight_gen f = un_gen u \<Longrightarrow> answers f v \<Longrightarrow>
      calm (fst (msg_body e v (m', u))) (flight_unit f) (snd (msg_body e v (m', u)))" for m f u m' v
    by (rule calm_tame [OF tame_body]) (auto simp: calm_def taken_def)
  show "calm m n u \<Longrightarrow> calm (fst (verb_restart e (m, u))) n (snd (verb_restart e (m, u)))" for m n u
    by (rule calm_restart)
qed (auto simp: calm_def taken_def redeclare_def new_unit_def Let_def)

lemma put_unit_flight [frame_simps]: "starts_in (put_unit n c) = starts_in (fst c)" "m_stopping (put_unit n c) = m_stopping (fst c)"
  "m_cancelled (put_unit n c) = m_cancelled (fst c)"
  by (simp_all add: put_unit_def starts_in_def)

text \<open>A cancelled monitor stays so; while the monitor stops, what is in flight gains no start.\<close>

definition winds_down :: "monitor \<Rightarrow> monitor \<Rightarrow> bool" where
  "winds_down m m' \<longleftrightarrow> (m_cancelled m \<longrightarrow> m_cancelled m') \<and> (m_stopping m \<longrightarrow> m_stopping m' \<and> starts_in m' \<subseteq> starts_in m)"

lemma winds_down_refl: "winds_down m m" by (simp add: winds_down_def)
lemma winds_down_trans: "winds_down a b \<Longrightarrow> winds_down b c \<Longrightarrow> winds_down a c" by (auto simp: winds_down_def)

lemma winds_down_tame: "tame (m, u) c \<Longrightarrow> winds_down m (put_unit n c)"
  by (auto simp: winds_down_def tame_def works_def alike_def barred_def frame_simps)

lemma winds_down_quiet: "quiet m m' \<Longrightarrow> winds_down m m'"
  by (auto simp: winds_down_def quiet_def starts_in_def)

lemma winds_down_units: "winds_down m (m'\<lparr>m_units := us\<rparr>) \<longleftrightarrow> winds_down m m'"
  by (simp add: winds_down_def starts_in_def)

lemma winds_down_step: "winds_down m (snd (step e n m))"
  by (simp add: step_def winds_down_refl split_beta winds_down_tame [OF tame_step_unit] split: option.splits)

lemma winds_down_each: "winds_down m (snd (step_each e ns m))"
proof (induction ns arbitrary: m)
  case (Cons n ns)
  show ?case using winds_down_trans [OF winds_down_step Cons] by (simp add: split_beta)
qed (simp add: winds_down_refl)

lemma winds_down_rounds: "winds_down m (rounds e ns k m)"
proof (induction k arbitrary: m)
  case (Suc k)
  show ?case using winds_down_trans [OF winds_down_each Suc] winds_down_each by (simp add: split_beta)
qed (simp add: winds_down_refl)

lemma winds_down_stepAll: "winds_down m (stepAll e m)"
  unfolding stepAll_def Let_def by (simp only: winds_down_units winds_down_rounds)

lemma winds_down_answered: "winds_down m (answered n g (msg_body e v) m)"
  using winds_down_tame [OF tame_body] by (auto simp: answered_def with_unit_def winds_down_tame [OF tame_refl] winds_down_refl split: option.splits)

lemma winds_down_verb:
  assumes "\<And>c. m_stopping (fst (f c)) = m_stopping (fst c) \<and> m_cancelled (fst (f c)) = m_cancelled (fst c)" "\<And>c. starts_in (fst (f c)) \<subseteq> starts_in (fst c)"
  shows "winds_down m (snd (unit_verb e n gated f m))"
proof (cases "unit_at m n")
  case (Some u)
  have w: "winds_down m' (put_unit n (snd (status_of e (f (m', u))), snd (f (m', u))))" for m'
    using assms [of "(m', u)"] by (auto simp: winds_down_def frame_simps) (auto simp: starts_in_def frame_simps)
  have "winds_down m (asked m)" by (rule winds_down_quiet [OF quiet_asked])
  with winds_down_trans [OF this w] w show ?thesis
    by (simp add: unit_verb_def Some buildAllowed_def split_beta winds_down_refl split: option.splits)
qed (simp add: unit_verb_def winds_down_refl)

lemma winds_down_reload: "winds_down m (snd (reload e m))"
proof -
  have one: "winds_down m (reload_one e d m)" for d m
    by (auto simp: reload_one_def add_unit_def winds_down_def frame_simps split: option.splits) (auto simp: starts_in_def frame_simps)
  have "winds_down m (fold (reload_one e) ds m)" for ds m
    by (induction ds arbitrary: m) (auto intro: winds_down_refl winds_down_trans [OF one])
  then have "winds_down m (fold (reload_one e) ds (asked m))" for ds
    using winds_down_trans [OF winds_down_quiet [OF quiet_asked]] by blast
  then show ?thesis by (simp add: reload_def split_beta mark_gone_def winds_down_def starts_in_def)
qed

lemma winds_down_control: "winds_down m (snd (control e req m))"
proof -
  have "winds_down m (snd (unit_verb e n g verb_start m))" for n g
    by (rule winds_down_verb) (simp_all add: verb_start_def split_beta)
  moreover have "winds_down m (snd (unit_verb e n g verb_stop m))" for n g
    by (rule winds_down_verb) (simp_all add: verb_stop_def split_beta)
  moreover have "winds_down m (snd (unit_verb e n g (verb_restart e) m))" for n g
  proof (rule winds_down_verb)
    fix c
    have "alike (fst c) (fst (verb_restart e c))" using verbs_work(3) [of e] unfolding verb_works_def by blast
    then show "m_stopping (fst (verb_restart e c)) = m_stopping (fst c) \<and> m_cancelled (fst (verb_restart e c)) = m_cancelled (fst c)"
      by (simp add: alike_def)
    show "starts_in (fst (verb_restart e c)) \<subseteq> starts_in (fst c)"
      by (cases c) (auto simp: verb_restart_def Let_def starts_in_def deactivate_simps(1))
  qed
  moreover have "winds_down m (snd (statuses e ns m))" for ns by (simp add: statuses_def winds_down_quiet quiet_statuses_of)
  ultimately show ?thesis
    by (simp add: control_def Let_def split_beta winds_down_refl winds_down_reload winds_down_quiet quiet_hosted split: ctl_op.splits)
qed

lemma winds_down_turn: "mon_step e m m' \<Longrightarrow> winds_down m m'"
proof (induction rule: mon_step.induct)
  case (arrives i m v)
  let ?m = "m\<lparr>m_flight := take i (m_flight m) @ drop (Suc i) (m_flight m)\<rparr>"
  have "winds_down m ?m" by (auto simp: winds_down_def starts_in_def dest: in_set_takeD in_set_dropD)
  then show ?case using handle_answer [OF arrives(2)] winds_down_answered winds_down_stepAll
    unfolding handle_def by (metis winds_down_trans)
next
  case (provides m n g to why)
  then show ?case using winds_down_trans [OF winds_down_answered [where v = "Provider n g to why"] winds_down_stepAll]
    by (simp add: handle_def handle_msg_def onProvider_def)
next
  case (controls m req)
  then show ?case using winds_down_trans [OF winds_down_control winds_down_stepAll] by (simp add: handle_def handle_msg_def)
next
  case (signals m)
  have "winds_down m (shutdown (m_stopping m) m)" by (simp add: shutdown_def winds_down_def starts_in_def)
  then show ?case by (rule winds_down_trans [OF _ winds_down_stepAll])
next
  case (delegates m d) then show ?case by (simp add: winds_down_def starts_in_def)
next
  case (loses m i) then show ?case by (auto simp: lose_def winds_down_def starts_in_def dest: in_set_takeD in_set_dropD)
qed (rule winds_down_reload)

lemma winds_down_run: "mon_run e m m' \<Longrightarrow> winds_down m m'"
  unfolding mon_run_def by (induction rule: rtranclp_induct) (auto intro: winds_down_refl winds_down_trans winds_down_turn)

text \<open>A run that does not end cancelled came through no cancelled state, so it lost no answer.\<close>

lemma prompt_if_not_cancelled: "mon_run e m m' \<Longrightarrow> \<not> m_cancelled m' \<Longrightarrow> prompt_run e m m'"
  unfolding mon_run_def
proof (induction rule: rtranclp_induct)
  case (step a b)
  have "\<not> m_cancelled a" using winds_down_turn [OF step(2)] step(4) by (auto simp: winds_down_def)
  with step show ?case unfolding prompt_run_def by (auto intro: rtranclp.rtrancl_into_rtrancl)
qed (simp add: prompt_run_def)

lemma fed_run: "mon_run e m m' \<Longrightarrow> \<not> m_cancelled m' \<Longrightarrow> fed.all_ok m \<Longrightarrow> fed.all_ok m'"
  using prompt_if_not_cancelled fed.prompt_ok by blast

section \<open>What a step has checked\<close>

text \<open>The dependencies are ready when each is a wanted unit in an exposed state.\<close>

definition dep_up :: "sup_env \<Rightarrow> monitor \<Rightarrow> string \<Rightarrow> bool" where
  "dep_up e m n \<longleftrightarrow> (\<exists>d. unit_at m n = Some d \<and> \<not> un_gone d \<and> (wantUp m d \<or> m_stopping m) \<and> se_exposed e (un_state d))"

lemma deps_ready_iff: "fst (deps_ready e m ns) \<longleftrightarrow> (\<forall>n \<in> set ns. dep_up e m n)"
  by (induction e m ns rule: deps_ready.induct) (auto simp: dep_up_def split: option.splits)

text \<open>The conditions under which a unit that is down is started.\<close>

definition may_start :: "sup_env \<Rightarrow> monitor \<Rightarrow> unit_run \<Rightarrow> bool" where
  "may_start e m u \<longleftrightarrow> \<not> un_busy u \<and> \<not> running u \<and> wantUp m u \<and> \<not> un_waiting u \<and> \<not> un_latched u \<and> un_prov u \<noteq> None \<and>
     (\<forall>n \<in> set (depsOf m u). dep_up e m n) \<and>
     fst (limiter_allow (un_limit u) (se_now e (m_reads m))) \<and>
     (\<exists>k. se_build e k (un_decl u) = None) \<and>
     (sv_provider (un_decl u) = ''process'' \<longrightarrow> (\<exists>k. se_ports e k (un_decl u) = None))"

lemma activate_limit: "un_state (snd (activate e False c)) = Starting \<Longrightarrow> fst (limiter_allow (un_limit (snd c)) (se_now e (m_reads (fst c))))"
  by (auto simp: activate_def start_limit_def frame_simps split_beta split: if_splits)

lemma step_unit_start:
  assumes "step_unit e n (m, u) = (b, c)" "f \<in> starts_in (fst c) - starts_in m"
  shows "may_start e m u \<and> (\<exists>d. f = Activating (sv_name (un_decl u)) (Suc (un_gen u)) (un_decl u)) \<and> un_state (snd c) = Starting"
proof -
  have new: "starts_in (fst c) \<noteq> starts_in m" using assms(2) by auto
  have nb: "\<not> un_busy u" and nr: "\<not> running u"
    using assms new by (auto simp: step_unit_def step_running_def starts_in_def frame_simps Let_def split: if_splits prod.splits)
  have d: "step_down e (m, u) = (b, c)" using assms(1) nb nr by (simp add: step_unit_def)
  have w: "wantUp m u" "\<not> un_waiting u" "\<not> un_latched u"
    using d new by (auto simp: step_down_def starts_in_def frame_simps Let_def split: if_splits prod.splits)
  then have "\<not> m_stopping m" by (simp add: wantUp_def split: if_splits)
  then have r: "fst (depsReady e m u)" and c: "c = activate e False (m, u)"
    using d new w by (auto simp: step_down_def starts_in_def frame_simps Let_def split: if_splits prod.splits)
  note a = activate_activation [of e "(m, u)" False]
  have s: "un_state (snd c) = Starting" and p: "un_prov u \<noteq> None" and g: "\<exists>k. se_build e k (un_decl u) = None"
    and po: "sv_provider (un_decl u) = ''process'' \<longrightarrow> (\<exists>k. se_ports e k (un_decl u) = None)"
    and f: "m_flight (fst c) = m_flight m @ [Activating (sv_name (un_decl u)) (Suc (un_gen u)) (un_decl u)]"
    using a new by (auto simp: activation_def c starts_in_def)
  have l: "fst (limiter_allow (un_limit u) (se_now e (m_reads m)))"
    using activate_limit [of e "(m, u)"] s by (simp add: c)
  show ?thesis using nb nr w r p l g po s f assms(2)
    by (auto simp: may_start_def depsReady_def deps_ready_iff starts_in_def)
qed
end
