(* ===== verification/Sup_Order.thy ===== *)
theory Sup_Order
  imports Sup_Down
begin

text \<open>
  The order of stops. A sweep stops a unit that is no longer wanted only once what requires it is down
  (\<open>quiesced\<close>), and what is down stays down for the rest of the sweep (\<open>ordered\<close>); the handlers of
  messages put no such stop in flight (\<open>stops_in\<close>). Together: every turn of the loop stops in order.
\<close>

section \<open>Stops of units that are no longer wanted\<close>

fun is_stop :: "flight \<Rightarrow> bool" where
  "is_stop (Deactivating n g (After_stop r)) \<longleftrightarrow> r = ''stopped''"
| "is_stop _ \<longleftrightarrow> False"

definition stops_in :: "monitor \<Rightarrow> flight set" where
  "stops_in m = {f \<in> set (m_flight m). is_stop f}"

named_theorems stop_simps \<open>what handlers do to the stops in flight\<close>

lemma stops_flight: "m_flight m' = m_flight m \<Longrightarrow> stops_in m' = stops_in m"
  by (simp add: stops_in_def)

lemma stops_launch [stop_simps]: "\<not> is_stop f \<Longrightarrow> stops_in (launch f m) = stops_in m"
  by (auto simp: stops_in_def frame_simps)

lemma stops_put [stop_simps]: "stops_in (put_unit n c) = stops_in (fst c)"
  by (simp add: stops_in_def put_unit_def)

lemma stops_tick [stop_simps]: "stops_in (fst (tick b c)) = stops_in (fst c)"
  using tick_simps(2) [of b c] by (auto simp: stops_in_def)

lemma stops_asked [stop_simps]: "stops_in (asked m) = stops_in m" by (simp add: stops_in_def frame_simps)

lemma stops_transition [stop_simps]: "stops_in (fst (transition e to r c)) = stops_in (fst c)"
  by (simp add: stops_in_def frame_simps)

lemma stops_fail [stop_simps]: "stops_in (fst (fail_unit e r c)) = stops_in (fst c)"
  by (simp add: stops_in_def frame_simps)

lemma stops_deactivate [stop_simps]:
  "(\<And>s. act \<noteq> Some (After_stop s)) \<Longrightarrow> act \<noteq> None \<Longrightarrow> stops_in (fst (deactivate e b r act c)) = stops_in (fst c)"
  by (cases act; cases "the act") (auto simp: stops_in_def frame_simps)

lemma stops_activate [stop_simps]: "stops_in (fst (activate e x c)) = stops_in (fst c)"
  using activate_activation [of e c x] by (auto simp: activation_def stops_in_def)

lemma stops_refresh [stop_simps]: "stops_in (fst (refreshEnabled e c)) = stops_in (fst c)"
  by (simp add: stops_in_def frame_simps)

lemma stops_afterExit [stop_simps]: "stops_in (fst (afterExit e ex r c)) = stops_in (fst c)"
  by (simp add: afterExit_def Let_def split_beta stop_simps)

lemma stops_run_after [stop_simps]: "stops_in (fst (run_after e a c)) = stops_in (fst c)"
  by (cases a) (simp_all add: run_after_def split_beta stop_simps)

lemma stops_count [stop_simps]: "stops_in (fst (count_failure e err c)) = stops_in (fst c)"
  by (simp add: count_failure_def Let_def stop_simps)

lemma stops_probe_failed [stop_simps]: "stops_in (fst (probe_failed e err c)) = stops_in (fst c)"
  by (simp add: probe_failed_def Let_def split_beta stop_simps)

lemma stops_body: "stops_in (fst (msg_body e v c)) = stops_in (fst c)"
  by (cases v) (simp_all add: activated_def deactivated_def configured_def probed_def probe_passed_def observed_def rung_def
      Let_def split_beta stop_simps split: option.splits health_answer.splits)

lemma stops_answered: "stops_in (answered n g (msg_body e v) m) = stops_in m"
  by (simp add: answered_def with_unit_def stop_simps stops_body split: option.splits)

lemma stops_quiet: "quiet m m' \<Longrightarrow> stops_in m' = stops_in m"
  by (rule stops_flight) (simp add: quiet_def)

lemma stops_verb:
  assumes "\<And>c. stops_in (fst (f c)) = stops_in (fst c)"
  shows "stops_in (snd (unit_verb e n gated f m)) = stops_in m"
proof -
  have "stops_in (snd (status_of e c)) = stops_in (fst c)" for c using stops_quiet [OF quiet_status, of e "fst c" "snd c"] by simp
  then show ?thesis using assms
    by (simp add: unit_verb_def buildAllowed_def split_beta stop_simps split: option.splits)
qed

lemma stops_reload: "stops_in (snd (reload e m)) = stops_in m"
proof -
  have "stops_in (fold (reload_one e) ds m) = stops_in m" for ds m
    by (induction ds arbitrary: m) (simp_all add: reload_one_def add_unit_def stop_simps split: option.splits)
  moreover have "stops_in (mark_gone seen m) = stops_in m" for seen m by (simp add: mark_gone_def stops_in_def)
  ultimately show ?thesis by (simp add: reload_def split_beta stop_simps)
qed

lemma stops_control: "stops_in (snd (control e req m)) = stops_in m"
proof -
  have "stops_in (fst (verb_restart e c)) = stops_in (fst c)" for c
    by (simp add: verb_restart_def split_beta Let_def stop_simps)
  then have "stops_in (snd (unit_verb e n g (verb_restart e) m)) = stops_in m" for n g by (rule stops_verb)
  moreover have "stops_in (snd (unit_verb e n g verb_start m)) = stops_in m" "stops_in (snd (unit_verb e n g verb_stop m)) = stops_in m" for n g
    by (rule stops_verb, simp add: verb_start_def verb_stop_def split_beta)+
  moreover have "stops_in (snd (statuses e ns m)) = stops_in m" for ns by (simp add: statuses_def stops_quiet [OF quiet_statuses_of])
  ultimately show ?thesis
    by (simp add: control_def Let_def split_beta stops_reload stops_quiet [OF quiet_hosted]
        split: ctl_op.splits)
qed

lemma stops_handle_msg: "stops_in (handle_msg e v m) = stops_in m"
  using stops_answered [of _ _ e v]
  by (cases v) (simp_all add: handle_msg_def onActivated_def onDeactivated_def onConfigured_def onProvider_def onProbe_def onTimer_def stops_control)

section \<open>Sweeps\<close>

text \<open>A unit is down: it neither runs nor stops, and no call about it is outstanding.\<close>

definition is_down :: "unit_run \<Rightarrow> bool" where
  "is_down u \<longleftrightarrow> (un_state u = Inactive \<or> un_state u = Failed) \<and> \<not> un_busy u"

definition quiesced :: "monitor \<Rightarrow> string \<Rightarrow> bool" where
  "quiesced m n \<longleftrightarrow> (\<forall>u. unit_at m n = Some u \<longrightarrow> \<not> wantUp m u) \<and>
     (\<forall>k u. k \<noteq> n \<longrightarrow> unit_at m k = Some u \<longrightarrow> n \<in> set (depsOf m u) \<longrightarrow> is_down u)"

definition ordered :: "monitor \<Rightarrow> monitor \<Rightarrow> bool" where
  "ordered m m' \<longleftrightarrow> (\<forall>n. quiesced m n \<longrightarrow> quiesced m' n) \<and>
     (\<forall>f \<in> stops_in m' - stops_in m. quiesced m' (flight_unit f))"

lemma ordered_refl: "ordered m m" by (simp add: ordered_def)
lemma ordered_trans: "ordered a b \<Longrightarrow> ordered b c \<Longrightarrow> ordered a c" by (auto simp: ordered_def)

lemma is_down_iff: "is_down u \<longleftrightarrow> \<not> (running u \<or> un_busy u \<or> un_state u = Stopping)"
  by (cases "un_state u") (auto simp: is_down_def)

lemma step_unit_decl: "un_decl (snd (snd (step_unit e n c))) = un_decl (snd c)"
proof -
  have "un_decl (snd (activate e False c)) = un_decl (snd c)" for c using activate_activation [of e c False] by (simp add: activation_def)
  then show ?thesis by (simp add: step_unit_def step_running_def step_down_def Let_def split_beta frame_simps)
qed

text \<open>A unit that is down is brought up only when each unit it requires is wanted.\<close>

lemma step_down_stays:
  assumes "is_down u" "\<exists>n \<in> set (depsOf m u). \<forall>d. unit_at m n = Some d \<longrightarrow> \<not> wantUp m d"
  shows "is_down (snd (snd (step_unit e k (m, u))))"
proof -
  have "\<not> fst (depsReady e m u)" if "\<not> m_stopping m"
    using assms(2) that by (force simp: depsReady_def deps_ready_iff dep_up_def)
  then show ?thesis using assms(1)
    by (auto simp: is_down_def step_unit_def step_down_def Let_def split_beta frame_simps split: prod.splits)
qed

lemma depsReady_reason: "\<not> fst (depsReady e m u) \<Longrightarrow> fst (snd (depsReady e m u)) \<noteq> ''stopped''"
proof -
  have "\<not> fst (deps_ready e m ns) \<Longrightarrow> fst (snd (deps_ready e m ns)) \<noteq> ''stopped''" for ns
    by (induction e m ns rule: deps_ready.induct) (auto split: option.splits if_splits)
  then show "\<not> fst (depsReady e m u) \<Longrightarrow> fst (snd (depsReady e m u)) \<noteq> ''stopped''" by (simp add: depsReady_def)
qed


lemma stops_step_running: "stops_in (fst (step_running e n (m, u))) = stops_in m \<or>
    stops_in (fst (step_running e n (m, u))) = insert (Deactivating (sv_name (un_decl u)) (Suc (un_gen u)) (After_stop ''stopped'')) (stops_in m) \<and>
    \<not> wantUp m u \<and> \<not> hasRunningDependents m n"
proof -
  have "stops_in (fst (deactivate e True ''stopped'' None (m, u))) =
      insert (Deactivating (sv_name (un_decl u)) (Suc (un_gen u)) (After_stop ''stopped'')) (stops_in m)"
    by (auto simp: stops_in_def frame_simps)
  moreover have "stops_in (fst (deactivate e True why None (m, u))) = stops_in m" if "why \<noteq> ''stopped''" for why
    using that by (auto simp: stops_in_def frame_simps)
  moreover have "stops_in (fst (configure c)) = stops_in (fst c)" for c by (auto simp: stops_in_def frame_simps)
  ultimately show ?thesis using depsReady_reason [of e m u] by (simp add: step_running_def split_beta)
qed

lemma stops_step_unit: "stops_in (fst (snd (step_unit e n (m, u)))) = stops_in m \<or>
    stops_in (fst (snd (step_unit e n (m, u)))) = insert (Deactivating (sv_name (un_decl u)) (Suc (un_gen u)) (After_stop ''stopped'')) (stops_in m) \<and>
    \<not> wantUp m u \<and> \<not> hasRunningDependents m n"
  using stops_step_running [of e n m u] by (simp add: step_unit_def step_down_def Let_def split_beta stop_simps)

lemma no_dependents: "distinct (map fst (m_units m)) \<Longrightarrow> \<not> hasRunningDependents m n \<Longrightarrow> k \<noteq> n \<Longrightarrow> unit_at m k = Some u \<Longrightarrow>
    n \<in> set (depsOf m u) \<Longrightarrow> is_down u"
  by (auto simp: hasRunningDependents_def list_ex_iff is_down_iff unit_at_def map_of_eq_Some_iff)

lemma wantUp_step: "alike m m' \<Longrightarrow> keeps u u' \<Longrightarrow> un_decl u' = un_decl u \<Longrightarrow> wantUp (m'\<lparr>m_units := us\<rparr>) u' = wantUp m u"
  by (simp add: wantUp_def alike_def keeps_def)

lemma depsOf_step: "alike m m' \<Longrightarrow> un_decl u' = un_decl u \<Longrightarrow> depsOf (m'\<lparr>m_units := us\<rparr>) u' = depsOf m u"
  by (simp add: depsOf_def alike_def)

text \<open>What a step makes of the table of units.\<close>

lemma step_at:
  assumes "unit_at m k = Some u" "step_unit e k (m, u) = (b, c)"
  shows "snd (step e k m) = put_unit k c" "unit_at (put_unit k c) i = (if i = k then Some (snd c) else unit_at m i)"
    "wantUp m (snd c) = wantUp m u" "depsOf m (snd c) = depsOf m u"
    "wantUp (put_unit k c) v = wantUp m v" "depsOf (put_unit k c) v = depsOf m v"
proof -
  have w: "alike m (fst c)" "keeps u (snd c)" "un_decl (snd c) = un_decl u"
    using works_step_unit [of "(m, u)" e k] step_unit_decl [of e k "(m, u)"] by (simp_all add: assms(2) works_def)
  show "snd (step e k m) = put_unit k c" by (simp add: step_def assms)
  show "unit_at (put_unit k c) i = (if i = k then Some (snd c) else unit_at m i)"
    using w(1) by (simp add: put_unit_def unit_at_def update_conv' alike_def)
  show "wantUp m (snd c) = wantUp m u" "depsOf m (snd c) = depsOf m u"
    using w(2,3) by (simp_all add: wantUp_def depsOf_def keeps_def)
  show "wantUp (put_unit k c) v = wantUp m v" "depsOf (put_unit k c) v = depsOf m v"
    unfolding put_unit_def by (rule wantUp_step depsOf_step; simp add: w keeps_refl)+
qed

lemma quiesced_step:
  assumes "quiesced m n"
  shows "quiesced (snd (step e k m)) n"
proof (cases "unit_at m k")
  case (Some u)
  obtain b c where c: "step_unit e k (m, u) = (b, c)" by (rule prod.exhaust)
  note at = step_at [OF Some c]
  have "is_down (snd c)" if "k \<noteq> n" "n \<in> set (depsOf m u)"
    using assms Some that step_down_stays [of u m e k] by (fastforce simp: quiesced_def c)
  then show ?thesis using assms Some by (auto simp: quiesced_def at split: if_splits)
qed (simp add: step_def assms)

lemma ordered_step:
  assumes "distinct (map fst (m_units m))" "\<And>u. unit_at m k = Some u \<Longrightarrow> sv_name (un_decl u) = k"
  shows "ordered m (snd (step e k m))"
proof (cases "unit_at m k")
  case (Some u)
  obtain b c where c: "step_unit e k (m, u) = (b, c)" by (rule prod.exhaust)
  note at = step_at [OF Some c]
  have "quiesced m (flight_unit f)" if "f \<in> stops_in (fst c) - stops_in m" for f
    using stops_step_unit [of e k m u] that assms Some no_dependents [OF assms(1), of k] by (auto simp: c quiesced_def)
  then have "quiesced (put_unit k c) (flight_unit f)" if "f \<in> stops_in (put_unit k c) - stops_in m" for f
    using that quiesced_step [of m "flight_unit f" e k] by (simp add: at(1) stops_put)
  then show ?thesis using quiesced_step [of m _ e k] by (auto simp: ordered_def at(1))
qed (simp add: step_def ordered_refl)

lemma ordered_calm: "calm.all_ok m \<Longrightarrow> ordered m (snd (step e k m))"
  by (rule ordered_step) (auto simp: calm.all_ok_def calm_def)

lemma ordered_each: "calm.all_ok m \<Longrightarrow> ordered m (snd (step_each e ns m))"
proof (induction ns arbitrary: m)
  case (Cons n ns)
  obtain b m1 where m1: "step e n m = (b, m1)" by fastforce
  with ordered_trans [OF ordered_calm [OF Cons.prems, of e n] Cons.IH [OF calm.step_ok [OF Cons.prems, of e n]]]
  show ?case by (simp add: split_beta)
qed (simp add: ordered_refl)

lemma ordered_rounds: "calm.all_ok m \<Longrightarrow> ordered m (rounds e ns k m)"
proof (induction k arbitrary: m)
  case (Suc k)
  with ordered_trans [OF ordered_each [OF Suc.prems, of e ns] Suc.IH [OF calm.step_each_ok [OF Suc.prems, of e ns]]]
    ordered_each [OF Suc.prems, of e ns] show ?case by (simp add: split_beta)
qed (simp add: ordered_refl)

lemma quiesced_filter: "distinct (map fst (m_units m)) \<Longrightarrow> quiesced m n \<Longrightarrow> quiesced (m\<lparr>m_units := filter P (m_units m)\<rparr>) n"
proof -
  assume d: "distinct (map fst (m_units m))" and q: "quiesced m n"
  have "unit_at (m\<lparr>m_units := filter P (m_units m)\<rparr>) k = Some u \<Longrightarrow> unit_at m k = Some u" for k u
    using d by (auto simp: unit_at_def distinct_map_filter map_of_eq_Some_iff)
  with q show ?thesis by (auto simp: quiesced_def wantUp_def depsOf_def)
qed

lemma ordered_filter: "calm.all_ok m \<Longrightarrow> ordered m (m\<lparr>m_units := filter P (m_units m)\<rparr>)"
  using quiesced_filter [of m _ P] by (auto simp: ordered_def stops_in_def calm.all_ok_def)

lemma ordered_stepAll: "calm.all_ok m \<Longrightarrow> ordered m (stepAll e m)"
  unfolding stepAll_def Let_def by (rule ordered_trans [OF ordered_rounds ordered_filter [OF calm.rounds_ok]])

section \<open>Turns\<close>

lemma turn_stops_in_order:
  assumes "mon_step e m m'" "calm.all_ok m" "f \<in> stops_in m' - stops_in m"
  shows "quiesced m' (flight_unit f)"
proof -
  have swept: "quiesced (stepAll e a) (flight_unit f)" if "calm.all_ok a" "stops_in a \<subseteq> stops_in m" "f \<in> stops_in (stepAll e a)" for a
    using ordered_stepAll [OF that(1), of e] that(2,3) assms(3) by (auto simp: ordered_def)
  from assms(1) show ?thesis
  proof cases
    case (arrives i v)
    let ?a = "m\<lparr>m_flight := take i (m_flight m) @ drop (Suc i) (m_flight m)\<rparr>"
    have t: "taken (m_flight m ! i) m ?a" using taken_nth [OF arrives(2)] by (simp add: taken_def)
    have "stops_in (handle_msg e v ?a) \<subseteq> stops_in m"
      unfolding stops_handle_msg by (auto simp: stops_in_def dest: in_set_takeD in_set_dropD)
    with swept [OF calm.answer_ok [OF assms(2) t arrives(3)]] assms(3) show ?thesis by (simp add: arrives(1) handle_def)
  next
    case (provides n g to why)
    have "calm.all_ok (handle_msg e (Provider n g to why) m)" by (simp add: handle_msg_def calm.provider_ok assms(2))
    with swept assms(3) show ?thesis by (simp add: provides handle_def stops_handle_msg)
  next
    case (controls req)
    have "calm.all_ok (handle_msg e (Control req) m)" by (simp add: handle_msg_def calm.control_ok assms(2))
    with swept assms(3) show ?thesis by (simp add: controls handle_def stops_handle_msg)
  next
    case polls
    with assms(3) show ?thesis by (simp add: stops_reload)
  next
    case signals
    have "stops_in (shutdown (m_stopping m) m) = stops_in m" by (simp add: shutdown_def stops_in_def)
    with swept [OF calm.shutdown_ok [OF assms(2)]] assms(3) show ?thesis by (simp add: signals)
  next
    case (delegates d)
    with assms(3) show ?thesis by (simp add: stops_in_def)
  next
    case (loses i)
    with assms(3) show ?thesis by (auto simp: lose_def stops_in_def dest: in_set_takeD in_set_dropD)
  qed
qed

end
