(* ===== verification/Sup_Properties.thy ===== *)
theory Sup_Properties
  imports Sup_Order
begin

text \<open>
  The properties of the service monitor, each with a concrete instance where it has hypotheses.
\<close>

section \<open>Samples\<close>

definition sample_service :: service where
  "sample_service = \<lparr>sv_name = ''a'', sv_enabled = True, sv_owner = [], sv_provider = ''process'', sv_retired = False, sv_deps = [],
     sv_policy = [], sv_min = [], sv_max = [], sv_healthy_after = [], sv_burst = 0, sv_interval = [], sv_http = [], sv_tcp = False,
     sv_exec = [], sv_health_interval = [], sv_health_timeout = [], sv_health_failures = 0, sv_start_period = [],
     sv_stop_signal = [], sv_stop_timeout = [], sv_ports = [], sv_app = None, sv_mesh = [], sv_rest = []\<rparr>"

definition sample_sup :: sup_env where
  "sample_sup = \<lparr>se_now = (\<lambda>_. 0), se_load = (\<lambda>_. ([sample_service], [])), se_build = (\<lambda>_ _. None), se_ports = (\<lambda>_ _. None),
     se_status = (\<lambda>_ _. (7, None)), se_provider = (\<lambda>_. Some ''process''), se_parse = (\<lambda>_. None), se_print = sv_name,
     se_exposed = (\<lambda>s. s = Active \<or> s = Degraded), se_duration = (\<lambda>_. ''d''), se_quote = (\<lambda>s. s), se_pid = 1\<rparr>"

definition sample_monitor :: monitor where
  "sample_monitor = monitor_starts sample_sup (newMonitor None False False None)"

definition arrive :: "sup_env \<Rightarrow> nat \<Rightarrow> msg \<Rightarrow> monitor \<Rightarrow> monitor" where
  "arrive e i v m = handle e v (m\<lparr>m_flight := take i (m_flight m) @ drop (Suc i) (m_flight m)\<rparr>)"

definition sample_active :: monitor where
  "sample_active = arrive sample_sup 0 (Probe ''a'' 1 Healthy) (arrive sample_sup 0 (Activated ''a'' 1 None) sample_monitor)"

definition sample_stopping :: monitor where
  "sample_stopping = stepAll sample_sup (shutdown False sample_active)"

definition sample_down :: monitor where
  "sample_down = arrive sample_sup 0 (Probe ''a'' 1 Healthy) (arrive sample_sup 1 (Deactivated ''a'' 2 (After_stop ''stopped'')) sample_stopping)"

lemma sample_monitor_starts: "m_flight sample_monitor = [Activating ''a'' 1 sample_service]" by code_simp

lemma sample_active_state: "map_option (\<lambda>u. (un_state u, un_gen u, un_busy u)) (unit_at sample_active ''a'') = Some (Active, 1, False)" by code_simp
lemma sample_active_flight: "m_flight sample_active = [Probing ''a'' 1 10000000000]" by code_simp
lemma sample_stopping_flight: "m_flight sample_stopping = [Probing ''a'' 1 10000000000, Deactivating ''a'' 2 (After_stop ''stopped'')]" by code_simp
lemma sample_down_flight: "m_flight sample_down = []" by code_simp
lemma sample_stopping_stops: "m_stopping sample_stopping" "m_stopping sample_down" "\<not> m_stopping sample_active" by code_simp+

lemma sample_not_cancelled: "\<not> m_cancelled sample_active" "\<not> m_cancelled sample_stopping" by code_simp+

lemma arrive_step: "i < length (m_flight m) \<Longrightarrow> answers (m_flight m ! i) v \<Longrightarrow> mon_step e m (arrive e i v m)"
  unfolding arrive_def by (rule mon_step.arrives)

lemma mon_run_refl: "mon_run e m m" by (simp add: mon_run_def)

lemma arrive_run: "mon_run e a m \<Longrightarrow> i < length (m_flight m) \<Longrightarrow> answers (m_flight m ! i) v \<Longrightarrow> mon_run e a (arrive e i v m)"
  unfolding mon_run_def using arrive_step [of i m v e] by (auto intro: rtranclp.rtrancl_into_rtrancl)

lemma sample_active_run: "mon_run sample_sup sample_monitor sample_active"
proof -
  let ?m = "arrive sample_sup 0 (Activated ''a'' 1 None) sample_monitor"
  have "m_flight ?m = [Probing ''a'' 1 0]" by code_simp
  then have "mon_step sample_sup ?m sample_active" unfolding sample_active_def by (intro arrive_step) simp_all
  moreover have "mon_step sample_sup sample_monitor ?m" by (intro arrive_step) (simp_all add: sample_monitor_starts)
  ultimately show ?thesis unfolding mon_run_def by (meson r_into_rtranclp rtranclp.rtrancl_into_rtrancl)
qed

lemma sample_stopping_run: "mon_run sample_sup sample_monitor sample_stopping"
proof -
  have "mon_step sample_sup sample_active sample_stopping"
    using mon_step.signals [of sample_sup sample_active] sample_stopping_stops(3) by (simp add: sample_stopping_def)
  with sample_active_run show ?thesis unfolding mon_run_def by (rule rtranclp.rtrancl_into_rtrancl)
qed

lemma sample_down_run: "mon_run sample_sup sample_stopping sample_down"
proof -
  let ?m = "arrive sample_sup 1 (Deactivated ''a'' 2 (After_stop ''stopped'')) sample_stopping"
  have "m_flight ?m = [Probing ''a'' 1 10000000000]" by code_simp
  then have "mon_step sample_sup ?m sample_down" unfolding sample_down_def by (intro arrive_step) simp_all
  moreover have "mon_step sample_sup sample_stopping ?m" by (intro arrive_step) (simp_all add: sample_stopping_flight)
  ultimately show ?thesis unfolding mon_run_def by (meson r_into_rtranclp rtranclp.rtrancl_into_rtrancl)
qed

section \<open>No unit is forgotten\<close>

text \<open>C4. In every run of the monitor that no second signal has cancelled, whatever the answers and their order, units
  have distinct names, each under the name it declares; a running unit has a provider and an answer of its
  current generation on the way that comes back to it (an activation, a deactivation or a probe), a busy unit
  a call of its generation, and a stopping unit its deactivation. So up to a second signal no unit waits for an
  answer that never comes; after it answers may be lost, and \<open>second_signal_hangs\<close> shows a unit that does.\<close>

theorem monitor_attends:
  assumes "mon_run e (monitor_starts e (newMonitor only force until d)) m" "\<not> m_cancelled m" "unit_at m n = Some u"
  shows "distinct (map fst (m_units m)) \<and> sv_name (un_decl u) = n \<and>
    (running u \<longrightarrow> un_prov u \<noteq> None \<and> (\<exists>f \<in> set (m_flight m). drives n (un_gen u) f)) \<and>
    (un_busy u \<longrightarrow> (\<exists>f \<in> set (m_flight m). calls n (un_gen u) f)) \<and>
    (un_state u = Stopping \<longrightarrow> (\<exists>a. Deactivating n (un_gen u) a \<in> set (m_flight m)))"
  using fed_run [OF assms(1,2) fed.start_ok] assms(3) by (simp add: fed.all_ok_def fed_def unit_ok_def)

theorem monitor_attends_witness:
  "\<exists>u. unit_at sample_active ''a'' = Some u \<and> running u \<and> (\<exists>f \<in> set (m_flight sample_active). drives ''a'' (un_gen u) f)"
proof -
  obtain u where u: "unit_at sample_active ''a'' = Some u" "un_state u = Active" using sample_active_state by auto
  from monitor_attends [OF sample_active_run [unfolded sample_monitor_def] sample_not_cancelled(1) u(1)] u show ?thesis by auto
qed

section \<open>Shutdown\<close>

fun is_timer :: "flight \<Rightarrow> bool" where
  "is_timer (Sleeping n g k d) \<longleftrightarrow> True"
| "is_timer _ \<longleftrightarrow> False"

lemma timer_idle: "is_timer f \<Longrightarrow> \<not> calls n g f \<and> \<not> drives n g f" "is_timer f \<Longrightarrow> f \<noteq> Deactivating n g a"
  by (cases f; simp)+

text \<open>C11. A monitor that is shutting down after one signal, and has got no second one, never gets stuck: until it is
  finished with code 0, an answer other than a backoff timer is on its way. With nothing but timers in
  flight every unit is inactive or failed and none waits for a restart, so the loop returns. A second signal
  cancels the context, and then this fails (\<open>second_signal_hangs\<close>).\<close>

theorem shutdown_completes:
  assumes "mon_run e (monitor_starts e (newMonitor only force until d)) m" "\<not> m_cancelled m" "m_stopping m" "finished m \<noteq> Some 0"
  shows "\<exists>f \<in> set (m_flight m). \<not> is_timer f"
proof (rule ccontr)
  assume "\<not> ?thesis"
  then have t: "\<forall>f \<in> set (m_flight m). is_timer f" by blast
  note f = fed_run [OF assms(1,2) fed.start_ok] and c = calm.run_ok [OF assms(1) calm.start_ok]
  have "settled m u" if "(n, u) \<in> set (m_units m)" for n u
  proof -
    have at: "unit_at m n = Some u" using f that by (simp add: unit_at_def fed.all_ok_def map_of_eq_Some_iff)
    then have ok: "fed m n u" "calm m n u" using f c by (simp_all add: fed.all_ok_def calm.all_ok_def)
    have "\<not> running u" "\<not> un_busy u" "un_state u \<noteq> Stopping"
      using ok(1) t timer_idle unfolding fed_def unit_ok_def by blast+
    then show ?thesis using ok(2) assms(3) by (cases "un_state u") (auto simp: settled_def calm_def running_def)
  qed
  then have "finished m = Some 0" using assms(3) by (auto simp: finished_def list_all_iff)
  with assms(4) show False ..
qed

theorem shutdown_completes_witness: "finished sample_stopping = None \<and> (\<exists>f \<in> set (m_flight sample_stopping). \<not> is_timer f)"
proof -
  have n: "finished sample_stopping = None" by code_simp
  with shutdown_completes [OF sample_stopping_run [unfolded sample_monitor_def] sample_not_cancelled(2) sample_stopping_stops(1)] show ?thesis by simp
qed

text \<open>After a second signal the deactivation's answer may be dropped. The monitor then waits for ever: the unit is
  stopping and busy, nothing is in flight, and the loop does not watch the context it has cancelled.\<close>

definition sample_hung :: monitor where
  "sample_hung = lose 0 (lose 1 (stepAll sample_sup (shutdown True sample_stopping)))"

lemma second_signal_hangs:
  "mon_run sample_sup sample_monitor sample_hung \<and> m_stopping sample_hung \<and> finished sample_hung = None \<and>
   m_flight sample_hung = [] \<and> map_option (\<lambda>u. (un_state u, un_busy u)) (unit_at sample_hung ''a'') = Some (Stopping, True)"
proof (intro conjI)
  let ?c = "stepAll sample_sup (shutdown True sample_stopping)"
  have lost: "m_cancelled m \<Longrightarrow> i < length (m_flight m) \<Longrightarrow> mon_step sample_sup m (lose i m)" for i m
    by (rule mon_step.loses)
  have "m_cancelled ?c" "1 < length (m_flight ?c)" "m_cancelled (lose 1 ?c)" "0 < length (m_flight (lose 1 ?c))" by code_simp+
  then have "mon_step sample_sup ?c (lose 1 ?c)" "mon_step sample_sup (lose 1 ?c) sample_hung"
    by (simp_all only: lost sample_hung_def)
  moreover have "mon_step sample_sup sample_stopping ?c"
    using mon_step.signals [of sample_sup sample_stopping] sample_stopping_stops(1) by simp
  ultimately show "mon_run sample_sup sample_monitor sample_hung"
    using sample_stopping_run unfolding mon_run_def by (meson rtranclp.rtrancl_into_rtrancl)
qed code_simp+

text \<open>C19. Once the monitor is stopping it stays so, and no run of it puts another start of any unit in flight,
  whatever requests, reloads, probes and exits come in.\<close>

theorem stopping_starts_nothing:
  assumes "mon_run e m m'" "m_stopping m"
  shows "m_stopping m' \<and> {f \<in> set (m_flight m'). is_start f} \<subseteq> {f \<in> set (m_flight m). is_start f}"
  using winds_down_run [OF assms(1)] assms(2) by (simp add: winds_down_def starts_in_def)

theorem stopping_starts_nothing_witness: "m_stopping sample_down \<and> {f \<in> set (m_flight sample_down). is_start f} = {}"
  using stopping_starts_nothing [OF sample_down_run sample_stopping_stops(1)] by (auto simp: sample_stopping_flight)

section \<open>Starts and stops\<close>

text \<open>C8. A step starts a unit only when it is wanted (enabled, started by hand or forced; not held, removed or
  stopping), idle, not in backoff and not latched, has a provider, all its dependencies are wanted units in
  an exposed state, the start limit allows one more start now, the build gate passes it and, for a process,
  no declared port is taken. The start carries the unit's next generation and its declaration.\<close>

theorem step_starts:
  assumes "step_unit e n (m, u) = (b, c)" "f \<in> set (m_flight (fst c))" "is_start f" "f \<notin> set (m_flight m)"
  shows "f = Activating (sv_name (un_decl u)) (Suc (un_gen u)) (un_decl u) \<and> un_state (snd c) = Starting \<and>
    \<not> un_busy u \<and> \<not> running u \<and> wantUp m u \<and> \<not> un_waiting u \<and> \<not> un_latched u \<and> un_prov u \<noteq> None \<and>
    list_all (dep_up e m) (depsOf m u) \<and> fst (limiter_allow (un_limit u) (se_now e (m_reads m))) \<and>
    (\<exists>k. se_build e k (un_decl u) = None) \<and>
    (sv_provider (un_decl u) = ''process'' \<longrightarrow> (\<exists>k. se_ports e k (un_decl u) = None))"
proof -
  have "f \<in> starts_in (fst c) - starts_in m" using assms(2,3,4) by (simp add: starts_in_def)
  from step_unit_start [OF assms(1) this] show ?thesis by (simp add: may_start_def list_all_iff)
qed

theorem step_starts_witness:
  "\<exists>c. step_unit sample_sup ''a'' (newMonitor None False False None, new_unit sample_sup sample_service 0) = (True, c) \<and>
     Activating ''a'' 1 sample_service \<in> set (m_flight (fst c)) \<and>
     fst (limiter_allow (un_limit (new_unit sample_sup sample_service 0)) 0)"
proof -
  let ?m = "newMonitor None False False None" and ?u = "new_unit sample_sup sample_service 0"
  obtain b c where st: "step_unit sample_sup ''a'' (?m, ?u) = (b, c)" by (rule prod.exhaust)
  have "fst (step_unit sample_sup ''a'' (?m, ?u))" by code_simp
  then have b: "b" by (simp add: st)
  have "m_flight (fst (snd (step_unit sample_sup ''a'' (?m, ?u)))) = [Activating ''a'' 1 sample_service]" by code_simp
  then have f: "Activating ''a'' 1 sample_service \<in> set (m_flight (fst c))" by (simp add: st)
  have "fst (limiter_allow (un_limit ?u) (se_now sample_sup (m_reads ?m)))"
    using step_starts [OF st f] by (simp add: newMonitor_def)
  then show ?thesis using st b f by (simp add: sample_sup_def)
qed

text \<open>C20. Units are stopped in order, in every run of the monitor: when a turn of the loop stops a unit because it is no
  longer wanted (the monitor shuts down, or the unit is disabled, removed or stopped by hand), then at the end
  of that turn the unit is unwanted still, and every other unit that requires it is inactive or failed with
  no call about it outstanding. Under \<open>service run\<close> only selected units count as required. A turn that stops many units, as a signal does,
  is included: no unit and what it requires are stopped in the same turn.\<close>

theorem stop_order:
  assumes "mon_run e (monitor_starts e (newMonitor only force until d)) m" "mon_step e m m'"
    and "Deactivating n g (After_stop ''stopped'') \<in> set (m_flight m')" "Deactivating n g (After_stop ''stopped'') \<notin> set (m_flight m)"
  shows "(\<forall>u. unit_at m' n = Some u \<longrightarrow> \<not> wantUp m' u) \<and>
    (\<forall>k u. unit_at m' k = Some u \<and> k \<noteq> n \<and> n \<in> set (sv_deps (un_decl u)) \<and>
       (case m_only m' of None \<Rightarrow> True | Some sel \<Rightarrow> n \<in> set sel) \<longrightarrow>
       (un_state u = Inactive \<or> un_state u = Failed) \<and> \<not> un_busy u)"
proof -
  have "Deactivating n g (After_stop ''stopped'') \<in> stops_in m' - stops_in m" using assms(3,4) by (simp add: stops_in_def)
  from turn_stops_in_order [OF assms(2) calm.run_ok [OF assms(1) calm.start_ok] this] show ?thesis
    by (auto simp: quiesced_def depsOf_def is_down_def)
qed

text \<open>A unit \<open>b\<close> that requires \<open>a\<close>: the signal stops \<open>b\<close> alone, and \<open>a\<close> follows when \<open>b\<close> is down.\<close>

definition sample_pair :: sup_env where
  "sample_pair = sample_sup\<lparr>se_load := (\<lambda>_. ([sample_service, sample_service\<lparr>sv_name := ''b'', sv_deps := [''a'']\<rparr>], []))\<rparr>"

definition pair_up :: monitor where
  "pair_up = arrive sample_pair 1 (Activated ''b'' 1 None) (arrive sample_pair 0 (Probe ''a'' 1 Healthy)
     (arrive sample_pair 0 (Activated ''a'' 1 None) (monitor_starts sample_pair (newMonitor None False False None))))"

definition pair_stopping :: monitor where
  "pair_stopping = stepAll sample_pair (shutdown False pair_up)"

definition pair_second :: monitor where
  "pair_second = arrive sample_pair 2 (Deactivated ''b'' 2 (After_stop ''stopped'')) pair_stopping"

lemma pair_up_run: "mon_run sample_pair (monitor_starts sample_pair (newMonitor None False False None)) pair_up"
  unfolding pair_up_def by (intro arrive_run mon_run_refl) code_simp+

lemma pair_stopping_run: "mon_run sample_pair (monitor_starts sample_pair (newMonitor None False False None)) pair_stopping"
proof -
  have "\<not> m_stopping pair_up" by code_simp
  then have "mon_step sample_pair pair_up pair_stopping"
    using mon_step.signals [of sample_pair pair_up] by (simp add: pair_stopping_def)
  with pair_up_run show ?thesis unfolding mon_run_def by (rule rtranclp.rtrancl_into_rtrancl)
qed

theorem stop_order_witness:
  "m_flight pair_up = [Probing ''a'' 1 10000000000, Probing ''b'' 1 0] \<and>
   m_flight pair_stopping = m_flight pair_up @ [Deactivating ''b'' 2 (After_stop ''stopped'')] \<and>
   m_flight pair_second = m_flight pair_up @ [Deactivating ''a'' 2 (After_stop ''stopped'')] \<and>
   (\<exists>u. unit_at pair_second ''b'' = Some u \<and> sv_deps (un_decl u) = [''a''] \<and> (un_state u = Inactive \<or> un_state u = Failed))"
proof -
  have f: "m_flight pair_up = [Probing ''a'' 1 10000000000, Probing ''b'' 1 0]"
    "m_flight pair_stopping = m_flight pair_up @ [Deactivating ''b'' 2 (After_stop ''stopped'')]"
    "m_flight pair_second = m_flight pair_up @ [Deactivating ''a'' 2 (After_stop ''stopped'')]"
    "m_only pair_second = None" by code_simp+
  have "map_option (\<lambda>u. sv_deps (un_decl u)) (unit_at pair_second ''b'') = Some [''a'']" by code_simp
  then obtain u where u: "unit_at pair_second ''b'' = Some u" "sv_deps (un_decl u) = [''a'']" by auto
  have "mon_step sample_pair pair_stopping pair_second"
    unfolding pair_second_def by (rule arrive_step) (simp_all add: f)
  note order = stop_order [OF pair_stopping_run this, of "''a''" 2, THEN conjunct2, THEN spec [of _ "''b''"], THEN spec [of _ u]]
  have "un_state u = Inactive \<or> un_state u = Failed" using order u by (simp add: f)
  with u f show ?thesis by auto
qed

text \<open>An answer that carries a generation other than the unit's current one, or names no unit, changes nothing:
  the turn of the loop is then the sweep alone.\<close>

theorem stale_answer_dropped:
  assumes "answers f v" "\<forall>u. unit_at m (flight_unit f) = Some u \<longrightarrow> un_gen u \<noteq> flight_gen f"
  shows "handle e v m = stepAll e m"
proof -
  have "AList.update k x xs = xs" if "map_of xs k = Some x" for k and x :: unit_run and xs
    using that by (induction xs) (auto split: if_splits)
  then have "AList.update n u (m_units m) = m_units m" if "unit_at m n = Some u" for n u using that by (simp add: unit_at_def)
  then have "put_unit n (m, u) = m" if "unit_at m n = Some u" for n u using that by (simp add: put_unit_def)
  then have "handle_msg e v m = m"
    using assms(2) by (auto simp: handle_answer [OF assms(1)] answered_def with_unit_def split: option.splits)
  then show ?thesis by (simp add: handle_def)
qed

theorem stale_answer_dropped_witness: "handle sample_sup (Activated ''a'' 0 (Some ''late'')) sample_active = stepAll sample_sup sample_active"
  using stale_answer_dropped [of "Activating ''a'' 0 sample_service" "Activated ''a'' 0 (Some ''late'')" sample_active sample_sup]
    sample_active_state by auto

section \<open>Reload\<close>

lemma reload_one_bystander:
  "unit_at m n = Some u \<Longrightarrow> \<not> un_gone u \<Longrightarrow> sv_name d = n \<Longrightarrow> selected m d \<Longrightarrow> se_print e d = un_print u \<Longrightarrow> reload_one e d m = m"
  by (simp add: reload_one_def)

lemma reload_one_other: "sv_name d \<noteq> n \<Longrightarrow> unit_at (reload_one e d m) n = unit_at m n"
  by (auto simp: reload_one_def add_unit_def put_unit_def unit_at_def update_conv' asked_def split: option.splits)

lemma reload_one_selected: "selected (reload_one e d m) d' = selected m d'"
  by (simp add: reload_one_def add_unit_def put_unit_def asked_def selected_def split: option.splits)

lemma reload_fold_bystander:
  "unit_at m n = Some u \<Longrightarrow> \<not> un_gone u \<Longrightarrow> (\<And>d. d \<in> set ds \<Longrightarrow> sv_name d = n \<Longrightarrow> selected m d \<Longrightarrow> se_print e d = un_print u) \<Longrightarrow>
     unit_at (fold (reload_one e) ds m) n = Some u"
proof (induction ds arbitrary: m)
  case (Cons d ds)
  have "unit_at (reload_one e d m) n = Some u"
  proof (cases "sv_name d = n \<and> selected m d")
    case True
    then show ?thesis using Cons.prems(1,2) Cons.prems(3) [of d] reload_one_bystander [of m n u d e] by simp
  next
    case False
    then show ?thesis using reload_one_other [of d n e m] Cons.prems(1) by (cases "sv_name d = n") (auto simp: reload_one_def)
  qed
  moreover have "se_print e d' = un_print u" if "d' \<in> set ds" "sv_name d' = n" "selected (reload_one e d m) d'" for d'
    using Cons.prems(3) [of d'] that by (simp add: reload_one_selected)
  ultimately show ?case using Cons.IH [OF _ Cons.prems(2)] by simp
qed simp

lemma mark_gone_at: "unit_at (mark_gone seen m) n = map_option (\<lambda>u. if n \<in> set seen then u else u\<lparr>un_gone := True\<rparr>) (unit_at m n)"
proof -
  have "map_of (map (\<lambda>(n, u). (n, if n \<in> set seen then u else u\<lparr>un_gone := True\<rparr>)) us) n =
      map_option (\<lambda>u. if n \<in> set seen then u else u\<lparr>un_gone := True\<rparr>) (map_of us n)" for us :: "(string \<times> unit_run) list"
    by (induction us) auto
  then show ?thesis by (simp add: mark_gone_def unit_at_def)
qed

text \<open>A reload does not touch a bystander: a unit that is still declared, was not removed, and whose
  declarations in the registry have the fingerprint it already has keeps its record unchanged.\<close>

theorem reload_spares_bystanders:
  assumes "unit_at m n = Some u" "\<not> un_gone u" "\<exists>d \<in> set (fst (se_load e (m_reads m))). sv_name d = n \<and> selected m d"
    and "\<forall>d \<in> set (fst (se_load e (m_reads m))). sv_name d = n \<and> selected m d \<longrightarrow> se_print e d = un_print u"
  shows "unit_at (snd (reload e m)) n = Some u"
proof -
  obtain ds errs where l: "se_load e (m_reads m) = (ds, errs)" by fastforce
  have "unit_at (asked m) n = Some u" using assms(1) by (simp add: unit_at_def frame_simps)
  moreover have "selected (asked m) d = selected m d" for d by (simp add: selected_def asked_def)
  ultimately have f: "unit_at (fold (reload_one e) ds (asked m)) n = Some u"
    using assms(2,4) by (intro reload_fold_bystander) (auto simp: l)
  have "n \<in> set (map sv_name (filter (selected m) ds))" using assms(3) by (auto simp: l)
  with f show ?thesis by (simp add: reload_def l mark_gone_at)
qed

theorem reload_spares_bystanders_witness: "unit_at (snd (reload sample_sup sample_active)) ''a'' = unit_at sample_active ''a''"
proof -
  obtain u where u: "unit_at sample_active ''a'' = Some u" using sample_active_state by auto
  have p: "map_option (\<lambda>u. (un_print u, un_gone u)) (unit_at sample_active ''a'') = Some (''a'', False)" by code_simp
  have o': "m_only sample_active = None" by code_simp
  show ?thesis
    unfolding u using p by (intro reload_spares_bystanders [OF u]) (simp_all add: u sample_sup_def selected_def o' sample_service_def)
qed

section \<open>Policy\<close>

text \<open>C38. Every declaration resolves to a policy with positive intervals, ordered backoff bounds, a burst and a
  failure count that are not zero, and a restart policy that is not empty.\<close>

theorem policyOf_well_formed:
  "0 < po_min (policyOf parse u) \<and> po_min (policyOf parse u) \<le> po_max (policyOf parse u) \<and>
   0 < po_healthy_after (policyOf parse u) \<and> 0 < po_window (policyOf parse u) \<and> 0 < po_health_interval (policyOf parse u) \<and>
   0 < po_health_timeout (policyOf parse u) \<and> 0 < po_grace (policyOf parse u) \<and> 0 \<le> po_start_period (policyOf parse u) \<and>
   po_burst (policyOf parse u) \<noteq> 0 \<and> po_health_failures (policyOf parse u) \<noteq> 0 \<and> po_restart (policyOf parse u) \<noteq> []"
proof -
  have pos: "0 < durOr parse s d" if "0 < d" for s d using that by (simp add: durOr_def split: option.splits)
  have "0 \<le> durOr parse s 0" for s by (simp add: durOr_def split: option.splits)
  then show ?thesis
    by (simp add: policyOf_def Let_def pos supervisordMinBackoff_def supervisordMaxBackoff_def supervisordHealthyAfter_def
        supervisordGrace_def unitDefaultHealthInterval_def unitDefaultHealthTimeout_def unitDefaultStartInterval_def
        unitDefaultStartBurst_def unitDefaultHealthFailures_def second_def)
qed

text \<open>The restart delays of a declared unit, whose durations are below \<open>2 ^ 62\<close> nanoseconds so that doubling cannot
  wrap around, lie between the declared minimum and maximum; while every run ends before the healthy time, the
  i-th delay is the minimum doubled i times, cut at the maximum.\<close>

theorem restart_delays:
  assumes "\<forall>s v. parse s = Some v \<longrightarrow> v < 2 ^ 62" "i < length tooks" "p = policyOf parse u"
  shows "po_min p \<le> delays (newBackoffLadder (po_min p) (po_max p) (po_healthy_after p)) tooks ! i \<and>
    delays (newBackoffLadder (po_min p) (po_max p) (po_healthy_after p)) tooks ! i \<le> po_max p \<and>
    ((\<forall>took \<in> set tooks. took < po_healthy_after p) \<longrightarrow>
       delays (newBackoffLadder (po_min p) (po_max p) (po_healthy_after p)) tooks ! i = min (po_min p * 2 ^ i) (po_max p))"
proof -
  let ?b = "newBackoffLadder (po_min p) (po_max p) (po_healthy_after p)"
  have lt: "durOr parse s d < 2 ^ 62" if "d < 2 ^ 62" for s d
    using that assms(1) by (auto simp: durOr_def split: option.splits)
  have pos: "0 < durOr parse s d" if "0 < d" for s d using that by (simp add: durOr_def split: option.splits)
  have "po_max p < 2 ^ 62 \<and> 0 < po_min p \<and> po_min p \<le> po_max p"
    using lt pos by (auto simp: assms(3) policyOf_def Let_def supervisordMinBackoff_def supervisordMaxBackoff_def second_def)
  then have ok: "ladder_ok ?b" "la_next ?b = min (po_min p * 2 ^ 0) (la_max ?b)" "0 < po_min p"
    by (simp_all add: ladder_ok_def newBackoffLadder_def)
  have len: "length (delays b tooks) = length tooks" for b by (induction tooks arbitrary: b) (auto split: prod.splits)
  have "delays ?b tooks ! i \<in> set (delays ?b tooks)" using assms(2) len by (intro nth_mem) simp
  from delays_bounded [OF ok(1) this] delays_doubling [OF ok(1,2,3) _ assms(2)] show ?thesis
    by (simp add: newBackoffLadder_def)
qed

theorem restart_delays_witness:
  "delays (newBackoffLadder 1000000000 30000000000 30000000000) [0, 0, 0, 0, 0, 0] ! 5 = 30000000000"
proof -
  let ?p = "policyOf (\<lambda>_. None) sample_service"
  have p: "po_min ?p = 1000000000" "po_max ?p = 30000000000" "po_healthy_after ?p = 30000000000"
    by (simp_all add: policyOf_def Let_def durOr_def supervisordMinBackoff_def supervisordMaxBackoff_def supervisordHealthyAfter_def second_def)
  show ?thesis using restart_delays [of "\<lambda>_. None" 5 "[0, 0, 0, 0, 0, 0]" ?p sample_service] by (simp add: p)
qed

text \<open>C33. The start limit: among any attempts in the order of time, no window of the declared length contains more
  allowed starts than the burst.\<close>

theorem start_limit_holds:
  assumes "sorted ts" "0 < w" "w < 2 ^ 63" "0 \<le> b"
  shows "int (length (filter (\<lambda>t. x \<le> t \<and> t < x + w) (allowed \<lparr>li_burst = b, li_window = w, li_starts = []\<rparr> ts))) \<le> b"
  using allowed_within [of ts "\<lparr>li_burst = b, li_window = w, li_starts = []\<rparr>" x] assms by (simp add: within_def)

theorem start_limit_holds_witness:
  "allowed \<lparr>li_burst = 2, li_window = 10, li_starts = []\<rparr> [0, 3, 9, 12, 14] = [0, 3, 12, 14] \<and>
   int (length (filter (\<lambda>t. 3 \<le> t \<and> t < 3 + 10) (allowed \<lparr>li_burst = 2, li_window = 10, li_starts = []\<rparr> [0, 3, 9, 12, 14]))) \<le> 2"
  using start_limit_holds [of "[0, 3, 9, 12, 14]" 10 2 3] by (simp add: limiter_allow_def time_sub_def)

lemma verdict_simps:
  "un_health (snd (transition e to r c)) = un_health (snd c)" "un_restart (snd (transition e to r c)) = un_restart (snd c)"
  "un_health (snd (fail_unit e r c)) = []" "un_health (snd (refreshEnabled e c)) = un_health (snd c)"
  "un_pol (snd (refreshEnabled e c)) = un_pol (snd c)" "un_ladder (snd (refreshEnabled e c)) = un_ladder (snd c)"
  "sv_name (un_decl (snd (refreshEnabled e c))) = sv_name (un_decl (snd c))"
  by (cases c; auto simp: transition_def fail_unit_def refreshEnabled_def Let_def split: option.splits)+

lemma refreshEnabled_want:
  "wantUp (fst (refreshEnabled e (asked m, u\<lparr>un_health := h\<rparr>))) (snd (refreshEnabled e (asked m, u\<lparr>un_health := h\<rparr>))) =
   wantUp m (snd (refreshEnabled e (asked m, u)))"
  by (auto simp: refreshEnabled_def wantUp_def asked_def split: option.splits)

text \<open>What an exit leads to. The unit's enabled bit is read again from the registry; an unwanted unit ends inactive;
  otherwise, when the restart policy wants it, the unit is inactive, waits and its timer of the ladder's delay is
  in flight under its generation; a clean exit that is not restarted completes the unit, any other fails
  it, and both latch it down.\<close>

theorem exit_outcome:
  assumes "afterExit e ex r (m, u) = (m', u')" "v = snd (refreshEnabled e (asked m, u))"
  shows "un_busy u' = un_busy u \<and> un_gen u' = un_gen u \<and> un_health u' = [] \<and>
    (if \<not> wantUp m v then un_state u' = Inactive \<and> m_flight m' = m_flight m \<and> un_waiting u' = un_waiting u
     else if wantsRestart (un_pol u) ex then un_state u' = Inactive \<and> un_waiting u' \<and> un_restart u' \<and>
       m_flight m' = m_flight m @ [Sleeping (sv_name (un_decl u)) (un_gen u) ''restart''
         (fst (backoff_delay (un_ladder u) (time_sub (se_now e (m_reads m)) (un_started_at u))))]
     else un_latched u' \<and> m_flight m' = m_flight m \<and>
       un_state u' = (if ex_code ex = 0 \<and> \<not> ex_signaled ex \<and> ex_err ex = None then Inactive else Failed))"
proof -
  have r: "m' = fst (afterExit e ex r (m, u))" "u' = snd (afterExit e ex r (m, u))" by (simp_all add: assms(1))
  show ?thesis unfolding r assms(2)
    by (simp add: afterExit_def Let_def split_beta frame_simps verdict_simps refreshEnabled_want)
qed

theorem exit_outcome_witness:
  "\<exists>m' u'. afterExit sample_sup (exited 1) ''exit 1'' (newMonitor None False False None, new_unit sample_sup sample_service 0) = (m', u') \<and>
     un_state u' = Inactive \<and> un_waiting u' \<and> m_flight m' = [Sleeping ''a'' 0 ''restart'' 1000000000]"
proof -
  let ?m = "newMonitor None False False None" and ?u = "new_unit sample_sup sample_service 0"
  obtain m' u' where a: "afterExit sample_sup (exited 1) ''exit 1'' (?m, ?u) = (m', u')" by (rule prod.exhaust)
  have "wantUp ?m (snd (refreshEnabled sample_sup (asked ?m, ?u)))" "wantsRestart (un_pol ?u) (exited 1)" "m_flight ?m = []"
    "fst (backoff_delay (un_ladder ?u) (time_sub (se_now sample_sup (m_reads ?m)) (un_started_at ?u))) = 1000000000"
    "sv_name (un_decl ?u) = ''a''" "un_gen ?u = 0"
    by code_simp+
  with exit_outcome [OF a refl] show ?thesis using a by simp
qed

section \<open>Three runs of the monitor that show divergences\<close>

text \<open>The poll of the registry is not followed by a sweep: on a monitor with nothing running, an enabled unit
  that appears in the registry is added but not started, and nothing is in flight that would start it.\<close>

definition late_registry :: sup_env where
  "late_registry = sample_sup\<lparr>se_load := (\<lambda>k. if k = 0 then ([], []) else ([sample_service], []))\<rparr>"

lemma poll_starts_nothing:
  "mon_step late_registry (monitor_starts late_registry (newMonitor None False False None))
     (snd (reload late_registry (monitor_starts late_registry (newMonitor None False False None)))) \<and>
   (case snd (reload late_registry (monitor_starts late_registry (newMonitor None False False None))) of m \<Rightarrow>
     m_flight m = [] \<and> map_option (\<lambda>u. (un_state u, wantUp m u, un_latched u)) (unit_at m ''a'') = Some (Inactive, True, False))"
proof
  show "mon_step late_registry (monitor_starts late_registry (newMonitor None False False None))
     (snd (reload late_registry (monitor_starts late_registry (newMonitor None False False None))))"
    by (rule mon_step.polls) code_simp
qed code_simp

text \<open>The generation starts again at 0 when a removed unit is declared again: the probe of the first
  incarnation is then an answer of the second's generation, and counts for it.\<close>

definition redeclared_registry :: sup_env where
  "redeclared_registry = sample_sup\<lparr>se_load := (\<lambda>k. if k = 7 then ([], []) else ([sample_service], []))\<rparr>"

definition ask_reload :: ctl_request where
  "ask_reload = \<lparr>rq_op = Op_reload, rq_unit = [], rq_owner = [], rq_status = \<lparr>os_unit = [], os_state = Inactive, os_reason = [], os_health = []\<rparr>\<rparr>"

definition first_life :: monitor where
  "first_life = arrive redeclared_registry 0 (Activated ''a'' 1 None) (monitor_starts redeclared_registry (newMonitor None False False None))"

definition second_life :: monitor where
  "second_life = handle redeclared_registry (Control ask_reload)
     (arrive redeclared_registry 1 (Deactivated ''a'' 2 (After_stop ''stopped'')) (handle redeclared_registry (Control ask_reload) first_life))"

lemma generation_reused:
  "map_option un_gen (unit_at first_life ''a'') = Some 1 \<and> m_flight first_life = [Probing ''a'' 1 0] \<and>
   unit_at (arrive redeclared_registry 1 (Deactivated ''a'' 2 (After_stop ''stopped'')) (handle redeclared_registry (Control ask_reload) first_life)) ''a'' = None \<and>
   map_option un_gen (unit_at second_life ''a'') = Some 1 \<and> m_flight second_life = [Probing ''a'' 1 0, Activating ''a'' 1 sample_service]"
  by (intro conjI) code_simp+

end
