(* ===== verification/Ladder_Distance.thy ===== *)
theory Ladder_Distance
  imports Go_Runes
begin

text \<open>
  The edit distance of \<open>pkg/ladder/ladder.go\<close>: the table the code fills, cell by cell, and the proof that
  its last cell is the least cost of an alignment of the two words.
\<close>

section \<open>The table\<close>

type_synonym table = "nat \<times> nat \<Rightarrow> nat"

definition init_table :: "nat \<Rightarrow> nat \<Rightarrow> table" where
  "init_table m n = fold (\<lambda>j d. d((0, j) := j)) [0..<Suc n] (fold (\<lambda>i d. d((i, 0) := i)) [0..<Suc m] (\<lambda>_. 0))"

definition fill_cell :: "nat list \<Rightarrow> nat list \<Rightarrow> nat \<Rightarrow> nat \<Rightarrow> table \<Rightarrow> table" where
  "fill_cell s t i j d =
     (let cost = (if s ! (i - 1) = t ! (j - 1) then 0 else 1);
          d1 = d((i, j) := min (d (i - 1, j) + 1) (min (d (i, j - 1) + 1) (d (i - 1, j - 1) + cost)))
      in if i > 1 \<and> j > 1 \<and> s ! (i - 1) = t ! (j - 2) \<and> s ! (i - 2) = t ! (j - 1)
         then d1((i, j) := min (d1 (i, j)) (d1 (i - 2, j - 2) + 1)) else d1)"

definition fill_row :: "nat list \<Rightarrow> nat list \<Rightarrow> nat \<Rightarrow> table \<Rightarrow> table" where
  "fill_row s t i d = fold (fill_cell s t i) [1..<Suc (length t)] d"

definition distance :: "string \<Rightarrow> string \<Rightarrow> nat" where
  "distance a b = (let s = runes a; t = runes b in
     fold (fill_row s t) [1..<Suc (length s)] (init_table (length s) (length t)) (length s, length t))"

section \<open>Alignments\<close>

text \<open>An alignment turns one word into the other by keeping, deleting, inserting and replacing letters and by
  swapping two neighbours; every step but keeping costs one.\<close>

inductive alignment :: "nat \<Rightarrow> 'a list \<Rightarrow> 'a list \<Rightarrow> bool" where
  empty: "alignment 0 [] []"
| keep: "alignment n xs ys \<Longrightarrow> alignment n (x # xs) (x # ys)"
| delete: "alignment n xs ys \<Longrightarrow> alignment (Suc n) (x # xs) ys"
| insert: "alignment n xs ys \<Longrightarrow> alignment (Suc n) xs (y # ys)"
| replace: "alignment n xs ys \<Longrightarrow> alignment (Suc n) (x # xs) (y # ys)"
| swap: "alignment n xs ys \<Longrightarrow> alignment (Suc n) (x # y # xs) (y # x # ys)"

lemma alignment_append: "alignment n xs ys \<Longrightarrow> alignment k us vs \<Longrightarrow> alignment (n + k) (xs @ us) (ys @ vs)"
  by (induction rule: alignment.induct) (auto intro: alignment.intros)

lemma alignment_rev: "alignment n xs ys \<Longrightarrow> alignment n (rev xs) (rev ys)"
proof (induction rule: alignment.induct)
  case (keep n xs ys x)
  then show ?case using alignment_append [of n _ _ 0 "[x]" "[x]"] by (simp add: alignment.intros)
next
  case (delete n xs ys x)
  then show ?case using alignment_append [of n _ _ 1 "[x]" "[]"] by (simp add: alignment.intros)
next
  case (insert n xs ys y)
  then show ?case using alignment_append [of n _ _ 1 "[]" "[y]"] by (simp add: alignment.intros)
next
  case (replace n xs ys x y)
  then show ?case using alignment_append [of n _ _ 1 "[x]" "[y]"] by (simp add: alignment.intros)
next
  case (swap n xs ys x y)
  then show ?case using alignment_append [of n _ _ 1 "[y, x]" "[x, y]"] by (simp add: alignment.intros)
qed (simp add: alignment.empty)

lemma alignment_sym: "alignment n xs ys \<Longrightarrow> alignment n ys xs"
  by (induction rule: alignment.induct) (auto intro: alignment.intros)

lemma alignment_length: "alignment n xs ys \<Longrightarrow> length xs \<le> length ys + n \<and> length ys \<le> length xs + n"
  by (induction rule: alignment.induct) auto

lemma alignment_zero: "alignment 0 xs ys \<longleftrightarrow> xs = ys"
proof
  show "alignment 0 xs ys \<Longrightarrow> xs = ys" by (induction "0::nat" xs ys rule: alignment.induct) simp_all
  show "xs = ys \<Longrightarrow> alignment 0 xs ys" by (induction xs arbitrary: ys) (auto intro: alignment.intros)
qed

text \<open>The recursion the table follows, on the words read backwards.\<close>

fun swapped :: "'a list \<Rightarrow> 'a list \<Rightarrow> bool" where
  "swapped (x # x' # xs) (y # y' # ys) \<longleftrightarrow> x = y' \<and> x' = y"
| "swapped _ _ \<longleftrightarrow> False"

function osa :: "'a list \<Rightarrow> 'a list \<Rightarrow> nat" where
  "osa [] ys = length ys"
| "osa (x # xs) [] = Suc (length xs)"
| "osa (x # xs) (y # ys) =
     (let m = min (osa xs (y # ys) + 1) (min (osa (x # xs) ys + 1) (osa xs ys + (if x = y then 0 else 1)))
      in if swapped (x # xs) (y # ys) then min m (osa (tl xs) (tl ys) + 1) else m)"
  by pat_completeness auto
termination by (relation "measure (\<lambda>(xs, ys). length xs + length ys)") auto

declare osa.simps(3) [simp del]

lemma osa_Nil [simp]: "osa xs [] = length xs" by (cases xs) simp_all

lemma alignment_Nil: "alignment (length ys) [] ys" "alignment (length xs) xs []"
  by (induction ys, auto intro: alignment.intros) (induction xs, auto intro: alignment.intros)

lemma osa_attained: "alignment (osa xs ys) xs ys"
proof (induction xs ys rule: osa.induct)
  case (3 x xs y ys)
  have s: "alignment (Suc (osa (tl xs) (tl ys))) (x # xs) (y # ys)" if sw: "swapped (x # xs) (y # ys)"
  proof -
    obtain xs' ys' where "xs = y # xs'" "ys = x # ys'"
      using sw by (cases xs; cases ys) auto
    then show ?thesis using alignment.swap [OF 3(4) [OF refl sw]] by simp
  qed
  have r: "alignment (osa xs ys + (if x = y then 0 else 1)) (x # xs) (y # ys)"
    using 3(3) by (auto intro: alignment.keep alignment.replace)
  have "osa (x # xs) (y # ys) \<in> {osa xs (y # ys) + 1, osa (x # xs) ys + 1, osa xs ys + (if x = y then 0 else 1)} \<or>
      swapped (x # xs) (y # ys) \<and> osa (x # xs) (y # ys) = Suc (osa (tl xs) (tl ys))"
    by (auto simp: osa.simps(3) Let_def min_def)
  then consider "osa (x # xs) (y # ys) = Suc (osa xs (y # ys))" | "osa (x # xs) (y # ys) = Suc (osa (x # xs) ys)"
    | "osa (x # xs) (y # ys) = osa xs ys + (if x = y then 0 else 1)"
    | "swapped (x # xs) (y # ys)" "osa (x # xs) (y # ys) = Suc (osa (tl xs) (tl ys))"
    by (simp only: insert_iff empty_iff add_Suc_right add_0_right One_nat_def) blast
  then show ?case
  proof cases
    case 1
    then show ?thesis using alignment.delete [OF 3(1)] by simp
  next
    case 2
    then show ?thesis using alignment.insert [OF 3(2)] by simp
  next
    case 3
    then show ?thesis using r by simp
  next
    case 4
    then show ?thesis using s by simp
  qed
qed (simp_all add: alignment_Nil alignment.delete)

lemma osa_steps:
  "osa (x # xs) ys \<le> Suc (osa xs ys)" "osa xs (y # ys) \<le> Suc (osa xs ys)"
  "osa (x # xs) (y # ys) \<le> Suc (osa xs ys)" "osa (x # xs) (x # ys) \<le> osa xs ys"
  "osa (x # y # xs) (y # x # ys) \<le> Suc (osa xs ys)"
proof -
  show "osa (x # xs) ys \<le> Suc (osa xs ys)" by (cases ys) (simp_all add: osa.simps(3) Let_def min_le_iff_disj)
  show "osa xs (y # ys) \<le> Suc (osa xs ys)" by (cases xs) (simp_all add: osa.simps(3) Let_def min_le_iff_disj)
  show "osa (x # xs) (y # ys) \<le> Suc (osa xs ys)" by (simp add: osa.simps(3) Let_def min_le_iff_disj)
  show "osa (x # xs) (x # ys) \<le> osa xs ys" by (simp add: osa.simps(3) Let_def min_le_iff_disj)
  show "osa (x # y # xs) (y # x # ys) \<le> Suc (osa xs ys)"
    unfolding osa.simps(3) [of x "y # xs" y "x # ys"] by (simp add: Let_def min_le_iff_disj)
qed

lemma osa_least: "alignment n xs ys \<Longrightarrow> osa xs ys \<le> n"
proof (induction rule: alignment.induct)
  case (keep n xs ys x)
  then show ?case using osa_steps(4) [of x xs ys] by linarith
next
  case (delete n xs ys x)
  then show ?case using osa_steps(1) [of x xs ys] by linarith
next
  case (insert n xs ys y)
  then show ?case using osa_steps(2) [of xs y ys] by linarith
next
  case (replace n xs ys x y)
  then show ?case using osa_steps(3) [of x xs y ys] by linarith
next
  case (swap n xs ys x y)
  then show ?case using osa_steps(5) [of x y xs ys] by linarith
qed simp

lemma osa_rev: "osa (rev xs) (rev ys) = osa xs ys"
proof (rule antisym)
  show "osa (rev xs) (rev ys) \<le> osa xs ys" by (rule osa_least [OF alignment_rev [OF osa_attained]])
  show "osa xs ys \<le> osa (rev xs) (rev ys)" using osa_least [OF alignment_rev [OF osa_attained [of "rev xs" "rev ys"]]] by simp
qed

section \<open>The table holds the distances of the prefixes\<close>

lemma fold_upt:
  assumes "a \<le> b" and "P a x" and "\<And>i x. a \<le> i \<Longrightarrow> i < b \<Longrightarrow> P i x \<Longrightarrow> P (Suc i) (f i x)"
  shows "P b (fold f [a..<b] x)"
  using assms by (induction b rule: dec_induct) auto

definition front :: "nat list \<Rightarrow> nat \<Rightarrow> nat list" where
  "front s i = rev (take i s)"

lemma front_0 [simp]: "front s 0 = []" and front_length: "i \<le> length s \<Longrightarrow> length (front s i) = i"
  by (simp_all add: front_def)

lemma front_Suc: "i < length s \<Longrightarrow> front s (Suc i) = s ! i # front s i"
  by (simp add: front_def take_Suc_conv_app_nth)

definition cells :: "nat list \<Rightarrow> nat list \<Rightarrow> (nat \<Rightarrow> nat \<Rightarrow> bool) \<Rightarrow> table \<Rightarrow> bool" where
  "cells s t P d \<longleftrightarrow> (\<forall>i \<le> length s. \<forall>j \<le> length t. P i j \<longrightarrow> d (i, j) = osa (front s i) (front t j))"

definition known :: "nat \<Rightarrow> nat \<Rightarrow> nat \<Rightarrow> nat \<Rightarrow> bool" where
  "known i j i' j' \<longleftrightarrow> i' = 0 \<or> j' = 0 \<or> i' < i \<or> i' = i \<and> j' < j"

lemma init_cells: "cells s t (known 1 0) (init_table (length s) (length t))"
proof -
  have a: "fold (\<lambda>i d. d((i, 0) := i)) [0..<b] d = (\<lambda>(i, j). if j = 0 \<and> i < b then i else d (i, j))" for b and d :: table
    by (induction b) (auto simp: fun_eq_iff)
  have b: "fold (\<lambda>j d. d((0, j) := j)) [0..<b] d = (\<lambda>(i, j). if i = 0 \<and> j < b then j else d (i, j))" for b and d :: table
    by (induction b) (auto simp: fun_eq_iff)
  show ?thesis unfolding cells_def init_table_def a b known_def
    by (auto simp: front_length)
qed

lemma swapped_front:
  assumes "0 < i" "0 < j" "i \<le> length s" "j \<le> length t"
  shows "swapped (front s i) (front t j) \<longleftrightarrow> i > 1 \<and> j > 1 \<and> s ! (i - 1) = t ! (j - 2) \<and> s ! (i - 2) = t ! (j - 1)"
proof -
  obtain i' j' where ij: "i = Suc i'" "j = Suc j'" using assms(1,2) by (metis gr0_implies_Suc)
  show ?thesis
  proof (cases "i' = 0 \<or> j' = 0")
    case True
    then show ?thesis using assms(3,4) unfolding ij by (cases "front s i'"; cases "front t j'") (auto simp: front_Suc)
  next
    case False
    then obtain i2 j2 where "i' = Suc i2" "j' = Suc j2" by (metis not0_implies_Suc)
    then show ?thesis using assms(3,4) unfolding ij by (simp add: front_Suc)
  qed
qed

lemma osa_cell:
  assumes "0 < i" "0 < j" "i \<le> length s" "j \<le> length t"
  shows "osa (front s i) (front t j) =
    (let m = min (osa (front s (i - 1)) (front t j) + 1) (min (osa (front s i) (front t (j - 1)) + 1)
                (osa (front s (i - 1)) (front t (j - 1)) + (if s ! (i - 1) = t ! (j - 1) then 0 else 1)))
     in if i > 1 \<and> j > 1 \<and> s ! (i - 1) = t ! (j - 2) \<and> s ! (i - 2) = t ! (j - 1)
        then min m (osa (front s (i - 2)) (front t (j - 2)) + 1) else m)"
proof -
  have u: "front s i = s ! (i - 1) # front s (i - 1)" if "0 < i" "i \<le> length s" for s i
    using that front_Suc [of "i - 1" s] by simp
  have t: "tl (front s (i - 1)) = front s (i - 2)" if "1 < i" "i \<le> length s" for s i
    using u [of "i - 1" s] that by (simp add: numeral_2_eq_2)
  show ?thesis
    unfolding u [OF assms(1,3)] u [OF assms(2,4)] osa.simps(3) swapped_front [OF assms, unfolded u [OF assms(1,3)] u [OF assms(2,4)]]
    using t [OF _ assms(3)] t [OF _ assms(4)] by (simp add: Let_def)
qed

lemma fill_cell_at:
  assumes "0 < i" "0 < j"
  shows "fill_cell s t i j d (i, j) =
    (let m = min (d (i - 1, j) + 1) (min (d (i, j - 1) + 1) (d (i - 1, j - 1) + (if s ! (i - 1) = t ! (j - 1) then 0 else 1)))
     in if i > 1 \<and> j > 1 \<and> s ! (i - 1) = t ! (j - 2) \<and> s ! (i - 2) = t ! (j - 1)
        then min m (d (i - 2, j - 2) + 1) else m)"
proof -
  have "(i - 2, j - 2) \<noteq> (i, j)" using assms by simp
  then show ?thesis unfolding fill_cell_def Let_def
    by (cases "i > 1 \<and> j > 1 \<and> s ! (i - 1) = t ! (j - 2) \<and> s ! (i - 2) = t ! (j - 1)")
       (simp_all only: if_True if_False simp_thms fun_upd_same fun_upd_other)
qed

lemma fill_cell_known:
  assumes "cells s t (known i j) d" "0 < i" "0 < j" "i \<le> length s" "j \<le> length t"
  shows "cells s t (known i (Suc j)) (fill_cell s t i j d)"
proof -
  have d: "d (i', j') = osa (front s i') (front t j')" if "i' \<le> i" "j' \<le> j" "i' < i \<or> j' < j" for i' j'
  proof -
    have "i' \<le> length s" "j' \<le> length t" using that assms by auto
    moreover have "known i j i' j'" using that by (auto simp: known_def)
    ultimately show ?thesis using assms(1) unfolding cells_def by blast
  qed
  have new: "fill_cell s t i j d (i, j) = osa (front s i) (front t j)"
  proof -
    have "d (i - 1, j) = osa (front s (i - 1)) (front t j)" by (rule d) (use assms in simp_all)
    moreover have "d (i, j - 1) = osa (front s i) (front t (j - 1))" by (rule d) (use assms in simp_all)
    moreover have "d (i - 1, j - 1) = osa (front s (i - 1)) (front t (j - 1))" by (rule d) (use assms in simp_all)
    moreover have "d (i - 2, j - 2) = osa (front s (i - 2)) (front t (j - 2))" by (rule d) (use assms in simp_all)
    ultimately show ?thesis unfolding osa_cell [OF assms(2-5)] fill_cell_at [OF assms(2,3)] by (simp only:)
  qed
  have old: "fill_cell s t i j d q = d q" if "q \<noteq> (i, j)" for q
    unfolding fill_cell_def Let_def using that
    by (cases "i > 1 \<and> j > 1 \<and> s ! (i - 1) = t ! (j - 2) \<and> s ! (i - 2) = t ! (j - 1)")
       (simp_all only: if_True if_False simp_thms fun_upd_other)
  show ?thesis
    unfolding cells_def
  proof (intro allI impI)
    fix i' j' assume le: "i' \<le> length s" "j' \<le> length t" and k: "known i (Suc j) i' j'"
    show "fill_cell s t i j d (i', j') = osa (front s i') (front t j')"
    proof (cases "(i', j') = (i, j)")
      case True
      then show ?thesis using new by simp
    next
      case False
      then have "known i j i' j'" using k by (auto simp: known_def)
      then show ?thesis using assms(1) le old [OF False] by (simp add: cells_def)
    qed
  qed
qed

lemma fill_row_known:
  assumes "cells s t (known i 0) d" "0 < i" "i \<le> length s"
  shows "cells s t (known (Suc i) 0) (fill_row s t i d)"
proof -
  have "cells s t (known i (Suc (length t))) (fill_row s t i d)"
    unfolding fill_row_def
  proof (rule fold_upt [where P = "\<lambda>j. cells s t (known i j)"])
    show "cells s t (known i 1) d" using assms(1) by (auto simp: cells_def known_def less_Suc_eq)
  qed (use assms fill_cell_known in auto)
  moreover have "known i (Suc (length t)) i' j'" if "known (Suc i) 0 i' j'" "j' \<le> length t" for i' j'
    using that by (auto simp: known_def)
  ultimately show ?thesis by (simp add: cells_def)
qed

lemma distance_osa: "distance a b = osa (runes a) (runes b)"
proof -
  let ?s = "runes a" and ?t = "runes b"
  let ?d = "fold (fill_row ?s ?t) [1..<Suc (length ?s)] (init_table (length ?s) (length ?t))"
  have "cells ?s ?t (known (Suc (length ?s)) 0) ?d"
  proof (rule fold_upt [where P = "\<lambda>i. cells ?s ?t (known i 0)"])
    show "cells ?s ?t (known 1 0) (init_table (length ?s) (length ?t))" by (rule init_cells)
  qed (use fill_row_known in auto)
  then have "?d (length ?s, length ?t) = osa (front ?s (length ?s)) (front ?t (length ?t))"
    by (simp add: cells_def known_def)
  then show ?thesis by (simp add: distance_def Let_def front_def osa_rev)
qed

lemma distance_least: "alignment (distance a b) (runes a) (runes b)"
  "alignment n (runes a) (runes b) \<Longrightarrow> distance a b \<le> n"
  unfolding distance_osa by (rule osa_attained, rule osa_least)

lemma distance_sym: "distance a b = distance b a"
  using distance_least(2) [OF alignment_sym [OF distance_least(1) [of a b]]] distance_least(2) [OF alignment_sym [OF distance_least(1) [of b a]]]
  by simp

lemma distance_length: "length (runes a) \<le> length (runes b) + distance a b" "length (runes b) \<le> length (runes a) + distance a b"
  using alignment_length [OF distance_least(1) [of a b]] by blast+

lemma distance_zero: "distance a b = 0 \<longleftrightarrow> runes a = runes b"
  using distance_least(1) [of a b] distance_least(2) [of 0 a b] by (auto simp: alignment_zero)

end
