(* ===== verification/Ladder.thy ===== *)
theory Ladder
  imports Ladder_Distance
begin

text \<open>
  The action ladder (\<open>pkg/ladder/ladder.go\<close>): which rung a line of input lands on. The letter and digit
  tables of \<open>unicode\<close> and \<open>syntax.IsKeyword\<close> of the sh module are parameters; the shell is the
  interface \<open>Commands\<close>, with the optional \<open>Globber\<close>.
\<close>

section \<open>Interfaces\<close>

record ladder_env =
  le_letter :: "nat \<Rightarrow> bool"
  le_digit :: "nat \<Rightarrow> bool"
  le_keyword :: "string \<Rightarrow> bool"

record commands =
  co_known :: "string \<Rightarrow> bool"
  co_names :: "string list"
  co_globs :: "(string \<Rightarrow> bool) option"

datatype rung = Literal | Repair | Free

definition Rung_String :: "rung \<Rightarrow> string" where
  "Rung_String r = (case r of Literal \<Rightarrow> ''literal'' | Repair \<Rightarrow> ''repair'' | Free \<Rightarrow> ''free'')"

record decision =
  de_rung :: rung
  de_line :: string
  de_note :: string

section \<open>Words\<close>

definition word_end :: "nat \<Rightarrow> bool" where
  "word_end r \<longleftrightarrow> is_space r \<or> r \<in> byte ` set '';|&<>()''"

definition firstWord :: "string \<Rightarrow> string \<times> string" where
  "firstWord text = (chunk_text (takeWhile (\<lambda>q. \<not> word_end (fst q)) (chunks text)),
                     chunk_text (dropWhile (\<lambda>q. \<not> word_end (fst q)) (chunks text)))"

text \<open>Rune positions: the first rune of a string is the one at byte 0.\<close>

definition validName :: "ladder_env \<Rightarrow> string \<Rightarrow> bool" where
  "validName env s \<longleftrightarrow> s \<noteq> [] \<and>
     list_all (\<lambda>(i, r). \<not> (r \<noteq> byte (CHR ''_'') \<and> \<not> le_letter env r \<and> (i = 0 \<or> \<not> le_digit env r))) (enumerate 0 (runes s))"

definition shellSyntax :: "ladder_env \<Rightarrow> string \<Rightarrow> bool" where
  "shellSyntax env word \<longleftrightarrow>
     (if word = [] \<or> le_keyword env word then True
      else if hd word \<in> set [CHR ''('', CHR ''{'', CHR ''!'', CHR ''['', CHR ''.'', CHR '':'', CHR ''#'', CHR ''$'', CHR ''~'', CHR ''/'',
                CHR 0x22, CHR 0x27, CHR 0x60, CHR 0x5C, CHR ''<'', CHR ''>''] then True
      else if CHR ''/'' \<in> set word then True
      else if CHR ''='' \<in> set word \<and> hd word \<noteq> CHR ''='' \<and> validName env (takeWhile (\<lambda>c. c \<notin> set ''+=['') word) then True
      else False)"

definition trim_right :: "string \<Rightarrow> string \<Rightarrow> string" where
  "trim_right cutset s = rev (dropWhile (\<lambda>c. c \<in> set cutset) (rev s))"

definition asks :: "commands \<Rightarrow> string \<Rightarrow> bool" where
  "asks cmds w = (let word = trim_right '',.;:!)'' w in
     if \<not> has_suffix word ''?'' \<or> has_suffix word [CHR 0x5C, CHR ''?''] \<or>
        list_ex (\<lambda>c. c \<in> set [CHR 0x22, CHR 0x27, CHR 0x60, CHR ''$'', CHR ''*'', CHR ''['']) word then False
     else case co_globs cmds of Some g \<Rightarrow> \<not> g word | None \<Rightarrow> True)"

definition question :: "commands \<Rightarrow> string \<Rightarrow> bool" where
  "question cmds text \<longleftrightarrow> list_ex (asks cmds) (tl (text_fields text))"

section \<open>Repair\<close>

definition commandLike :: "ladder_env \<Rightarrow> string \<Rightarrow> bool" where
  "commandLike env word \<longleftrightarrow> list_all (\<lambda>r. \<not> (\<not> le_letter env r \<and> \<not> le_digit env r \<and> r \<noteq> byte (CHR ''-'') \<and>
     r \<noteq> byte (CHR ''_'') \<and> r \<noteq> byte (CHR ''.'') \<and> r \<noteq> byte (CHR ''+''))) (runes word)"

definition ladder_abs :: "int \<Rightarrow> int" where
  "ladder_abs n = (if n < 0 then - n else n)"

definition letter_counts :: "string \<Rightarrow> string \<Rightarrow> nat \<Rightarrow> int" where
  "letter_counts a b = fold (\<lambda>r c. c(r := c r - 1)) (runes b) (fold (\<lambda>r c. c(r := c r + 1)) (runes a) (\<lambda>_. 0))"

definition sameLetters :: "string \<Rightarrow> string \<Rightarrow> bool" where
  "sameLetters a b \<longleftrightarrow> list_all (\<lambda>r. letter_counts a b r = 0) (runes a @ runes b)"

record search =
  se_seen :: "string list"
  se_best :: "string list"
  se_dist :: nat

definition repair_step :: "string \<Rightarrow> nat \<Rightarrow> nat \<Rightarrow> string \<Rightarrow> search \<Rightarrow> search" where
  "repair_step word n limit name st =
     (if name = word \<or> name \<in> set (se_seen st) \<or> ladder_abs (int (length (runes name)) - int n) > int limit then st
      else
        let st = st\<lparr>se_seen := name # se_seen st\<rparr>; d = distance word name in
        if d > limit then st
        else if d < se_dist st then st\<lparr>se_best := [name], se_dist := d\<rparr>
        else if d = se_dist st then st\<lparr>se_best := se_best st @ [name]\<rparr>
        else st)"

definition repair :: "ladder_env \<Rightarrow> string \<Rightarrow> string list \<Rightarrow> string option" where
  "repair env word names =
     (let n = length (runes word) in
      if n < 3 \<or> \<not> commandLike env word then None
      else
        let limit = (if n \<ge> 7 then 2 else 1);
            best = se_best (fold (repair_step word n limit) names \<lparr>se_seen = [], se_best = [], se_dist = limit + 1\<rparr>)
        in if length best = 1 then Some (hd best)
           else let anagrams = filter (sameLetters word) best in
             if length anagrams = 1 then Some (hd anagrams) else None)"

section \<open>The ladder\<close>

definition arrow :: string where "arrow = [CHR '' '', CHR 0xE2, CHR 0x86, CHR 0x92, CHR '' '']"

definition Resolve :: "ladder_env \<Rightarrow> commands \<Rightarrow> string \<Rightarrow> decision" where
  "Resolve env cmds line =
     (let text = trim_space line; (word, rest) = firstWord text in
      if word = [] \<or> shellSyntax env word \<or> co_known cmds word \<and> \<not> question cmds text
      then \<lparr>de_rung = Literal, de_line = line, de_note = []\<rparr>
      else if question cmds text then \<lparr>de_rung = Free, de_line = text, de_note = []\<rparr>
      else case repair env word (co_names cmds) of
        Some fixed \<Rightarrow> \<lparr>de_rung = Repair, de_line = fixed @ rest, de_note = word @ arrow @ fixed\<rparr>
      | None \<Rightarrow> \<lparr>de_rung = Free, de_line = text, de_note = []\<rparr>)"

section \<open>What repair finds\<close>

lemma letter_counts_count: "letter_counts a b r = int (count (mset (runes a)) r) - int (count (mset (runes b)) r)"
proof -
  have up: "fold (\<lambda>r c. c(r := c r + 1)) rs c = (\<lambda>r. c r + int (count (mset rs) r))" for rs and c :: "nat \<Rightarrow> int"
    by (induction rs arbitrary: c) (auto simp: fun_eq_iff)
  have down: "fold (\<lambda>r c. c(r := c r - 1)) rs c = (\<lambda>r. c r - int (count (mset rs) r))" for rs and c :: "nat \<Rightarrow> int"
    by (induction rs arbitrary: c) (auto simp: fun_eq_iff)
  show ?thesis by (simp add: letter_counts_def up down)
qed

lemma sameLetters_mset: "sameLetters a b \<longleftrightarrow> mset (runes a) = mset (runes b)"
proof
  assume same: "sameLetters a b"
  have "count (mset (runes a)) r = count (mset (runes b)) r" for r
  proof (cases "r \<in> set (runes a @ runes b)")
    case True
    then show ?thesis using same by (auto simp: sameLetters_def letter_counts_count list_all_iff)
  next
    case False
    then show ?thesis by (metis Un_iff count_mset_0_iff set_append)
  qed
  then show "mset (runes a) = mset (runes b)" by (rule multiset_eqI)
qed (simp add: sameLetters_def letter_counts_count list_all_iff)

definition edit_limit :: "string \<Rightarrow> nat" where
  "edit_limit word = (if length (runes word) \<ge> 7 then 2 else 1)"

definition candidates :: "string \<Rightarrow> string set \<Rightarrow> string set" where
  "candidates word names = {x \<in> names. x \<noteq> word \<and> distance word x \<le> edit_limit word}"

definition nearest :: "string \<Rightarrow> string set \<Rightarrow> string set" where
  "nearest word names = {x \<in> candidates word names. \<forall>y \<in> candidates word names. distance word x \<le> distance word y}"

lemma nearest_all: "(\<And>x. x \<in> candidates word A \<Longrightarrow> distance word x = d) \<Longrightarrow> nearest word A = candidates word A"
  by (auto simp: nearest_def)

text \<open>The filter on lengths never hides a candidate: an edit changes the length by at most one.\<close>

lemma length_filter: "distance word x \<le> k \<Longrightarrow> \<not> ladder_abs (int (length (runes x)) - int (length (runes word))) > int k"
  using distance_length [of word x] distance_length [of x word] by (auto simp: ladder_abs_def distance_sym)

text \<open>The loop invariant: the candidates among the names passed are recorded as seen, none of them is nearer
  than the distance kept, and those at that distance are the best ones.\<close>

definition found :: "string \<Rightarrow> string set \<Rightarrow> search \<Rightarrow> bool" where
  "found word A st \<longleftrightarrow> candidates word A \<subseteq> set (se_seen st) \<and> set (se_seen st) \<subseteq> A \<and> distinct (se_best st) \<and>
     set (se_best st) = {x \<in> candidates word A. distance word x = se_dist st} \<and>
     (\<forall>x \<in> candidates word A. se_dist st \<le> distance word x) \<and>
     (candidates word A \<noteq> {} \<longrightarrow> se_best st \<noteq> []) \<and> (candidates word A = {} \<longrightarrow> se_dist st = edit_limit word + 1)"

lemma candidates_insert: "candidates word (insert x A) =
    (if x \<noteq> word \<and> distance word x \<le> edit_limit word then insert x (candidates word A) else candidates word A)"
  by (auto simp: candidates_def)

lemma found_pass: "found word A st \<Longrightarrow> x = word \<or> distance word x > edit_limit word \<Longrightarrow> found word (insert x A) st"
  unfolding found_def candidates_insert by auto

lemma found_step:
  assumes "found word A st"
  shows "found word (insert name A) (repair_step word (length (runes word)) (edit_limit word) name st)"
proof -
  let ?k = "edit_limit word" and ?d = "distance word name" and ?n = "length (runes word)"
  consider "name = word \<or> ladder_abs (int (length (runes name)) - int ?n) > int ?k"
    | "name \<in> set (se_seen st)" "name \<noteq> word" "\<not> ladder_abs (int (length (runes name)) - int ?n) > int ?k"
    | "name \<notin> set (se_seen st)" "name \<noteq> word" "\<not> ladder_abs (int (length (runes name)) - int ?n) > int ?k"
    by blast
  then show ?thesis
  proof cases
    case 1
    then have "name = word \<or> ?d > ?k" using length_filter [of word name ?k] by (meson not_le)
    with found_pass [OF assms this] show ?thesis using 1 by (auto simp: repair_step_def)
  next
    case 2
    then have "insert name A = A" using assms by (auto simp: found_def)
    with 2 assms show ?thesis by (simp add: repair_step_def)
  next
    case 3
    let ?st = "st\<lparr>se_seen := name # se_seen st\<rparr>"
    have fresh: "name \<notin> set (se_best st)" "candidates word A \<subseteq> set (se_seen st)" "set (se_seen st) \<subseteq> A"
      using assms 3 by (auto simp: found_def)
    have step: "repair_step word ?n ?k name st = (if ?d > ?k then ?st
        else if ?d < se_dist st then ?st\<lparr>se_best := [name], se_dist := ?d\<rparr>
        else if ?d = se_dist st then ?st\<lparr>se_best := se_best st @ [name]\<rparr> else ?st)"
      using 3 by (simp add: repair_step_def Let_def)
    show ?thesis
    proof (cases "?d > ?k")
      case True
      then show ?thesis using assms unfolding step found_def candidates_insert by auto
    next
      case False
      then have c: "candidates word (insert name A) = insert name (candidates word A)"
        using 3 by (simp add: candidates_insert)
      consider "?d < se_dist st" | "?d = se_dist st" | "se_dist st < ?d" by linarith
      then show ?thesis
      proof cases
        case 1
        have far: "?d < distance word x" if "x \<in> candidates word A" for x
          using that assms 1 by (auto simp: found_def)
        then have "{x \<in> insert name (candidates word A). distance word x = ?d} = {name}" by force
        moreover have "?d \<le> distance word x" if "x \<in> insert name (candidates word A)" for x
          using that far by force
        ultimately show ?thesis using fresh 1 False unfolding step found_def c by simp blast
      next
        case 2
        then show ?thesis using assms False fresh unfolding step found_def c by auto
      next
        case 3
        then have "candidates word A \<noteq> {}" using assms False by (auto simp: found_def)
        with 3 show ?thesis using assms False unfolding step found_def c by auto
      qed
    qed
  qed
qed

lemma found_fold: "found word A st \<Longrightarrow>
    found word (A \<union> set names) (fold (repair_step word (length (runes word)) (edit_limit word)) names st)"
proof (induction names arbitrary: A st)
  case (Cons x names)
  from Cons.IH [OF found_step [OF Cons.prems, of x]] show ?case by simp
qed simp

lemma found_nearest:
  assumes "found word A st"
  shows "set (se_best st) = nearest word A" "distinct (se_best st)"
proof -
  show "distinct (se_best st)" using assms by (simp add: found_def)
  have "\<exists>y \<in> candidates word A. distance word y = se_dist st" if "x \<in> candidates word A" for x
  proof -
    have "se_best st \<noteq> []" using that assms by (auto simp: found_def)
    then have "hd (se_best st) \<in> {x \<in> candidates word A. distance word x = se_dist st}"
      using assms hd_in_set unfolding found_def by metis
    then show ?thesis by blast
  qed
  moreover have "\<forall>x \<in> candidates word A. se_dist st \<le> distance word x"
    using assms by (auto simp: found_def)
  ultimately have "x \<in> nearest word A \<longleftrightarrow> x \<in> candidates word A \<and> distance word x = se_dist st" for x
    unfolding nearest_def mem_Collect_eq by (metis le_antisym)
  then show "set (se_best st) = nearest word A" using assms unfolding found_def by blast
qed

lemma only_member: "distinct xs \<Longrightarrow> length xs = 1 \<and> hd xs = x \<longleftrightarrow> set xs = {x}"
  by (cases xs; cases "tl xs") auto

lemma repair_Some: "repair env word names = Some x \<longleftrightarrow>
   3 \<le> length (runes word) \<and> commandLike env word \<and>
   (nearest word (set names) = {x} \<or> {y \<in> nearest word (set names). mset (runes word) = mset (runes y)} = {x})"
proof (cases "length (runes word) < 3 \<or> \<not> commandLike env word")
  case True
  then have "repair env word names = None" by (simp only: repair_def Let_def if_True)
  moreover have "\<not> (3 \<le> length (runes word) \<and> commandLike env word)" using True by linarith
  ultimately show ?thesis by (metis option.distinct(1))
next
  case False
  let ?st = "fold (repair_step word (length (runes word)) (edit_limit word)) names \<lparr>se_seen = [], se_best = [], se_dist = edit_limit word + 1\<rparr>"
  let ?best = "se_best ?st" and ?anagrams = "filter (sameLetters word) (se_best ?st)"
  have "found word {} \<lparr>se_seen = [], se_best = [], se_dist = edit_limit word + 1\<rparr>"
    by (simp add: found_def candidates_def)
  from found_nearest [OF found_fold [OF this, of names]]
  have best: "set ?best = nearest word (set names)" and d: "distinct ?best" by simp_all
  then have ana: "set ?anagrams = {y \<in> nearest word (set names). mset (runes word) = mset (runes y)}" "distinct ?anagrams"
    by (auto simp: sameLetters_mset)
  have "repair env word names = (if length ?best = 1 then Some (hd ?best)
      else if length ?anagrams = 1 then Some (hd ?anagrams) else None)"
    using False by (simp add: repair_def Let_def edit_limit_def)
  then have "repair env word names = Some x \<longleftrightarrow> (length ?best = 1 \<and> hd ?best = x) \<or> (length ?best \<noteq> 1 \<and> length ?anagrams = 1 \<and> hd ?anagrams = x)"
    by auto
  also have "\<dots> \<longleftrightarrow> set ?best = {x} \<or> set ?anagrams = {x}"
  proof (cases "length ?best = 1")
    case True
    then obtain y where "?best = [y]" by (auto simp: length_Suc_conv)
    then show ?thesis by auto
  next
    case False
    then have "set ?best \<noteq> {x}" using only_member [OF d] by blast
    then show ?thesis using False only_member [OF ana(2)] by blast
  qed
  finally show ?thesis using False unfolding best ana(1) by auto
qed

section \<open>What the ladder promises\<close>

lemma firstWord_cat: "fst (firstWord text) @ snd (firstWord text) = text"
proof -
  have "chunk_text (takeWhile P cs) @ chunk_text (dropWhile P cs) = concat (map snd cs)" for P and cs :: "(nat \<times> string) list"
    unfolding chunk_text_def by (metis concat_append map_append takeWhile_dropWhile_id)
  then show ?thesis by (simp add: firstWord_def chunks_concat)
qed

lemma nearest_names: "x \<in> nearest word A \<Longrightarrow> x \<in> A \<and> x \<noteq> word \<and> distance word x \<le> edit_limit word"
  by (auto simp: nearest_def candidates_def)

lemma Resolve_Literal: "de_rung (Resolve env cmds line) = Literal \<longleftrightarrow>
   (let word = fst (firstWord (trim_space line)) in
    word = [] \<or> shellSyntax env word \<or> co_known cmds word \<and> \<not> question cmds (trim_space line))"
  by (auto simp: Resolve_def Let_def split_beta split: option.split)

lemma Resolve_line: "de_rung (Resolve env cmds line) = Literal \<Longrightarrow> de_line (Resolve env cmds line) = line"
  by (auto simp: Resolve_def Let_def split_beta split: option.splits if_splits)

lemma Resolve_Repair:
  assumes "de_rung (Resolve env cmds line) = Repair"
  obtains word rest x where "trim_space line = word @ rest" "repair env word (co_names cmds) = Some x"
    "de_line (Resolve env cmds line) = x @ rest" "\<not> co_known cmds word" "\<not> shellSyntax env word" "\<not> question cmds (trim_space line)"
proof -
  let ?t = "trim_space line"
  have c: "?t = fst (firstWord ?t) @ snd (firstWord ?t)" by (simp add: firstWord_cat)
  have "\<exists>x. repair env (fst (firstWord ?t)) (co_names cmds) = Some x \<and> de_line (Resolve env cmds line) = x @ snd (firstWord ?t) \<and>
      \<not> co_known cmds (fst (firstWord ?t)) \<and> \<not> shellSyntax env (fst (firstWord ?t)) \<and> \<not> question cmds ?t"
    using assms by (auto simp: Resolve_def Let_def split_beta split: option.splits if_splits)
  with c that show ?thesis by metis
qed

end
