(* ===== verification/Ladder_Properties.thy ===== *)
theory Ladder_Properties
  imports Ladder
begin

text \<open>The properties of the action ladder, applied to a small shell at the end.\<close>

text \<open>The table of \<open>distance\<close> computes the optimal string alignment distance: the least number of
  insertions, deletions, replacements and swaps of neighbours, each letter edited at most once, that turn one
  word into the other, rune by rune.\<close>

theorem distance_is_least_alignment:
  "distance a b = (LEAST n. alignment n (runes a) (runes b))"
  using distance_least by (intro Least_equality [symmetric]) blast+

text \<open>C30. \<open>repair\<close> answers with a name exactly when the word is a command-like word of three or more runes
  and that name is the only listed name nearest to it within the limit (one edit, two from seven runes on), or
  the only one of the nearest with the same letters. Repeated names in the listing make no difference.\<close>

theorem repair_correct:
  "repair env word names = Some x \<longleftrightarrow>
     3 \<le> length (runes word) \<and> commandLike env word \<and>
     (nearest word (set names) = {x} \<or> {y \<in> nearest word (set names). mset (runes word) = mset (runes y)} = {x})"
  by (rule repair_Some)

text \<open>The ladder never reinterprets what the shell can run: a line is taken literally, and then unchanged,
  exactly when its first word is empty, shell grammar or a known command and the line asks no question; a
  repaired line keeps everything after an unknown first word, and puts in its place a listed name within the
  edit limit.\<close>

theorem Resolve_keeps_the_shell:
  fixes env cmds line
  defines "d \<equiv> Resolve env cmds line" and "text \<equiv> trim_space line"
  shows "(de_rung d = Literal \<longleftrightarrow> (let word = fst (firstWord text) in
            word = [] \<or> shellSyntax env word \<or> co_known cmds word \<and> \<not> question cmds text)) \<and>
         (de_rung d = Literal \<longrightarrow> de_line d = line) \<and>
         (de_rung d = Repair \<longrightarrow> (\<exists>word rest x. text = word @ rest \<and> de_line d = x @ rest \<and> \<not> co_known cmds word \<and>
            x \<in> set (co_names cmds) \<and> x \<noteq> word \<and> distance word x \<le> edit_limit word))"
proof -
  have "\<exists>word rest x. text = word @ rest \<and> de_line d = x @ rest \<and> \<not> co_known cmds word \<and>
            x \<in> set (co_names cmds) \<and> x \<noteq> word \<and> distance word x \<le> edit_limit word" if r: "de_rung d = Repair"
  proof -
    obtain word rest x where w: "text = word @ rest" "repair env word (co_names cmds) = Some x" "de_line d = x @ rest" "\<not> co_known cmds word"
      using Resolve_Repair [OF r [unfolded d_def]] unfolding d_def text_def by metis
    from w(2) have "x \<in> nearest word (set (co_names cmds))" unfolding repair_Some by blast
    with w show ?thesis by (metis nearest_names)
  qed
  then show ?thesis
    unfolding d_def text_def using Resolve_Literal Resolve_line by blast
qed

definition small_env :: ladder_env where
  "small_env = \<lparr>le_letter = (\<lambda>r. 97 \<le> r \<and> r \<le> 122), le_digit = (\<lambda>r. 48 \<le> r \<and> r \<le> 57), le_keyword = (\<lambda>w. w = ''if'')\<rparr>"

definition small_shell :: commands where
  "small_shell = \<lparr>co_known = (\<lambda>w. w = ''git'' \<or> w = ''gtr''), co_names = [''git'', ''gtr''], co_globs = None\<rparr>"

lemma small_runes: "runes ''gti'' = [103, 116, 105]" "runes ''git'' = [103, 105, 116]" "runes ''gtr'' = [103, 116, 114]"
  by (simp_all add: runes_ascii byte_def)

lemma small_distances: "distance ''gti'' ''git'' = 1" "distance ''gti'' ''gtr'' = 1"
proof -
  have "alignment (Suc 0) (runes ''gti'') (runes ''git'')" "alignment (Suc 0) (runes ''gti'') (runes ''gtr'')"
    unfolding small_runes
    by (rule alignment.keep, rule alignment.swap, rule alignment.empty)
       (rule alignment.keep, rule alignment.keep, rule alignment.replace, rule alignment.empty)
  from distance_least(2) [OF this(1)] distance_least(2) [OF this(2)]
  show "distance ''gti'' ''git'' = 1" "distance ''gti'' ''gtr'' = 1"
    using distance_zero [of "''gti''" "''git''"] distance_zero [of "''gti''" "''gtr''"] unfolding small_runes by simp_all
qed

lemma small_repair: "repair small_env ''gti'' [''git'', ''gtr''] = Some ''git''"
proof -
  have "candidates ''gti'' {''git'', ''gtr''} = {''git'', ''gtr''}"
    by (auto simp: candidates_def edit_limit_def small_distances)
  moreover have "distance ''gti'' x = 1" if "x \<in> {''git'', ''gtr''}" for x
    using that small_distances by blast
  ultimately have "nearest ''gti'' {''git'', ''gtr''} = {''git'', ''gtr''}" by (metis nearest_all)
  moreover have "mset (runes ''gti'') = mset (runes ''git'')"
    unfolding small_runes mset.simps by (simp only: add_mset_commute)
  moreover have "105 \<in> set (runes ''gti'')" "105 \<notin> set (runes ''gtr'')" unfolding small_runes by simp_all
  then have "mset (runes ''gti'') \<noteq> mset (runes ''gtr'')" by (metis mset_eq_setD)
  ultimately have "{y \<in> nearest ''gti'' {''git'', ''gtr''}. mset (runes ''gti'') = mset (runes y)} = {''git''}"
    by (simp only: Collect_conv_if insert_iff empty_iff) blast
  then show ?thesis by (simp add: repair_Some small_runes commandLike_def small_env_def)
qed

lemma small_text: "trim_space ''gti st'' = ''gti st''" "firstWord ''gti st'' = (''gti'', '' st'')"
  by (rule trim_space_word) (simp_all add: byte_def firstWord_def word_end_def is_space_def chunk_text_def)

lemma small_resolved: "Resolve small_env small_shell ''gti st'' =
    \<lparr>de_rung = Repair, de_line = ''git st'', de_note = ''gti'' @ arrow @ ''git''\<rparr>"
proof -
  have "\<not> question small_shell ''gti st''"
    by (simp add: question_def text_fields_def field_list.simps is_space_def chunk_text_def asks_def trim_right_def byte_def has_suffix_def)
  moreover have "\<not> shellSyntax small_env ''gti''" by (simp add: shellSyntax_def small_env_def)
  ultimately show ?thesis
    using small_repair by (simp add: Resolve_def small_text small_shell_def Let_def)
qed

lemma Resolve_keeps_the_shell_witness:
  "\<exists>word rest x. ''gti st'' = word @ rest \<and> ''git st'' = x @ rest \<and> \<not> co_known small_shell word \<and>
     x \<in> {''git'', ''gtr''} \<and> x \<noteq> word \<and> distance word x \<le> edit_limit word"
  using Resolve_keeps_the_shell [of small_env small_shell "''gti st''"] unfolding small_resolved small_text
  by (simp add: small_shell_def)

end
