(* ===== verification/Go_Filepath.thy ===== *)
theory Go_Filepath
  imports Go_Std
begin

text \<open>
  \<open>path/filepath\<close> on Unix, where \<open>Clean\<close> and \<open>Base\<close> are those of \<open>path\<close>: \<open>Join\<close>, \<open>Dir\<close>, \<open>IsAbs\<close>, and the
  elements of a cleaned path, which decrease from a path to its parent.
\<close>

definition is_abs :: "string \<Rightarrow> bool" where
  "is_abs p = has_prefix p ''/''"

text \<open>\<open>filepath.Join(a, b)\<close> drops empty elements and cleans the result; without elements it is empty.\<close>

definition path_join :: "string \<Rightarrow> string \<Rightarrow> string" where
  "path_join a b =
     (if a = [] \<and> b = [] then [] else if a = [] then path_clean b else path_clean (a @ ''/'' @ b))"

text \<open>\<open>filepath.Dir\<close>: the text up to and with the last slash, cleaned.\<close>

definition path_dir :: "string \<Rightarrow> string" where
  "path_dir p = path_clean (rev (dropWhile (\<lambda>c. c \<noteq> CHR ''/'') (rev p)))"

section \<open>Elements of a path\<close>

definition rooted :: "string \<Rightarrow> bool" where
  "rooted p \<longleftrightarrow> p \<noteq> [] \<and> hd p = CHR ''/''"

definition elems :: "string \<Rightarrow> string list" where
  "elems p = clean_walk (rooted p) [] (split_slash p)"

definition path_of :: "bool \<Rightarrow> string list \<Rightarrow> string" where
  "path_of r ws = (if r then CHR ''/'' # join_slash ws else if ws = [] then ''.'' else join_slash ws)"

lemma path_clean_elems: "path_clean p = path_of (rooted p) (elems p)"
  by (simp add: path_clean_def path_of_def elems_def rooted_def Let_def)

text \<open>The elements a cleaned path can have.\<close>

definition settled :: "bool \<Rightarrow> string list \<Rightarrow> bool" where
  "settled r ws \<longleftrightarrow> clean_form ws \<and> (\<forall>w\<in>set ws. w \<noteq> [] \<and> w \<noteq> ''.'' \<and> CHR ''/'' \<notin> set w \<and> (r \<longrightarrow> w \<noteq> ''..''))"

text \<open>One turn of the loop drops the element, keeps it, or drops the one before it.\<close>

lemma clean_walk_step:
  obtains "clean_walk r out (c # cs) = clean_walk r out cs"
  | w ws where "out = w # ws" "clean_walk r out (c # cs) = clean_walk r ws cs"
  | "c \<noteq> []" "c \<noteq> ''.''" "r \<longrightarrow> c \<noteq> ''..''" "clean_walk r out (c # cs) = clean_walk r (c # out) cs"
proof (cases "c = [] \<or> c = ''.''")
  case False
  then have c: "c \<noteq> []" "c \<noteq> ''.''" by blast+
  show thesis
  proof (cases "c = ''..''")
    case dots: True
    show thesis
    proof (cases out)
      case Nil
      show thesis using Nil c dots that(1,3) by (cases r) (simp_all only: clean_walk.simps list.case if_False if_True simp_thms)
    next
      case (Cons w ws)
      show thesis using Cons c dots that
        by (cases r; cases "w = ''..''") (simp_all only: clean_walk.simps list.case if_False if_True simp_thms)
    qed
  next
    case False
    show thesis using c False that(3) by (simp only: clean_walk.simps if_False simp_thms)
  qed
qed (use that(1) in \<open>simp only: clean_walk.simps if_True\<close>)

lemma clean_walk_elements:
  "set (clean_walk r out cs) \<subseteq> set out \<union> {c \<in> set cs. c \<noteq> [] \<and> c \<noteq> ''.'' \<and> (r \<longrightarrow> c \<noteq> ''..'')}"
proof (induction cs arbitrary: out)
  case (Cons c cs)
  show ?case
  proof (cases rule: clean_walk_step [of r out c cs])
    case 1
    then show ?thesis using Cons.IH [of out] by fastforce
  next
    case (2 w ws)
    then show ?thesis using Cons.IH [of ws] by fastforce
  next
    case 3
    then show ?thesis using Cons.IH [of "c # out"] by fastforce
  qed
qed simp

lemma settled_elems: "settled (rooted p) (elems p)"
proof -
  have "clean_form (elems p)" unfolding elems_def by (rule clean_walk_form) (simp add: clean_form_def)
  moreover have "\<forall>w\<in>set (elems p). CHR ''/'' \<notin> set w"
    unfolding elems_def using clean_walk_no_slash [of "[]" "split_slash p"] split_slash_no_slash by fastforce
  ultimately show ?thesis
    using clean_walk_elements [of "rooted p" "[]" "split_slash p"] by (auto simp: settled_def elems_def)
qed

lemma drop_leading: "list_all p (dropWhile (\<lambda>w. w = d) (ws @ d # vs)) \<Longrightarrow> \<not> p d \<Longrightarrow> set ws \<subseteq> {d}"
proof (induction ws)
  case (Cons w ws)
  then show ?case by (cases "w = d") simp_all
qed simp

lemma clean_form_last: "clean_form (ws @ ''..'' # vs) \<Longrightarrow> set ws \<subseteq> {''..''}"
  unfolding clean_form_def by (erule drop_leading) (simp add: plain_def)

lemma clean_walk_fix:
  "settled r (rev out @ cs) \<Longrightarrow> clean_walk r out cs = rev out @ cs"
proof (induction cs arbitrary: out)
  case (Cons c cs)
  have c: "c \<noteq> []" "c \<noteq> ''.''" and up: "c = ''..'' \<Longrightarrow> \<not> r \<and> set out \<subseteq> {''..''}"
    using Cons.prems clean_form_last [of "rev out"] by (auto simp: settled_def)
  have "clean_walk r out (c # cs) = clean_walk r (c # out) cs"
  proof (cases "c = ''..''")
    case True
    with up have "\<not> r" "out = [] \<or> hd out = ''..''" by (cases out; simp)+
    with True show ?thesis by (cases out) simp_all
  qed (use c in simp)
  also have "\<dots> = rev out @ c # cs" using Cons.IH [of "c # out"] Cons.prems by simp
  finally show ?case .
qed simp

lemma clean_walk_fix_dir: "settled r ws \<Longrightarrow> clean_walk r [] (ws @ [[]]) = ws"
proof -
  assume s: "settled r ws"
  have "clean_walk r out (cs @ [[]]) = clean_walk r out cs" for out cs
    by (induction r out cs rule: clean_walk.induct) (auto split: list.splits)
  from this [of "[]" ws] clean_walk_fix [of r "[]" ws] s show ?thesis by simp
qed

lemma join_slash_ne: "ws \<noteq> [] \<Longrightarrow> hd ws \<noteq> [] \<Longrightarrow> join_slash ws \<noteq> [] \<and> hd (join_slash ws) = hd (hd ws)"
  by (induction ws rule: join_slash.induct) auto

lemma rooted_path_of: "settled r ws \<Longrightarrow> rooted (path_of r ws) = r"
proof (cases "ws = []")
  case False
  assume s: "settled r ws"
  from False have "hd ws \<in> set ws" by simp
  with s have "hd ws \<noteq> []" "CHR ''/'' \<notin> set (hd ws)" by (auto simp: settled_def)
  then have "hd (hd ws) \<noteq> CHR ''/''" by (metis list.set_sel(1))
  with False join_slash_ne \<open>hd ws \<noteq> []\<close> show ?thesis by (simp add: path_of_def rooted_def)
qed (simp add: path_of_def rooted_def)

lemma split_path_of:
  assumes "settled r ws" "ws \<noteq> []" shows "split_slash (path_of r ws) = (if r then [] # ws else ws)"
proof -
  have "split_slash (join_slash ws) = ws" using assms by (intro split_join) (auto simp: settled_def)
  with assms(2) show ?thesis by (simp add: path_of_def)
qed

lemma elems_path_of: "settled r ws \<Longrightarrow> elems (path_of r ws) = ws"
proof (cases "ws = []")
  case True
  assume "settled r ws" with True show ?thesis by (cases r) (simp_all add: path_of_def elems_def rooted_def)
next
  case False
  assume s: "settled r ws"
  have "elems (path_of r ws) = clean_walk r [] ws"
    using rooted_path_of [OF s] split_path_of [OF s False] by (simp add: elems_def)
  with clean_walk_fix [of r "[]" ws] s show ?thesis by simp
qed

lemma rooted_clean [simp]: "rooted (path_clean p) = rooted p"
  by (simp add: path_clean_elems rooted_path_of settled_elems)

lemma elems_clean [simp]: "elems (path_clean p) = elems p"
  by (simp add: path_clean_elems elems_path_of settled_elems)

lemma path_clean_idem [simp]: "path_clean (path_clean p) = path_clean p"
  using path_clean_elems [of "path_clean p"] by (simp add: path_clean_elems [of p, symmetric])

section \<open>The parent of a path\<close>

lemma join_slash_append: "ws \<noteq> [] \<Longrightarrow> join_slash (ws @ [w]) = join_slash ws @ CHR ''/'' # w"
  by (induction ws rule: join_slash.induct) auto

lemma path_dir_elems:
  assumes "elems p = ws @ [w]" shows "elems (path_dir (path_clean p)) = ws" "rooted (path_dir (path_clean p)) = rooted p"
proof -
  let ?r = "rooted p"
  have s: "settled ?r (ws @ [w])" using settled_elems [of p] assms by simp
  then have ws: "settled ?r ws" by (auto simp: settled_def intro: clean_form_butlast)
  have w: "CHR ''/'' \<notin> set w" using s by (simp add: settled_def)
  let ?d = "if ws = [] then (if ?r then ''/'' else []) else path_of ?r ws @ ''/''"
  have q: "path_clean p = ?d @ w" by (simp add: path_clean_elems assms path_of_def join_slash_append)
  have "rev (dropWhile (\<lambda>c. c \<noteq> CHR ''/'') (rev (?d @ w))) = ?d"
    using w by (auto simp: dropWhile_append3 path_of_def)
  then have d: "path_dir (path_clean p) = path_clean ?d" by (simp only: path_dir_def q)
  have "rooted ?d = ?r"
  proof (cases "ws = []")
    case False
    then have "hd ws \<noteq> []" using ws hd_in_set [of ws] by (auto simp: settled_def)
    with False have "path_of ?r ws \<noteq> []" using join_slash_ne [of ws] by (simp add: path_of_def)
    with False rooted_path_of [OF ws] show ?thesis by (simp add: rooted_def)
  qed (simp add: rooted_def)
  moreover have "clean_walk ?r [] (split_slash ?d) = ws"
  proof (cases "ws = []")
    case False
    have "split_slash (join_slash ws @ ''/'') = ws @ [[]]"
      using ws False by (subst join_slash_append [symmetric, of ws "[]"]) (auto simp: settled_def intro!: split_join)
    with False clean_walk_fix_dir [OF ws] show ?thesis by (cases ?r) (simp_all add: path_of_def)
  qed simp
  ultimately show "elems (path_dir (path_clean p)) = ws" "rooted (path_dir (path_clean p)) = ?r"
    by (simp_all add: d elems_def [of ?d])
qed

lemma path_dir_shorter:
  assumes "path_dir (path_clean p) \<noteq> path_clean p" shows "length (elems (path_dir (path_clean p))) < length (elems p)"
proof (cases "elems p" rule: rev_cases)
  case Nil
  then have "path_clean p = (if rooted p then ''/'' else ''.'')" by (simp add: path_clean_elems path_of_def)
  then have "path_dir (path_clean p) = path_clean p" by (cases "rooted p") (simp_all add: path_dir_def path_clean_def Let_def)
  with assms show ?thesis by simp
qed (simp add: path_dir_elems)

end
