(* ===== verification/Hr_Intent.thy ===== *)
theory Hr_Intent
  imports Go_Filepath "HOL-Library.Sublist"
begin

text \<open>
  The data of the harness runner (\<open>contract.go\<close>, \<open>digest.go\<close>) and the paths an intent speaks of
  (\<open>canonicalTarget\<close>, \<open>resolveOperand\<close>, \<open>scopeFor\<close>). The Command Atlas, the knowledge-base scopes, the
  parser of the shell and the file system are the record \<open>hr_env\<close>; what \<open>syntax.Walk\<close> shows of a parsed
  script is the datatype \<open>node\<close>.
\<close>

unbundle bit_operations_syntax

section \<open>Digests\<close>

definition digestBytes :: "string \<Rightarrow> string" where
  "digestBytes s = ''sha256:'' @ sha256_hex s"

text \<open>\<open>json.Marshal\<close> gives the text or an error; \<open>digestJSON\<close> and \<open>signJSON\<close> pass the error on.\<close>

definition digestJSON :: "string option \<Rightarrow> string option" where
  "digestJSON text = map_option digestBytes text"

text \<open>HMAC-SHA256 with blocks of 64 bytes.\<close>

definition raw_bytes :: "int list \<Rightarrow> string" where
  "raw_bytes bs = map (\<lambda>b. char_of (nat b)) bs"

definition hmac_pad :: "nat \<Rightarrow> string \<Rightarrow> string" where
  "hmac_pad v key =
     (let k = (if length key > 64 then raw_bytes (sha256_sum key) else key)
      in map (\<lambda>c. char_of (byte c XOR v)) (k @ replicate (64 - length k) nul))"

definition hmac_sha256 :: "string \<Rightarrow> string \<Rightarrow> int list" where
  "hmac_sha256 key s = sha256_sum (hmac_pad 0x5C key @ raw_bytes (sha256_sum (hmac_pad 0x36 key @ s)))"

definition signJSON :: "string \<Rightarrow> string option \<Rightarrow> string option" where
  "signJSON key text = map_option (\<lambda>b. hex_encode (hmac_sha256 key b)) text"

definition verifyJSON :: "string \<Rightarrow> string option \<Rightarrow> string \<Rightarrow> bool" where
  "verifyJSON key text token \<longleftrightarrow> signJSON key text = Some token"

section \<open>Requests and intents\<close>

record binding =
  bi_runID :: string
  bi_nodeID :: string
  bi_attempt :: int
  bi_stateRevision :: "64 word"
  bi_configDigest :: string
  bi_lifecycleGeneration :: "64 word"
  bi_idempotencyKey :: string

record env_variable =
  va_name :: string
  va_valueRef :: string
  va_secret :: bool
  va_value :: string

record command =
  cm_script :: string
  cm_argv :: "string list"
  cm_cwd :: string
  cm_environment :: "env_variable list"

record limits =
  lm_wallTimeMs :: int
  lm_stdoutBytes :: int
  lm_stderrBytes :: int
  lm_stdinBytes :: int

record hr_placement =
  hp_id :: string
  hp_generation :: "64 word"

record effect =
  ef_kind :: string
  ef_scope :: string
  ef_target :: string
  ef_source :: string
  ef_certainty :: string

record command_fact =
  cf_name :: string
  cf_argv :: "string list"
  cf_resolver :: string
  cf_group :: string
  cf_tier :: string
  cf_stage :: string
  cf_shape :: string
  cf_capabilities :: "string list"
  cf_maximumEffects :: "string list"
  cf_contentDigest :: string

record unsupported_fact =
  uf_kind :: string
  uf_value :: string
  uf_reason :: string

record environment_fact =
  nf_name :: string
  nf_valueRef :: string
  nf_secret :: bool
  nf_valueDigest :: string

record intent =
  in_digest :: string
  in_complete :: bool
  in_atlasDigest :: string
  in_scriptDigest :: string
  in_argv :: "string list"
  in_cwd :: string
  in_environment :: "environment_fact list"
  in_limits :: limits
  in_placement :: hr_placement
  in_commands :: "command_fact list"
  in_effects :: "effect list"
  in_unsupported :: "unsupported_fact list"
  in_cursor :: string

definition no_limits :: limits where
  "no_limits = \<lparr>lm_wallTimeMs = 0, lm_stdoutBytes = 0, lm_stderrBytes = 0, lm_stdinBytes = 0\<rparr>"

definition no_placement :: hr_placement where
  "no_placement = \<lparr>hp_id = [], hp_generation = 0\<rparr>"

definition new_intent :: "string \<Rightarrow> intent" where
  "new_intent cwd = \<lparr>in_digest = [], in_complete = True, in_atlasDigest = [], in_scriptDigest = [], in_argv = [],
     in_cwd = cwd, in_environment = [], in_limits = no_limits, in_placement = no_placement, in_commands = [],
     in_effects = [], in_unsupported = [], in_cursor = []\<rparr>"

definition markUnsupported :: "string \<Rightarrow> string \<Rightarrow> string \<Rightarrow> intent \<Rightarrow> intent" where
  "markUnsupported kind value reason it = it\<lparr>in_complete := False,
     in_unsupported := in_unsupported it @ [\<lparr>uf_kind = kind, uf_value = value, uf_reason = reason\<rparr>]\<rparr>"

definition add_effect :: "effect \<Rightarrow> intent \<Rightarrow> intent" where
  "add_effect e it = it\<lparr>in_effects := in_effects it @ [e]\<rparr>"

definition add_command :: "command_fact \<Rightarrow> intent \<Rightarrow> intent" where
  "add_command c it = it\<lparr>in_commands := in_commands it @ [c]\<rparr>"

section \<open>The syntax tree\<close>

text \<open>
  The cases the type switches of the code tell apart; every other node of the parser is \<open>Other\<close>. The last
  argument of a node lists what \<open>syntax.Walk\<close> visits below it, in its order.
\<close>

datatype quoted_part = QLit string | QOther

datatype word_part = Lit string | SglQuoted string | DblQuoted "quoted_part list" | OtherPart

type_synonym shell_word = "word_part list"

record decorator =
  dc_name :: "string option"
  dc_args :: "shell_word list"
  dc_argNames :: "string option list"

datatype node =
    FuncDecl "string option" "decorator option list" "node option" "node list"
  | CallExpr "shell_word list" "node list"
  | Redirect string shell_word "node list"
  | Other "node list"

section \<open>The surroundings\<close>

record atlas_entry =
  ae_group :: string
  ae_tier :: string
  ae_stage :: string
  ae_shape :: string
  ae_caps :: "string list"
  ae_effects :: "string list"

record hr_env =
  he_pure :: string
  he_read :: string
  he_write :: string
  he_destroy :: string
  he_net :: string
  he_cred :: string
  he_userland :: string
  he_cross :: string
  he_result :: string
  he_lookup :: "string \<Rightarrow> atlas_entry option"
  he_tools :: "string list"
  he_parse :: "string \<Rightarrow> string + node"
  he_getwd :: "string option"
  he_symlinks :: "string \<Rightarrow> string option"
  he_isdir :: "string \<Rightarrow> bool"
  he_executable :: string
  he_agent :: string
  he_user :: string
  he_repo :: string
  he_store :: "string \<Rightarrow> string \<Rightarrow> string option"
  he_marshal :: "intent \<Rightarrow> string option"
  he_marshal_commands :: "command_fact list \<Rightarrow> string option"

section \<open>Targets and their scope\<close>

definition ScopeDeclared :: string where "ScopeDeclared = ''declared''"

definition ScopeWorkspace :: string where "ScopeWorkspace = ''workspace''"

function canonicalTarget :: "(string \<Rightarrow> string option) \<Rightarrow> string \<Rightarrow> string" where
  "canonicalTarget links p =
     (let q = path_clean p in
      case links q of
        Some r \<Rightarrow> path_clean r
      | None \<Rightarrow> let parent = path_dir q in
                if parent = q then q else path_join (canonicalTarget links parent) (path_base q))"
  by pat_completeness auto
termination
  by (relation "measure (\<lambda>(_, p). length (elems p))") (simp_all add: path_dir_shorter)

declare canonicalTarget.simps [simp del]

definition effectiveCwd :: "intent \<Rightarrow> string" where
  "effectiveCwd it = (if in_cursor it \<noteq> [] then in_cursor it else in_cwd it)"

definition resolveOperand :: "hr_env \<Rightarrow> intent \<Rightarrow> string \<Rightarrow> string" where
  "resolveOperand E it operand =
     canonicalTarget (he_symlinks E) (if \<not> is_abs operand then path_join (effectiveCwd it) operand else operand)"

definition scopeFor :: "hr_env \<Rightarrow> intent \<Rightarrow> string \<Rightarrow> string" where
  "scopeFor E it target =
     (if target = in_cwd it \<or> has_prefix target (in_cwd it @ ''/'') then ScopeWorkspace else he_userland E)"

definition addTargetEffect :: "hr_env \<Rightarrow> string \<Rightarrow> string \<Rightarrow> string \<Rightarrow> intent \<Rightarrow> intent" where
  "addTargetEffect E kind operand source it =
     (let target = resolveOperand E it operand in
      add_effect \<lparr>ef_kind = kind, ef_scope = scopeFor E it target, ef_target = target, ef_source = source, ef_certainty = ''exact''\<rparr> it)"

section \<open>What the scope of a target means\<close>

text \<open>A path is inside a root when its elements extend those of the root: no dots are left in either.\<close>

definition inside :: "string \<Rightarrow> string \<Rightarrow> bool" where
  "inside root p \<longleftrightarrow> rooted p = rooted root \<and> prefix (elems root) (elems p)"

lemma inside_refl [simp]: "inside p p" by (simp add: inside_def)

lemma path_clean_ne [simp]: "path_clean p \<noteq> []"
proof (cases "rooted p \<or> elems p = []")
  case False
  have "hd (elems p) \<in> set (elems p)" using False by simp
  with settled_elems [of p] have "hd (elems p) \<noteq> []" by (auto simp: settled_def)
  with False join_slash_ne [of "elems p"] show ?thesis by (simp add: path_clean_elems path_of_def)
qed (auto simp: path_clean_elems path_of_def)

lemma canonicalTarget_form: "path_clean (canonicalTarget links p) = canonicalTarget links p \<and> canonicalTarget links p \<noteq> []"
proof (induction links p rule: canonicalTarget.induct)
  case (1 links p)
  let ?q = "path_clean p"
  show ?case
  proof (cases "links ?q")
    case None
    with 1 [OF refl None refl] show ?thesis
      by (cases "path_dir ?q = ?q") (simp_all add: canonicalTarget.simps [of links p] Let_def path_join_def)
  qed (simp add: canonicalTarget.simps [of links p] Let_def)
qed

lemma canonicalTarget_clean [simp]: "path_clean (canonicalTarget links p) = canonicalTarget links p"
  using canonicalTarget_form by blast

lemma elems_extend:
  assumes "path_clean root = root" "path_clean p = p" "has_prefix p (root @ ''/'')"
  shows "inside root p"
proof -
  obtain s where p: "p = root @ CHR ''/'' # s" using assms(3) by (auto simp: has_prefix_iff)
  have ne: "root \<noteq> []" using assms(1) by (auto simp: path_clean_def)
  then have r: "rooted p = rooted root" by (simp add: p rooted_def)
  show ?thesis
  proof (cases "elems root = []")
    case False
    let ?pre = "if rooted root then [[]] else []"
    have splits: "split_slash root = ?pre @ elems root" "split_slash p = split_slash root @ split_slash s"
    proof -
      show "split_slash root = ?pre @ elems root"
        using assms(1) False split_path_of [OF settled_elems [of root]] by (simp add: path_clean_elems)
      have "split_slash (a @ CHR ''/'' # b) = split_slash a @ split_slash b" for a b
        by (induction a) (auto split: list.splits)
      then show "split_slash p = split_slash root @ split_slash s" by (simp add: p)
    qed
    have "elems p \<noteq> []"
    proof
      assume "elems p = []"
      then have "length p \<le> 1" using assms(2) by (auto simp: path_clean_elems path_of_def split: if_splits)
      then show False using ne by (simp add: p)
    qed
    then have "split_slash p = ?pre @ elems p"
      using assms(2) split_path_of [OF settled_elems [of p]] r by (simp add: path_clean_elems)
    with splits have "elems p = elems root @ split_slash s" by (simp split: if_splits)
    then show ?thesis by (simp add: inside_def r)
  qed (simp add: inside_def r)
qed

lemma scopeFor_workspace:
  assumes "path_clean (in_cwd it) = in_cwd it" "path_clean t = t" "he_userland E \<noteq> ScopeWorkspace"
    "scopeFor E it t = ScopeWorkspace"
  shows "inside (in_cwd it) t"
  using assms elems_extend [of "in_cwd it" t] by (auto simp: scopeFor_def split: if_splits)

lemma inside_scope:
  assumes "path_clean (in_cwd it) = in_cwd it" "path_clean t = t" "in_cwd it \<noteq> ''/''" "in_cwd it \<noteq> ''.''" "inside (in_cwd it) t"
  shows "scopeFor E it t = ScopeWorkspace"
proof -
  let ?c = "in_cwd it"
  obtain ws where ws: "elems t = elems ?c @ ws" using assms(5) by (auto simp: inside_def prefix_def)
  have c: "path_of (rooted ?c) (elems ?c) = ?c" and t: "path_of (rooted ?c) (elems ?c @ ws) = t"
    using assms path_clean_elems [of ?c] path_clean_elems [of t] ws by (simp_all add: inside_def)
  have ne: "elems ?c \<noteq> []" using c assms(3,4) by (auto simp: path_of_def split: if_splits)
  have "join_slash (xs @ ys) = join_slash xs @ CHR ''/'' # join_slash ys" if "xs \<noteq> []" "ys \<noteq> []" for xs ys
    using that by (induction xs rule: join_slash.induct) (cases ys; simp)+
  with ne have "ws \<noteq> [] \<Longrightarrow> path_of r (elems ?c @ ws) = path_of r (elems ?c) @ ''/'' @ join_slash ws" for r
    by (simp add: path_of_def)
  with c t have "t = ?c \<or> t = (?c @ ''/'') @ join_slash ws" by (cases "ws = []") auto
  then have "t = ?c \<or> has_prefix t (?c @ ''/'')" by (auto simp only: has_prefix_iff)
  then show ?thesis by (simp add: scopeFor_def)
qed

end
