(* ===== verification/Hr_Contract.thy ===== *)
theory Hr_Contract
  imports Hr_Intent
begin

text \<open>
  What every step of the compiler keeps of an intent: facts are only added, an intent is complete while
  nothing is unsupported, and an effect is labelled \<open>workspace\<close> only for a target inside the working
  directory. The locale \<open>refiner\<close> states it for the command refiners, with what the compiler relies on
  beyond it: a refiner that does not take the call leaves the intent alone.
\<close>

definition labelled :: "string \<Rightarrow> effect \<Rightarrow> bool" where
  "labelled root e \<longleftrightarrow> (ef_scope e = ScopeWorkspace \<longrightarrow> inside root (ef_target e) \<or> ef_source e = ''command:kb'')"

text \<open>The label \<open>workspace\<close> is not a command tier of the atlas.\<close>

definition atlas_ok :: "hr_env \<Rightarrow> bool" where
  "atlas_ok E \<longleftrightarrow> he_userland E \<noteq> ScopeWorkspace \<and> (\<forall>n en. he_lookup E n = Some en \<longrightarrow> ae_tier en \<noteq> ScopeWorkspace)"

definition ready :: "hr_env \<Rightarrow> intent \<Rightarrow> bool" where
  "ready E it \<longleftrightarrow> atlas_ok E \<and> path_clean (in_cwd it) = in_cwd it"

definition grows :: "intent \<Rightarrow> intent \<Rightarrow> bool" where
  "grows it it' \<longleftrightarrow> in_cwd it' = in_cwd it \<and>
     (\<exists>cs. in_commands it' = in_commands it @ cs) \<and>
     (\<exists>es. in_effects it' = in_effects it @ es \<and> list_all (labelled (in_cwd it)) es) \<and>
     (\<exists>us. in_unsupported it' = in_unsupported it @ us \<and> (in_complete it' \<longleftrightarrow> in_complete it \<and> us = []))"

lemma grows_refl [simp, intro!]: "grows it it"
  by (simp add: grows_def)

lemma grows_trans: "grows a b \<Longrightarrow> grows b c \<Longrightarrow> grows a c"
  unfolding grows_def by (elim conjE exE) (auto simp: list_all_append)

lemma grows_cwd: "grows a b \<Longrightarrow> in_cwd b = in_cwd a"
  by (simp add: grows_def)

lemma grows_ready: "grows a b \<Longrightarrow> ready E b = ready E a"
  by (simp add: grows_def ready_def)

lemma grows_complete: "grows a b \<Longrightarrow> in_complete b \<Longrightarrow> in_complete a \<and> in_unsupported b = in_unsupported a"
  by (auto simp: grows_def)

lemma grows_mark [simp]: "grows it (markUnsupported k v r it)"
  by (simp add: grows_def markUnsupported_def)

lemma grows_command [simp]: "grows it (add_command c it)"
  by (simp add: grows_def add_command_def)

lemma grows_effect: "labelled (in_cwd it) e \<Longrightarrow> grows it (add_effect e it)"
  by (simp add: grows_def add_effect_def)

lemma grows_cursor [simp]: "grows it (it\<lparr>in_cursor := c\<rparr>)"
  by (simp add: grows_def)

lemma scopeFor_labelled:
  "ready E it \<Longrightarrow> path_clean (ef_target e) = ef_target e \<Longrightarrow> ef_scope e = scopeFor E it (ef_target e) \<Longrightarrow> labelled (in_cwd it) e"
  using scopeFor_workspace [of it "ef_target e" E] by (auto simp: labelled_def ready_def atlas_ok_def)

lemma grows_target: "ready E it \<Longrightarrow> grows it (addTargetEffect E k p s it)"
  unfolding addTargetEffect_def Let_def resolveOperand_def
  by (rule grows_effect, rule scopeFor_labelled) simp_all

lemma in_complete_mark [simp]: "\<not> in_complete (markUnsupported k v r it)"
  by (simp add: markUnsupported_def)

lemma grows_foldl:
  "(\<And>x it. ready E it \<Longrightarrow> grows it (f it x)) \<Longrightarrow> ready E it \<Longrightarrow> grows it (foldl f it xs)"
proof (induction xs arbitrary: it)
  case (Cons x xs)
  have "grows it (f it x)" by (rule Cons.prems(1) [OF Cons.prems(2)])
  moreover have "grows (f it x) (foldl f (f it x) xs)"
    by (rule Cons.IH [OF Cons.prems(1)]) (use Cons.prems(2) grows_ready [OF calculation] in simp_all)
  ultimately show ?case using grows_trans by simp
qed simp

locale refiner =
  fixes E :: hr_env and refine :: "string list \<Rightarrow> bool \<Rightarrow> intent \<Rightarrow> bool \<times> intent"
  assumes keeps: "ready E it \<Longrightarrow> grows it (snd (refine argv static it))"
    and declines: "\<not> fst (refine argv static it) \<Longrightarrow> snd (refine argv static it) = it"
begin

lemma taken: "ready E it \<Longrightarrow> refine argv static it = (True, it') \<Longrightarrow> grows it it'"
  using keeps [of it argv static] by simp

lemma passed: "refine argv static it = (False, it') \<Longrightarrow> it' = it"
  using declines [of argv static it] by simp

end

end
