(* ===== verification/Hr_Refine.thy ===== *)
theory Hr_Refine
  imports Hr_Contract
begin

text \<open>
  The command refiners (\<open>refine_files.go\<close>, \<open>refine_kb.go\<close>): they prove the operands of everyday commands,
  or mark the call unsupported. A refiner returns whether it took the call, with the intent. Each is an
  interpretation of \<open>refiner\<close>.
\<close>

section \<open>Argument lists\<close>

fun join_words :: "string list \<Rightarrow> string" where
  "join_words [] = []"
| "join_words [w] = w"
| "join_words (w # ws) = w @ '' '' @ join_words ws"

fun split_on :: "char \<Rightarrow> string \<Rightarrow> string list" where
  "split_on d [] = [[]]"
| "split_on d (c # s) = (case split_on d s of w # ws \<Rightarrow> if c = d then [] # w # ws else (c # w) # ws | [] \<Rightarrow> [[c]])"

definition isBashyFrontDoor :: "string \<Rightarrow> bool" where
  "isBashyFrontDoor name \<longleftrightarrow> path_base name \<in> set [''bashy'', ''bashy.real'']"

definition stripFrontDoor :: "string list \<Rightarrow> string list" where
  "stripFrontDoor argv = (if length argv > 1 \<and> isBashyFrontDoor (hd argv) then tl argv else argv)"

definition dynamic_call :: "string list \<Rightarrow> intent \<Rightarrow> intent" where
  "dynamic_call argv it = markUnsupported ''dynamicCommand'' (join_words argv) ''command name or arguments cannot be proven'' it"

section \<open>Commands that read files\<close>

record file_arg_spec =
  fa_valueFlags :: "string list"
  fa_fileFlags :: "string list"
  fa_patternFlags :: "string list"
  fa_denyFlags :: "string list"
  fa_patternFirst :: bool
  fa_noFiles :: bool
  fa_defaultCwd :: bool

definition no_spec :: file_arg_spec where
  "no_spec = \<lparr>fa_valueFlags = [], fa_fileFlags = [], fa_patternFlags = [], fa_denyFlags = [],
     fa_patternFirst = False, fa_noFiles = False, fa_defaultCwd = False\<rparr>"

definition fileReadCommands :: "(string \<times> file_arg_spec) list" where
  "fileReadCommands =
   [(''cat'', no_spec), (''tac'', no_spec),
    (''nl'', no_spec\<lparr>fa_valueFlags := [''-b'', ''-d'', ''-f'', ''-h'', ''-i'', ''-l'', ''-n'', ''-s'', ''-v'', ''-w'', ''--body-numbering'',
       ''--section-delimiter'', ''--footer-numbering'', ''--header-numbering'', ''--line-increment'', ''--join-blank-lines'',
       ''--number-format'', ''--number-separator'', ''--starting-line-number'', ''--number-width'']\<rparr>),
    (''head'', no_spec\<lparr>fa_valueFlags := [''-n'', ''-c'', ''--lines'', ''--bytes'']\<rparr>),
    (''tail'', no_spec\<lparr>fa_valueFlags := [''-n'', ''-c'', ''-s'', ''--lines'', ''--bytes'', ''--sleep-interval'', ''--pid'', ''--max-unchanged-stats'']\<rparr>),
    (''wc'', no_spec\<lparr>fa_fileFlags := [''--files0-from'']\<rparr>),
    (''stat'', no_spec\<lparr>fa_valueFlags := [''-c'', ''--format'', ''--printf'', ''-f'']\<rparr>),
    (''file'', no_spec\<lparr>fa_valueFlags := [''-m'', ''-F'', ''--magic-file'', ''--separator''], fa_fileFlags := [''-f'', ''--files-from'']\<rparr>),
    (''diff'', no_spec\<lparr>fa_valueFlags := [''-U'', ''-C'', ''-L'', ''--label'', ''--unified'', ''--context'', ''-I'', ''--ignore-matching-lines'',
       ''-x'', ''--exclude'', ''--line-format'', ''--old-line-format'', ''--new-line-format'', ''--unchanged-line-format'', ''-F'',
       ''--show-function-line'', ''--horizon-lines'', ''-W'', ''--width''],
       fa_fileFlags := [''-X'', ''--exclude-from'', ''--from-file'', ''--to-file''], fa_denyFlags := [''--output'']\<rparr>),
    (''cmp'', no_spec\<lparr>fa_valueFlags := [''-i'', ''-n'', ''--ignore-initial'', ''--bytes'']\<rparr>),
    (''sort'', no_spec\<lparr>fa_valueFlags := [''-k'', ''-t'', ''-S'', ''--key'', ''--field-separator'', ''--buffer-size'', ''--parallel'', ''--batch-size''],
       fa_fileFlags := [''--files0-from''], fa_denyFlags := [''-o'', ''--output'', ''-T'', ''--temporary-directory'', ''--compress-program'']\<rparr>),
    (''cut'', no_spec\<lparr>fa_valueFlags := [''-b'', ''-c'', ''-d'', ''-f'', ''--bytes'', ''--characters'', ''--delimiter'', ''--fields'', ''--output-delimiter'']\<rparr>),
    (''tr'', no_spec\<lparr>fa_noFiles := True\<rparr>),
    (''which'', no_spec\<lparr>fa_noFiles := True\<rparr>),
    (''realpath'', no_spec\<lparr>fa_valueFlags := [''--relative-to'', ''--relative-base'']\<rparr>),
    (''readlink'', no_spec),
    (''du'', no_spec\<lparr>fa_defaultCwd := True, fa_valueFlags := [''-d'', ''-B'', ''-t'', ''--max-depth'', ''--block-size'', ''--threshold'', ''--time-style'', ''--exclude''],
       fa_fileFlags := [''-X'', ''--exclude-from'', ''--files0-from'']\<rparr>),
    (''tree'', no_spec\<lparr>fa_defaultCwd := True, fa_valueFlags := [''-L'', ''-P'', ''-I'', ''--charset'', ''--filelimit'', ''--timefmt'', ''--sort''], fa_denyFlags := [''-o'']\<rparr>),
    (''od'', no_spec\<lparr>fa_valueFlags := [''-A'', ''-j'', ''-N'', ''-S'', ''-t'', ''-w'', ''--address-radix'', ''--skip-bytes'', ''--read-bytes'', ''--strings'', ''--format'', ''--width'']\<rparr>),
    (''md5sum'', no_spec), (''sha256sum'', no_spec),
    (''ls'', no_spec\<lparr>fa_defaultCwd := True, fa_valueFlags := [''-I'', ''-T'', ''-w'', ''--block-size'', ''--color'', ''--format'', ''--hide'', ''--ignore'',
       ''--indicator-style'', ''--quoting-style'', ''--sort'', ''--tabsize'', ''--time'', ''--time-style'', ''--width'']\<rparr>),
    (''grep'', no_spec\<lparr>fa_patternFirst := True, fa_defaultCwd := True, fa_patternFlags := [''-e'', ''--regexp'', ''-f'', ''--file''],
       fa_fileFlags := [''-f'', ''--file'', ''--exclude-from''],
       fa_valueFlags := [''-e'', ''--regexp'', ''-m'', ''--max-count'', ''-A'', ''-B'', ''-C'', ''--after-context'', ''--before-context'', ''--context'',
       ''--include'', ''--exclude'', ''--exclude-dir'', ''--color'', ''--colour'', ''--label'', ''-d'', ''-D'', ''--devices'', ''--directories'', ''--binary-files'']\<rparr>)]"

text \<open>
  A cluster of one-letter flags (the text after the dash): a denied flag ends the scan of the command, a flag
  with a value takes the rest of the cluster, or the next argument when nothing is left.
\<close>

datatype cluster = Denied string | Switches bool | Valued bool string string

fun short_flags :: "file_arg_spec \<Rightarrow> bool \<Rightarrow> string \<Rightarrow> cluster" where
  "short_flags spec pat [] = Switches pat"
| "short_flags spec pat (c # cs) =
     (let flag = ''-'' @ [c] in
      if flag \<in> set (fa_denyFlags spec) then Denied flag
      else let pat' = (pat \<or> flag \<in> set (fa_patternFlags spec)) in
        if flag \<in> set (fa_valueFlags spec) \<or> flag \<in> set (fa_fileFlags spec) then Valued pat' flag cs
        else short_flags spec pat' cs)"

text \<open>\<open>strings.Cut(arg, "=")\<close>.\<close>

definition cut_eq :: "string \<Rightarrow> string \<times> string option" where
  "cut_eq arg = (takeWhile (\<lambda>c. c \<noteq> CHR ''='') arg,
     if CHR ''='' \<in> set arg then Some (tl (dropWhile (\<lambda>c. c \<noteq> CHR ''='') arg)) else None)"

definition deny_flag :: "string \<Rightarrow> string \<Rightarrow> intent \<Rightarrow> intent" where
  "deny_flag name flag it = markUnsupported ''effectRefinement'' (name @ '' '' @ flag) ''flag writes or executes outside the proven targets'' it"

definition read_if :: "hr_env \<Rightarrow> bool \<Rightarrow> string \<Rightarrow> string \<Rightarrow> intent \<Rightarrow> intent" where
  "read_if E c operand source it = (if c then addTargetEffect E (he_read E) operand source it else it)"

text \<open>The argument loop: the intent with the positionals and whether a pattern was given, or the refused intent.\<close>

fun read_args :: "hr_env \<Rightarrow> file_arg_spec \<Rightarrow> string \<Rightarrow> string list \<Rightarrow> intent \<Rightarrow> string list \<Rightarrow> bool \<Rightarrow> intent + (intent \<times> string list \<times> bool)" where
  "read_args E spec name [] it pos pat = Inr (it, pos, pat)"
| "read_args E spec name (arg # rest) it pos pat =
     (if arg = ''--'' then Inr (it, pos @ rest, pat)
      else if has_prefix arg ''--'' then
        (let (flag, value) = cut_eq arg; files = flag \<in> set (fa_fileFlags spec) in
         if flag \<in> set (fa_denyFlags spec) then Inl (deny_flag name flag it)
         else let pat' = (pat \<or> flag \<in> set (fa_patternFlags spec)) in
           (case value of
              Some v \<Rightarrow> read_args E spec name rest (read_if E files v (''command:'' @ name) it) pos pat'
            | None \<Rightarrow>
                (case rest of
                   v # rest' \<Rightarrow> if flag \<in> set (fa_valueFlags spec) \<or> files
                                then read_args E spec name rest' (read_if E files v (''command:'' @ name) it) pos pat'
                                else read_args E spec name rest it pos pat'
                 | [] \<Rightarrow> Inr (it, pos, pat'))))
      else if has_prefix arg ''-'' \<and> arg \<noteq> ''-'' then
        (case short_flags spec pat (tl arg) of
           Denied flag \<Rightarrow> Inl (deny_flag name flag it)
         | Switches pat' \<Rightarrow> read_args E spec name rest it pos pat'
         | Valued pat' flag v \<Rightarrow>
             (if v \<noteq> [] then read_args E spec name rest (read_if E (flag \<in> set (fa_fileFlags spec)) v (''command:'' @ name) it) pos pat'
              else case rest of
                     [] \<Rightarrow> Inr (it, pos, pat')
                   | w # rest' \<Rightarrow> read_args E spec name rest' (read_if E (flag \<in> set (fa_fileFlags spec) \<and> w \<noteq> []) w (''command:'' @ name) it) pos pat'))
      else read_args E spec name rest it (pos @ [arg]) pat)"

definition read_operand :: "hr_env \<Rightarrow> string \<Rightarrow> intent \<Rightarrow> string \<Rightarrow> intent" where
  "read_operand E source it operand = (if operand = ''-'' then it else addTargetEffect E (he_read E) operand source it)"

definition spec_of :: "string \<Rightarrow> file_arg_spec" where
  "spec_of name = (case map_of fileReadCommands name of Some s \<Rightarrow> s | None \<Rightarrow> no_spec)"

text \<open>The positionals that are files.\<close>

definition file_operands :: "file_arg_spec \<Rightarrow> bool \<Rightarrow> string list \<Rightarrow> string list" where
  "file_operands spec pat pos =
     (let p = (if fa_patternFirst spec \<and> \<not> pat \<and> pos \<noteq> [] then tl pos else pos)
      in if fa_noFiles spec then [] else p)"

definition refineFileRead :: "hr_env \<Rightarrow> string list \<Rightarrow> bool \<Rightarrow> intent \<Rightarrow> bool \<times> intent" where
  "refineFileRead E argv allStatic it =
     (let args = stripFrontDoor argv; name = hd args; spec = spec_of name; source = ''command:'' @ name in
      if \<not> allStatic then (True, dynamic_call argv it)
      else case read_args E spec name (tl args) it [] False of
             Inl it' \<Rightarrow> (True, it')
           | Inr (it', pos, pat) \<Rightarrow>
               let operands = file_operands spec pat pos;
                   it'' = (if operands = [] \<and> fa_defaultCwd spec then addTargetEffect E (he_read E) ''.'' source it' else it')
               in (True, foldl (read_operand E source) it'' operands))"

section \<open>\<open>find\<close>\<close>

definition findActionDeny :: "string list" where
  "findActionDeny = [''-exec'', ''-execdir'', ''-ok'', ''-okdir'', ''-delete'', ''-fprint'', ''-fprint0'', ''-fprintf'', ''-fls'']"

definition find_root :: "string \<Rightarrow> bool" where
  "find_root a \<longleftrightarrow> \<not> (has_prefix a ''-'' \<or> a = ''('' \<or> a = ''!'' \<or> a = '','')"

definition refineFind :: "hr_env \<Rightarrow> string list \<Rightarrow> bool \<Rightarrow> intent \<Rightarrow> bool \<times> intent" where
  "refineFind E argv allStatic it =
     (let args = tl (stripFrontDoor argv); roots = takeWhile find_root args in
      if \<not> allStatic then (True, dynamic_call argv it)
      else case List.find (\<lambda>a. a \<in> set findActionDeny) (dropWhile find_root args) of
             Some a \<Rightarrow> (True, markUnsupported ''effectRefinement'' (''find '' @ a) ''find action writes or executes a program'' it)
           | None \<Rightarrow> (True, foldl (\<lambda>it root. addTargetEffect E (he_read E) root ''command:find'' it) it (if roots = [] then [''.''] else roots)))"

section \<open>\<open>sed\<close>\<close>

text \<open>The regular expression \<open>sedCommandUnprovable\<close>, with the character before the position.\<close>

definition sed_blank :: "char \<Rightarrow> bool" where
  "sed_blank c \<longleftrightarrow> byte c \<in> set [9, 10, 12, 13, 32]"

definition sed_before :: "char option \<Rightarrow> bool" where
  "sed_before prev = (case prev of None \<Rightarrow> True | Some c \<Rightarrow> c \<in> set '';{}$/,!0123456789'' \<or> sed_blank c)"

fun sedCommandUnprovable :: "char option \<Rightarrow> string \<Rightarrow> bool" where
  "sedCommandUnprovable prev [] = False"
| "sedCommandUnprovable prev (c # cs) =
     (sed_before prev \<and> c \<in> set ''wWerR'' \<and> (case cs of [] \<Rightarrow> True | d # _ \<Rightarrow> sed_blank d) \<or> sedCommandUnprovable (Some c) cs)"

definition isSedWordByte :: "char \<Rightarrow> bool" where
  "isSedWordByte c \<longleftrightarrow> c = CHR ''_'' \<or> 97 \<le> byte c \<and> byte c \<le> 122 \<or> 65 \<le> byte c \<and> byte c \<le> 90 \<or> 48 \<le> byte c \<and> byte c \<le> 57"

text \<open>What follows \<open>n\<close> unescaped delimiters; a trailing backslash runs off the end.\<close>

fun sed_skip :: "char \<Rightarrow> nat \<Rightarrow> string \<Rightarrow> string option" where
  "sed_skip d 0 s = Some s"
| "sed_skip d (Suc n) [] = None"
| "sed_skip d (Suc n) (c # cs) =
     (if c = CHR 0x5C then (case cs of [] \<Rightarrow> None | _ # cs' \<Rightarrow> sed_skip d (Suc n) cs')
      else if c = d then sed_skip d n cs else sed_skip d (Suc n) cs)"

text \<open>An \<open>s\<close> command at this position, with a flag that writes or executes.\<close>

definition sed_subst_here :: "char option \<Rightarrow> char \<Rightarrow> char \<Rightarrow> string \<Rightarrow> bool" where
  "sed_subst_here prev c d cs \<longleftrightarrow>
     c = CHR ''s'' \<and> \<not> (case prev of None \<Rightarrow> False | Some p \<Rightarrow> isSedWordByte p) \<and>
     \<not> (d = CHR 0x5C \<or> d = CHR 0x0A \<or> isSedWordByte d) \<and>
     (case sed_skip d 2 cs of None \<Rightarrow> False
      | Some fs \<Rightarrow> list_ex (\<lambda>x. x = CHR ''w'' \<or> x = CHR ''e'') (takeWhile (\<lambda>x. x \<in> set ''gpiImM0123456789we'') fs))"

fun sed_subst :: "char option \<Rightarrow> string \<Rightarrow> bool" where
  "sed_subst prev [] = False"
| "sed_subst prev (c # s) = ((case s of [] \<Rightarrow> False | d # cs \<Rightarrow> sed_subst_here prev c d cs) \<or> sed_subst (Some c) s)"

definition sedScriptUnprovable :: "string \<Rightarrow> bool" where
  "sedScriptUnprovable script \<longleftrightarrow> sedCommandUnprovable None script \<or> sed_subst None script"

text \<open>The cases of the argument loop, then the loop: scripts, positionals and whether the files are edited in place; \<open>None\<close> is \<open>sed -f\<close>.\<close>

datatype sed_arg = EndOfFlags | ScriptFlag | InlineScript string | ScriptFile | InPlace | LineLength | Switch | Positional

definition sed_arg_of :: "string \<Rightarrow> sed_arg" where
  "sed_arg_of a =
     (if a = ''--'' then EndOfFlags
      else if a = ''-e'' \<or> a = ''--expression'' then ScriptFlag
      else if has_prefix a ''--expression='' then InlineScript (drop 13 a)
      else if a = ''-f'' \<or> a = ''--file'' \<or> has_prefix a ''--file='' then ScriptFile
      else if a = ''-i'' \<or> has_prefix a ''-i'' \<and> \<not> has_prefix a ''-in'' \<or> a = ''--in-place'' \<or> has_prefix a ''--in-place='' then InPlace
      else if a = ''-l'' \<or> a = ''--line-length'' then LineLength
      else if has_prefix a ''-'' \<and> a \<noteq> ''-'' then Switch
      else Positional)"

fun sed_args :: "string list \<Rightarrow> string list \<Rightarrow> string list \<Rightarrow> bool \<Rightarrow> (string list \<times> string list \<times> bool) option" where
  "sed_args [] sc pos ip = Some (sc, pos, ip)"
| "sed_args (a # rest) sc pos ip =
     (case sed_arg_of a of
        EndOfFlags \<Rightarrow> Some (sc, pos @ rest, ip)
      | ScriptFlag \<Rightarrow> (case rest of [] \<Rightarrow> Some (sc, pos, ip) | s # rest' \<Rightarrow> sed_args rest' (sc @ [s]) pos ip)
      | InlineScript s \<Rightarrow> sed_args rest (sc @ [s]) pos ip
      | ScriptFile \<Rightarrow> None
      | InPlace \<Rightarrow> sed_args rest sc pos True
      | LineLength \<Rightarrow> (case rest of [] \<Rightarrow> Some (sc, pos, ip) | _ # rest' \<Rightarrow> sed_args rest' sc pos ip)
      | Switch \<Rightarrow> sed_args rest sc pos ip
      | Positional \<Rightarrow> sed_args rest sc (pos @ [a]) ip)"

definition sed_operand :: "hr_env \<Rightarrow> bool \<Rightarrow> intent \<Rightarrow> string \<Rightarrow> intent" where
  "sed_operand E inPlace it operand =
     (if operand = ''-'' then it
      else let it' = addTargetEffect E (he_read E) operand ''command:sed'' it
           in if inPlace then addTargetEffect E (he_write E) operand ''command:sed'' it' else it')"

definition refineSed :: "hr_env \<Rightarrow> string list \<Rightarrow> bool \<Rightarrow> intent \<Rightarrow> bool \<times> intent" where
  "refineSed E argv allStatic it =
     (if \<not> allStatic then (True, dynamic_call argv it)
      else case sed_args (tl (stripFrontDoor argv)) [] [] False of
             None \<Rightarrow> (True, markUnsupported ''effectRefinement'' ''sed -f'' ''script read from a file cannot be proven'' it)
           | Some (sc, pos, inPlace) \<Rightarrow>
               let (scripts, operands) = (if sc = [] \<and> pos \<noteq> [] then ([hd pos], tl pos) else (sc, pos)) in
               if list_ex sedScriptUnprovable scripts
               then (True, markUnsupported ''effectRefinement'' ''sed script'' ''script writes, executes or reads another file'' it)
               else (True, foldl (sed_operand E inPlace) it operands))"

section \<open>\<open>git\<close>\<close>

definition gitReadSubcommands :: "string list" where
  "gitReadSubcommands = [''status'', ''diff'', ''log'', ''show'', ''blame'', ''ls-files'', ''grep'', ''rev-parse'', ''shortlog'', ''describe'', ''cat-file'', ''ls-tree'']"

definition gitWriteSubcommands :: "string list" where
  "gitWriteSubcommands = [''add'', ''apply'', ''restore'', ''stash'']"

definition gitDenyArgs :: "string list" where
  "gitDenyArgs = [''--output'', ''--ext-diff'', ''--textconv'', ''-O'', ''--open-files-in-pager'', ''--exec'']"

datatype git_globals = NoSubcommand | GlobalOption string | Subcommand string string "string list"

fun git_globals_of :: "string \<Rightarrow> string list \<Rightarrow> git_globals" where
  "git_globals_of dir [] = NoSubcommand"
| "git_globals_of dir (a # rest) =
     (if a = ''-C'' then (case rest of d # rest' \<Rightarrow> git_globals_of d rest' | [] \<Rightarrow> GlobalOption a)
      else if a = ''--no-pager'' \<or> a = ''-P'' \<or> a = ''--no-optional-locks'' then git_globals_of dir rest
      else if has_prefix a ''-'' then GlobalOption a
      else Subcommand dir a rest)"

definition git_denied :: "string \<Rightarrow> bool" where
  "git_denied a \<longleftrightarrow> list_ex (\<lambda>deny. a = deny \<or> has_prefix a (deny @ ''='') \<or> deny = ''-O'' \<and> has_prefix a ''-O'') gitDenyArgs"

definition refineGit :: "hr_env \<Rightarrow> string list \<Rightarrow> bool \<Rightarrow> intent \<Rightarrow> bool \<times> intent" where
  "refineGit E argv allStatic it =
     (if \<not> allStatic then (True, dynamic_call argv it)
      else case git_globals_of ''.'' (tl (stripFrontDoor argv)) of
             NoSubcommand \<Rightarrow> (False, it)
           | GlobalOption a \<Rightarrow> (True, markUnsupported ''effectRefinement'' (''git '' @ a) ''global git option cannot be proven'' it)
           | Subcommand dir sub rest \<Rightarrow>
               (case List.find git_denied rest of
                  Some a \<Rightarrow> (True, markUnsupported ''effectRefinement'' (''git '' @ sub @ '' '' @ a) ''option writes a file or runs a program'' it)
                | None \<Rightarrow>
                    if sub \<in> set gitReadSubcommands then (True, addTargetEffect E (he_read E) dir ''command:git'' it)
                    else if sub \<in> set gitWriteSubcommands then
                      (if sub = ''stash'' \<and> rest \<noteq> [] \<and> (hd rest = ''drop'' \<or> hd rest = ''clear'')
                       then (True, markUnsupported ''effectRefinement'' (''git stash '' @ hd rest) ''discards stashed work'' it)
                       else (True, addTargetEffect E (he_write E) dir ''command:git'' (addTargetEffect E (he_read E) dir ''command:git'' it)))
                    else (False, it)))"

section \<open>\<open>kb\<close>\<close>

definition kbReadOnlySubverbs :: "string list" where
  "kbReadOnlySubverbs = [''context'', ''search'', ''show'', ''list'', ''backlinks'', ''doctor'', ''recall'', ''log'', ''index'', ''sources'']"

definition kbWriteSubverbs :: "string list" where
  "kbWriteSubverbs = [''add'', ''note'', ''update'', ''supersede'', ''validate'', ''observe'', ''transfer'', ''retro'']"

fun kbExplicitRing :: "string list \<Rightarrow> string" where
  "kbExplicitRing [] = []"
| "kbExplicitRing (arg # rest) =
     (if arg = ''--ring'' \<and> rest \<noteq> [] then trim_space (hd rest)
      else if has_prefix arg ''--ring='' then trim_space (drop 7 arg)
      else kbExplicitRing rest)"

definition ringListNamesAgent :: "hr_env \<Rightarrow> string \<Rightarrow> bool" where
  "ringListNamesAgent E value \<longleftrightarrow> (\<exists>ring\<in>set (split_on (CHR '','') value). trim_space ring = he_agent E)"

fun kbArgsNameAgentRing :: "hr_env \<Rightarrow> string list \<Rightarrow> bool" where
  "kbArgsNameAgentRing E [] = False"
| "kbArgsNameAgentRing E (arg # rest) =
     (if arg = ''--ring'' \<or> arg = ''--rings'' then rest \<noteq> [] \<and> ringListNamesAgent E (hd rest) \<or> kbArgsNameAgentRing E rest
      else has_prefix arg ''--ring='' \<and> ringListNamesAgent E (drop 7 arg)
         \<or> has_prefix arg ''--rings='' \<and> ringListNamesAgent E (drop 8 arg) \<or> kbArgsNameAgentRing E rest)"

definition resolvedKBStore :: "hr_env \<Rightarrow> string \<Rightarrow> string \<Rightarrow> string" where
  "resolvedKBStore E cwd forced = (case he_store E cwd forced of None \<Rightarrow> [] | Some dir \<Rightarrow> canonicalTarget (he_symlinks E) dir)"

definition kbEffectTargets :: "hr_env \<Rightarrow> string \<Rightarrow> string list \<Rightarrow> string list" where
  "kbEffectTargets E cwd argv =
     (let ring = kbExplicitRing argv in
      if ring = he_agent E then [resolvedKBStore E cwd (he_agent E)]
      else if ring = ''host'' \<or> ring = he_user E then [resolvedKBStore E cwd (he_user E)]
      else if ring = he_repo E then [resolvedKBStore E cwd (he_repo E)]
      else let targets = [resolvedKBStore E cwd []]; agent = resolvedKBStore E cwd (he_agent E)
           in if kbArgsNameAgentRing E argv \<and> agent \<noteq> [] then targets @ [agent] else targets)"

definition kb_effect :: "string \<Rightarrow> string \<Rightarrow> effect" where
  "kb_effect kind target = \<lparr>ef_kind = kind, ef_scope = ScopeWorkspace, ef_target = target, ef_source = ''command:kb'', ef_certainty = ''exact''\<rparr>"

definition appendKBEffects :: "hr_env \<Rightarrow> string list \<Rightarrow> string list \<Rightarrow> intent \<Rightarrow> intent" where
  "appendKBEffects E argv kinds it =
     foldl (\<lambda>it target. if target = [] then it else foldl (\<lambda>it kind. add_effect (kb_effect kind target) it) it kinds)
       it (kbEffectTargets E (in_cwd it) argv)"

definition refineKBCall :: "hr_env \<Rightarrow> string list \<Rightarrow> bool \<Rightarrow> intent \<Rightarrow> bool \<times> intent" where
  "refineKBCall E argv allStatic it =
     (let args = stripFrontDoor argv in
      if length args < 2 \<or> hd args \<noteq> ''kb'' then (False, it)
      else let subverb = args ! 1 in
        if subverb \<in> set kbReadOnlySubverbs then (True, appendKBEffects E argv [he_read E] it)
        else if subverb \<in> set kbWriteSubverbs then
          (if \<not> allStatic then (True, dynamic_call argv it)
           else (True, appendKBEffects E argv [he_read E, he_write E] it))
        else (False, it))"

section \<open>The registry\<close>

definition commandRefiners :: "hr_env \<Rightarrow> string \<Rightarrow> (string list \<Rightarrow> bool \<Rightarrow> intent \<Rightarrow> bool \<times> intent) option" where
  "commandRefiners E name =
     (if name = ''kb'' then Some (refineKBCall E)
      else if name = ''find'' then Some (refineFind E)
      else if name = ''sed'' then Some (refineSed E)
      else if name = ''git'' then Some (refineGit E)
      else if name \<in> set (map fst fileReadCommands) then Some (refineFileRead E)
      else None)"

definition refineAtlasCall :: "hr_env \<Rightarrow> string \<Rightarrow> string list \<Rightarrow> bool \<Rightarrow> intent \<Rightarrow> bool \<times> intent" where
  "refineAtlasCall E name argv allStatic it =
     (case commandRefiners E name of None \<Rightarrow> (False, it) | Some refine \<Rightarrow> refine argv allStatic it)"

section \<open>The contract\<close>

lemma grows_dynamic [simp]: "grows it (dynamic_call argv it)" "grows it (deny_flag name flag it)"
  by (simp_all add: dynamic_call_def deny_flag_def)

lemma grows_read_if: "ready E it \<Longrightarrow> grows it (read_if E c p s it)"
  by (simp add: read_if_def grows_target)

lemma grows_via_read_if:
  "ready E it \<Longrightarrow> (ready E (read_if E c p s it) \<Longrightarrow> grows (read_if E c p s it) it') \<Longrightarrow> grows it it'"
  using grows_read_if grows_ready grows_trans by metis

definition read_result :: "intent + (intent \<times> string list \<times> bool) \<Rightarrow> intent" where
  "read_result r = (case r of Inl it \<Rightarrow> it | Inr (it, _) \<Rightarrow> it)"

lemma read_result [simp]: "read_result (Inl it) = it" "read_result (Inr (it, q)) = it"
  by (simp_all add: read_result_def)

lemma grows_read_args: "ready E it \<Longrightarrow> grows it (read_result (read_args E spec name args it pos pat))"
proof (induction args arbitrary: it pos pat rule: length_induct)
  case (1 args)
  note IH = "1.IH" [rule_format]
  have step: "grows it (read_result (read_args E spec name rest (read_if E c v s it) pos' pat'))" if "length rest < length args" for rest c v s pos' pat'
    using grows_via_read_if [OF "1.prems"] IH [OF that] by blast
  show ?case
  proof (cases args)
    case (Cons arg rest)
    have r: "length rest < length args" using Cons by simp
    show ?thesis
    proof (cases rest)
      case Nil
      show ?thesis unfolding Cons using step [OF r] IH [OF r "1.prems"] unfolding Nil
        by (simp add: read_args.simps(2) [of E spec name arg "[]"] Let_def split: option.split cluster.split prod.split)
    next
      case (Cons w ws)
      have r': "length ws < length args" using r Cons by simp
      show ?thesis unfolding \<open>args = arg # rest\<close> using step [OF r] step [OF r'] IH [OF r "1.prems"] unfolding Cons
        by (simp add: read_args.simps(2) [of E spec name arg "w # ws"] Let_def del: read_args.simps split: option.split cluster.split prod.split)
    qed
  qed simp
qed

lemma grows_kb: "grows it (appendKBEffects E argv kinds it)"
proof -
  have e: "grows it (add_effect (kb_effect k t) it)" for it k t
    by (rule grows_effect) (simp add: labelled_def kb_effect_def)
  have k: "grows it (foldl (\<lambda>it kind. add_effect (kb_effect kind t) it) it kinds)" for t it
  proof (induction kinds arbitrary: it)
    case (Cons k ks)
    show ?case using grows_trans [OF e Cons.IH] by simp
  qed simp
  have "grows it (foldl (\<lambda>it target. if target = [] then it else foldl (\<lambda>it kind. add_effect (kb_effect kind target) it) it kinds) it ts)" for ts it
  proof (induction ts arbitrary: it)
    case (Cons t ts)
    show ?case using grows_trans [OF k Cons.IH] Cons.IH by simp
  qed simp
  then show ?thesis by (simp add: appendKBEffects_def)
qed

interpretation file_read: refiner E "refineFileRead E" for E
proof
  fix it argv static
  assume r: "ready E it"
  let ?args = "stripFrontDoor argv"
  let ?s = "''command:'' @ hd ?args"
  note a = grows_read_args [OF r, of "spec_of (hd ?args)" "hd ?args" "tl ?args" "[]" False]
  have op: "ready E it' \<Longrightarrow> grows it' (foldl (read_operand E ?s) it' ps)" for it' ps
    by (rule grows_foldl) (simp_all add: read_operand_def grows_target)
  have last: "grows it (foldl (read_operand E ?s) (if c then addTargetEffect E k p q it' else it') ps)"
    if g: "grows it it'" for it' c k p q ps
  proof -
    have g': "grows it' (if c then addTargetEffect E k p q it' else it')"
      using grows_target grows_ready [OF g] r by simp
    show ?thesis using grows_trans [OF grows_trans [OF g g'] op] grows_ready [OF grows_trans [OF g g']] r by simp
  qed
  show "grows it (snd (refineFileRead E argv static it))"
  proof (cases "read_args E (spec_of (hd ?args)) (hd ?args) (tl ?args) it [] False")
    case (Inl it')
    with a show ?thesis by (simp add: refineFileRead_def Let_def read_result_def)
  next
    case (Inr q)
    with a obtain it' pos pat where q: "q = (it', pos, pat)" "grows it it'" by (cases q) (simp add: read_result_def)
    show ?thesis
      by (cases static) (simp_all only: refineFileRead_def Let_def Inr q(1) sum.case prod.case snd_conv if_True if_False
          simp_thms last [OF q(2)] grows_dynamic)
  qed
qed (simp add: refineFileRead_def Let_def split: if_split_asm sum.split_asm prod.split_asm)

interpretation find: refiner E "refineFind E" for E
proof
  fix it argv static
  assume r: "ready E it"
  have "grows it (foldl (\<lambda>it root. addTargetEffect E (he_read E) root ''command:find'' it) it roots)" for roots
    by (rule grows_foldl [OF grows_target r])
  then show "grows it (snd (refineFind E argv static it))"
    by (simp only: refineFind_def Let_def split: option.split) simp
qed (simp add: refineFind_def Let_def split: if_split_asm option.split_asm)

lemma grows_sed_operand: "ready E it \<Longrightarrow> grows it (sed_operand E ip it p)"
proof -
  assume r: "ready E it"
  note g = grows_target [OF r, of "he_read E" p "''command:sed''"]
  from g show ?thesis using grows_trans [OF g grows_target] grows_ready [OF g] r
    by (simp add: sed_operand_def Let_def)
qed

interpretation sed: refiner E "refineSed E" for E
proof
  fix it argv static
  assume r: "ready E it"
  have "grows it (foldl (sed_operand E ip) it ps)" for ip ps
    by (rule grows_foldl [OF grows_sed_operand r])
  then show "grows it (snd (refineSed E argv static it))"
    by (simp add: refineSed_def Let_def split: option.split prod.split)
qed (simp add: refineSed_def Let_def split: if_split_asm option.split_asm prod.split_asm)

interpretation git: refiner E "refineGit E" for E
proof
  fix it argv static
  assume r: "ready E it"
  note g = grows_target [OF r]
  have "grows it (addTargetEffect E k p s (addTargetEffect E k' p' s' it))" for k p s k' p' s'
    using grows_trans [OF g grows_target] grows_ready [OF g] r by simp
  with g show "grows it (snd (refineGit E argv static it))"
    by (simp add: refineGit_def split: option.split git_globals.split)
qed (auto simp: refineGit_def split: if_splits option.splits git_globals.splits)

interpretation kb: refiner E "refineKBCall E" for E
  by unfold_locales (auto simp: refineKBCall_def Let_def grows_kb split: if_split_asm)

interpretation registry: refiner E "refineAtlasCall E name" for E name
proof
  fix it argv static
  assume "ready E it"
  then show "grows it (snd (refineAtlasCall E name argv static it))"
    by (simp add: refineAtlasCall_def commandRefiners_def file_read.keeps find.keeps sed.keeps git.keeps kb.keeps)
next
  fix argv static it
  assume "\<not> fst (refineAtlasCall E name argv static it)"
  then show "snd (refineAtlasCall E name argv static it) = it"
    using file_read.declines find.declines sed.declines git.declines kb.declines
    by (auto simp: refineAtlasCall_def commandRefiners_def split: if_split_asm)
qed

end
