(* ===== verification/Hr_Compile.thy ===== *)
theory Hr_Compile
  imports Hr_Refine
begin

text \<open>
  The intent compiler (\<open>compiler.go\<close>, \<open>refine_funcs.go\<close>, \<open>refine_builtin.go\<close>, \<open>refineCd\<close>): a request becomes
  a description of what its command may do. The walk over the script is structural; calls of functions the
  script defines go through \<open>compileFuncCall\<close>, whose fuel is the number of declarations. Every step is an
  interpretation of the contract of \<open>Hr_Contract\<close>.
\<close>

section \<open>Words\<close>

fun static_quoted :: "quoted_part list \<Rightarrow> string option" where
  "static_quoted [] = Some []"
| "static_quoted (QLit s # ps) = map_option ((@) s) (static_quoted ps)"
| "static_quoted (QOther # ps) = None"

fun static_parts :: "word_part list \<Rightarrow> string option" where
  "static_parts [] = Some []"
| "static_parts (Lit s # ps) = map_option ((@) s) (static_parts ps)"
| "static_parts (SglQuoted s # ps) = map_option ((@) s) (static_parts ps)"
| "static_parts (DblQuoted qs # ps) = (case static_quoted qs of None \<Rightarrow> None | Some s \<Rightarrow> map_option ((@) s) (static_parts ps))"
| "static_parts (OtherPart # ps) = None"

definition staticWord :: "shell_word \<Rightarrow> string \<times> bool" where
  "staticWord w = (case static_parts w of Some s \<Rightarrow> (s, True) | None \<Rightarrow> (''<dynamic>'', False))"

section \<open>Calls\<close>

definition builtinEffects :: "hr_env \<Rightarrow> (string \<times> string list) list" where
  "builtinEffects E =
     [('':'', [he_pure E]), (''['', [he_read E]), (''[['', [he_read E]), (''echo'', [he_pure E]), (''exit'', [he_pure E]), (''false'', [he_pure E]),
      (''printf'', [he_pure E]), (''pwd'', [he_read E]), (''read'', [he_read E]), (''test'', [he_read E]), (''true'', [he_pure E])]"

definition pureBuiltin :: "hr_env \<Rightarrow> string \<Rightarrow> bool" where
  "pureBuiltin E name = (case map_of (builtinEffects E) name of None \<Rightarrow> False | Some effects \<Rightarrow> list_all (\<lambda>e. e = he_pure E) effects)"

definition readOnlyTestBuiltin :: "string \<Rightarrow> bool" where
  "readOnlyTestBuiltin name \<longleftrightarrow> name \<in> set [''test'', ''['', ''[['']"

definition pureOrReadOnlyBuiltin :: "hr_env \<Rightarrow> string \<Rightarrow> bool" where
  "pureOrReadOnlyBuiltin E name \<longleftrightarrow> pureBuiltin E name \<or> readOnlyTestBuiltin name"

definition commandName :: "string list \<Rightarrow> string \<times> string list \<times> bool" where
  "commandName argv =
     (if hd argv = ''<dynamic>'' then ([], argv, False)
      else if length argv > 1 \<and> isBashyFrontDoor (hd argv) then
        (if argv ! 1 = ''<dynamic>'' then ([], argv, False) else (argv ! 1, argv, True))
      else (hd argv, argv, True))"

definition appendMaximumEffects :: "command_fact \<Rightarrow> intent \<Rightarrow> intent" where
  "appendMaximumEffects c it = foldl (\<lambda>it k. add_effect \<lparr>ef_kind = k, ef_scope = cf_tier c, ef_target = [],
     ef_source = ''command:'' @ cf_name c, ef_certainty = ''maximum''\<rparr> it) it (cf_maximumEffects c)"

text \<open>Appending a command, after noting that the running binary could not be digested.\<close>

definition record_command :: "hr_env \<Rightarrow> command_fact \<Rightarrow> intent \<Rightarrow> intent" where
  "record_command E c it = add_command c
     (if cf_contentDigest c = [] then markUnsupported ''executableDigest'' (cf_name c) ''running Bashy binary could not be digested'' it else it)"

definition builtin_fact :: "hr_env \<Rightarrow> string \<Rightarrow> string list \<Rightarrow> string list \<Rightarrow> command_fact" where
  "builtin_fact E name argv effects = \<lparr>cf_name = name, cf_argv = argv, cf_resolver = ''shell-builtin'', cf_group = [],
     cf_tier = he_userland E, cf_stage = he_cross E, cf_shape = he_result E, cf_capabilities = [], cf_maximumEffects = effects,
     cf_contentDigest = he_executable E\<rparr>"

definition atlas_fact :: "hr_env \<Rightarrow> string \<Rightarrow> string list \<Rightarrow> atlas_entry \<Rightarrow> command_fact" where
  "atlas_fact E name argv en = \<lparr>cf_name = name, cf_argv = argv, cf_resolver = ''bashy-atlas'', cf_group = ae_group en,
     cf_tier = ae_tier en, cf_stage = ae_stage en, cf_shape = ae_shape en, cf_capabilities = ae_caps en,
     cf_maximumEffects = ae_effects en, cf_contentDigest = he_executable E\<rparr>"

definition refineCd :: "hr_env \<Rightarrow> string list \<Rightarrow> bool \<Rightarrow> intent \<Rightarrow> intent" where
  "refineCd E argv allStatic it =
     (let operands = filter (\<lambda>a. \<not> (a = ''-L'' \<or> a = ''-P'' \<or> a = ''-e'' \<or> a = ''-@'')) (tl argv) in
      if \<not> allStatic then dynamic_call argv it
      else if length operands \<noteq> 1 \<or> hd operands = ''-''
      then markUnsupported ''effectRefinement'' (join_words argv) ''cd needs exactly one explicit directory'' it
      else let it1 = record_command E (builtin_fact E ''cd'' argv [he_read E]) it;
               target = resolveOperand E it1 (hd operands)
           in (add_effect \<lparr>ef_kind = he_read E, ef_scope = scopeFor E it1 target, ef_target = target,
                 ef_source = ''builtin:cd'', ef_certainty = ''exact''\<rparr> it1)\<lparr>in_cursor := target\<rparr>)"

definition builtin_call :: "hr_env \<Rightarrow> string \<Rightarrow> string list \<Rightarrow> string list \<Rightarrow> bool \<Rightarrow> intent \<Rightarrow> intent" where
  "builtin_call E name argv effects allStatic it =
     (if \<not> allStatic \<and> \<not> pureOrReadOnlyBuiltin E name then dynamic_call argv it
      else let c = builtin_fact E name argv effects; it1 = record_command E c it in
        if name = ''read'' then add_effect \<lparr>ef_kind = he_read E, ef_scope = ''process'', ef_target = ''stdin'', ef_source = ''builtin:read'', ef_certainty = ''exact''\<rparr> it1
        else if name = ''pwd'' then add_effect \<lparr>ef_kind = he_read E, ef_scope = ScopeWorkspace, ef_target = in_cwd it1, ef_source = ''builtin:pwd'', ef_certainty = ''exact''\<rparr> it1
        else appendMaximumEffects c it1)"

definition atlas_call :: "hr_env \<Rightarrow> string \<Rightarrow> string list \<Rightarrow> atlas_entry \<Rightarrow> bool \<Rightarrow> intent \<Rightarrow> intent" where
  "atlas_call E name argv en allStatic it =
     (let c = atlas_fact E name argv en; it1 = record_command E c it in
      if name \<notin> set (he_tools E) \<and> commandRefiners E name = None
      then markUnsupported ''command'' name ''front-door command requires a trusted digest-pinned executable resolver'' it1
      else let (taken, it2) = refineAtlasCall E name argv allStatic it1 in
        if taken then it2
        else if \<not> allStatic then dynamic_call argv it2
        else let it3 = appendMaximumEffects c it2 in
          if list_ex (\<lambda>e. e \<noteq> he_pure E) (ae_effects en)
          then markUnsupported ''effectRefinement'' name ''command arguments require a command-specific target/destination refiner'' it3
          else it3)"

definition compileCall :: "hr_env \<Rightarrow> string list \<Rightarrow> bool \<Rightarrow> intent \<Rightarrow> intent" where
  "compileCall E argv allStatic it =
     (if argv = [] then it
      else let (name, factArgv, commandStatic) = commandName argv in
        if \<not> commandStatic then dynamic_call argv it
        else if CHR ''/'' \<in> set name \<or> CHR 0x5C \<in> set name
        then markUnsupported ''executable'' name ''path executables require a trusted digest-pinned resolver'' it
        else if name = ''cd'' then refineCd E factArgv allStatic it
        else case map_of (builtinEffects E) name of
               Some effects \<Rightarrow> builtin_call E name factArgv effects allStatic it
             | None \<Rightarrow>
                 (case he_lookup E name of
                    None \<Rightarrow> markUnsupported ''command'' name ''command is missing a complete Command Atlas classification'' it
                  | Some en \<Rightarrow>
                      if ae_effects en = []
                      then markUnsupported ''command'' name ''command is missing a complete Command Atlas classification'' it
                      else atlas_call E name factArgv en allStatic it))"

section \<open>Redirections\<close>

definition redirect_effect :: "hr_env \<Rightarrow> string \<Rightarrow> string \<Rightarrow> string \<Rightarrow> string \<Rightarrow> intent \<Rightarrow> effect" where
  "redirect_effect E kind certainty op target it = \<lparr>ef_kind = kind, ef_scope = scopeFor E it target, ef_target = target,
     ef_source = ''redirection:'' @ op, ef_certainty = certainty\<rparr>"

definition compileRedirect :: "hr_env \<Rightarrow> string \<Rightarrow> shell_word \<Rightarrow> intent \<Rightarrow> intent" where
  "compileRedirect E op w it =
     (if has_prefix op ''<<'' then it
      else let (operand, static) = staticWord w in
        if \<not> static then markUnsupported ''dynamicRedirection'' op ''redirection target cannot be proven'' it
        else if operand = [] \<or> operand = ''-'' \<or> has_prefix operand ''&'' then it
        else let target = resolveOperand E it operand in
          if CHR ''>'' \<in> set op then
            (let it1 = add_effect (redirect_effect E (he_write E) ''exact'' op target it) it in
             if \<not> contains op ''>>'' \<and> scopeFor E it target \<noteq> ScopeWorkspace
             then add_effect (redirect_effect E (he_destroy E) ''possible'' op target it) it1 else it1)
          else if CHR ''<'' \<in> set op then add_effect (redirect_effect E (he_read E) ''exact'' op target it) it
          else markUnsupported ''redirection'' op ''redirection operator is not classified'' it)"

section \<open>Functions of the script\<close>

record func_summary =
  fs_name :: string
  fs_body :: node
  fs_declared :: "string list"
  fs_guard :: "string list"
  fs_contained :: bool
  fs_decorated :: bool
  fs_compiled :: "intent option"
  fs_compiling :: bool

type_synonym funcs = "string \<rightharpoonup> func_summary"

definition decoratorArg :: "decorator \<Rightarrow> string \<times> string" where
  "decoratorArg d =
     (case dc_args d of
        [w] \<Rightarrow> (case staticWord w of
                  (value, True) \<Rightarrow> (value, case dc_argNames d of Some n # _ \<Rightarrow> n | _ \<Rightarrow> [])
                | (_, False) \<Rightarrow> ([], []))
      | _ \<Rightarrow> ([], []))"

definition splitEffects :: "string \<Rightarrow> string list" where
  "splitEffects spec = sort (filter (\<lambda>t. t \<noteq> []) (map trim_space (split_on (CHR '','') spec)))"

definition subset_of :: "hr_env \<Rightarrow> string list \<Rightarrow> string list \<Rightarrow> bool" where
  "subset_of E inner outer \<longleftrightarrow> (\<forall>e\<in>set inner. e = he_pure E \<or> e \<in> set outer)"

definition decorate :: "func_summary \<Rightarrow> decorator option \<Rightarrow> func_summary" where
  "decorate s d =
     (case d of
        None \<Rightarrow> s
      | Some d \<Rightarrow>
          (case dc_name d of
             None \<Rightarrow> s
           | Some n \<Rightarrow>
               let (value, argName) = decoratorArg d in
               if n = ''effects'' then s\<lparr>fs_declared := splitEffects value, fs_decorated := True\<rparr>
               else if n = ''guard'' then s\<lparr>fs_guard := splitEffects value, fs_decorated := True\<rparr>
               else if n = ''contain'' \<and> (argName = [] \<or> argName = ''net'') \<and> value = ''deny'' then s\<lparr>fs_contained := True\<rparr>
               else s))"

definition summarize :: "string \<Rightarrow> decorator option list \<Rightarrow> node \<Rightarrow> func_summary" where
  "summarize name decorators body =
     (let s = foldl decorate \<lparr>fs_name = name, fs_body = body, fs_declared = [], fs_guard = [], fs_contained = False,
                fs_decorated = False, fs_compiled = None, fs_compiling = False\<rparr> decorators
      in if fs_declared s = [] then s\<lparr>fs_declared := fs_guard s\<rparr> else s)"

text \<open>\<open>collectFuncs\<close> visits the whole file, bodies included; a later declaration of a name replaces the earlier.\<close>

fun collect :: "node \<Rightarrow> funcs \<Rightarrow> funcs" and collects :: "node list \<Rightarrow> funcs \<Rightarrow> funcs" where
  "collect (FuncDecl name decorators body cs) fs =
     collects cs (case (name, body) of (Some n, Some b) \<Rightarrow> fs(n \<mapsto> summarize n decorators b) | _ \<Rightarrow> fs)"
| "collect (CallExpr args cs) fs = collects cs fs"
| "collect (Redirect op w cs) fs = collects cs fs"
| "collect (Other cs) fs = collects cs fs"
| "collects [] fs = fs"
| "collects (c # cs) fs = collects cs (collect c fs)"

definition collectFuncs :: "node \<Rightarrow> funcs" where
  "collectFuncs file = collect file Map.empty"

fun declarations :: "node \<Rightarrow> nat" and declarations_in :: "node list \<Rightarrow> nat" where
  "declarations (FuncDecl name decorators body cs) = Suc (declarations_in cs)"
| "declarations (CallExpr args cs) = declarations_in cs"
| "declarations (Redirect op w cs) = declarations_in cs"
| "declarations (Other cs) = declarations_in cs"
| "declarations_in [] = 0"
| "declarations_in (c # cs) = declarations c + declarations_in cs"

text \<open>What a call adds to the caller, given the compiled body.\<close>

definition declared_effect :: "string \<Rightarrow> string \<Rightarrow> string \<Rightarrow> string \<Rightarrow> effect" where
  "declared_effect kind name source certainty =
     \<lparr>ef_kind = kind, ef_scope = ScopeDeclared, ef_target = ''func:'' @ name, ef_source = source, ef_certainty = certainty\<rparr>"

definition merge_call :: "hr_env \<Rightarrow> func_summary \<Rightarrow> intent \<Rightarrow> intent \<Rightarrow> intent" where
  "merge_call E s body it =
     (let it1 = it\<lparr>in_commands := in_commands it @ in_commands body\<rparr>;
          it2 = (if in_cursor body \<noteq> [] then it1\<lparr>in_cursor := in_cursor body\<rparr> else it1) in
      if fs_guard s \<noteq> [] \<and> \<not> subset_of E (fs_declared s) (fs_guard s)
      then markUnsupported ''effectRefinement'' (fs_name s) ''declared effects exceed the function's guard'' it2
      else if in_complete body then
        (case List.find (\<lambda>e. fs_decorated s \<and> \<not> subset_of E [ef_kind e] (fs_declared s)) (in_effects body) of
           Some e \<Rightarrow> markUnsupported ''effectRefinement'' (fs_name s @ '': '' @ ef_kind e) ''the body's proven effects exceed its declaration'' it2
         | None \<Rightarrow> it2\<lparr>in_effects := in_effects it2 @ in_effects body\<rparr>)
      else if \<not> fs_decorated s then foldl (\<lambda>it u. markUnsupported (uf_kind u) (uf_value u) (uf_reason u) it) it2 (in_unsupported body)
      else let it3 = foldl (\<lambda>it k. add_effect (declared_effect k (fs_name s) ''decorator:effects'' ''declared'') it) it2
                       (filter (\<lambda>k. k \<noteq> he_pure E) (fs_declared s))
           in if \<not> fs_contained s \<and> \<not> subset_of E [he_net E] (fs_declared s)
              then add_effect (declared_effect (he_net E) (fs_name s) ''uncontained'' ''possible'') it3 else it3)"

definition func_body :: "intent \<Rightarrow> intent" where
  "func_body it = (new_intent (in_cwd it))\<lparr>in_cursor := effectiveCwd it\<rparr>"

text \<open>One call: \<open>compile\<close> walks the body the first time, with the function marked as being compiled.\<close>

definition func_call :: "hr_env \<Rightarrow> (node \<Rightarrow> intent \<times> funcs \<Rightarrow> (intent \<times> funcs) option) \<Rightarrow> func_summary \<Rightarrow> intent \<times> funcs \<Rightarrow> (intent \<times> funcs) option" where
  "func_call E compile s st =
     (let (it, fs) = st in
      if fs_compiling s then Some (markUnsupported ''recursion'' (fs_name s) ''recursive function calls cannot be bounded'' it, fs)
      else case fs_compiled s of
             Some body \<Rightarrow> Some (merge_call E s body it, fs)
           | None \<Rightarrow>
               (case compile (fs_body s) (func_body it, fs(fs_name s \<mapsto> s\<lparr>fs_compiling := True\<rparr>)) of
                  None \<Rightarrow> None
                | Some (body, fs') \<Rightarrow>
                    Some (merge_call E s body it, fs'(fs_name s \<mapsto> s\<lparr>fs_compiling := False, fs_compiled := Some body\<rparr>))))"

fun walk_with :: "hr_env \<Rightarrow> (func_summary \<Rightarrow> intent \<times> funcs \<Rightarrow> (intent \<times> funcs) option) \<Rightarrow> node \<Rightarrow> intent \<times> funcs \<Rightarrow> (intent \<times> funcs) option"
and walks_with :: "hr_env \<Rightarrow> (func_summary \<Rightarrow> intent \<times> funcs \<Rightarrow> (intent \<times> funcs) option) \<Rightarrow> node list \<Rightarrow> intent \<times> funcs \<Rightarrow> (intent \<times> funcs) option" where
  "walk_with E call (FuncDecl name decorators body cs) st = Some st"
| "walk_with E call (CallExpr args cs) (it, fs) =
     (if args = [] then walks_with E call cs (it, fs)
      else let argv = map (\<lambda>w. fst (staticWord w)) args; allStatic = list_all (\<lambda>w. snd (staticWord w)) args in
        case fs (hd argv) of
          Some s \<Rightarrow> (case call s (it, fs) of None \<Rightarrow> None | Some st \<Rightarrow> walks_with E call cs st)
        | None \<Rightarrow> walks_with E call cs (compileCall E argv allStatic it, fs))"
| "walk_with E call (Redirect op w cs) (it, fs) = walks_with E call cs (compileRedirect E op w it, fs)"
| "walk_with E call (Other cs) st = walks_with E call cs st"
| "walks_with E call [] st = Some st"
| "walks_with E call (c # cs) st = (case walk_with E call c st of None \<Rightarrow> None | Some st' \<Rightarrow> walks_with E call cs st')"

primrec compileFuncCall :: "hr_env \<Rightarrow> nat \<Rightarrow> func_summary \<Rightarrow> intent \<times> funcs \<Rightarrow> (intent \<times> funcs) option" where
  "compileFuncCall E 0 = func_call E (\<lambda>_ _. None)"
| "compileFuncCall E (Suc n) = func_call E (walk_with E (compileFuncCall E n))"

definition walkCompile :: "hr_env \<Rightarrow> nat \<Rightarrow> node \<Rightarrow> intent \<times> funcs \<Rightarrow> (intent \<times> funcs) option" where
  "walkCompile E n root st = walk_with E (compileFuncCall E n) root st"

definition compileScript :: "hr_env \<Rightarrow> string \<Rightarrow> intent \<Rightarrow> intent option" where
  "compileScript E script it =
     (case he_parse E script of
        Inl e \<Rightarrow> Some (markUnsupported ''syntax'' script (''the command does not parse: '' @ e) it)
      | Inr file \<Rightarrow> map_option fst (walkCompile E (declarations file) file (it, collectFuncs file)))"

end
