(* ===== verification/Hr_Preflight.thy ===== *)
theory Hr_Preflight
  imports Hr_Compile
begin

text \<open>
  \<open>compileIntent\<close> (\<open>compiler.go\<close>): the environment, the order of the facts and the digests around the
  compiler of \<open>Hr_Compile\<close>, with the laws of the walk: enough fuel, and nothing but growth.
\<close>

section \<open>The environment\<close>

datatype hr_error = UnsupportedSchema string | ExactlyOneCommand | NegativeLimits | CwdUnresolved | CwdNotDirectory string
  | InvalidName string | DuplicateName string | UnkeyedSecret | MarshalFailed | FuelExhausted

definition name_start :: "char \<Rightarrow> bool" where
  "name_start c \<longleftrightarrow> c = CHR ''_'' \<or> 65 \<le> byte c \<and> byte c \<le> 90 \<or> 97 \<le> byte c \<and> byte c \<le> 122"

definition environmentName :: "string \<Rightarrow> bool" where
  "environmentName s \<longleftrightarrow> s \<noteq> [] \<and> name_start (hd s) \<and> list_all (\<lambda>c. name_start c \<or> 48 \<le> byte c \<and> byte c \<le> 57) (tl s)"

definition environment_fact_of :: "string \<Rightarrow> env_variable \<Rightarrow> environment_fact" where
  "environment_fact_of key v = \<lparr>nf_name = va_name v, nf_valueRef = va_valueRef v, nf_secret = va_secret v,
     nf_valueDigest = (if va_secret v then ''hmac-sha256:'' @ hex_encode (hmac_sha256 key
         (''bashy.harness.environment/v1'' @ [nul] @ va_name v @ [nul] @ va_value v))
       else digestBytes (va_value v))\<rparr>"

definition compile_variable :: "string \<Rightarrow> nat \<Rightarrow> string list \<times> environment_fact list \<Rightarrow> env_variable \<Rightarrow> hr_error + (string list \<times> environment_fact list)" where
  "compile_variable key i st v =
     (let (seen, out) = st in
      case first_error [
          refuse (\<not> environmentName (va_name v)) (InvalidName (va_name v)),
          refuse (va_name v \<in> set seen) (DuplicateName (va_name v)),
          refuse (va_secret v \<and> key = []) UnkeyedSecret] of
        Some e \<Rightarrow> Inl e
      | None \<Rightarrow> Inr (va_name v # seen, out @ [environment_fact_of key v]))"

definition compileEnvironment :: "env_variable list \<Rightarrow> string \<Rightarrow> hr_error + environment_fact list" where
  "compileEnvironment values key =
     (case scan (compile_variable key) 0 ([], []) values of Inl e \<Rightarrow> Inl e | Inr (_, out) \<Rightarrow> Inr (sort_key nf_name out))"

section \<open>The order of the facts\<close>

definition effect_key :: "effect \<Rightarrow> string" where
  "effect_key e = ef_kind e @ [nul] @ ef_scope e @ [nul] @ ef_target e @ [nul] @ ef_source e @ [nul] @ ef_certainty e"

definition effect_set :: "effect list \<Rightarrow> (string \<rightharpoonup> effect)" where
  "effect_set es = foldl (\<lambda>m e. m(effect_key e \<mapsto> e)) Map.empty es"

definition sorted_effects :: "hr_env \<Rightarrow> effect list \<Rightarrow> effect list" where
  "sorted_effects E es =
     (let m = effect_set es; keys = remdups (map effect_key es);
          governed = list_ex (\<lambda>k. ef_kind (the (m k)) \<noteq> he_pure E) keys;
          kept = (if governed then filter (\<lambda>k. ef_kind (the (m k)) \<noteq> he_pure E) keys else keys)
      in map (\<lambda>k. the (m k)) (sort kept))"

text \<open>\<open>sort.Slice\<close> leaves the order of facts with the same concatenation open; here they keep theirs.\<close>

definition dedupeAndSortIntent :: "hr_env \<Rightarrow> intent \<Rightarrow> intent" where
  "dedupeAndSortIntent E it = it\<lparr>in_effects := sorted_effects E (in_effects it),
     in_unsupported := sort_key (\<lambda>u. uf_kind u @ uf_value u @ uf_reason u) (in_unsupported it),
     in_commands := map (\<lambda>c. c\<lparr>cf_capabilities := sort (cf_capabilities c), cf_maximumEffects := sort (cf_maximumEffects c)\<rparr>) (in_commands it)\<rparr>"

section \<open>The intent of a request\<close>

definition RequestSchemaVersion :: string where
  "RequestSchemaVersion = ''bashy.harness.request/v1alpha1''"

definition request_check :: "string \<Rightarrow> command \<Rightarrow> limits \<Rightarrow> hr_error option" where
  "request_check schema cmd lim = first_error [
     refuse (schema \<noteq> [] \<and> schema \<noteq> RequestSchemaVersion) (UnsupportedSchema schema),
     refuse ((cm_script cmd = []) = (cm_argv cmd = [])) ExactlyOneCommand,
     refuse (lm_wallTimeMs lim < 0 \<or> lm_stdoutBytes lim < 0 \<or> lm_stderrBytes lim < 0 \<or> lm_stdinBytes lim < 0) NegativeLimits]"

text \<open>\<open>os.Getwd\<close> for an empty directory, then \<open>filepath.Abs\<close>, the symbolic links and the check for a directory.\<close>

definition resolve_cwd :: "hr_env \<Rightarrow> string \<Rightarrow> hr_error + string" where
  "resolve_cwd E cwd =
     (case (if cwd = [] then he_getwd E else Some cwd) of
        None \<Rightarrow> Inl CwdUnresolved
      | Some c \<Rightarrow>
          (case (if is_abs c then Some (path_clean c) else map_option (\<lambda>wd. path_join wd c) (he_getwd E)) of
             None \<Rightarrow> Inl CwdUnresolved
           | Some a \<Rightarrow>
               (case he_symlinks E a of
                  None \<Rightarrow> Inl CwdUnresolved
                | Some r \<Rightarrow> if he_isdir E r then Inr (path_clean r) else Inl (CwdNotDirectory r))))"

definition secret_effect :: "hr_env \<Rightarrow> environment_fact \<Rightarrow> effect" where
  "secret_effect E f = \<lparr>ef_kind = he_cred E, ef_scope = he_userland E, ef_target = nf_valueRef f,
     ef_source = ''environment:'' @ nf_name f, ef_certainty = ''exact''\<rparr>"

definition stdin_effect :: "hr_env \<Rightarrow> effect" where
  "stdin_effect E = \<lparr>ef_kind = he_write E, ef_scope = ''process'', ef_target = ''stdin'', ef_source = ''interactive-input'', ef_certainty = ''maximum''\<rparr>"

definition initial_intent :: "hr_env \<Rightarrow> string \<Rightarrow> environment_fact list \<Rightarrow> limits \<Rightarrow> hr_placement \<Rightarrow> intent" where
  "initial_intent E cwd environment lim pl =
     (let it = (new_intent cwd)\<lparr>in_environment := environment, in_limits := lim, in_placement := pl,
            in_effects := map (secret_effect E) (filter nf_secret environment)\<rparr>
      in if lm_stdinBytes lim > 0 then add_effect (stdin_effect E) it else it)"

definition compile_command :: "hr_env \<Rightarrow> command \<Rightarrow> intent \<Rightarrow> intent option" where
  "compile_command E cmd it =
     (if cm_script cmd \<noteq> [] then compileScript E (cm_script cmd) (it\<lparr>in_scriptDigest := digestBytes (cm_script cmd)\<rparr>)
      else Some (compileCall E (cm_argv cmd) True (it\<lparr>in_argv := cm_argv cmd\<rparr>)))"

definition seal_intent :: "hr_env \<Rightarrow> intent \<Rightarrow> hr_error + intent" where
  "seal_intent E it =
     (case digestJSON (he_marshal_commands E (in_commands it)) of
        None \<Rightarrow> Inl MarshalFailed
      | Some a \<Rightarrow>
          (let it1 = it\<lparr>in_atlasDigest := a\<rparr> in
           case digestJSON (he_marshal E (it1\<lparr>in_digest := []\<rparr>)) of
             None \<Rightarrow> Inl MarshalFailed
           | Some d \<Rightarrow> Inr (it1\<lparr>in_digest := d\<rparr>)))"

definition compileIntent :: "hr_env \<Rightarrow> string \<Rightarrow> command \<Rightarrow> limits \<Rightarrow> hr_placement \<Rightarrow> string \<Rightarrow> hr_error + intent" where
  "compileIntent E schema cmd lim pl key =
     (case request_check schema cmd lim of
        Some e \<Rightarrow> Inl e
      | None \<Rightarrow>
          (case resolve_cwd E (cm_cwd cmd) of
             Inl e \<Rightarrow> Inl e
           | Inr cwd \<Rightarrow>
               (case compileEnvironment (cm_environment cmd) key of
                  Inl e \<Rightarrow> Inl e
                | Inr environment \<Rightarrow>
                    (case compile_command E cmd (initial_intent E cwd environment lim pl) of
                       None \<Rightarrow> Inl FuelExhausted
                     | Some it \<Rightarrow> seal_intent E (dedupeAndSortIntent E it)))))"

section \<open>Enough fuel\<close>

text \<open>The functions that a call could still compile: their number bounds the nesting.\<close>

definition idle :: "funcs \<Rightarrow> string set" where
  "idle fs = {n. \<exists>s. fs n = Some s \<and> \<not> fs_compiling s}"

definition named :: "funcs \<Rightarrow> bool" where
  "named fs \<longleftrightarrow> finite (dom fs) \<and> (\<forall>n s. fs n = Some s \<longrightarrow> fs_name s = n)"

lemma finite_idle: "named fs \<Longrightarrow> finite (idle fs)"
  unfolding named_def idle_def by (rule finite_subset [of _ "dom fs"]) auto

text \<open>
  A law of the walk: what holds from before to after every call, command and redirection holds from before to
  after the walk, and the walk returns.
\<close>

locale walk_law =
  fixes E :: hr_env and call :: "func_summary \<Rightarrow> intent \<times> funcs \<Rightarrow> (intent \<times> funcs) option"
    and P :: "intent \<times> funcs \<Rightarrow> bool" and R :: "intent \<times> funcs \<Rightarrow> intent \<times> funcs \<Rightarrow> bool"
  assumes reflexive: "P st \<Longrightarrow> R st st" and transitive: "R a b \<Longrightarrow> R b c \<Longrightarrow> R a c" and keeps: "P a \<Longrightarrow> R a b \<Longrightarrow> P b"
    and calls: "P (it, fs) \<Longrightarrow> fs f = Some s \<Longrightarrow> \<exists>st. call s (it, fs) = Some st \<and> R (it, fs) st"
    and commands: "P (it, fs) \<Longrightarrow> R (it, fs) (compileCall E argv static it, fs)"
    and redirects: "P (it, fs) \<Longrightarrow> R (it, fs) (compileRedirect E op w it, fs)"
begin

definition obeys :: "(intent \<times> funcs \<Rightarrow> (intent \<times> funcs) option) \<Rightarrow> bool" where
  "obeys f \<longleftrightarrow> (\<forall>st. P st \<longrightarrow> (\<exists>st'. f st = Some st' \<and> R st st'))"

lemma obeysI: "(\<And>it fs. P (it, fs) \<Longrightarrow> \<exists>st'. f (it, fs) = Some st' \<and> R (it, fs) st') \<Longrightarrow> obeys f"
  by (simp add: obeys_def split_paired_all)

lemma obeysE: "obeys f \<Longrightarrow> P st \<Longrightarrow> (\<And>st'. f st = Some st' \<Longrightarrow> R st st' \<Longrightarrow> P st' \<Longrightarrow> thesis) \<Longrightarrow> thesis"
  using keeps unfolding obeys_def by blast

lemma walks: "(\<And>c. c \<in> set cs \<Longrightarrow> obeys (walk_with E call c)) \<Longrightarrow> obeys (walks_with E call cs)"
proof (induction cs)
  case Nil
  show ?case by (rule obeysI) (simp add: reflexive)
next
  case (Cons c cs)
  show ?case
  proof (rule obeysI)
    fix it fs
    assume p: "P (it, fs)"
    have oc: "obeys (walk_with E call c)" and ocs: "obeys (walks_with E call cs)" using Cons by simp_all
    obtain a where a: "walk_with E call c (it, fs) = Some a" "R (it, fs) a" "P a" using obeysE [OF oc p] by blast
    obtain b where "walks_with E call cs a = Some b" "R a b" using obeysE [OF ocs a(3)] by blast
    then show "\<exists>st'. walks_with E call (c # cs) (it, fs) = Some st' \<and> R (it, fs) st'"
      using transitive [OF a(2)] by (simp add: a(1))
  qed
qed

lemma after: "obeys f \<Longrightarrow> P st \<Longrightarrow> R st a \<Longrightarrow> \<exists>b. f a = Some b \<and> R st b"
  using keeps [of st a] transitive [of st a] unfolding obeys_def by blast

lemma walk: "obeys (walk_with E call c)"
proof (induction c)
  case (FuncDecl name decorators body cs)
  show ?case by (rule obeysI) (simp add: reflexive)
next
  case (CallExpr args cs)
  then have cs: "obeys (walks_with E call cs)" by (rule walks)
  show ?case
  proof (rule obeysI)
    fix it fs
    assume p: "P (it, fs)"
    let ?f = "fst (staticWord (hd args))"
    show "\<exists>st'. walk_with E call (CallExpr args cs) (it, fs) = Some st' \<and> R (it, fs) st'"
    proof (cases "args = []")
      case True
      with cs p show ?thesis by (auto elim: obeysE)
    next
      case args: False
      show ?thesis
      proof (cases "fs ?f")
        case None
        with args after [OF cs p commands [OF p]] show ?thesis by (simp add: hd_map Let_def)
      next
        case (Some s)
        from calls [OF p Some] obtain st where "call s (it, fs) = Some st" "R (it, fs) st" by blast
        with args Some after [OF cs p] show ?thesis by (simp add: hd_map Let_def)
      qed
    qed
  qed
next
  case (Redirect op w cs)
  then have cs: "obeys (walks_with E call cs)" by (rule walks)
  show ?case
    by (rule obeysI) (use after [OF cs _ redirects] in simp)
next
  case (Other cs)
  then have "obeys (walks_with E call cs)" by (rule walks)
  then show ?case by (auto intro!: obeysI elim: obeysE)
qed

lemma walk_obtains:
  assumes "P st" obtains st' where "walk_with E call c st = Some st'" "R st st'" "P st'"
  using walk assms by (rule obeysE)

end

definition fuel_ok :: "nat \<Rightarrow> intent \<times> funcs \<Rightarrow> bool" where
  "fuel_ok n st \<longleftrightarrow> named (snd st) \<and> card (idle (snd st)) \<le> n"

definition same_idle :: "intent \<times> funcs \<Rightarrow> intent \<times> funcs \<Rightarrow> bool" where
  "same_idle st st' \<longleftrightarrow> idle (snd st') = idle (snd st) \<and> dom (snd st') = dom (snd st) \<and> (named (snd st) \<longrightarrow> named (snd st'))"

lemma idle_upd: "idle (fs(n \<mapsto> s)) = (if fs_compiling s then idle fs - {n} else insert n (idle fs))"
  by (auto simp: idle_def)

lemma named_upd: "named fs \<Longrightarrow> fs_name s = n \<Longrightarrow> named (fs(n \<mapsto> s))"
  by (auto simp: named_def)

text \<open>A call with a compiler of bodies that obeys the law one level down obeys it too.\<close>

lemma func_call_fuel:
  assumes ok: "fuel_ok n (it, fs)" and s: "fs f = Some s"
    and body: "n = 0 \<or> (\<forall>st. fuel_ok (n - 1) st \<longrightarrow> (\<exists>st'. compile (fs_body s) st = Some st' \<and> same_idle st st'))"
  shows "\<exists>st. func_call E compile s (it, fs) = Some st \<and> same_idle (it, fs) st"
proof -
  have nf: "named fs" and name: "fs_name s = f" and fin: "finite (idle fs)" and c: "card (idle fs) \<le> n"
    using ok s finite_idle by (auto simp: fuel_ok_def named_def)
  show ?thesis
  proof (cases "fs_compiling s \<or> fs_compiled s \<noteq> None")
    case True
    then show ?thesis by (auto simp: func_call_def same_idle_def)
  next
    case False
    let ?s = "s\<lparr>fs_compiling := True\<rparr>"
    let ?fs = "fs(f \<mapsto> ?s)"
    have f: "f \<in> idle fs" using s False by (simp add: idle_def)
    then have pos: "n \<noteq> 0" using fin c by (metis card_eq_0_iff empty_iff le_zero_eq)
    have i: "idle ?fs = idle fs - {f}" by (simp add: idle_upd)
    have "fuel_ok (n - 1) (func_body it, ?fs)"
      using nf name named_upd [of fs ?s f] c f fin by (simp add: fuel_ok_def i)
    with body pos obtain b fs' where b: "compile (fs_body s) (func_body it, ?fs) = Some (b, fs')" "same_idle (func_body it, ?fs) (b, fs')"
      by force
    have d: "insert f (dom fs') = dom fs" using b(2) s by (auto simp: same_idle_def)
    have "idle fs' = idle fs - {f}" "named fs'" using b(2) i named_upd [OF nf, of ?s f] name by (auto simp: same_idle_def)
    moreover have "named (fs'(f \<mapsto> s\<lparr>fs_compiling := False, fs_compiled := Some b\<rparr>))"
      by (rule named_upd) (use calculation name in simp_all)
    ultimately show ?thesis using False b(1) f d name
      by (simp add: func_call_def same_idle_def idle_upd insert_absorb)
  qed
qed

lemma fuel_law_step:
  assumes "n = 0 \<or> (\<forall>b st. fuel_ok (n - 1) st \<longrightarrow> (\<exists>st'. compile b st = Some st' \<and> same_idle st st'))"
  shows "walk_law E (func_call E compile) (fuel_ok n) same_idle"
proof
  fix it fs f s
  assume "fuel_ok n (it, fs)" "fs f = Some s"
  then show "\<exists>st. func_call E compile s (it, fs) = Some st \<and> same_idle (it, fs) st"
    by (rule func_call_fuel) (use assms in blast)
qed (auto simp: same_idle_def fuel_ok_def)

lemma fuel_law: "walk_law E (compileFuncCall E n) (fuel_ok n) same_idle"
proof (induction n)
  case (Suc n)
  show ?case unfolding compileFuncCall.simps
    by (rule fuel_law_step) (use walk_law.walk_obtains [OF Suc.IH] in \<open>metis diff_Suc_1\<close>)
qed (simp add: fuel_law_step)

interpretation fuel: walk_law E "compileFuncCall E n" "fuel_ok n" same_idle for E n
  by (rule fuel_law)

end
