(* ===== verification/Hr_Walk_Laws.thy ===== *)
theory Hr_Walk_Laws
  imports Hr_Preflight
begin

text \<open>
  What the compiler keeps: calls, redirections and function calls only add facts (\<open>grows\<close>), so the walk
  does; the fuel of \<open>compileScript\<close> is enough; a complete intent has a record of every call outside
  function declarations and, at any depth, in the bodies of the functions called that carry no declaration.
\<close>

section \<open>Every step grows\<close>

lemma grows_record [simp]: "grows it (record_command E c it)"
  using grows_trans [OF grows_mark grows_command] by (simp add: record_command_def)

lemma grows_add_effects: "(\<And>e. e \<in> set es \<Longrightarrow> labelled (in_cwd it) e) \<Longrightarrow> grows it (it\<lparr>in_effects := in_effects it @ es\<rparr>)"
  by (simp add: grows_def list_all_iff)

lemma foldl_add_effect: "foldl (\<lambda>it k. add_effect (f k) it) it ks = it\<lparr>in_effects := in_effects it @ map f ks\<rparr>"
  by (induction ks arbitrary: it) (simp_all add: add_effect_def)

lemma foldl_mark: "grows it (foldl (\<lambda>it u. markUnsupported (uf_kind u) (uf_value u) (uf_reason u) it) it us)"
proof (induction us arbitrary: it)
  case (Cons u us)
  show ?case using grows_trans [OF grows_mark Cons.IH] by simp
qed simp

lemma grows_maximum: "cf_tier c \<noteq> ScopeWorkspace \<Longrightarrow> grows it (appendMaximumEffects c it)"
  unfolding appendMaximumEffects_def foldl_add_effect by (rule grows_add_effects) (auto simp: labelled_def)

lemma fact_tiers:
  "atlas_ok E \<Longrightarrow> cf_tier (builtin_fact E n a es) \<noteq> ScopeWorkspace"
  "atlas_ok E \<Longrightarrow> he_lookup E n = Some en \<Longrightarrow> cf_tier (atlas_fact E n a en) \<noteq> ScopeWorkspace"
  by (simp_all add: builtin_fact_def atlas_fact_def atlas_ok_def)

text \<open>Chaining: from a grown intent on.\<close>

lemma grows_step: "grows it a \<Longrightarrow> (ready E it \<Longrightarrow> ready E a \<Longrightarrow> grows a b) \<Longrightarrow> ready E it \<Longrightarrow> grows it b"
  using grows_trans grows_ready by blast

lemma grows_cd: "ready E it \<Longrightarrow> grows it (refineCd E argv static it)"
proof -
  assume r: "ready E it"
  have "grows it1 ((add_effect \<lparr>ef_kind = k, ef_scope = scopeFor E it1 (resolveOperand E it1 p), ef_target = resolveOperand E it1 p,
      ef_source = s, ef_certainty = c\<rparr> it1)\<lparr>in_cursor := d\<rparr>)" if "ready E it1" for it1 k p s c d
    by (rule grows_trans [OF grows_effect grows_cursor])
       (rule scopeFor_labelled [OF that], simp_all add: resolveOperand_def)
  from grows_step [OF grows_record this r] show ?thesis by (simp add: refineCd_def Let_def)
qed

lemma grows_if: "(c \<Longrightarrow> grows it a) \<Longrightarrow> (\<not> c \<Longrightarrow> grows it b) \<Longrightarrow> grows it (if c then a else b)"
  by simp

lemma grows_case:
  "(x = None \<Longrightarrow> grows it a) \<Longrightarrow> (\<And>y. x = Some y \<Longrightarrow> grows it (b y)) \<Longrightarrow> grows it (case x of None \<Rightarrow> a | Some y \<Rightarrow> b y)"
  by (cases x) simp_all

lemma grows_builtin: "ready E it \<Longrightarrow> grows it (builtin_call E name argv effects static it)"
proof -
  assume r: "ready E it"
  let ?c = "builtin_fact E name argv effects"
  have e: "grows it (add_effect e (record_command E ?c it))" if "ef_scope e = ''process'' \<or> ef_target e = in_cwd (record_command E ?c it)" for e
    by (rule grows_trans [OF grows_record grows_effect]) (use that in \<open>auto simp: labelled_def ScopeWorkspace_def\<close>)
  have m: "grows it (appendMaximumEffects ?c (record_command E ?c it))"
    by (rule grows_trans [OF grows_record grows_maximum]) (use r fact_tiers(1) in \<open>simp add: ready_def\<close>)
  show ?thesis
    unfolding builtin_call_def Let_def by (rule grows_if grows_dynamic m | rule e, simp only: effect.select_convs simp_thms)+
qed

lemma atlas_call_grows:
  assumes r: "ready E it" and en: "he_lookup E name = Some en"
  shows "grows (record_command E (atlas_fact E name argv en) it) (atlas_call E name argv en static it)"
proof -
  let ?it = "record_command E (atlas_fact E name argv en) it"
  have r1: "ready E ?it" using r grows_ready [OF grows_record] by simp
  obtain taken it2 where e: "refineAtlasCall E name argv static ?it = (taken, it2)" by fastforce
  have q: "grows ?it it2" using registry.keeps [OF r1, of name argv static] e by simp
  have "grows it2 (appendMaximumEffects (atlas_fact E name argv en) it2)"
    using fact_tiers(2) [OF _ en] r by (simp add: grows_maximum ready_def)
  note qa = grows_trans [OF q this]
  show ?thesis
    by (simp add: atlas_call_def Let_def e q qa grows_trans [OF q grows_dynamic(1)] grows_trans [OF qa grows_mark])
qed

lemma grows_atlas: "ready E it \<Longrightarrow> he_lookup E name = Some en \<Longrightarrow> grows it (atlas_call E name argv en static it)"
  by (rule grows_trans [OF grows_record atlas_call_grows])

lemma grows_call: "ready E it \<Longrightarrow> grows it (compileCall E argv static it)"
  by (simp add: compileCall_def grows_cd grows_builtin grows_atlas split: prod.split option.split)

lemma grows_redirect: "ready E it \<Longrightarrow> grows it (compileRedirect E op w it)"
proof -
  assume r: "ready E it"
  have e: "ready E a \<Longrightarrow> in_cwd a = in_cwd it \<Longrightarrow> grows a (add_effect (redirect_effect E k c op (resolveOperand E it p) it) a)" for a k c p
    unfolding redirect_effect_def
    using scopeFor_labelled [OF r, of "\<lparr>ef_kind = k, ef_scope = scopeFor E it (resolveOperand E it p), ef_target = resolveOperand E it p,
      ef_source = ''redirection:'' @ op, ef_certainty = c\<rparr>"]
    by (intro grows_effect) (simp add: resolveOperand_def)
  have "grows it (add_effect (redirect_effect E k c op (resolveOperand E it p) it) (add_effect (redirect_effect E k' c' op (resolveOperand E it p) it) it))" for k c k' c' p
    using grows_trans [OF e [OF r refl] e] grows_ready [OF e [OF r refl]] r by (simp add: add_effect_def)
  with e [OF r refl] show ?thesis by (simp add: compileRedirect_def Let_def split: prod.split)
qed

lemma find_none: "List.find p xs = None \<Longrightarrow> x \<in> set xs \<Longrightarrow> \<not> p x"
  by (auto simp: find_None_iff)

lemma grows_merge:
  assumes "grows (new_intent (in_cwd it)) body"
  shows "grows it (merge_call E s body it)"
proof -
  have body: "\<And>e. e \<in> set (in_effects body) \<Longrightarrow> labelled (in_cwd it) e"
    using assms by (auto simp: grows_def new_intent_def list_all_iff)
  let ?it1 = "it\<lparr>in_commands := in_commands it @ in_commands body\<rparr>"
  let ?it2 = "if in_cursor body \<noteq> [] then ?it1\<lparr>in_cursor := in_cursor body\<rparr> else ?it1"
  have g: "grows it ?it2" by (simp add: grows_def)
  have c: "in_cwd ?it2 = in_cwd it" by simp
  have d: "labelled (in_cwd it) (declared_effect k n t u)" for k n t u
    by (simp add: labelled_def declared_effect_def ScopeDeclared_def ScopeWorkspace_def)
  have effects: "grows ?it2 (?it2\<lparr>in_effects := in_effects ?it2 @ in_effects body\<rparr>)"
    by (rule grows_add_effects) (simp only: c body)
  have declared: "grows ?it2 (?it2\<lparr>in_effects := in_effects ?it2 @ map (\<lambda>k. declared_effect k n t u) ks\<rparr>)" for n t u ks
    by (rule grows_add_effects) (simp only: c, clarsimp simp: d)
  have net: "grows a b \<Longrightarrow> in_cwd b = in_cwd it \<Longrightarrow> grows a (add_effect (declared_effect k n t u) b)" for a b k n t u
    using grows_trans grows_effect d by metis
  have "grows ?it2 (merge_call E s body it)"
    unfolding merge_call_def Let_def foldl_add_effect
    by (rule grows_if grows_case grows_mark foldl_mark effects declared net [OF declared] | (simp; fail))+
  with g show ?thesis by (rule grows_trans)
qed

section \<open>The walk grows\<close>

definition bodies_ok :: "string \<Rightarrow> funcs \<Rightarrow> bool" where
  "bodies_ok cwd fs \<longleftrightarrow> (\<forall>f s body. fs f = Some s \<longrightarrow> fs_compiled s = Some body \<longrightarrow> grows (new_intent cwd) body)"

definition growth_ok :: "hr_env \<Rightarrow> string \<Rightarrow> nat \<Rightarrow> intent \<times> funcs \<Rightarrow> bool" where
  "growth_ok E cwd n st \<longleftrightarrow> fuel_ok n st \<and> ready E (fst st) \<and> in_cwd (fst st) = cwd \<and> bodies_ok cwd (snd st)"

definition growth :: "string \<Rightarrow> intent \<times> funcs \<Rightarrow> intent \<times> funcs \<Rightarrow> bool" where
  "growth cwd st st' \<longleftrightarrow> same_idle st st' \<and> grows (fst st) (fst st') \<and> (bodies_ok cwd (snd st) \<longrightarrow> bodies_ok cwd (snd st'))"

lemma body_growth_ok:
  assumes ok: "growth_ok E cwd n (it, fs)" and s: "fs f = Some s" "\<not> fs_compiling s" "fs_compiled s = None"
  shows "n \<noteq> 0 \<and> growth_ok E cwd (n - 1) (func_body it, fs(f \<mapsto> s\<lparr>fs_compiling := True\<rparr>))"
proof -
  let ?s = "s\<lparr>fs_compiling := True\<rparr>"
  have nf: "named fs" and fin: "finite (idle fs)" and card: "card (idle fs) \<le> n" and f: "f \<in> idle fs"
    and r: "ready E it" "in_cwd it = cwd" and bs: "bodies_ok cwd fs" and name: "fs_name s = f"
    using ok finite_idle s by (auto simp: growth_ok_def fuel_ok_def idle_def named_def)
  have "bodies_ok cwd (fs(f \<mapsto> ?s))" using bs s by (auto simp: bodies_ok_def)
  moreover have "n \<noteq> 0" using f fin card by (metis card_eq_0_iff empty_iff le_zero_eq)
  moreover have "idle (fs(f \<mapsto> ?s)) = idle fs - {f}" by (simp add: idle_upd)
  ultimately show ?thesis
    using nf name named_upd [of fs ?s f] card f fin r
    by (simp add: growth_ok_def fuel_ok_def func_body_def ready_def new_intent_def)
qed

lemma growth_func_call:
  assumes ok: "growth_ok E cwd n (it, fs)" and s: "fs f = Some s"
    and body: "n = 0 \<or> (\<forall>b st. growth_ok E cwd (n - 1) st \<longrightarrow> (\<exists>st'. compile b st = Some st' \<and> growth cwd st st'))"
  shows "\<exists>st. func_call E compile s (it, fs) = Some st \<and> growth cwd (it, fs) st"
proof -
  have fuel: "fuel_ok n (it, fs)" and r: "ready E it" and cwd: "in_cwd it = cwd" and bs: "bodies_ok cwd fs" and name: "fs_name s = f"
    using ok s by (auto simp: growth_ok_def fuel_ok_def named_def)
  have merged: "grows (new_intent cwd) b \<Longrightarrow> grows it (merge_call E s b it)" for b
    using grows_merge cwd by simp
  show ?thesis
  proof (cases "fs_compiling s \<or> fs_compiled s \<noteq> None")
    case True
    have "fs_compiled s = Some b \<Longrightarrow> grows (new_intent cwd) b" for b using bs s by (auto simp: bodies_ok_def)
    with True merged show ?thesis by (auto simp: func_call_def growth_def same_idle_def)
  next
    case False
    let ?s = "s\<lparr>fs_compiling := True\<rparr>"
    let ?fs = "fs(f \<mapsto> ?s)"
    have nf: "named fs" and f: "f \<in> idle fs" using fuel s False by (auto simp: fuel_ok_def idle_def)
    have i: "idle ?fs = idle fs - {f}" by (simp add: idle_upd)
    have "n \<noteq> 0" "growth_ok E cwd (n - 1) (func_body it, ?fs)" "bodies_ok cwd ?fs"
      using body_growth_ok [OF ok s] False by (simp_all add: growth_ok_def)
    with body obtain b fs' where b: "compile (fs_body s) (func_body it, ?fs) = Some (b, fs')" "growth cwd (func_body it, ?fs) (b, fs')"
      by force
    have ids: "idle fs' = idle fs - {f}" "named fs'" "bodies_ok cwd fs'" and g: "grows (func_body it) b"
      using b(2) i named_upd [OF nf, of ?s f] name \<open>bodies_ok cwd ?fs\<close> by (auto simp: growth_def same_idle_def)
    have d: "insert f (dom fs') = dom fs" using b(2) s by (auto simp: growth_def same_idle_def)
    have g': "grows (new_intent cwd) b"
      by (rule grows_trans [OF _ g]) (simp add: func_body_def cwd)
    let ?s' = "s\<lparr>fs_compiling := False, fs_compiled := Some b\<rparr>"
    have "bodies_ok cwd (fs'(f \<mapsto> ?s'))" using ids(3) g' by (auto simp: bodies_ok_def)
    moreover have "named (fs'(f \<mapsto> ?s'))" by (rule named_upd [OF ids(2)]) (simp add: name)
    moreover have "idle (fs'(f \<mapsto> ?s')) = idle fs" using f by (auto simp: idle_upd ids(1))
    ultimately have "growth cwd (it, fs) (merge_call E s b it, fs'(f \<mapsto> ?s'))"
      using merged [OF g'] d by (simp add: growth_def same_idle_def)
    then show ?thesis using False b(1) name by (auto simp: func_call_def)
  qed
qed

lemma growth_law_step:
  assumes "n = 0 \<or> (\<forall>b st. growth_ok E cwd (n - 1) st \<longrightarrow> (\<exists>st'. compile b st = Some st' \<and> growth cwd st st'))"
  shows "walk_law E (func_call E compile) (growth_ok E cwd n) (growth cwd)"
proof
  fix it fs f s
  assume "growth_ok E cwd n (it, fs)" "fs f = Some s"
  then show "\<exists>st. func_call E compile s (it, fs) = Some st \<and> growth cwd (it, fs) st"
    by (rule growth_func_call) (use assms in blast)
next
  fix a b
  assume "growth_ok E cwd n a" "growth cwd a b"
  then show "growth_ok E cwd n b"
    using grows_cwd grows_ready by (auto simp: growth_ok_def growth_def same_idle_def fuel_ok_def)
next
  fix a b c
  assume "growth cwd a b" "growth cwd b c"
  then show "growth cwd a c" using grows_trans by (auto simp: growth_def same_idle_def)
qed (auto simp: growth_def growth_ok_def same_idle_def grows_call grows_redirect)

lemma growth_law: "walk_law E (compileFuncCall E n) (growth_ok E cwd n) (growth cwd)"
proof (induction n)
  case (Suc n)
  show ?case unfolding compileFuncCall.simps
    by (rule growth_law_step) (use walk_law.walk_obtains [OF Suc.IH] in \<open>metis diff_Suc_1\<close>)
qed (simp add: growth_law_step)

interpretation growth: walk_law E "compileFuncCall E n" "growth_ok E cwd n" "growth cwd" for E n cwd
  by (rule growth_law)

section \<open>The fuel of a script\<close>

lemma decorate_fixed [simp]: "fs_name (decorate s d) = fs_name s" "fs_compiled (decorate s d) = fs_compiled s"
  by (simp_all add: decorate_def Let_def split: option.split prod.split)

lemma foldl_decorate_fixed [simp]:
  "fs_name (foldl decorate s ds) = fs_name s" "fs_compiled (foldl decorate s ds) = fs_compiled s"
  by (induction ds arbitrary: s) simp_all

lemma summarize_fixed [simp]: "fs_name (summarize n ds b) = n" "fs_compiled (summarize n ds b) = None"
  by (simp_all add: summarize_def Let_def)

definition collected :: "nat \<Rightarrow> funcs \<Rightarrow> bool" where
  "collected k fs \<longleftrightarrow> named fs \<and> card (dom fs) \<le> k \<and> (\<forall>f s. fs f = Some s \<longrightarrow> fs_compiled s = None)"

lemma collected_upd: "collected k fs \<Longrightarrow> collected (Suc k) (fs(n \<mapsto> summarize n ds b))"
  by (auto simp: collected_def named_upd card_insert_if named_def insert_absorb)

lemma collected_mono: "collected k fs \<Longrightarrow> k \<le> l \<Longrightarrow> collected l fs"
  by (simp add: collected_def)

lemma collect_declarations:
  "collected k fs \<Longrightarrow> collected (k + declarations c) (collect c fs)"
  "collected k fs \<Longrightarrow> collected (k + declarations_in cs) (collects cs fs)"
proof (induction c fs and cs fs arbitrary: k and k rule: collect_collects.induct)
  case (1 name ds body cs fs)
  have c: "collected (Suc k) (case name of None \<Rightarrow> fs | Some n \<Rightarrow> case body of None \<Rightarrow> fs | Some b \<Rightarrow> fs(n \<mapsto> summarize n ds b))"
    using "1.prems" collected_upd collected_mono [of k fs "Suc k"] by (simp split: option.split)
  then have "collected (Suc k + declarations_in cs) (collects cs (case name of None \<Rightarrow> fs | Some n \<Rightarrow> case body of None \<Rightarrow> fs | Some b \<Rightarrow> fs(n \<mapsto> summarize n ds b)))"
    by (rule "1.IH" [simplified])
  then show ?case by simp
next
  case (6 c cs fs)
  from "6.IH"(2) [OF "6.IH"(1) [OF "6.prems"]] show ?case by (simp add: add.assoc)
qed simp_all

lemma collectFuncs_collected: "collected (declarations root) (collectFuncs root)"
  unfolding collectFuncs_def using collect_declarations(1) [of 0 Map.empty root]
  by (simp add: collected_def named_def)

lemma collected_fuel: "collected k fs \<Longrightarrow> fuel_ok k (it, fs)"
proof -
  assume c: "collected k fs"
  have "card (idle fs) \<le> card (dom fs)"
    by (rule card_mono) (use c in \<open>auto simp: collected_def named_def idle_def\<close>)
  with c show ?thesis by (simp add: collected_def fuel_ok_def)
qed

lemma compileScript_total: "\<exists>it'. compileScript E script it = Some it'"
proof (cases "he_parse E script")
  case (Inr root)
  have "fuel_ok (declarations root) (it, collectFuncs root)" by (rule collected_fuel [OF collectFuncs_collected])
  then obtain st where "walk_with E (compileFuncCall E (declarations root)) root (it, collectFuncs root) = Some st"
    by (rule fuel.walk_obtains)
  then show ?thesis by (simp add: compileScript_def walkCompile_def Inr)
qed (simp add: compileScript_def)

lemma compileScript_grows:
  assumes "ready E it" "compileScript E script it = Some it'" shows "grows it it'"
proof (cases "he_parse E script")
  case (Inr root)
  note c = collectFuncs_collected [of root]
  have "growth_ok E (in_cwd it) (declarations root) (it, collectFuncs root)"
    using collected_fuel [OF c] c assms(1) by (auto simp: growth_ok_def bodies_ok_def collected_def)
  then obtain st where "walk_with E (compileFuncCall E (declarations root)) root (it, collectFuncs root) = Some st"
      and "growth (in_cwd it) (it, collectFuncs root) st"
    by (rule growth.walk_obtains)
  then show ?thesis using assms(2) by (simp add: compileScript_def walkCompile_def growth_def Inr)
qed (use assms(2) in \<open>auto simp: compileScript_def\<close>)

section \<open>Every call has a record\<close>

text \<open>The calls the walk meets: those outside function declarations.\<close>

fun call_sites :: "node \<Rightarrow> shell_word list set" and call_sites_in :: "node list \<Rightarrow> shell_word list set" where
  "call_sites (FuncDecl name decorators body cs) = {}"
| "call_sites (CallExpr args cs) = (if args = [] then {} else {args}) \<union> call_sites_in cs"
| "call_sites (Redirect op w cs) = call_sites_in cs"
| "call_sites (Other cs) = call_sites_in cs"
| "call_sites_in [] = {}"
| "call_sites_in (c # cs) = call_sites c \<union> call_sites_in cs"

definition call_argv :: "shell_word list \<Rightarrow> string list" where
  "call_argv args = map (\<lambda>w. fst (staticWord w)) args"

definition call_static :: "shell_word list \<Rightarrow> bool" where
  "call_static args = list_all (\<lambda>w. snd (staticWord w)) args"

text \<open>What a call leads to: itself, and the calls in the body of the function it names, unless the function
  is decorated; then its declaration bounds the body.\<close>

inductive reaches :: "funcs \<Rightarrow> shell_word list \<Rightarrow> shell_word list \<Rightarrow> bool" for D where
  itself: "reaches D a a"
| within: "D (hd (call_argv a)) = Some s \<Longrightarrow> \<not> fs_decorated s \<Longrightarrow> b \<in> call_sites (fs_body s) \<Longrightarrow> reaches D b c \<Longrightarrow> reaches D a c"

text \<open>The names a complete intent may run, and the record of a run.\<close>

definition runnable :: "hr_env \<Rightarrow> bool \<Rightarrow> string \<Rightarrow> bool" where
  "runnable E static name \<longleftrightarrow> CHR ''/'' \<notin> set name \<and> CHR 0x5C \<notin> set name \<and>
     (name = ''cd'' \<and> static
      \<or> name \<in> set (map fst (builtinEffects E)) \<and> (static \<or> pureOrReadOnlyBuiltin E name)
      \<or> (\<exists>en. he_lookup E name = Some en \<and> ae_effects en \<noteq> [] \<and> (name \<in> set (he_tools E) \<or> commandRefiners E name \<noteq> None)))"

definition resolver_of :: "hr_env \<Rightarrow> string \<Rightarrow> string" where
  "resolver_of E name = (if name = ''cd'' \<or> name \<in> set (map fst (builtinEffects E)) then ''shell-builtin'' else ''bashy-atlas'')"

definition recorded :: "hr_env \<Rightarrow> string set \<Rightarrow> command_fact list \<Rightarrow> shell_word list \<Rightarrow> bool" where
  "recorded E fns cs args \<longleftrightarrow> hd (call_argv args) \<in> fns \<or>
     (\<exists>name. commandName (call_argv args) = (name, call_argv args, True) \<and> runnable E (call_static args) name \<and>
       (\<exists>c\<in>set cs. cf_name c = name \<and> cf_argv c = call_argv args \<and> cf_resolver c = resolver_of E name \<and>
          cf_contentDigest c = he_executable E \<and> cf_contentDigest c \<noteq> []))"

definition settled :: "hr_env \<Rightarrow> funcs \<Rightarrow> command_fact list \<Rightarrow> shell_word list \<Rightarrow> bool" where
  "settled E D cs args \<longleftrightarrow> (\<forall>b. reaches D args b \<longrightarrow> recorded E (dom D) cs b)"

lemma recorded_mono: "recorded E fns cs args \<Longrightarrow> set cs \<subseteq> set cs' \<Longrightarrow> recorded E fns cs' args"
  unfolding recorded_def by blast

lemma settled_mono: "settled E D cs args \<Longrightarrow> set cs \<subseteq> set cs' \<Longrightarrow> settled E D cs' args"
  unfolding settled_def using recorded_mono by blast

lemma settled_command:
  assumes "recorded E (dom D) cs args" "hd (call_argv args) \<notin> dom D"
  shows "settled E D cs args"
  unfolding settled_def
proof (intro allI impI)
  fix b
  assume "reaches D args b"
  then show "recorded E (dom D) cs b" by cases (use assms in auto)
qed

lemma settled_call:
  assumes "D (hd (call_argv args)) = Some s" "fs_decorated s \<or> (\<forall>b\<in>call_sites (fs_body s). settled E D cs b)"
  shows "settled E D cs args"
  unfolding settled_def
proof (intro allI impI)
  fix b
  assume "reaches D args b"
  then show "recorded E (dom D) cs b" by cases (use assms in \<open>auto simp: recorded_def settled_def\<close>)
qed

lemma dynamic_incomplete [simp]: "\<not> in_complete (dynamic_call argv it)"
  by (simp add: dynamic_call_def)

lemma record_command_complete:
  "in_complete (record_command E c it) \<Longrightarrow> cf_contentDigest c \<noteq> [] \<and> c \<in> set (in_commands (record_command E c it))"
  by (auto simp: record_command_def add_command_def split: if_splits)

lemma grows_commands: "grows a b \<Longrightarrow> set (in_commands a) \<subseteq> set (in_commands b)"
  by (auto simp: grows_def)

lemma call_after_record:
  assumes "grows (record_command E c it) b" "in_complete b"
  shows "cf_contentDigest c \<noteq> [] \<and> c \<in> set (in_commands b)"
  using grows_complete [OF assms] grows_commands [OF assms(1)] record_command_complete by blast

lemma builtin_call_grows:
  "atlas_ok E \<Longrightarrow> static \<or> pureOrReadOnlyBuiltin E name \<Longrightarrow>
   grows (record_command E (builtin_fact E name argv effects) it) (builtin_call E name argv effects static it)"
  unfolding builtin_call_def Let_def
  by (rule grows_if grows_maximum fact_tiers(1) grows_effect | (simp add: labelled_def ScopeWorkspace_def; fail) | blast)+

lemma compileCall_recorded:
  assumes r: "ready E it" and args: "args \<noteq> []"
    and c: "in_complete (compileCall E (call_argv args) (call_static args) it)"
  shows "recorded E fns (in_commands (compileCall E (call_argv args) (call_static args) it)) args"
proof -
  let ?argv = "call_argv args" and ?st = "call_static args"
  let ?it = "compileCall E ?argv ?st it"
  have ne: "?argv \<noteq> []" using args by (simp add: call_argv_def)
  obtain name a ok where n: "commandName ?argv = (name, a, ok)" by (cases "commandName ?argv") auto
  have a: "a = ?argv" using n by (auto simp: commandName_def split: if_splits)
  have ok: "ok" and plain: "CHR ''/'' \<notin> set name" "CHR 0x5C \<notin> set name"
    using c ne n by (auto simp: compileCall_def split: if_splits)
  have eq: "?it = (if name = ''cd'' then refineCd E ?argv ?st it
      else case map_of (builtinEffects E) name of
             Some effects \<Rightarrow> builtin_call E name ?argv effects ?st it
           | None \<Rightarrow> (case he_lookup E name of
                None \<Rightarrow> markUnsupported ''command'' name ''command is missing a complete Command Atlas classification'' it
              | Some en \<Rightarrow> if ae_effects en = [] then markUnsupported ''command'' name ''command is missing a complete Command Atlas classification'' it
                          else atlas_call E name ?argv en ?st it))"
    using ne n a ok plain by (simp add: compileCall_def)
  have rec: "recorded E fns (in_commands ?it) args"
    if "runnable E ?st name" "grows (record_command E f it) ?it" "cf_name f = name" "cf_argv f = ?argv"
      "cf_resolver f = resolver_of E name" "cf_contentDigest f = he_executable E" for f
    using that call_after_record [OF that(2) c] n a ok by (auto simp: recorded_def)
  show ?thesis
  proof (cases "name = ''cd''")
    case True
    then have cd: "?it = refineCd E ?argv ?st it" using eq by simp
    have st: "?st" using c unfolding cd by (auto simp: refineCd_def Let_def split: if_splits)
    have "grows (record_command E (builtin_fact E ''cd'' ?argv [he_read E]) it) ?it"
    proof -
      let ?r = "record_command E (builtin_fact E ''cd'' ?argv [he_read E]) it"
      have r1: "ready E ?r" using r grows_ready [OF grows_record] by simp
      have "grows ?r ((add_effect \<lparr>ef_kind = k, ef_scope = scopeFor E ?r (resolveOperand E ?r p), ef_target = resolveOperand E ?r p,
          ef_source = s, ef_certainty = t\<rparr> ?r)\<lparr>in_cursor := d\<rparr>)" for k p s t d
        by (rule grows_trans [OF grows_effect grows_cursor])
           (rule scopeFor_labelled [OF r1], simp_all add: resolveOperand_def)
      with c st show ?thesis unfolding cd by (simp add: refineCd_def Let_def split: if_split_asm)
    qed
    moreover have "runnable E ?st name" using True st plain by (simp add: runnable_def)
    ultimately show ?thesis
      by (intro rec [of "builtin_fact E ''cd'' ?argv [he_read E]"]) (simp_all add: builtin_fact_def resolver_of_def True)
  next
    case ncd: False
    show ?thesis
    proof (cases "map_of (builtinEffects E) name")
      case (Some effects)
      then have b: "?it = builtin_call E name ?argv effects ?st it" using eq ncd by simp
      have p: "?st \<or> pureOrReadOnlyBuiltin E name"
        using c unfolding b by (auto simp: builtin_call_def split: if_splits)
      have "name \<in> fst ` set (builtinEffects E)" using Some by (force dest: map_of_SomeD)
      then have "runnable E ?st name" "resolver_of E name = ''shell-builtin''" using p plain by (simp_all add: runnable_def resolver_of_def)
      then show ?thesis
        using builtin_call_grows [OF _ p, of "?argv" effects it] r b
        by (intro rec [of "builtin_fact E name ?argv effects"]) (simp_all add: ready_def builtin_fact_def)
    next
      case None
      then obtain en where en: "he_lookup E name = Some en" "ae_effects en \<noteq> []" and it: "?it = atlas_call E name ?argv en ?st it"
        using eq ncd c by (auto split: option.splits if_splits)
      have "name \<in> set (he_tools E) \<or> commandRefiners E name \<noteq> None"
        using c unfolding it by (auto simp: atlas_call_def Let_def split: if_splits)
      then have "runnable E ?st name" using en plain by (auto simp: runnable_def)
      moreover have "resolver_of E name = ''bashy-atlas''" using None ncd by (simp add: resolver_of_def map_of_eq_None_iff)
      ultimately show ?thesis
        using atlas_call_grows [OF r en(1), of ?argv ?st] it
        by (intro rec [of "atlas_fact E name ?argv en"]) (simp_all add: atlas_fact_def)
    qed
  qed
qed

text \<open>A law of the walk under which facts grow, functions stay as declared, and a call of one settles it, settles every call site.\<close>

locale growing_walk = walk_law +
  fixes D :: funcs
  assumes R_grows: "R a b \<Longrightarrow> grows (fst a) (fst b)"
    and P_ready: "P st \<Longrightarrow> ready E (fst st)" and P_dom: "P st \<Longrightarrow> dom (snd st) = dom D"
    and calls_settle: "P (it, fs) \<Longrightarrow> fs f = Some s \<Longrightarrow> call s (it, fs) = Some st \<Longrightarrow> in_complete (fst st) \<Longrightarrow>
      hd (call_argv args) = f \<Longrightarrow> settled E D (in_commands (fst st)) args"
begin

lemma complete_back: "R a b \<Longrightarrow> in_complete (fst b) \<Longrightarrow> in_complete (fst a)"
  using R_grows grows_complete by blast

lemma settled_on: "R a b \<Longrightarrow> settled E D (in_commands (fst a)) args \<Longrightarrow> settled E D (in_commands (fst b)) args"
  using R_grows grows_commands settled_mono by blast

definition covers :: "(intent \<times> funcs \<Rightarrow> (intent \<times> funcs) option) \<Rightarrow> shell_word list set \<Rightarrow> bool" where
  "covers f sites \<longleftrightarrow> (\<forall>st st'. P st \<longrightarrow> f st = Some st' \<longrightarrow> in_complete (fst st') \<longrightarrow>
     (\<forall>args\<in>sites. settled E D (in_commands (fst st')) args))"

lemma coversD:
  "covers f sites \<Longrightarrow> P st \<Longrightarrow> f st = Some st' \<Longrightarrow> in_complete (fst st') \<Longrightarrow> args \<in> sites \<Longrightarrow>
   settled E D (in_commands (fst st')) args"
  unfolding covers_def by blast

lemma covers_walks:
  "(\<And>c. c \<in> set cs \<Longrightarrow> covers (walk_with E call c) (call_sites c)) \<Longrightarrow> covers (walks_with E call cs) (call_sites_in cs)"
proof (induction cs)
  case (Cons c cs)
  have cc: "covers (walk_with E call c) (call_sites c)" and ccs: "covers (walks_with E call cs) (call_sites_in cs)"
    using Cons by simp_all
  show ?case unfolding covers_def
  proof (intro allI impI ballI)
    fix st st' args
    assume p: "P st" and w: "walks_with E call (c # cs) st = Some st'" and fin: "in_complete (fst st')"
      and args: "args \<in> call_sites_in (c # cs)"
    obtain a where a: "walk_with E call c st = Some a" "R st a" "P a" using walk_obtains [OF p] by blast
    have b: "walks_with E call cs a = Some st'" using w a(1) by simp
    have rb: "R a st'" using obeysE [OF walks [OF walk] a(3), of cs] b by (metis option.inject)
    show "settled E D (in_commands (fst st')) args"
      using coversD [OF cc p a(1) complete_back [OF rb fin]] settled_on [OF rb] coversD [OF ccs a(3) b fin] args by auto
  qed
qed (simp add: covers_def)

lemma covers_after:
  assumes cs: "covers (walks_with E call cs) (call_sites_in cs)" and p: "P st" and a: "R st a"
    and b: "walks_with E call cs a = Some st'" "in_complete (fst st')"
  shows "R a st'" "\<And>args. args \<in> call_sites_in cs \<Longrightarrow> settled E D (in_commands (fst st')) args"
proof -
  have pa: "P a" by (rule keeps [OF p a])
  show "R a st'" using obeysE [OF walks [OF walk] pa, of cs] b(1) by (metis option.inject)
  show "settled E D (in_commands (fst st')) args" if "args \<in> call_sites_in cs" for args
    by (rule coversD [OF cs pa b that])
qed

lemma covers_walk: "covers (walk_with E call c) (call_sites c)"
proof (induction c)
  case (CallExpr args cs)
  then have cs: "covers (walks_with E call cs) (call_sites_in cs)" by (rule covers_walks)
  show ?case unfolding covers_def
  proof (intro allI impI ballI)
    fix st st' site
    assume p: "P st" and w: "walk_with E call (CallExpr args cs) st = Some st'" and fin: "in_complete (fst st')"
      and site: "site \<in> call_sites (CallExpr args cs)"
    obtain it fs where st: "st = (it, fs)" by (cases st)
    show "settled E D (in_commands (fst st')) site"
    proof (cases "args = []")
      case True
      then show ?thesis using w site by (intro coversD [OF cs p _ fin]) (simp_all add: st)
    next
      case args: False
      have argv: "hd (call_argv args) = fst (staticWord (hd args))" using args by (simp add: call_argv_def hd_map)
      show ?thesis
      proof (cases "fs (hd (call_argv args))")
        case (Some s)
        from calls [OF p [unfolded st] Some] obtain a where a: "call s (it, fs) = Some a" "R st a" using st by blast
        have w': "walks_with E call cs a = Some st'" using w st args Some a(1) by (simp add: call_argv_def Let_def)
        note rest = covers_after [OF cs p a(2) w' fin]
        have "settled E D (in_commands (fst a)) args"
          by (rule calls_settle [OF p [unfolded st] Some a(1) complete_back [OF rest(1) fin] refl])
        from settled_on [OF rest(1) this] rest(2) site args show ?thesis by auto
      next
        case None
        let ?it = "compileCall E (call_argv args) (call_static args) it"
        have b: "walks_with E call cs (?it, fs) = Some st'"
          using w st args None by (simp add: call_argv_def call_static_def Let_def)
        have a: "R st (?it, fs)" using commands p st by blast
        note rest = covers_after [OF cs p a b fin]
        have "in_complete ?it" using complete_back [OF rest(1) fin] by simp
        then have "recorded E (dom D) (in_commands ?it) args"
          by (rule compileCall_recorded [rotated 2]) (use P_ready [OF p] st args in simp_all)
        moreover have "hd (call_argv args) \<notin> dom D" using None P_dom [OF p] st by auto
        ultimately have "settled E D (in_commands ?it) args" by (rule settled_command)
        then have "settled E D (in_commands (fst st')) args"
          using settled_on [OF rest(1)] by simp
        with rest(2) site args st show ?thesis by auto
      qed
    qed
  qed
next
  case (Redirect op w cs)
  then have cs: "covers (walks_with E call cs) (call_sites_in cs)" by (rule covers_walks)
  show ?case unfolding covers_def
  proof (intro allI impI ballI)
    fix st st' site
    assume p: "P st" and w: "walk_with E call (Redirect op w cs) st = Some st'" "in_complete (fst st')" "site \<in> call_sites (Redirect op w cs)"
    have "R st (compileRedirect E op w (fst st), snd st)" using redirects [of "fst st" "snd st"] p by simp
    from covers_after(2) [OF cs p this] w show "settled E D (in_commands (fst st')) site" by (cases st) auto
  qed
next
  case (Other cs)
  then have "covers (walks_with E call cs) (call_sites_in cs)" by (rule covers_walks)
  then show ?case unfolding covers_def by simp
qed (simp add: covers_def)

end

text \<open>The compiled bodies of a walk: as declared, and settled where they are complete.\<close>

definition face :: "func_summary \<Rightarrow> node \<times> bool" where
  "face s = (fs_body s, fs_decorated s)"

definition agrees :: "funcs \<Rightarrow> funcs \<Rightarrow> bool" where
  "agrees D fs \<longleftrightarrow> (\<forall>f. map_option face (fs f) = map_option face (D f))"

definition bodies_settled :: "hr_env \<Rightarrow> funcs \<Rightarrow> funcs \<Rightarrow> bool" where
  "bodies_settled E D fs \<longleftrightarrow> (\<forall>f s body. fs f = Some s \<longrightarrow> fs_compiled s = Some body \<longrightarrow> in_complete body \<longrightarrow>
     (\<forall>args\<in>call_sites (fs_body s). settled E D (in_commands body) args))"

definition settling_ok :: "hr_env \<Rightarrow> string \<Rightarrow> funcs \<Rightarrow> nat \<Rightarrow> intent \<times> funcs \<Rightarrow> bool" where
  "settling_ok E cwd D n st \<longleftrightarrow> growth_ok E cwd n st \<and> agrees D (snd st) \<and> bodies_settled E D (snd st)"

definition settling :: "hr_env \<Rightarrow> string \<Rightarrow> funcs \<Rightarrow> intent \<times> funcs \<Rightarrow> intent \<times> funcs \<Rightarrow> bool" where
  "settling E cwd D st st' \<longleftrightarrow> growth cwd st st' \<and> (agrees D (snd st) \<longrightarrow> agrees D (snd st')) \<and>
     (bodies_settled E D (snd st) \<longrightarrow> bodies_settled E D (snd st'))"

lemma agrees_dom: "agrees D fs \<Longrightarrow> dom fs = dom D"
proof -
  assume a: "agrees D fs"
  have "fs f = None \<longleftrightarrow> D f = None" for f using a [unfolded agrees_def, rule_format, of f] by (cases "fs f"; cases "D f") simp_all
  then show ?thesis by (simp add: dom_def)
qed

lemma agrees_at:
  assumes "agrees D fs" "fs f = Some s"
  obtains d where "D f = Some d" "fs_body d = fs_body s" "fs_decorated d = fs_decorated s"
  using assms(1) [unfolded agrees_def, rule_format, of f] assms(2) by (cases "D f") (simp_all add: face_def)

lemma agrees_upd: "agrees D fs \<Longrightarrow> D f = Some d \<Longrightarrow> fs_body s = fs_body d \<Longrightarrow> fs_decorated s = fs_decorated d \<Longrightarrow> agrees D (fs(f \<mapsto> s))"
  by (simp add: agrees_def face_def)

lemma merge_commands: "in_commands (merge_call E s body it) = in_commands it @ in_commands body"
proof -
  have k: "in_commands (markUnsupported a b c it) = in_commands it" for a b c it by (simp add: markUnsupported_def)
  have m: "in_commands (foldl (\<lambda>it u. markUnsupported (uf_kind u) (uf_value u) (uf_reason u) it) it us) = in_commands it" for it us
    by (induction us arbitrary: it) (simp_all add: k)
  have a: "in_commands (add_effect e it) = in_commands it" for e it by (simp add: add_effect_def)
  show ?thesis
    by (simp add: merge_call_def Let_def foldl_add_effect k m a split: option.split)
qed

lemma foldl_mark_complete:
  "in_complete (foldl (\<lambda>it u. markUnsupported (uf_kind u) (uf_value u) (uf_reason u) it) it us) \<longleftrightarrow> in_complete it \<and> us = []"
proof (induction us arbitrary: it)
  case (Cons u us)
  have "\<not> in_complete (markUnsupported a b c it)" for a b c by (simp add: markUnsupported_def)
  with Cons.IH show ?case by simp
qed simp

lemma merge_complete:
  assumes "grows (new_intent cwd) body" "in_complete (merge_call E s body it)" "\<not> fs_decorated s"
  shows "in_complete body"
proof (rule ccontr)
  assume n: "\<not> in_complete body"
  then have u: "in_unsupported body \<noteq> []"
    using assms(1) by (cases "in_unsupported body") (auto simp: grows_def new_intent_def)
  have "\<not> in_complete (markUnsupported a b c it)" for a b c it by (simp add: markUnsupported_def)
  then show False using assms(2,3) n u by (simp add: merge_call_def Let_def foldl_mark_complete split: if_splits)
qed

text \<open>A call settles its own arguments when the walk of bodies settles theirs.\<close>

lemma func_call_settles:
  assumes ok: "settling_ok E cwd D n (it, fs)" and s: "fs f = Some s"
    and grown: "n = 0 \<or> (\<forall>b st. growth_ok E cwd (n - 1) st \<longrightarrow> (\<exists>st'. compile b st = Some st' \<and> growth cwd st st'))"
    and body: "n = 0 \<or> (\<forall>b st st'. settling_ok E cwd D (n - 1) st \<longrightarrow> compile b st = Some st' \<longrightarrow> settling E cwd D st st' \<and>
      (in_complete (fst st') \<longrightarrow> (\<forall>args\<in>call_sites b. settled E D (in_commands (fst st')) args)))"
  shows "\<exists>st. func_call E compile s (it, fs) = Some st \<and> settling E cwd D (it, fs) st \<and>
    (in_complete (fst st) \<longrightarrow> (\<forall>args. hd (call_argv args) = f \<longrightarrow> settled E D (in_commands (fst st)) args))"
proof -
  have g: "growth_ok E cwd n (it, fs)" and ag: "agrees D fs" and bs: "bodies_settled E D fs" using ok by (simp_all add: settling_ok_def)
  have name: "fs_name s = f" and bo: "bodies_ok cwd fs" and cwd: "in_cwd it = cwd" using g s by (auto simp: growth_ok_def fuel_ok_def named_def)
  obtain d where d: "D f = Some d" "fs_body d = fs_body s" "fs_decorated d = fs_decorated s" using agrees_at [OF ag s] .
  obtain st where st: "func_call E compile s (it, fs) = Some st" "growth cwd (it, fs) st"
    using growth_func_call [OF g s grown] by blast
  have merged: "settled E D (in_commands (merge_call E s b it)) args"
    if "hd (call_argv args) = f" "in_complete (merge_call E s b it)" "grows (new_intent cwd) b"
      "in_complete b \<longrightarrow> (\<forall>args\<in>call_sites (fs_body s). settled E D (in_commands b) args)" for args b
  proof (rule settled_call)
    show "D (hd (call_argv args)) = Some d" using that(1) d(1) by simp
    show "fs_decorated d \<or> (\<forall>a\<in>call_sites (fs_body d). settled E D (in_commands (merge_call E s b it)) a)"
      using merge_complete [OF that(3,2)] that(4) settled_mono d(2,3) by (fastforce simp: merge_commands)
  qed
  show ?thesis
  proof (cases "fs_compiling s")
    case True
    then have "st = (markUnsupported ''recursion'' (fs_name s) ''recursive function calls cannot be bounded'' it, fs)"
      using st(1) by (simp add: func_call_def)
    then show ?thesis using st by (simp add: settling_def markUnsupported_def)
  next
    case nc: False
    show ?thesis
    proof (cases "fs_compiled s")
      case (Some b)
      then have "st = (merge_call E s b it, fs)" using st(1) nc by (simp add: func_call_def)
      moreover have "grows (new_intent cwd) b" "in_complete b \<longrightarrow> (\<forall>args\<in>call_sites (fs_body s). settled E D (in_commands b) args)"
        using bo bs s Some unfolding bodies_ok_def bodies_settled_def by blast+
      ultimately show ?thesis using st merged by (auto simp: settling_def)
    next
      case None
      let ?fs = "fs(f \<mapsto> s\<lparr>fs_compiling := True\<rparr>)"
      have n: "n \<noteq> 0" "growth_ok E cwd (n - 1) (func_body it, ?fs)" using body_growth_ok [OF g s nc None] by simp_all
      have "agrees D ?fs" using agrees_upd [OF ag d(1)] d by simp
      moreover have "bodies_settled E D ?fs" using bs None by (auto simp: bodies_settled_def)
      ultimately have sok: "settling_ok E cwd D (n - 1) (func_body it, ?fs)" using n(2) by (simp add: settling_ok_def)
      obtain b fs' where b: "compile (fs_body s) (func_body it, ?fs) = Some (b, fs')" "growth cwd (func_body it, ?fs) (b, fs')"
        using grown n by force
      have w: "settling E cwd D (func_body it, ?fs) (b, fs')"
        "in_complete b \<longrightarrow> (\<forall>args\<in>call_sites (fs_body s). settled E D (in_commands b) args)"
        using body n(1) sok b(1) by fastforce+
      have "agrees D fs'" "bodies_settled E D fs'" using w(1) sok by (simp_all add: settling_def settling_ok_def)
      let ?s = "s\<lparr>fs_compiling := False, fs_compiled := Some b\<rparr>"
      have "agrees D (fs'(f \<mapsto> ?s))" using agrees_upd [OF \<open>agrees D fs'\<close> d(1)] d by simp
      moreover have "bodies_settled E D (fs'(f \<mapsto> ?s))" using \<open>bodies_settled E D fs'\<close> w(2) by (auto simp: bodies_settled_def)
      moreover have "st = (merge_call E s b it, fs'(f \<mapsto> ?s))" using st(1) nc None b(1) name by (simp add: func_call_def)
      moreover have "grows (new_intent cwd) b"
        using b(2) cwd by (auto simp: growth_def func_body_def intro: grows_trans [rotated])
      ultimately show ?thesis using st merged [OF _ _ _ w(2)] by (auto simp: settling_def)
    qed
  qed
qed


lemma settling_law_step:
  assumes grown: "n = 0 \<or> (\<forall>b st. growth_ok E cwd (n - 1) st \<longrightarrow> (\<exists>st'. compile b st = Some st' \<and> growth cwd st st'))"
    and body: "n = 0 \<or> (\<forall>b st st'. settling_ok E cwd D (n - 1) st \<longrightarrow> compile b st = Some st' \<longrightarrow> settling E cwd D st st' \<and>
      (in_complete (fst st') \<longrightarrow> (\<forall>args\<in>call_sites b. settled E D (in_commands (fst st')) args)))"
  shows "growing_walk E (func_call E compile) (settling_ok E cwd D n) (settling E cwd D) D"
proof -
  note g = growth_law_step [OF grown]
  note keeps = walk_law.keeps [OF g] and laws = walk_law.transitive [OF g] walk_law.reflexive [OF g] walk_law.commands [OF g] walk_law.redirects [OF g]
  show ?thesis
  proof
    fix it fs f s
    assume a: "settling_ok E cwd D n (it, fs)" "fs f = Some s"
    note c = func_call_settles [OF a grown body]
    then show "\<exists>st. func_call E compile s (it, fs) = Some st \<and> settling E cwd D (it, fs) st" by blast
    fix st args
    assume "func_call E compile s (it, fs) = Some st" "in_complete (fst st)" "hd (call_argv args) = f"
    with c show "settled E D (in_commands (fst st)) args" by auto
  next
    fix a b
    assume "settling_ok E cwd D n a" "settling E cwd D a b"
    then show "settling_ok E cwd D n b" using keeps [of a b] by (simp add: settling_ok_def settling_def)
  next
    fix a b c
    assume "settling E cwd D a b" "settling E cwd D b c"
    then show "settling E cwd D a c" using laws(1) [of a b c] by (simp add: settling_def)
  qed (use laws agrees_dom in \<open>auto simp: settling_ok_def settling_def growth_def growth_ok_def same_idle_def\<close>)
qed

lemma settling_law: "growing_walk E (compileFuncCall E n) (settling_ok E cwd D n) (settling E cwd D) D"
proof (induction n)
  case (Suc n)
  have grown: "\<exists>st'. walk_with E (compileFuncCall E n) b st = Some st' \<and> growth cwd st st'" if "growth_ok E cwd n st" for b st
    using growth.walk_obtains [OF that] by blast
  have body: "settling E cwd D st st' \<and> (in_complete (fst st') \<longrightarrow> (\<forall>args\<in>call_sites b. settled E D (in_commands (fst st')) args))"
    if st: "settling_ok E cwd D n st" and w: "walk_with E (compileFuncCall E n) b st = Some st'" for b st st'
  proof -
    note l = growing_walk.axioms(1) [OF Suc.IH]
    obtain st'' where "walk_with E (compileFuncCall E n) b st = Some st''" "settling E cwd D st st''"
      by (rule walk_law.walk_obtains [OF l st])
    with w have "settling E cwd D st st'" by simp
    moreover have "settled E D (in_commands (fst st')) args" if "in_complete (fst st')" "args \<in> call_sites b" for args
      using growing_walk.coversD [OF Suc.IH growing_walk.covers_walk [OF Suc.IH]] st w that by blast
    ultimately show ?thesis by blast
  qed
  show ?case unfolding compileFuncCall.simps
    by (rule settling_law_step) (use grown body in simp_all)
qed (simp add: settling_law_step)

interpretation settling: growing_walk E "compileFuncCall E n" "settling_ok E cwd D n" "settling E cwd D" D for E n cwd D
  by (rule settling_law)

lemma compileScript_covers:
  assumes r: "ready E it" and parse: "he_parse E script = Inr root" and it': "compileScript E script it = Some it'" "in_complete it'"
    and site: "args \<in> call_sites root" "reaches (collectFuncs root) args site"
  shows "recorded E (dom (collectFuncs root)) (in_commands it') site"
proof -
  note c = collectFuncs_collected [of root]
  have "growth_ok E (in_cwd it) (declarations root) (it, collectFuncs root)"
    using collected_fuel [OF c] c r by (auto simp: growth_ok_def bodies_ok_def collected_def)
  then have p: "settling_ok E (in_cwd it) (collectFuncs root) (declarations root) (it, collectFuncs root)"
    using c by (auto simp: settling_ok_def agrees_def bodies_settled_def collected_def)
  obtain fs where w: "walk_with E (compileFuncCall E (declarations root)) root (it, collectFuncs root) = Some (it', fs)"
    using it'(1) parse by (auto simp: compileScript_def walkCompile_def)
  have "settled E (collectFuncs root) (in_commands it') args"
    using settling.coversD [OF settling.covers_walk p w _ site(1)] it'(2) by simp
  with site(2) show ?thesis by (simp add: settled_def)
qed

end
