(* ===== verification/Hr_Preflight_Properties.thy ===== *)
theory Hr_Preflight_Properties
  imports Hr_Walk_Laws
begin

text \<open>What a preflight promises: theorems about \<open>compileIntent\<close>, with witnesses in a small world.\<close>

section \<open>Environment and order\<close>

definition environment_ok :: "string \<Rightarrow> env_variable list \<Rightarrow> bool" where
  "environment_ok key vs \<longleftrightarrow> (\<forall>v\<in>set vs. environmentName (va_name v) \<and> (va_secret v \<longrightarrow> key \<noteq> [])) \<and> distinct (map va_name vs)"

lemma compile_variable_Inr:
  "compile_variable key i (seen, out) v = Inr st \<longleftrightarrow>
     environmentName (va_name v) \<and> va_name v \<notin> set seen \<and> (va_secret v \<longrightarrow> key \<noteq> []) \<and>
     st = (va_name v # seen, out @ [environment_fact_of key v])"
proof (cases "environmentName (va_name v) \<and> va_name v \<notin> set seen \<and> (va_secret v \<longrightarrow> key \<noteq> [])")
  case True
  then have "first_error [refuse (\<not> environmentName (va_name v)) (InvalidName (va_name v)),
      refuse (va_name v \<in> set seen) (DuplicateName (va_name v)), refuse (va_secret v \<and> key = []) UnkeyedSecret] = None"
    by (auto simp: accept_simps)
  with True show ?thesis by (auto simp: compile_variable_def)
next
  case False
  then have "first_error [refuse (\<not> environmentName (va_name v)) (InvalidName (va_name v)),
      refuse (va_name v \<in> set seen) (DuplicateName (va_name v)), refuse (va_secret v \<and> key = []) UnkeyedSecret] \<noteq> None"
    unfolding accept_simps by auto
  with False show ?thesis by (auto simp: compile_variable_def)
qed

lemma scan_variables:
  "(\<exists>seen'. scan (compile_variable key) i (seen, out) vs = Inr (seen', out')) \<longleftrightarrow>
     environment_ok key vs \<and> set seen \<inter> va_name ` set vs = {} \<and> out' = out @ map (environment_fact_of key) vs"
proof (induction vs arbitrary: i seen out)
  case (Cons v vs)
  show ?case
  proof (cases "compile_variable key i (seen, out) v")
    case (Inl e)
    then have "\<not> (environmentName (va_name v) \<and> va_name v \<notin> set seen \<and> (va_secret v \<longrightarrow> key \<noteq> []))"
      using compile_variable_Inr [of key i seen out v] by auto
    with Inl show ?thesis by (auto simp: environment_ok_def)
  next
    case (Inr st)
    with compile_variable_Inr [of key i seen out v st] Cons.IH show ?thesis by (auto simp: environment_ok_def)
  qed
qed (auto simp: environment_ok_def)

lemma compileEnvironment_Inr:
  "compileEnvironment vs key = Inr fs \<longleftrightarrow> environment_ok key vs \<and> fs = sort_key nf_name (map (environment_fact_of key) vs)"
proof (cases "scan (compile_variable key) 0 ([], []) vs")
  case (Inl e)
  then have "\<not> environment_ok key vs" using scan_variables [of key 0 "[]" "[]" vs "map (environment_fact_of key) vs"] by simp
  with Inl show ?thesis by (simp add: compileEnvironment_def)
next
  case (Inr st)
  then have "environment_ok key vs \<and> snd st = map (environment_fact_of key) vs"
    using scan_variables [of key 0 "[]" "[]" vs "snd st"] by (metis append_Nil empty_set inf_bot_left prod.collapse)
  with Inr show ?thesis by (cases st) (auto simp: compileEnvironment_def)
qed

lemma compileEnvironment_order:
  assumes "mset vs = mset vs'" "compileEnvironment vs key = Inr fs"
  shows "compileEnvironment vs' key = Inr fs"
proof -
  have e: "environment_ok key vs" "fs = sort_key nf_name (map (environment_fact_of key) vs)"
    using assms(2) by (simp_all add: compileEnvironment_Inr)
  have s: "set vs' = set vs" using assms(1) by (metis set_mset_mset)
  have d: "distinct (map va_name vs')" using e(1) assms(1) by (metis environment_ok_def mset_eq_imp_distinct_iff mset_map)
  have n: "map nf_name (map (environment_fact_of key) xs) = map va_name xs" for xs
    by (induction xs) (simp_all add: environment_fact_of_def)
  have "sort_key nf_name (map (environment_fact_of key) vs) = sort_key nf_name (map (environment_fact_of key) vs')"
  proof (rule sort_key_inj_key_eq)
    have "distinct (map nf_name (map (environment_fact_of key) vs))" using e(1) unfolding n environment_ok_def by simp
    then show "inj_on nf_name (set (map (environment_fact_of key) vs))" unfolding distinct_map by (rule conjunct2)
  qed (simp_all add: assms(1))
  with e s d show ?thesis by (simp add: compileEnvironment_Inr environment_ok_def)
qed

text \<open>Effects are kept by key; without NUL bytes in its fields an effect is its key.\<close>

definition no_nul :: "effect \<Rightarrow> bool" where
  "no_nul e \<longleftrightarrow> nul \<notin> set (ef_kind e) \<and> nul \<notin> set (ef_scope e) \<and> nul \<notin> set (ef_target e) \<and> nul \<notin> set (ef_source e)"

lemma split_nul: "a @ nul # b = c @ nul # d \<Longrightarrow> nul \<notin> set a \<Longrightarrow> nul \<notin> set c \<Longrightarrow> a = c \<and> b = d"
proof (induction a arbitrary: c)
  case Nil
  then show ?case by (cases c) auto
next
  case (Cons x a)
  then show ?case by (cases c) auto
qed

lemma effect_key_inj: "(\<forall>e\<in>S. no_nul e) \<Longrightarrow> inj_on effect_key S"
proof (rule inj_onI)
  fix x y
  assume n: "\<forall>e\<in>S. no_nul e" "x \<in> S" "y \<in> S" and k: "effect_key x = effect_key y"
  have nx: "no_nul x" and ny: "no_nul y" using n by blast+
  have k1: "ef_kind x = ef_kind y"
    "ef_scope x @ nul # ef_target x @ nul # ef_source x @ nul # ef_certainty x = ef_scope y @ nul # ef_target y @ nul # ef_source y @ nul # ef_certainty y"
    using split_nul [of "ef_kind x" _ "ef_kind y"] k nx ny by (simp_all add: effect_key_def no_nul_def)
  have k2: "ef_scope x = ef_scope y"
    "ef_target x @ nul # ef_source x @ nul # ef_certainty x = ef_target y @ nul # ef_source y @ nul # ef_certainty y"
    using split_nul [OF k1(2)] nx ny by (simp_all add: no_nul_def)
  have k3: "ef_target x = ef_target y" "ef_source x @ nul # ef_certainty x = ef_source y @ nul # ef_certainty y"
    using split_nul [OF k2(2)] nx ny by (simp_all add: no_nul_def)
  show "x = y" using k1(1) k2(1) k3 split_nul [OF k3(2)] nx ny by (simp add: no_nul_def)
qed

lemma effect_set_value:
  "inj_on effect_key (set es) \<Longrightarrow> e \<in> set es \<Longrightarrow> effect_set es (effect_key e) = Some e"
proof (induction es rule: rev_induct)
  case (snoc x es)
  show ?case
  proof (cases "effect_key e = effect_key x")
    case True
    then have "e = x" using inj_onD [OF snoc.prems(1)] snoc.prems(2) by simp
    then show ?thesis by (simp add: effect_set_def)
  next
    case False
    then have "e \<in> set es" using snoc.prems(2) by auto
    with False snoc show ?thesis by (simp add: effect_set_def inj_on_def)
  qed
qed simp

definition governed :: "hr_env \<Rightarrow> effect list \<Rightarrow> effect list" where
  "governed E es = (if \<exists>e\<in>set es. ef_kind e \<noteq> he_pure E then filter (\<lambda>e. ef_kind e \<noteq> he_pure E) es else es)"

lemma governed_cong: "set es' = set es \<Longrightarrow> set (governed E es') = set (governed E es)"
  by (auto simp: governed_def)

text \<open>The sorted effects are the distinct governed ones in the order of their keys.\<close>

lemma sorted_effects_keys:
  assumes inj: "inj_on effect_key (set es)"
  shows "map effect_key (sorted_effects E es) = sort (remdups (map effect_key (governed E es)))"
    "set (sorted_effects E es) = set (governed E es)"
proof -
  let ?v = "\<lambda>k. the (effect_set es k)" and ?g = "\<lambda>e. ef_kind e \<noteq> he_pure E"
  have v: "e \<in> set es \<Longrightarrow> ?v (effect_key e) = e" for e using effect_set_value [OF inj] by simp
  let ?keys = "remdups (map effect_key es)"
  have ex: "list_ex (\<lambda>k. ?g (?v k)) ?keys \<longleftrightarrow> (\<exists>e\<in>set es. ?g e)"
    using v by (auto simp: list_ex_iff)
  have kept: "filter (\<lambda>k. ?g (?v k)) ?keys = remdups (map effect_key (filter ?g es))"
  proof -
    have "filter (\<lambda>k. ?g (?v k)) (map effect_key es) = map effect_key (filter ?g es)"
      using v by (simp add: filter_map comp_def cong: filter_cong)
    then show ?thesis by (simp only: remdups_filter [symmetric])
  qed
  let ?kept = "remdups (map effect_key (governed E es))"
  have so: "sorted_effects E es = map ?v (sort ?kept)"
    by (simp add: sorted_effects_def Let_def ex kept governed_def)
  have sub: "set (governed E es) \<subseteq> set es" by (auto simp: governed_def)
  have "k \<in> set ?kept \<Longrightarrow> effect_key (?v k) = k" for k using v sub by auto
  then have "map (effect_key \<circ> ?v) (sort ?kept) = sort ?kept" by (intro map_idI) simp
  then show "map effect_key (sorted_effects E es) = sort ?kept" by (simp add: so)
  show "set (sorted_effects E es) = set (governed E es)" using v sub by (auto simp: so image_iff) (metis subsetD v)+
qed

text \<open>C31. The effects of an intent are canonical: distinct, in the order of their keys, the same for every list with the
  same effects; pure effects are dropped exactly when another kind is present, and nothing else is lost.\<close>

theorem sorted_effects_canonical:
  assumes "\<forall>e\<in>set es. no_nul e"
  shows "set (sorted_effects E es) =
      (if \<exists>e\<in>set es. ef_kind e \<noteq> he_pure E then {e \<in> set es. ef_kind e \<noteq> he_pure E} else set es) \<and>
    sorted (map effect_key (sorted_effects E es)) \<and> distinct (sorted_effects E es) \<and>
    (\<forall>es'. set es' = set es \<longrightarrow> sorted_effects E es' = sorted_effects E es)"
proof (intro conjI allI impI)
  have inj: "inj_on effect_key (set es)" using assms by (rule effect_key_inj)
  note k = sorted_effects_keys [OF inj, of E]
  show "set (sorted_effects E es) = (if \<exists>e\<in>set es. ef_kind e \<noteq> he_pure E then {e \<in> set es. ef_kind e \<noteq> he_pure E} else set es)"
    unfolding k(2) by (auto simp: governed_def)
  show "sorted (map effect_key (sorted_effects E es))" unfolding k(1) by simp
  have "distinct (map effect_key (sorted_effects E es))" unfolding k(1) by simp
  then show "distinct (sorted_effects E es)" by (simp add: distinct_map)
  fix es'
  assume s: "set es' = set es"
  note k' = sorted_effects_keys [of es' E, unfolded s, OF inj]
  have "set (map effect_key (governed E es')) = set (map effect_key (governed E es))"
    using governed_cong [OF s] by simp
  then have "sort (remdups (map effect_key (governed E es'))) = sort (remdups (map effect_key (governed E es)))"
    by (intro sorted_distinct_set_unique) simp_all
  then have "map effect_key (sorted_effects E es') = map effect_key (sorted_effects E es)" unfolding k k' .
  moreover have "set (sorted_effects E es') \<union> set (sorted_effects E es) \<subseteq> set es"
    unfolding k(2) k'(2) using s by (auto simp: governed_def)
  ultimately show "sorted_effects E es' = sorted_effects E es"
    using inj by (metis (no_types, lifting) inj_on_subset map_inj_on)
qed

section \<open>A small world\<close>

text \<open>Every path exists and no link leads anywhere; the atlas knows \<open>cat\<close> and \<open>rm\<close>.\<close>

definition sample_entry :: "string \<Rightarrow> atlas_entry" where
  "sample_entry kind = \<lparr>ae_group = ''file'', ae_tier = ''userland'', ae_stage = ''cross'', ae_shape = ''text'', ae_caps = [], ae_effects = [kind]\<rparr>"

definition sample_env :: "node \<Rightarrow> hr_env" where
  "sample_env root = \<lparr>he_pure = ''pure'', he_read = ''read'', he_write = ''write'', he_destroy = ''destroy'', he_net = ''net'', he_cred = ''cred'',
     he_userland = ''userland'', he_cross = ''cross'', he_result = ''result'',
     he_lookup = [''cat'' \<mapsto> sample_entry ''read'', ''sed'' \<mapsto> sample_entry ''write'', ''find'' \<mapsto> sample_entry ''read'', ''git'' \<mapsto> sample_entry ''write'', ''rm'' \<mapsto> sample_entry ''destroy''],
     he_tools = [''cat'', ''sed'', ''find'', ''git'', ''rm''], he_parse = (\<lambda>_. Inr root), he_getwd = Some ''/w'', he_symlinks = Some, he_isdir = (\<lambda>_. True),
     he_executable = ''sha256:0'', he_agent = ''agent'', he_user = ''user'', he_repo = ''repo'', he_store = (\<lambda>_ _. None),
     he_marshal = (\<lambda>_. Some []), he_marshal_commands = (\<lambda>_. Some [])\<rparr>"

lemmas sample_simps = sample_env_def sample_entry_def

lemma sample_atlas_ok: "atlas_ok (sample_env root)"
  by (simp add: sample_simps atlas_ok_def ScopeWorkspace_def)

definition sample_effect :: "string \<Rightarrow> string \<Rightarrow> effect" where
  "sample_effect kind target = \<lparr>ef_kind = kind, ef_scope = ''workspace'', ef_target = target, ef_source = ''command:cat'', ef_certainty = ''exact''\<rparr>"

theorem sorted_effects_canonical_witness:
  "sorted_effects (sample_env (Other [])) [sample_effect ''read'' ''/w/b'', sample_effect ''pure'' [], sample_effect ''read'' ''/w/a''] =
   sorted_effects (sample_env (Other [])) [sample_effect ''read'' ''/w/a'', sample_effect ''read'' ''/w/b'', sample_effect ''pure'' []]"
proof -
  have n: "\<forall>e\<in>set [sample_effect ''read'' ''/w/a'', sample_effect ''read'' ''/w/b'', sample_effect ''pure'' []]. no_nul e"
    by (simp add: sample_effect_def no_nul_def nul_def)
  have s: "set [x, y, z] = set [z, x, y]" for x y z :: effect by auto
  show ?thesis using sorted_effects_canonical [OF n] s by blast
qed

section \<open>What a compiled intent says\<close>

lemma resolve_cwd_clean: "resolve_cwd E cwd = Inr c \<Longrightarrow> path_clean c = c"
  by (auto simp: resolve_cwd_def split: option.splits if_splits)

lemma initial_grows: "atlas_ok E \<Longrightarrow> grows (new_intent cwd) (initial_intent E cwd environment lim pl)"
  by (auto simp: grows_def initial_intent_def new_intent_def add_effect_def Let_def list_all_iff labelled_def secret_effect_def
      stdin_effect_def atlas_ok_def ScopeWorkspace_def)

lemma compile_command_grows:
  assumes "ready E it" "compile_command E cmd it = Some it'" shows "grows it it'"
proof (cases "cm_script cmd = []")
  case True
  let ?it = "it\<lparr>in_argv := cm_argv cmd\<rparr>"
  have "grows it ?it" by (simp add: grows_def)
  moreover have "grows ?it (compileCall E (cm_argv cmd) True ?it)" by (rule grows_call) (use assms(1) in \<open>simp add: ready_def\<close>)
  ultimately show ?thesis using assms(2) True grows_trans by (auto simp: compile_command_def)
next
  case False
  let ?it = "it\<lparr>in_scriptDigest := digestBytes (cm_script cmd)\<rparr>"
  have "grows it ?it" by (simp add: grows_def)
  moreover have "grows ?it it'"
    by (rule compileScript_grows [of E _ "cm_script cmd"]) (use assms False in \<open>simp_all add: ready_def compile_command_def\<close>)
  ultimately show ?thesis by (rule grows_trans)
qed

lemma compile_command_total: "compile_command E cmd it \<noteq> None"
  using compileScript_total [of E "cm_script cmd" "it\<lparr>in_scriptDigest := digestBytes (cm_script cmd)\<rparr>"]
  by (auto simp: compile_command_def)

lemma sorted_effects_sub: "set (sorted_effects E es) \<subseteq> set es"
proof -
  have v: "k \<in> set (map effect_key es) \<Longrightarrow> the (effect_set es k) \<in> set es" for k
  proof (induction es rule: rev_induct)
    case (snoc x es)
    then show ?case by (cases "k = effect_key x") (auto simp: effect_set_def)
  qed simp
  then show ?thesis by (auto simp: sorted_effects_def Let_def split: if_splits)
qed

lemma sort_key_Nil: "sort_key f xs = [] \<longleftrightarrow> xs = []"
  by (metis set_empty set_sort)

text \<open>The stages of a compilation that ends.\<close>

lemma compileIntent_Inr:
  "compileIntent E schema cmd lim pl key = Inr it \<longleftrightarrow>
     (\<exists>cwd environment it0. request_check schema cmd lim = None \<and> resolve_cwd E (cm_cwd cmd) = Inr cwd \<and>
        compileEnvironment (cm_environment cmd) key = Inr environment \<and>
        compile_command E cmd (initial_intent E cwd environment lim pl) = Some it0 \<and>
        seal_intent E (dedupeAndSortIntent E it0) = Inr it)"
  by (auto simp: compileIntent_def split: option.splits sum.splits)

lemma seal_intent_Inr:
  "seal_intent E it = Inr it' \<longleftrightarrow> (\<exists>a d. he_marshal_commands E (in_commands it) = Some a \<and>
     he_marshal E (it\<lparr>in_atlasDigest := digestBytes a, in_digest := []\<rparr>) = Some d \<and>
     it' = it\<lparr>in_atlasDigest := digestBytes a, in_digest := digestBytes d\<rparr>)"
  by (auto simp: seal_intent_def digestJSON_def Let_def split: option.splits)

text \<open>C6. Fail closed: a compiled intent is complete exactly when nothing was marked unsupported, an effect is labelled
  \<open>workspace\<close> only for a target inside the working directory (the stores of \<open>kb\<close> apart), the working directory is
  clean, and the digest is that of the marshalled intent without its digest.\<close>

theorem compileIntent_fail_closed:
  assumes atlas: "atlas_ok E" and it: "compileIntent E schema cmd lim pl key = Inr it"
  shows "(in_complete it \<longleftrightarrow> in_unsupported it = []) \<and>
    (\<forall>e\<in>set (in_effects it). ef_scope e = ScopeWorkspace \<longrightarrow> ef_source e \<noteq> ''command:kb'' \<longrightarrow> inside (in_cwd it) (ef_target e)) \<and>
    path_clean (in_cwd it) = in_cwd it \<and>
    (\<exists>text. he_marshal E (it\<lparr>in_digest := []\<rparr>) = Some text \<and> in_digest it = digestBytes text)"
proof -
  obtain cwd environment it0 where cwd: "resolve_cwd E (cm_cwd cmd) = Inr cwd"
    and it0: "compile_command E cmd (initial_intent E cwd environment lim pl) = Some it0"
    and seal: "seal_intent E (dedupeAndSortIntent E it0) = Inr it"
    using it by (auto simp: compileIntent_Inr)
  note g0 = initial_grows [OF atlas, of cwd environment lim pl]
  have r: "ready E (initial_intent E cwd environment lim pl)"
    unfolding grows_ready [OF g0] using resolve_cwd_clean [OF cwd] atlas by (simp add: ready_def new_intent_def)
  have g: "grows (new_intent cwd) it0" by (rule grows_trans [OF g0 compile_command_grows [OF r it0]])
  obtain a d where d: "he_marshal E (dedupeAndSortIntent E it0\<lparr>in_atlasDigest := digestBytes a, in_digest := []\<rparr>) = Some d"
    and its: "it = dedupeAndSortIntent E it0\<lparr>in_atlasDigest := digestBytes a, in_digest := digestBytes d\<rparr>"
    using seal by (auto simp: seal_intent_Inr)
  have "in_complete it0 \<longleftrightarrow> in_unsupported it0 = []" "\<forall>e\<in>set (in_effects it0). labelled cwd e" "in_cwd it0 = cwd"
    using g by (auto simp: grows_def new_intent_def list_all_iff)
  then show ?thesis
    using its d sorted_effects_sub [of E "in_effects it0"] resolve_cwd_clean [OF cwd]
    by (auto simp: dedupeAndSortIntent_def labelled_def sort_key_Nil)
qed

text \<open>A request for \<open>cat a\<close> in the sample world, and what it compiles to.\<close>

definition sample_root :: node where
  "sample_root = Other [CallExpr [[Lit ''cat''], [Lit ''a'']] []]"

definition sample_command :: command where
  "sample_command = \<lparr>cm_script = ''cat a'', cm_argv = [], cm_cwd = ''/w'', cm_environment = []\<rparr>"

definition sample_intent :: "hr_env \<Rightarrow> intent" where
  "sample_intent E = (new_intent ''/w'')\<lparr>in_scriptDigest := digestBytes ''cat a'',
     in_commands := [atlas_fact E ''cat'' [''cat'', ''a''] (sample_entry ''read'')],
     in_effects := [\<lparr>ef_kind = ''read'', ef_scope = ''workspace'', ef_target = ''/w/a'', ef_source = ''command:cat'', ef_certainty = ''exact''\<rparr>],
     in_atlasDigest := digestBytes [], in_digest := digestBytes []\<rparr>"

lemma sample_path: "canonicalTarget Some p = path_clean p"
  by (simp add: canonicalTarget.simps Let_def)

lemma sample_resolve: "in_cwd it = ''/w'' \<Longrightarrow> in_cursor it = [] \<or> in_cursor it = ''/w'' \<Longrightarrow> resolveOperand (sample_env r) it ''a'' = ''/w/a''"
  by (auto simp: resolveOperand_def sample_path sample_simps is_abs_def has_prefix_def path_join_def effectiveCwd_def path_clean_def Let_def)

lemma sample_names:
  "map_of (builtinEffects E) ''cat'' = None" "commandRefiners E ''cat'' = Some (refineFileRead E)" "spec_of ''cat'' = no_spec"
  "path_base ''cat'' = ''cat''" "commandName [''cat'', ''a''] = (''cat'', [''cat'', ''a''], True)"
  by (simp_all add: builtinEffects_def commandRefiners_def spec_of_def fileReadCommands_def path_base_def Let_def commandName_def
      isBashyFrontDoor_def)

lemma sample_cat:
  assumes "in_cwd it = ''/w''" "in_cursor it = [] \<or> in_cursor it = ''/w''"
  shows "compileCall (sample_env r) [''cat'', ''a''] True it = add_effect \<lparr>ef_kind = ''read'', ef_scope = ''workspace'', ef_target = ''/w/a'',
      ef_source = ''command:cat'', ef_certainty = ''exact''\<rparr> (add_command (atlas_fact (sample_env r) ''cat'' [''cat'', ''a''] (sample_entry ''read'')) it)"
proof -
  have l: "he_lookup (sample_env r) ''cat'' = Some (sample_entry ''read'')" "''cat'' \<in> set (he_tools (sample_env r))"
    by (simp_all add: sample_simps)
  have k: "ae_effects (sample_entry ''read'') \<noteq> []" "he_read (sample_env r) = ''read''" by (simp_all add: sample_simps)
  have x: "cf_contentDigest (atlas_fact (sample_env r) ''cat'' a en) \<noteq> []" for a en by (simp add: atlas_fact_def sample_env_def)
  show ?thesis
    using assms
    by (simp add: compileCall_def sample_names l k atlas_call_def x record_command_def Let_def refineAtlasCall_def refineFileRead_def
        stripFrontDoor_def isBashyFrontDoor_def has_prefix_def file_operands_def no_spec_def read_operand_def addTargetEffect_def
        sample_resolve add_command_def scopeFor_def ScopeWorkspace_def)
qed

lemma sample_compiles: "compileIntent (sample_env sample_root) [] sample_command no_limits no_placement key = Inr (sample_intent (sample_env sample_root))"
proof -
  let ?E = "sample_env sample_root"
  let ?it = "initial_intent ?E ''/w'' [] no_limits no_placement"
  let ?it1 = "?it\<lparr>in_scriptDigest := digestBytes ''cat a''\<rparr>"
  let ?it2 = "compileCall ?E [''cat'', ''a''] True ?it1"
  have init: "in_cwd ?it1 = ''/w''" "in_cursor ?it1 = [] \<or> in_cursor ?it1 = ''/w''" "in_effects ?it1 = []" "in_commands ?it1 = []"
    by (simp_all add: initial_intent_def no_limits_def new_intent_def Let_def)
  have walk: "compileScript ?E ''cat a'' ?it1 = Some ?it2"
    by (simp add: compileScript_def sample_simps sample_root_def walkCompile_def collectFuncs_def staticWord_def Let_def)
  have "request_check [] sample_command no_limits = None"
    by (simp add: request_check_def sample_command_def no_limits_def accept_simps)
  moreover have "resolve_cwd ?E (cm_cwd sample_command) = Inr ''/w''"
    by (simp add: resolve_cwd_def sample_command_def sample_simps is_abs_def has_prefix_def path_clean_def Let_def)
  moreover have "compileEnvironment (cm_environment sample_command) key = Inr []"
    by (simp add: compileEnvironment_Inr sample_command_def environment_ok_def)
  moreover have "compile_command ?E sample_command ?it = Some ?it2"
    using walk by (simp add: compile_command_def sample_command_def)
  moreover have "seal_intent ?E (dedupeAndSortIntent ?E ?it2) = Inr (sample_intent ?E)"
    unfolding sample_cat [OF init(1,2)]
    by (simp add: seal_intent_Inr dedupeAndSortIntent_def sample_intent_def initial_intent_def no_limits_def new_intent_def Let_def
        add_effect_def add_command_def sorted_effects_def effect_set_def sample_simps atlas_fact_def effect_key_def)
  ultimately show ?thesis unfolding compileIntent_Inr by blast
qed

theorem compileIntent_fail_closed_witness:
  "\<exists>it. compileIntent (sample_env sample_root) [] sample_command no_limits no_placement [] = Inr it \<and> in_complete it \<and>
     in_unsupported it = [] \<and> inside (in_cwd it) ''/w/a''"
  using compileIntent_fail_closed [OF sample_atlas_ok sample_compiles [of "[]"]] sample_compiles [of "[]"]
  by (simp add: sample_intent_def new_intent_def ScopeWorkspace_def)

text \<open>C9. In a complete intent every call outside function declarations, and, at any depth, every call in the body of
  an undecorated function that such a call names, is itself a call of a function of the script, or has a record with
  its arguments, its resolver (the shell for \<open>cd\<close> and the builtins, the atlas for the rest) and the digest of the
  binary that runs it; what is recorded is \<open>cd\<close>, a builtin, or a command the atlas classifies, never a path, and
  never a name that is not known statically. The body of a decorated function is left out: its declaration stands
  for it, and an intent may be complete with dynamic calls inside it (\<open>decorated_body_hides_dynamic_call\<close>).\<close>

theorem preflight_records_calls:
  assumes "atlas_ok E" "compileIntent E schema cmd lim pl key = Inr it" "in_complete it"
    and "cm_script cmd \<noteq> []" "he_parse E (cm_script cmd) = Inr root" "args \<in> call_sites root"
    and "reaches (collectFuncs root) args site"
  shows "hd (call_argv site) \<in> dom (collectFuncs root) \<or>
    (\<exists>name. commandName (call_argv site) = (name, call_argv site, True) \<and> runnable E (call_static site) name \<and>
       (\<exists>c\<in>set (in_commands it). cf_name c = name \<and> cf_argv c = call_argv site \<and>
          cf_resolver c = (if name = ''cd'' \<or> name \<in> set (map fst (builtinEffects E)) then ''shell-builtin'' else ''bashy-atlas'') \<and>
          cf_contentDigest c = he_executable E \<and> he_executable E \<noteq> []))"
proof -
  obtain cwd environment it0 where cwd: "resolve_cwd E (cm_cwd cmd) = Inr cwd"
    and it0: "compile_command E cmd (initial_intent E cwd environment lim pl) = Some it0"
    and seal: "seal_intent E (dedupeAndSortIntent E it0) = Inr it"
    using assms(2) by (auto simp: compileIntent_Inr)
  let ?it = "initial_intent E cwd environment lim pl\<lparr>in_scriptDigest := digestBytes (cm_script cmd)\<rparr>"
  have "ready E ?it"
    using grows_ready [OF initial_grows [OF assms(1)], of E] resolve_cwd_clean [OF cwd] assms(1) by (simp add: ready_def new_intent_def)
  moreover have "compileScript E (cm_script cmd) ?it = Some it0" using it0 assms(4) by (simp add: compile_command_def)
  moreover have "in_complete it0" using seal assms(3) by (auto simp: seal_intent_Inr dedupeAndSortIntent_def)
  ultimately have r: "recorded E (dom (collectFuncs root)) (in_commands it0) site"
    using compileScript_covers assms(5-7) by blast
  have "\<exists>c'\<in>set (in_commands it). cf_name c' = cf_name c \<and> cf_argv c' = cf_argv c \<and> cf_resolver c' = cf_resolver c \<and>
      cf_contentDigest c' = cf_contentDigest c"
    if "c \<in> set (in_commands it0)" for c
    using seal that by (auto simp: seal_intent_Inr dedupeAndSortIntent_def)
  with r show ?thesis unfolding recorded_def resolver_of_def by metis
qed

text \<open>A script whose call of \<open>cat a\<close> is in the body of a function: \<open>f() { cat a; }; f\<close>.\<close>

definition nested_root :: node where
  "nested_root = Other [FuncDecl (Some ''f'') [] (Some (CallExpr [[Lit ''cat''], [Lit ''a'']] [])) [CallExpr [[Lit ''cat''], [Lit ''a'']] []],
     CallExpr [[Lit ''f'']] []]"

definition nested_command :: command where
  "nested_command = sample_command\<lparr>cm_script := ''f() { cat a; }; f''\<rparr>"

definition nested_intent :: "hr_env \<Rightarrow> intent" where
  "nested_intent E = (sample_intent E)\<lparr>in_scriptDigest := digestBytes ''f() { cat a; }; f'', in_cursor := ''/w''\<rparr>"

lemma nested_functions: "collectFuncs nested_root = [''f'' \<mapsto> summarize ''f'' [] (CallExpr [[Lit ''cat''], [Lit ''a'']] [])]"
  by (simp add: collectFuncs_def nested_root_def)

lemma nested_compiles: "compileIntent (sample_env nested_root) [] nested_command no_limits no_placement key = Inr (nested_intent (sample_env nested_root))"
proof -
  let ?E = "sample_env nested_root"
  let ?it = "initial_intent ?E ''/w'' [] no_limits no_placement"
  let ?it1 = "?it\<lparr>in_scriptDigest := digestBytes ''f() { cat a; }; f''\<rparr>"
  let ?fact = "atlas_fact ?E ''cat'' [''cat'', ''a''] (sample_entry ''read'')"
  let ?effect = "\<lparr>ef_kind = ''read'', ef_scope = ''workspace'', ef_target = ''/w/a'', ef_source = ''command:cat'', ef_certainty = ''exact''\<rparr>"
  let ?it2 = "?it1\<lparr>in_commands := [?fact], in_effects := [?effect], in_cursor := ''/w''\<rparr>"
  have init: "in_cwd ?it1 = ''/w''" "in_cursor ?it1 = []" "in_effects ?it1 = []" "in_commands ?it1 = []" "in_complete ?it1"
    by (simp_all add: initial_intent_def no_limits_def new_intent_def Let_def)
  have body: "in_cwd (func_body ?it1) = ''/w''" "in_cursor (func_body ?it1) = ''/w''" "in_effects (func_body ?it1) = []" "in_commands (func_body ?it1) = []"
    "in_complete (func_body ?it1)"
    by (simp_all add: func_body_def effectiveCwd_def init) (simp_all add: new_intent_def)
  have none: "List.find (\<lambda>e. False \<and> q e) xs = None" for q :: "effect \<Rightarrow> bool" and xs by (induction xs) simp_all
  have walk: "compileScript ?E ''f() { cat a; }; f'' ?it1 = Some ?it2"
    using sample_cat [OF body(1), of nested_root] body init
    by (simp add: compileScript_def sample_simps nested_functions walkCompile_def summarize_def Let_def func_call_def merge_call_def none)
      (simp add: nested_root_def staticWord_def summarize_def func_call_def merge_call_def Let_def none add_effect_def add_command_def)
  have "request_check [] nested_command no_limits = None"
    by (simp add: request_check_def nested_command_def sample_command_def no_limits_def accept_simps)
  moreover have "resolve_cwd ?E (cm_cwd nested_command) = Inr ''/w''"
    by (simp add: resolve_cwd_def nested_command_def sample_command_def sample_simps is_abs_def has_prefix_def path_clean_def Let_def)
  moreover have "compileEnvironment (cm_environment nested_command) key = Inr []"
    by (simp add: compileEnvironment_Inr nested_command_def sample_command_def environment_ok_def)
  moreover have "compile_command ?E nested_command ?it = Some ?it2"
    using walk by (simp add: compile_command_def nested_command_def)
  moreover have "seal_intent ?E (dedupeAndSortIntent ?E ?it2) = Inr (nested_intent ?E)"
    by (simp add: seal_intent_Inr dedupeAndSortIntent_def nested_intent_def sample_intent_def initial_intent_def no_limits_def new_intent_def Let_def
        sorted_effects_def effect_set_def sample_simps atlas_fact_def effect_key_def)
  ultimately show ?thesis unfolding compileIntent_Inr by blast
qed

theorem preflight_records_calls_witness:
  "\<exists>c\<in>set (in_commands (nested_intent (sample_env nested_root))). cf_name c = ''cat'' \<and> cf_argv c = [''cat'', ''a''] \<and> cf_resolver c = ''bashy-atlas''"
proof -
  let ?site = "[[Lit ''cat''], [Lit ''a'']]"
  have v: "call_argv ?site = [''cat'', ''a'']" "call_argv [[Lit ''f'']] = [''f'']" by (simp_all add: call_argv_def staticWord_def)
  have "reaches (collectFuncs nested_root) [[Lit ''f'']] ?site"
    by (rule reaches.within [where s = "summarize ''f'' [] (CallExpr ?site [])", OF _ _ _ reaches.itself])
      (simp_all add: nested_functions v summarize_def)
  moreover have "[[Lit ''f'']] \<in> call_sites nested_root" by (simp add: nested_root_def)
  ultimately show ?thesis
    using preflight_records_calls [OF sample_atlas_ok nested_compiles [of "[]"], of nested_root "[[Lit ''f'']]" ?site]
    by (simp add: nested_intent_def sample_intent_def new_intent_def nested_command_def sample_names nested_functions v)
      (auto simp: sample_env_def builtinEffects_def)
qed

text \<open>What C9 leaves out, at its worst: with \<open>@effects("")\<close> and \<open>@contain(net: "deny")\<close> a function whose body runs a command
  named by a variable passes as complete, with nothing recorded.\<close>

definition decorated_root :: node where
  "decorated_root = Other [FuncDecl (Some ''f'') [Some \<lparr>dc_name = Some ''effects'', dc_args = [[Lit []]], dc_argNames = []\<rparr>,
       Some \<lparr>dc_name = Some ''contain'', dc_args = [[Lit ''deny'']], dc_argNames = [Some ''net'']\<rparr>]
       (Some (CallExpr [[OtherPart]] [])) [CallExpr [[OtherPart]] []],
     CallExpr [[Lit ''f'']] []]"

lemma decorated_body_hides_dynamic_call:
  "map_option (\<lambda>it. (in_complete it, in_commands it, in_effects it)) (compileScript (sample_env decorated_root) s (new_intent ''/w'')) =
   Some (True, [], [])"
proof -
  have e: "split_on (CHR '','') [] = [[]]" "trim_space [] = []" by code_simp+
  show ?thesis
    by (simp add: compileScript_def sample_simps decorated_root_def walkCompile_def collectFuncs_def summarize_def decorate_def decoratorArg_def
        staticWord_def splitEffects_def e func_call_def func_body_def new_intent_def effectiveCwd_def compileCall_def commandName_def
        dynamic_call_def markUnsupported_def merge_call_def Let_def)
qed

text \<open>C28. Compilation ends, and says why it refuses: with an encoder of JSON that does not fail, a request compiles exactly
  when its shape is right, its directory can be resolved, and its variables are well named, distinct and, if secret, keyed.
  Syntax, unknown commands and dynamic words are never refusals: they make the intent incomplete.\<close>

theorem compileIntent_returns:
  "compileIntent E schema cmd lim pl key \<noteq> Inl FuelExhausted \<and>
   ((\<forall>i. he_marshal E i \<noteq> None) \<and> (\<forall>cs. he_marshal_commands E cs \<noteq> None) \<longrightarrow>
    ((\<exists>it. compileIntent E schema cmd lim pl key = Inr it) \<longleftrightarrow>
      (schema = [] \<or> schema = RequestSchemaVersion) \<and> (cm_script cmd = []) \<noteq> (cm_argv cmd = []) \<and>
      0 \<le> lm_wallTimeMs lim \<and> 0 \<le> lm_stdoutBytes lim \<and> 0 \<le> lm_stderrBytes lim \<and> 0 \<le> lm_stdinBytes lim \<and>
      (\<exists>cwd. resolve_cwd E (cm_cwd cmd) = Inr cwd) \<and> environment_ok key (cm_environment cmd)))"
proof (intro conjI impI)
  have "request_check schema cmd lim \<noteq> Some FuelExhausted"
    by (auto simp: request_check_def first_error.simps(2) split: option.splits)
  moreover have "resolve_cwd E c \<noteq> Inl FuelExhausted" for c
    by (auto simp: resolve_cwd_def split: option.splits)
  moreover have "seal_intent E i \<noteq> Inl FuelExhausted" for i
    by (auto simp: seal_intent_def Let_def split: option.splits)
  moreover have "compileEnvironment vs key \<noteq> Inl FuelExhausted" for vs
  proof -
    have "compile_variable key i st v \<noteq> Inl FuelExhausted" for i st v
      by (auto simp: compile_variable_def first_error.simps(2) split: prod.splits option.splits)
    then have "scan (compile_variable key) i st vs \<noteq> Inl FuelExhausted" for i st
      by (induction vs arbitrary: i st) (auto split: sum.splits)
    then show ?thesis by (auto simp: compileEnvironment_def split: sum.splits)
  qed
  moreover have "compile_command E cmd i \<noteq> None" for i by (rule compile_command_total)
  ultimately show "compileIntent E schema cmd lim pl key \<noteq> Inl FuelExhausted"
    by (auto simp: compileIntent_def simp del: not_None_eq split: option.split sum.split)
next
  assume m: "(\<forall>i. he_marshal E i \<noteq> None) \<and> (\<forall>cs. he_marshal_commands E cs \<noteq> None)"
  have seal: "\<exists>it. seal_intent E i = Inr it" for i
  proof -
    obtain a where "he_marshal_commands E (in_commands i) = Some a" using m by blast
    moreover obtain d where "he_marshal E (i\<lparr>in_atlasDigest := digestBytes a, in_digest := []\<rparr>) = Some d" using m by blast
    ultimately show ?thesis unfolding seal_intent_Inr by blast
  qed
  have req: "request_check schema cmd lim = None \<longleftrightarrow> (schema = [] \<or> schema = RequestSchemaVersion) \<and> (cm_script cmd = []) \<noteq> (cm_argv cmd = []) \<and>
      0 \<le> lm_wallTimeMs lim \<and> 0 \<le> lm_stdoutBytes lim \<and> 0 \<le> lm_stderrBytes lim \<and> 0 \<le> lm_stdinBytes lim"
    by (auto simp: request_check_def accept_simps)
  show "(\<exists>it. compileIntent E schema cmd lim pl key = Inr it) \<longleftrightarrow>
      (schema = [] \<or> schema = RequestSchemaVersion) \<and> (cm_script cmd = []) \<noteq> (cm_argv cmd = []) \<and>
      0 \<le> lm_wallTimeMs lim \<and> 0 \<le> lm_stdoutBytes lim \<and> 0 \<le> lm_stderrBytes lim \<and> 0 \<le> lm_stdinBytes lim \<and>
      (\<exists>cwd. resolve_cwd E (cm_cwd cmd) = Inr cwd) \<and> environment_ok key (cm_environment cmd)"
    unfolding compileIntent_Inr req [symmetric] compileEnvironment_Inr
    using seal compile_command_total by (metis option.exhaust req)
qed

theorem compileIntent_returns_witness:
  "\<exists>it. compileIntent (sample_env sample_root) [] sample_command no_limits no_placement [] = Inr it"
proof -
  have "resolve_cwd (sample_env sample_root) (cm_cwd sample_command) = Inr ''/w''"
    by (simp add: resolve_cwd_def sample_command_def sample_simps is_abs_def has_prefix_def path_clean_def Let_def)
  then show ?thesis
    using compileIntent_returns [of "sample_env sample_root" "[]" sample_command no_limits no_placement "[]"]
    by (simp add: sample_env_def sample_command_def no_limits_def environment_ok_def)
qed

section \<open>Where the preflight says less than runs\<close>

text \<open>\<open>find\<close> takes its own options before the paths; the refiner then reads the working directory.\<close>

lemma find_option_hides_roots:
  "refineFind E [''find'', ''-L'', ''/etc''] True it = (True, addTargetEffect E (he_read E) ''.'' ''command:find'' it)"
  by (simp add: refineFind_def stripFrontDoor_def isBashyFrontDoor_def path_base_def find_root_def has_prefix_def findActionDeny_def Let_def)

text \<open>\<open>git -C a -C b\<close> means \<open>a/b\<close>; the refiner keeps the last.\<close>

lemma git_last_directory:
  "refineGit E [''git'', ''-C'', ''/etc'', ''-C'', ''x'', ''status''] True it = (True, addTargetEffect E (he_read E) ''x'' ''command:git'' it)"
  by (simp add: refineGit_def stripFrontDoor_def isBashyFrontDoor_def path_base_def has_prefix_def gitReadSubcommands_def Let_def)

text \<open>\<open>sed -Ei\<close> edits in place but counts as a read; a script in \<open>-e\<close>'s own word is not seen at all.\<close>

lemma sed_cluster_reads_only:
  "refineSed E [''sed'', ''-Ei'', ''s/a/b/'', ''f''] True it = (True, addTargetEffect E (he_read E) ''f'' ''command:sed'' it)"
  by (simp add: refineSed_def stripFrontDoor_def isBashyFrontDoor_def path_base_def sed_arg_of_def has_prefix_def sed_operand_def
      sedScriptUnprovable_def sed_subst_here_def sed_before_def sed_blank_def isSedWordByte_def byte_def eval_nat_numeral Let_def)

lemma sed_attached_script_unseen:
  "refineSed E [''sed'', ''-ew out'', ''f''] True it = (True, it)"
  by (simp add: refineSed_def stripFrontDoor_def isBashyFrontDoor_def path_base_def sed_arg_of_def has_prefix_def
      sedScriptUnprovable_def sed_subst_here_def sed_before_def sed_blank_def Let_def)

lemma sed_write_without_blank: "\<not> sedScriptUnprovable ''w/tmp/out''"
  by (simp add: sedScriptUnprovable_def sed_subst_here_def sed_before_def sed_blank_def byte_def)

text \<open>A word keeps its tilde, so the home directory is taken for a name in the working directory.\<close>

lemma tilde_is_relative:
  "staticWord [Lit ''~/.ssh/id''] = (''~/.ssh/id'', True)"
  "resolveOperand E it ''~/.ssh/id'' = canonicalTarget (he_symlinks E) (path_join (effectiveCwd it) ''~/.ssh/id'')"
  by (simp_all add: staticWord_def resolveOperand_def is_abs_def has_prefix_def)

text \<open>\<open>2>&1\<close> counts as a write of a file named 1.\<close>

lemma duplication_is_a_write:
  "\<exists>e\<in>set (in_effects (compileRedirect E ''>&'' [Lit ''1''] it)). ef_kind e = he_write E \<and> ef_target e = resolveOperand E it ''1''"
  by (simp add: compileRedirect_def staticWord_def has_prefix_def Let_def add_effect_def redirect_effect_def)

text \<open>The body of a function is compiled once: a later call adds the same effects and moves the working directory back
  to where the first call left it, whatever \<open>cd\<close> came between.\<close>

lemma compiled_body_ignores_cd:
  assumes "fs_compiled s = Some body" "\<not> fs_compiling s" "in_complete body" "\<not> fs_decorated s" "fs_guard s = []" "in_cursor body \<noteq> []"
  shows "\<exists>it'. func_call E compile s (it, fs) = Some (it', fs) \<and> in_effects it' = in_effects it @ in_effects body \<and> in_cursor it' = in_cursor body"
proof -
  have "List.find (\<lambda>e. False \<and> q e) xs = None" for q :: "effect \<Rightarrow> bool" and xs by (induction xs) simp_all
  then show ?thesis using assms by (simp add: func_call_def merge_call_def)
qed

text \<open>The last declaration of a name stands for every call of it, also for calls before any declaration:
  \<open>rm x; rm() { :; }\<close> passes as pure.\<close>

definition hiding_root :: node where
  "hiding_root = Other [CallExpr [[Lit ''rm''], [Lit ''x'']] [],
     FuncDecl (Some ''rm'') [] (Some (CallExpr [[Lit '':'']] [])) [CallExpr [[Lit '':'']] []]]"

lemma later_declaration_hides_command:
  "map_option (\<lambda>it. (in_complete it, map cf_name (in_commands it), map ef_kind (in_effects it)))
     (compileScript (sample_env hiding_root) ''rm x; rm() { :; }'' (new_intent ''/w'')) = Some (True, ['':''], [''pure''])"
  by (simp add: compileScript_def sample_simps hiding_root_def walkCompile_def collectFuncs_def summarize_def staticWord_def
      func_call_def func_body_def new_intent_def effectiveCwd_def compileCall_def commandName_def isBashyFrontDoor_def builtinEffects_def
      builtin_call_def record_command_def builtin_fact_def add_command_def appendMaximumEffects_def add_effect_def merge_call_def Let_def)

text \<open>An empty or dynamic \<open>@guard\<close> is no guard, and a contained function that declares nothing leaves no trace of a body
  that cannot be proven.\<close>

lemma empty_guard_unchecked:
  "fs_guard s = [] \<Longrightarrow> fs_decorated s \<Longrightarrow> \<not> in_complete body \<Longrightarrow> in_complete (merge_call E s body it) = in_complete it"
  unfolding merge_call_def Let_def foldl_add_effect by (auto simp: add_effect_def)

lemma empty_declaration_hides_body:
  "fs_guard s = [] \<Longrightarrow> fs_decorated s \<Longrightarrow> fs_declared s = [] \<Longrightarrow> fs_contained s \<Longrightarrow> \<not> in_complete body \<Longrightarrow>
   in_effects (merge_call E s body it) = in_effects it \<and> in_complete (merge_call E s body it) = in_complete it"
  by (simp add: merge_call_def Let_def)

end
