(* ===== verification/Hr_Spool.thy ===== *)
theory Hr_Spool
  imports Go_Base64 "HOL-Library.Sublist"
begin

text \<open>
  The output of a job (\<open>spool.go\<close>): a sink that keeps a bounded prefix of what it is given, and the reader
  that serves chunks of the kept file from a cursor. What the disk does with a write is a parameter; sizes
  are \<open>int\<close>, files being far below \<open>2 ^ 63\<close> bytes.
\<close>

section \<open>Writing\<close>

record spool =
  sp_open :: bool
  sp_file :: string
  sp_limit :: int
  sp_written :: int
  sp_omitted :: int

datatype spool_error = WriteFailed | ShortWrite

definition newBoundedSpool :: "int \<Rightarrow> spool" where
  "newBoundedSpool limit = \<lparr>sp_open = True, sp_file = [], sp_limit = limit, sp_written = 0, sp_omitted = 0\<rparr>"

text \<open>The bytes a write may keep.\<close>

definition spool_allowed :: "spool \<Rightarrow> nat \<Rightarrow> int" where
  "spool_allowed s n =
     (if sp_limit s > 0 \<and> sp_written s + int n > sp_limit s then max 0 (sp_limit s - sp_written s) else int n)"

text \<open>\<open>disk v\<close>: how many bytes of \<open>v\<close> the file took, and whether the write failed. A nil file fails every write.\<close>

definition spool_Write :: "(string \<Rightarrow> nat \<times> bool) \<Rightarrow> string \<Rightarrow> spool \<Rightarrow> (nat \<times> spool_error option) \<times> spool" where
  "spool_Write disk v s =
     (let allowed = spool_allowed s (length v); kept = s\<lparr>sp_omitted := sp_omitted s + (int (length v) - allowed)\<rparr> in
      if allowed > 0 then
        (let (n, failed) = (if sp_open s then disk (take (nat allowed) v) else (0, True)) in
         if failed then ((n, Some WriteFailed), s\<lparr>sp_file := sp_file s @ take n v, sp_written := sp_written s + int n\<rparr>)
         else if int n \<noteq> allowed then ((n, Some ShortWrite), s\<lparr>sp_file := sp_file s @ take n v, sp_written := sp_written s + int n\<rparr>)
         else ((length v, None), kept\<lparr>sp_file := sp_file s @ take n v, sp_written := sp_written s + int n\<rparr>))
      else ((length v, None), kept))"

definition spool_Close :: "spool \<Rightarrow> spool" where
  "spool_Close s = s\<lparr>sp_open := False\<rparr>"

definition spool_stats :: "spool \<Rightarrow> int \<times> int" where
  "spool_stats s = (sp_written s, sp_omitted s)"

text \<open>What every write keeps, on a disk that takes no more than it is given.\<close>

definition sane_disk :: "(string \<Rightarrow> nat \<times> bool) \<Rightarrow> bool" where
  "sane_disk disk \<longleftrightarrow> (\<forall>v. fst (disk v) \<le> length v)"

definition spool_ok :: "spool \<Rightarrow> bool" where
  "spool_ok s \<longleftrightarrow> sp_written s = int (length (sp_file s)) \<and> 0 \<le> sp_omitted s \<and> (sp_limit s > 0 \<longrightarrow> sp_written s \<le> sp_limit s)"

lemma spool_ok_new: "spool_ok (newBoundedSpool limit)"
  by (simp add: spool_ok_def newBoundedSpool_def)

lemma spool_allowed_bounds: "0 \<le> spool_allowed s n" "spool_allowed s n \<le> int n \<or> sp_written s < 0"
  "sp_limit s > 0 \<Longrightarrow> sp_written s \<le> sp_limit s \<Longrightarrow> sp_written s + spool_allowed s n \<le> sp_limit s"
  by (auto simp: spool_allowed_def)

lemma spool_Write_fixed: "sp_limit (snd (spool_Write disk v s)) = sp_limit s" "sp_open (snd (spool_Write disk v s)) = sp_open s"
  by (simp_all add: spool_Write_def Let_def split: prod.split)

lemma spool_Write_grows: "prefix (sp_file s) (sp_file (snd (spool_Write disk v s)))"
  by (simp add: spool_Write_def Let_def split: prod.split)

lemma spool_Write_ok:
  assumes "sane_disk disk" "spool_ok s" shows "spool_ok (snd (spool_Write disk v s))"
proof -
  let ?a = "spool_allowed s (length v)"
  have w: "0 \<le> sp_written s" using assms(2) by (simp add: spool_ok_def)
  have a: "0 \<le> ?a" "?a \<le> int (length v)" using spool_allowed_bounds [of s "length v"] w by auto
  have n: "fst (disk (take (nat ?a) v)) \<le> nat ?a" using assms(1) a by (metis (no_types) length_take min.bounded_iff sane_disk_def)
  have l: "sp_limit s > 0 \<Longrightarrow> sp_written s + ?a \<le> sp_limit s" using spool_allowed_bounds(3) [of s "length v"] assms(2) by (simp add: spool_ok_def)
  obtain m failed where d: "(if sp_open s then disk (take (nat ?a) v) else (0, True)) = (m, failed)" by fastforce
  have m: "int m \<le> ?a" using n a(1) d by (auto split: if_splits)
  then have len: "int (length (take m v)) = int m" using a(2) by simp
  show ?thesis
    using assms(2) a m l len unfolding spool_Write_def Let_def d
    by (auto simp: spool_ok_def)
qed

text \<open>The file is the longest prefix of the stream the limit admits, when the disk takes every write.\<close>

definition whole_disk :: "string \<Rightarrow> nat \<times> bool" where
  "whole_disk v = (length v, False)"

definition admitted :: "int \<Rightarrow> string \<Rightarrow> string" where
  "admitted limit stream = (if limit > 0 then take (nat limit) stream else stream)"

definition spool_holds :: "spool \<Rightarrow> string \<Rightarrow> bool" where
  "spool_holds s stream \<longleftrightarrow> sp_open s \<and> sp_file s = admitted (sp_limit s) stream \<and>
     sp_written s = int (length (sp_file s)) \<and> sp_written s + sp_omitted s = int (length stream)"

lemma spool_holds_new: "spool_holds (newBoundedSpool limit) []"
  by (simp add: spool_holds_def newBoundedSpool_def admitted_def)

lemma spool_holds_write:
  assumes "spool_holds s stream"
  shows "fst (spool_Write whole_disk v s) = (length v, None) \<and> spool_holds (snd (spool_Write whole_disk v s)) (stream @ v)"
proof (cases "sp_limit s > 0")
  case False
  then show ?thesis using assms by (auto simp: spool_Write_def spool_allowed_def whole_disk_def spool_holds_def admitted_def Let_def)
next
  case True
  let ?l = "nat (sp_limit s)"
  have f: "sp_file s = take ?l stream" and w: "sp_written s = int (min (length stream) ?l)"
    and o: "sp_omitted s = int (length stream) - sp_written s" "sp_open s"
    using assms True by (auto simp: spool_holds_def admitted_def)
  have a: "spool_allowed s (length v) = int (min (length v) (?l - length stream))"
    using True w by (simp add: spool_allowed_def min_def split: if_split) arith
  have t: "take ?l (stream @ v) = take ?l stream @ take (min (length v) (?l - length stream)) v"
    by (simp add: min_def)
  show ?thesis
    using True by (auto simp: spool_Write_def a whole_disk_def spool_holds_def admitted_def t f o w Let_def min_def)
qed

section \<open>Reading\<close>

record output_chunk =
  oc_from :: int
  oc_to :: int
  oc_encoding :: string
  oc_data :: string

datatype read_error = NegativeCursor | CannotOpen | CursorBeyond int int

definition chunk_maximum :: "int \<Rightarrow> int" where
  "chunk_maximum m = (let m' = (if m \<le> 0 then 65536 else m) in if m' > 1048576 then 1048576 else m')"

definition readChunk :: "string option \<Rightarrow> int \<Rightarrow> int \<Rightarrow> read_error + (output_chunk list \<times> int)" where
  "readChunk content cursor maximum =
     (if cursor < 0 then Inl NegativeCursor
      else case content of
        None \<Rightarrow> Inl CannotOpen
      | Some bs \<Rightarrow>
          if cursor > int (length bs) then Inl (CursorBeyond cursor (int (length bs)))
          else let remaining = int (length bs) - cursor in
            if remaining = 0 then Inr ([], cursor)
            else let n = min remaining (chunk_maximum maximum); buf = take (nat n) (drop (nat cursor) bs); stop = cursor + int (length buf)
              in Inr ([\<lparr>oc_from = cursor, oc_to = stop, oc_encoding = ''base64'', oc_data = b64_encode buf\<rparr>], stop))"

lemma chunk_maximum_bounds: "1 \<le> chunk_maximum m" "chunk_maximum m \<le> 1048576"
  by (auto simp: chunk_maximum_def Let_def)

text \<open>The bytes of a list of chunks.\<close>

fun chunk_bytes :: "output_chunk list \<Rightarrow> string" where
  "chunk_bytes [] = []"
| "chunk_bytes (c # cs) = (case b64_decode (oc_data c) of Some s \<Rightarrow> s @ chunk_bytes cs | None \<Rightarrow> chunk_bytes cs)"

lemma chunk_bytes_append: "chunk_bytes (xs @ ys) = chunk_bytes xs @ chunk_bytes ys"
  by (induction xs) (auto split: option.split)

lemma readChunk_Inr:
  assumes "readChunk (Some bs) cursor maximum = Inr (cs, stop)"
  shows "0 \<le> cursor" "cursor \<le> stop" "stop \<le> int (length bs)" "stop = cursor \<longleftrightarrow> cursor = int (length bs)"
    "stop - cursor \<le> 1048576" "chunk_bytes cs = take (nat (stop - cursor)) (drop (nat cursor) bs)"
proof -
  let ?n = "min (int (length bs) - cursor) (chunk_maximum maximum)"
  let ?buf = "take (nat ?n) (drop (nat cursor) bs)"
  have c: "0 \<le> cursor" "cursor \<le> int (length bs)" using assms by (auto simp: readChunk_def split: if_splits)
  show "0 \<le> cursor" by (rule c)
  show "cursor \<le> stop" "stop \<le> int (length bs)" "stop = cursor \<longleftrightarrow> cursor = int (length bs)" "stop - cursor \<le> 1048576"
    "chunk_bytes cs = take (nat (stop - cursor)) (drop (nat cursor) bs)"
    using assms c chunk_maximum_bounds [of maximum]
    by (auto simp: readChunk_def Let_def b64_round_trip nat_diff_distrib split: if_splits)
qed

text \<open>A client polls from where it stopped, while the file grows.\<close>

inductive polls :: "string \<Rightarrow> int \<Rightarrow> output_chunk list \<Rightarrow> int \<Rightarrow> bool" where
  start: "0 \<le> c \<Longrightarrow> c \<le> int (length bs) \<Longrightarrow> polls bs c [] c"
| poll: "polls bs c cs d \<Longrightarrow> prefix bs bs' \<Longrightarrow> readChunk (Some bs') d maximum = Inr (ds, e) \<Longrightarrow> polls bs' c (cs @ ds) e"

lemma polls_bytes:
  "polls bs c cs d \<Longrightarrow> 0 \<le> c \<and> c \<le> d \<and> d \<le> int (length bs) \<and> chunk_bytes cs = take (nat (d - c)) (drop (nat c) bs)"
proof (induction rule: polls.induct)
  case (poll bs c cs d bs' maximum ds e)
  note r = readChunk_Inr [OF poll.hyps(3)]
  obtain t where t: "bs' = bs @ t" using poll.hyps(2) by (auto simp: prefix_def)
  have cs: "chunk_bytes cs = take (nat (d - c)) (drop (nat c) bs')" and b: "0 \<le> c" "c \<le> d"
    using poll.IH by (auto simp: t)
  have "drop (nat d) bs' = drop (nat (d - c)) (drop (nat c) bs')" using b by (simp add: nat_diff_distrib)
  then have "chunk_bytes (cs @ ds) = take (nat (d - c)) (drop (nat c) bs') @ take (nat (e - d)) (drop (nat (d - c)) (drop (nat c) bs'))"
    using r(6) cs by (simp add: chunk_bytes_append)
  also have "\<dots> = take (nat (d - c) + nat (e - d)) (drop (nat c) bs')" by (simp add: take_add)
  also have "nat (d - c) + nat (e - d) = nat (e - c)" using b r(2) by simp
  finally show ?case using b r by simp
qed simp

end
