(* ===== verification/Hr_Manager.thy ===== *)
theory Hr_Manager
  imports Hr_Preflight Hr_Spool
begin

text \<open>
  The supervisor of jobs (\<open>manager.go\<close>, the dispatch of \<open>wire.go\<close>). The state of \<open>Manager\<close> is the record
  \<open>manager\<close>: the live jobs by id, their objects (which outlive their entry in \<open>m.jobs\<close>), and the job
  directories on disk. One definition per critical section of \<open>m.mu\<close>; an operation with several takes the
  state at each. The texts of error messages are left out.
\<close>

section \<open>Requests and results\<close>

datatype operation = OperationPreflight | OperationExecute | OperationStart | OperationPoll | OperationStdin | OperationSignal
  | OperationCancel | UnknownOperation string

datatype outcome = OutcomePrepared | OutcomeRunning | OutcomeCompleted | OutcomeBlocked | OutcomeCancelled | OutcomeTimedOut
  | OutcomeFailed | OutcomeAmbiguous

record input_chunk =
  ic_sequence :: "64 word"
  ic_encoding :: string
  ic_data :: string
  ic_digest :: string

record claims =
  cl_binding :: binding
  cl_intentDigest :: string
  cl_policyRevision :: "64 word"
  cl_grantDigest :: string
  cl_expiresAt :: "int option"

record authorization =
  au_claims :: claims
  au_token :: string

record request =
  rq_schemaVersion :: string
  rq_requestID :: string
  rq_operation :: operation
  rq_binding :: binding
  rq_command :: command
  rq_limits :: limits
  rq_placement :: hr_placement
  rq_intentDigest :: string
  rq_authorization :: "authorization option"
  rq_jobID :: string
  rq_jobGeneration :: "64 word"
  rq_stdoutCursor :: int
  rq_stderrCursor :: int
  rq_maxChunkBytes :: int
  rq_input :: "input_chunk option"
  rq_signal :: string

record process_result =
  pr_jobID :: string
  pr_generation :: "64 word"
  pr_exitCode :: "int option"
  pr_signal :: string
  pr_startedAt :: int
  pr_finishedAt :: "int option"
  pr_durationMs :: int

record output_result =
  op_stdout :: "output_chunk list"
  op_stderr :: "output_chunk list"
  op_stdoutNext :: int
  op_stderrNext :: int
  op_truncated :: bool
  op_omittedBytes :: int

record protocol_error =
  pe_code :: string
  pe_retryable :: bool

record hr_result =
  rs_requestID :: string
  rs_operation :: operation
  rs_protocol :: string
  rs_outcome :: outcome
  rs_binding :: binding
  rs_intent :: "intent option"
  rs_effects :: "effect list"
  rs_process :: "process_result option"
  rs_output :: "output_result option"
  rs_acceptedInput :: "64 word option"
  rs_error :: "protocol_error option"

definition baseResult :: "request \<Rightarrow> hr_result" where
  "baseResult req = \<lparr>rs_requestID = rq_requestID req, rs_operation = rq_operation req, rs_protocol = ''ok'', rs_outcome = OutcomeFailed,
     rs_binding = rq_binding req, rs_intent = None, rs_effects = [], rs_process = None, rs_output = None, rs_acceptedInput = None, rs_error = None\<rparr>"

definition failResult :: "string \<Rightarrow> bool \<Rightarrow> hr_result \<Rightarrow> hr_result" where
  "failResult code retryable r = r\<lparr>rs_protocol := ''error'', rs_outcome := OutcomeBlocked,
     rs_error := Some \<lparr>pe_code = code, pe_retryable = retryable\<rparr>\<rparr>"

definition with_intent :: "intent \<Rightarrow> hr_result \<Rightarrow> hr_result" where
  "with_intent it r = r\<lparr>rs_intent := Some it, rs_effects := in_effects it\<rparr>"

section \<open>Jobs\<close>

record job_record =
  jr_jobID :: string
  jr_generation :: "64 word"
  jr_intentDigest :: string
  jr_intent :: intent
  jr_binding :: binding
  jr_limits :: limits
  jr_outcome :: outcome
  jr_startedAt :: int
  jr_finishedAt :: "int option"
  jr_exitCode :: "int option"
  jr_signal :: string
  jr_stdoutBytes :: int
  jr_stderrBytes :: int
  jr_omittedBytes :: int
  jr_stdinBytes :: int
  jr_inputDigests :: "(64 word \<times> string) list"

datatype ctx_error = DeadlineExceeded | Canceled

text \<open>The object of a job; \<open>lj_stdin\<close> holds the whole chunks its pipe has taken.\<close>

record live_job =
  lj_record :: job_record
  lj_ctx :: "ctx_error option"
  lj_stdin :: string
  lj_closed :: bool
  lj_stdout :: spool
  lj_stderr :: spool

text \<open>A job directory; \<open>jd_record\<close> is None while \<open>job.json\<close> is missing or cannot be read.\<close>

record job_dir =
  jd_record :: "job_record option"
  jd_stdout :: "string option"
  jd_stderr :: "string option"

record manager =
  mg_key :: string
  mg_objects :: "string \<rightharpoonup> live_job"
  mg_jobs :: "string set"
  mg_disk :: "string \<rightharpoonup> job_dir"

definition manager_New :: "string \<Rightarrow> string \<Rightarrow> manager option" where
  "manager_New root key =
     (if length key < 32 then None else if root = [] then None
      else Some \<lparr>mg_key = key, mg_objects = Map.empty, mg_jobs = {}, mg_disk = Map.empty\<rparr>)"

definition manager_jobID :: "string \<Rightarrow> claims \<Rightarrow> string" where
  "manager_jobID key c = ''job_'' @ hex_encode (take 16 (hmac_sha256 key
     (bi_runID (cl_binding c) @ [nul] @ bi_nodeID (cl_binding c) @ [nul] @ int_text (bi_attempt (cl_binding c)) @ [nul] @
      bi_idempotencyKey (cl_binding c))))"

definition hex_char :: "char \<Rightarrow> bool" where
  "hex_char c \<longleftrightarrow> 48 \<le> byte c \<and> byte c \<le> 57 \<or> 97 \<le> byte c \<and> byte c \<le> 102 \<or> 65 \<le> byte c \<and> byte c \<le> 70"

definition validJobID :: "string \<Rightarrow> bool" where
  "validJobID v \<longleftrightarrow> has_prefix v ''job_'' \<and> length v = 36 \<and> list_all hex_char (drop 4 v)"

definition dir_of :: "manager \<Rightarrow> string \<Rightarrow> job_dir" where
  "dir_of m jid = (case mg_disk m jid of Some d \<Rightarrow> d | None \<Rightarrow> \<lparr>jd_record = None, jd_stdout = None, jd_stderr = None\<rparr>)"

text \<open>\<open>persistRecord\<close> may fail; the callers after \<open>reserve\<close> ignore that.\<close>

definition persistRecord :: "bool \<Rightarrow> job_record \<Rightarrow> manager \<Rightarrow> manager" where
  "persistRecord ok r m =
     (if ok then m\<lparr>mg_disk := (mg_disk m)(jr_jobID r \<mapsto> (dir_of m (jr_jobID r))\<lparr>jd_record := Some r\<rparr>)\<rparr> else m)"

definition loadRecord :: "manager \<Rightarrow> string \<Rightarrow> job_record option" where
  "loadRecord m jid =
     (if \<not> validJobID jid then None
      else case jd_record (dir_of m jid) of
        None \<Rightarrow> None
      | Some r \<Rightarrow> if jr_jobID r \<noteq> jid then None else Some r)"

definition live_record :: "manager \<Rightarrow> string \<Rightarrow> job_record option" where
  "live_record m jid = (if jid \<in> mg_jobs m then map_option lj_record (mg_objects m jid) else None)"

definition findRecord :: "manager \<Rightarrow> string \<Rightarrow> job_record option" where
  "findRecord m jid =
     (if \<not> validJobID jid then None
      else case live_record m jid of Some r \<Rightarrow> Some r | None \<Rightarrow> loadRecord m jid)"

definition millis :: "int \<Rightarrow> int" where
  "millis d = (if d < 0 then - ((- d) div 1000000) else d div 1000000)"

definition resultForRecord :: "manager \<Rightarrow> request \<Rightarrow> job_record \<Rightarrow> int \<Rightarrow> int \<Rightarrow> int \<Rightarrow> hr_result" where
  "resultForRecord m req r outCursor errCursor maximum =
     (let res = (with_intent (jr_intent r) (baseResult req))\<lparr>rs_outcome := jr_outcome r,
            rs_process := Some \<lparr>pr_jobID = jr_jobID r, pr_generation = jr_generation r, pr_exitCode = jr_exitCode r, pr_signal = jr_signal r,
              pr_startedAt = jr_startedAt r, pr_finishedAt = jr_finishedAt r,
              pr_durationMs = (case jr_finishedAt r of None \<Rightarrow> 0 | Some f \<Rightarrow> millis (f - jr_startedAt r))\<rparr>\<rparr>
      in case (readChunk (jd_stdout (dir_of m (jr_jobID r))) outCursor maximum, readChunk (jd_stderr (dir_of m (jr_jobID r))) errCursor maximum) of
           (Inr (out, outNext), Inr (err, errNext)) \<Rightarrow>
             res\<lparr>rs_output := Some \<lparr>op_stdout = out, op_stderr = err, op_stdoutNext = outNext, op_stderrNext = errNext,
               op_truncated = (jr_omittedBytes r > 0), op_omittedBytes = jr_omittedBytes r\<rparr>\<rparr>
         | _ \<Rightarrow> failResult ''invalidRequest'' False res)"

definition record_result :: "manager \<Rightarrow> request \<Rightarrow> job_record \<Rightarrow> hr_result" where
  "record_result m req r = resultForRecord m req r (rq_stdoutCursor req) (rq_stderrCursor req) (rq_maxChunkBytes req)"

section \<open>Preflight and authorization\<close>

definition request_intent :: "hr_env \<Rightarrow> string \<Rightarrow> request \<Rightarrow> hr_error + intent" where
  "request_intent E key req = compileIntent E (rq_schemaVersion req) (rq_command req) (rq_limits req) (rq_placement req) key"

definition manager_Preflight :: "hr_env \<Rightarrow> manager \<Rightarrow> request \<Rightarrow> hr_result" where
  "manager_Preflight E m req0 =
     (let req = req0\<lparr>rq_operation := OperationPreflight\<rparr>; res = baseResult req in
      case request_intent E (mg_key m) req of
        Inl e \<Rightarrow> failResult ''invalidRequest'' False res
      | Inr it \<Rightarrow>
          if \<not> in_complete it then failResult ''incompletePreflight'' False (with_intent it res)
          else (with_intent it res)\<lparr>rs_outcome := OutcomePrepared\<rparr>)"

text \<open>\<open>enc\<close> marshals claims; \<open>json.Marshal\<close> fails on an expiry outside the years it can write.\<close>

definition manager_Authorize :: "(claims \<Rightarrow> string option) \<Rightarrow> manager \<Rightarrow> intent \<Rightarrow> claims \<Rightarrow> authorization option" where
  "manager_Authorize enc m it c =
     (if \<not> in_complete it \<or> in_digest it = [] then None
      else if cl_intentDigest c \<noteq> in_digest it then None
      else if bi_runID (cl_binding c) = [] \<or> bi_nodeID (cl_binding c) = [] \<or> bi_idempotencyKey (cl_binding c) = [] \<or> bi_configDigest (cl_binding c) = [] then None
      else map_option (\<lambda>t. \<lparr>au_claims = c, au_token = t\<rparr>) (signJSON (mg_key m) (enc c)))"

definition authorizedIntent :: "hr_env \<Rightarrow> (claims \<Rightarrow> string option) \<Rightarrow> string \<Rightarrow> int \<Rightarrow> request \<Rightarrow> string + intent" where
  "authorizedIntent E enc key now req =
     (case rq_authorization req of
        None \<Rightarrow> Inl ''authorizationRequired''
      | Some au \<Rightarrow>
          if \<not> verifyJSON key (enc (au_claims au)) (au_token au) then Inl ''bindingMismatch''
          else if (case cl_expiresAt (au_claims au) of None \<Rightarrow> False | Some t \<Rightarrow> \<not> now < t) then Inl ''bindingMismatch''
          else if cl_binding (au_claims au) \<noteq> rq_binding req then Inl ''bindingMismatch''
          else (case request_intent E key req of
                  Inl e \<Rightarrow> Inl ''invalidRequest''
                | Inr it \<Rightarrow>
                    if \<not> in_complete it then Inl ''incompletePreflight''
                    else if in_digest it \<noteq> rq_intentDigest req \<or> in_digest it \<noteq> cl_intentDigest (au_claims au) then Inl ''bindingMismatch''
                    else Inr it))"

section \<open>Requests on the wire\<close>

text \<open>What the strict JSON decoder gives for the request, and for what follows it.\<close>

datatype trailing = AtEOF | AnotherValue | TrailingError

datatype decode_error = BadJSON | BadSchema string | MultipleValues | TrailingJSON | BadOperation operation

definition validOperation :: "operation \<Rightarrow> bool" where
  "validOperation op \<longleftrightarrow> (case op of UnknownOperation _ \<Rightarrow> False | _ \<Rightarrow> True)"

definition DecodeRequest :: "request option \<Rightarrow> trailing \<Rightarrow> decode_error + request" where
  "DecodeRequest decoded rest =
     (case decoded of
        None \<Rightarrow> Inl BadJSON
      | Some req \<Rightarrow>
          if rq_schemaVersion req \<noteq> RequestSchemaVersion then Inl (BadSchema (rq_schemaVersion req))
          else case rest of
            AnotherValue \<Rightarrow> Inl MultipleValues
          | TrailingError \<Rightarrow> Inl TrailingJSON
          | AtEOF \<Rightarrow> if \<not> validOperation (rq_operation req) then Inl (BadOperation (rq_operation req)) else Inr req)"

section \<open>Starting a job\<close>

text \<open>The first call of \<open>reserve\<close> that fails, if any.\<close>

datatype reserve_fault = NoFault | MkdirFails | StdoutFails | StderrFails | PersistFails

definition new_record :: "int \<Rightarrow> request \<Rightarrow> intent \<Rightarrow> string \<Rightarrow> job_record" where
  "new_record now req it jid = \<lparr>jr_jobID = jid, jr_generation = 1, jr_intentDigest = in_digest it, jr_intent = it, jr_binding = rq_binding req,
     jr_limits = rq_limits req, jr_outcome = OutcomeRunning, jr_startedAt = now, jr_finishedAt = None, jr_exitCode = None, jr_signal = [],
     jr_stdoutBytes = 0, jr_stderrBytes = 0, jr_omittedBytes = 0, jr_stdinBytes = 0, jr_inputDigests = []\<rparr>"

definition reserve :: "reserve_fault \<Rightarrow> int \<Rightarrow> request \<Rightarrow> intent \<Rightarrow> string \<Rightarrow> manager \<Rightarrow> live_job option \<times> manager" where
  "reserve flt now req it jid m =
     (if mg_disk m jid \<noteq> None \<or> flt = MkdirFails then (None, m)
      else
        let made = (\<lambda>d. m\<lparr>mg_disk := (mg_disk m)(jid \<mapsto> d)\<rparr>); r = new_record now req it jid in
        case flt of
          StdoutFails \<Rightarrow> (None, made \<lparr>jd_record = None, jd_stdout = None, jd_stderr = None\<rparr>)
        | StderrFails \<Rightarrow> (None, made \<lparr>jd_record = None, jd_stdout = Some [], jd_stderr = None\<rparr>)
        | PersistFails \<Rightarrow> (None, made \<lparr>jd_record = None, jd_stdout = Some [], jd_stderr = Some []\<rparr>)
        | _ \<Rightarrow> (Some \<lparr>lj_record = r, lj_ctx = None, lj_stdin = [], lj_closed = False, lj_stdout = newBoundedSpool (lm_stdoutBytes (rq_limits req)),
                   lj_stderr = newBoundedSpool (lm_stderrBytes (rq_limits req))\<rparr>,
                made \<lparr>jd_record = Some r, jd_stdout = Some [], jd_stderr = Some []\<rparr>))"

datatype began = Answered hr_result | Started string hr_result

definition begin_job :: "hr_env \<Rightarrow> (claims \<Rightarrow> string option) \<Rightarrow> reserve_fault \<Rightarrow> int \<Rightarrow> request \<Rightarrow> manager \<Rightarrow> began \<times> manager" where
  "begin_job E enc flt now req m =
     (let res = baseResult req in
      case authorizedIntent E enc (mg_key m) now req of
        Inl code \<Rightarrow> (Answered (failResult code False res), m)
      | Inr it \<Rightarrow>
          let res = with_intent it res; jid = manager_jobID (mg_key m) (au_claims (the (rq_authorization req)));
              known = (\<lambda>r. if jr_intentDigest r \<noteq> in_digest it then failResult ''bindingMismatch'' False res else record_result m req r) in
          case live_record m jid of
            Some r \<Rightarrow> (Answered (known r), m)
          | None \<Rightarrow>
              (case loadRecord m jid of
                 Some r \<Rightarrow> (Answered (known r), m)
               | None \<Rightarrow>
                   (case reserve flt now req it jid m of
                      (None, m') \<Rightarrow> (Answered (failResult ''unavailable'' True res), m')
                    | (Some job, m') \<Rightarrow> (Started jid res, m'\<lparr>mg_objects := (mg_objects m')(jid \<mapsto> job), mg_jobs := insert jid (mg_jobs m')\<rparr>))))"

text \<open>\<open>Start\<close> answers with the record at once, \<open>Execute\<close> after the run: both read the object of the job.\<close>

definition started_result :: "manager \<Rightarrow> request \<Rightarrow> string \<Rightarrow> int \<Rightarrow> int \<Rightarrow> hr_result option" where
  "started_result m req jid outCursor errCursor =
     map_option (\<lambda>j. resultForRecord m req (lj_record j) outCursor errCursor (rq_maxChunkBytes req)) (mg_objects m jid)"

text \<open>\<open>later\<close> is what other sections do to the state before the answer is read; for \<open>Execute\<close> it holds the whole run.\<close>

definition manager_Start :: "hr_env \<Rightarrow> (claims \<Rightarrow> string option) \<Rightarrow> reserve_fault \<Rightarrow> int \<Rightarrow> (manager \<Rightarrow> manager) \<Rightarrow> request \<Rightarrow> manager \<Rightarrow> hr_result \<times> manager" where
  "manager_Start E enc flt now later req0 m =
     (let req = req0\<lparr>rq_operation := OperationStart\<rparr> in
      case begin_job E enc flt now req m of
        (Answered res, m') \<Rightarrow> (res, m')
      | (Started jid res, m') \<Rightarrow> (case started_result (later m') req jid 0 0 of Some r \<Rightarrow> r | None \<Rightarrow> res, later m'))"

definition manager_Execute :: "hr_env \<Rightarrow> (claims \<Rightarrow> string option) \<Rightarrow> reserve_fault \<Rightarrow> int \<Rightarrow> (manager \<Rightarrow> manager) \<Rightarrow> request \<Rightarrow> manager \<Rightarrow> hr_result \<times> manager" where
  "manager_Execute E enc flt now later req0 m =
     (let req = req0\<lparr>rq_operation := OperationExecute\<rparr> in
      case begin_job E enc flt now req m of
        (Answered res, m') \<Rightarrow> (res, m')
      | (Started jid res, m') \<Rightarrow>
          (case started_result (later m') req jid (rq_stdoutCursor req) (rq_stderrCursor req) of Some r \<Rightarrow> r | None \<Rightarrow> res, later m'))"

section \<open>The end of a run\<close>

record session_result =
  sr_exitCode :: int
  sr_signal :: string

definition abandonedExitCode :: int where "abandonedExitCode = 124"

text \<open>
  What \<open>awaitSession\<close> saw: the session finished, before or within the grace after the context ended, or it
  was abandoned after it, which leaves a line on standard error.
\<close>

datatype awaited = SessionFinished session_result | SessionAbandoned

definition stopReason :: "ctx_error option \<Rightarrow> string" where
  "stopReason c = (if c = Some DeadlineExceeded then ''wall time'' else ''cancellation'')"

definition abandoned_line :: "ctx_error option \<Rightarrow> string" where
  "abandoned_line c = ''bashy: a command was still running 5s after the '' @ stopReason c @ '' and was abandoned; its output is not shown'' @ [CHR 0x0A]"

definition awaitSession :: "(string \<Rightarrow> nat \<times> bool) \<Rightarrow> awaited \<Rightarrow> live_job \<Rightarrow> session_result \<times> live_job" where
  "awaitSession disk a j =
     (case a of
        SessionFinished r \<Rightarrow> (r, j)
      | SessionAbandoned \<Rightarrow> (\<lparr>sr_exitCode = abandonedExitCode, sr_signal = []\<rparr>,
          j\<lparr>lj_stderr := snd (spool_Write disk (abandoned_line (lj_ctx j)) (lj_stderr j))\<rparr>))"

definition final_outcome :: "ctx_error option \<Rightarrow> outcome" where
  "final_outcome c = (case c of Some DeadlineExceeded \<Rightarrow> OutcomeTimedOut | Some Canceled \<Rightarrow> OutcomeCancelled | None \<Rightarrow> OutcomeCompleted)"

definition settle_record :: "int \<Rightarrow> session_result \<Rightarrow> live_job \<Rightarrow> job_record" where
  "settle_record now r j = (lj_record j)\<lparr>
     jr_stdoutBytes := fst (spool_stats (lj_stdout j)), jr_stderrBytes := fst (spool_stats (lj_stderr j)),
     jr_omittedBytes := snd (spool_stats (lj_stdout j)) + snd (spool_stats (lj_stderr j)),
     jr_finishedAt := Some now, jr_exitCode := Some (sr_exitCode r), jr_signal := sr_signal r, jr_outcome := final_outcome (lj_ctx j)\<rparr>"

definition put_object :: "string \<Rightarrow> live_job \<Rightarrow> manager \<Rightarrow> manager" where
  "put_object jid j m = m\<lparr>mg_objects := (mg_objects m)(jid \<mapsto> j),
     mg_disk := (mg_disk m)(jid \<mapsto> (dir_of m jid)\<lparr>jd_stdout := Some (sp_file (lj_stdout j)), jd_stderr := Some (sp_file (lj_stderr j))\<rparr>)\<rparr>"

text \<open>The last part of \<open>run\<close>, up to the release of \<open>m.mu\<close>; the deferred closes follow in \<open>run_close\<close>.\<close>

definition run_finish :: "(string \<Rightarrow> nat \<times> bool) \<Rightarrow> bool \<Rightarrow> int \<Rightarrow> awaited \<Rightarrow> string \<Rightarrow> manager \<Rightarrow> manager" where
  "run_finish disk persisted now a jid m =
     (case mg_objects m jid of
        None \<Rightarrow> m
      | Some j0 \<Rightarrow>
          let (r, j1) = awaitSession disk a j0;
              j2 = j1\<lparr>lj_stdout := spool_Close (lj_stdout j1), lj_stderr := spool_Close (lj_stderr j1)\<rparr>;
              j3 = j2\<lparr>lj_record := settle_record now r j2\<rparr>;
              m1 = persistRecord persisted (lj_record j3) (put_object jid j3 m)
          in m1\<lparr>mg_jobs := mg_jobs m1 - {jr_jobID (lj_record j3)}\<rparr>)"

definition run_close :: "string \<Rightarrow> manager \<Rightarrow> manager" where
  "run_close jid m = (case mg_objects m jid of
     None \<Rightarrow> m
   | Some j \<Rightarrow> m\<lparr>mg_objects := (mg_objects m)(jid \<mapsto> j\<lparr>lj_closed := True, lj_ctx := (if lj_ctx j = None then Some Canceled else lj_ctx j)\<rparr>)\<rparr>)"

section \<open>Polling\<close>

text \<open>\<open>m1\<close> is the state when the record is found, \<open>m2\<close> the state when it is asked whether the job lives.\<close>

definition manager_Poll :: "manager \<Rightarrow> manager \<Rightarrow> request \<Rightarrow> hr_result" where
  "manager_Poll m1 m2 req0 =
     (let req = req0\<lparr>rq_operation := OperationPoll\<rparr>; res = baseResult req in
      case findRecord m1 (rq_jobID req) of
        None \<Rightarrow> failResult ''jobNotFound'' False res
      | Some r \<Rightarrow>
          if rq_jobGeneration req \<noteq> 0 \<and> rq_jobGeneration req \<noteq> jr_generation r then failResult ''staleGeneration'' False res
          else if jr_binding r \<noteq> rq_binding req then failResult ''bindingMismatch'' False res
          else record_result m2 req (if jr_outcome r = OutcomeRunning \<and> jr_jobID r \<notin> mg_jobs m2 then r\<lparr>jr_outcome := OutcomeAmbiguous\<rparr> else r))"

section \<open>Standard input\<close>

datatype admitted_input = Rejected hr_result | Replayed hr_result | Admitted string "64 word" string string

text \<open>The checks of \<open>WriteStdin\<close>, made with \<open>m.mu\<close> and the input lock of the job held.\<close>

definition stdin_admit :: "manager \<Rightarrow> request \<Rightarrow> admitted_input" where
  "stdin_admit m req0 =
     (let req = req0\<lparr>rq_operation := OperationStdin\<rparr>; res = baseResult req; fail = (\<lambda>code retry. Rejected (failResult code retry res)) in
      case rq_input req of
        None \<Rightarrow> fail ''invalidRequest'' False
      | Some c \<Rightarrow>
          if ic_encoding c \<noteq> ''base64'' then fail ''unsupported'' False
          else case b64_decode (ic_data c) of
            None \<Rightarrow> fail ''invalidRequest'' False
          | Some data \<Rightarrow>
              if digestBytes data \<noteq> ic_digest c then fail ''invalidRequest'' False
              else case live_record m (rq_jobID req) of
                None \<Rightarrow> fail ''unavailable'' True
              | Some r \<Rightarrow>
                  if rq_jobGeneration req \<noteq> jr_generation r then fail ''staleGeneration'' False
                  else if jr_binding r \<noteq> rq_binding req then fail ''bindingMismatch'' False
                  else if lm_stdinBytes (jr_limits r) \<le> 0 \<or> jr_stdinBytes r + int (length data) > lm_stdinBytes (jr_limits r) then fail ''outputLimit'' False
                  else case map_of (jr_inputDigests r) (ic_sequence c) of
                    Some prior \<Rightarrow>
                      if prior \<noteq> ic_digest c then fail ''bindingMismatch'' False
                      else Replayed (res\<lparr>rs_outcome := OutcomeRunning, rs_acceptedInput := Some (ic_sequence c)\<rparr>)
                  | None \<Rightarrow>
                      if ic_sequence c \<noteq> of_nat (length (jr_inputDigests r) + 1) then fail ''invalidRequest'' False
                      else Admitted (rq_jobID req) (ic_sequence c) data (ic_digest c))"

text \<open>
  The pipe takes a chunk, then the second section records it. A write that the close of the pipe cuts
  short is not told from one that was refused: the caller gets the same answer and nothing is recorded,
  so \<open>lj_stdin\<close> holds the chunks that the pipe took whole.
\<close>

definition stdin_write :: "string \<Rightarrow> string \<Rightarrow> manager \<Rightarrow> manager" where
  "stdin_write jid data m = (case mg_objects m jid of
     None \<Rightarrow> m | Some j \<Rightarrow> m\<lparr>mg_objects := (mg_objects m)(jid \<mapsto> j\<lparr>lj_stdin := lj_stdin j @ data\<rparr>)\<rparr>)"

definition stdin_commit :: "bool \<Rightarrow> string \<Rightarrow> 64 word \<Rightarrow> string \<Rightarrow> string \<Rightarrow> manager \<Rightarrow> manager" where
  "stdin_commit persisted jid sq data digest m =
     (case mg_objects m jid of
        None \<Rightarrow> m
      | Some j \<Rightarrow>
          let r = (lj_record j)\<lparr>jr_inputDigests := jr_inputDigests (lj_record j) @ [(sq, digest)],
                    jr_stdinBytes := jr_stdinBytes (lj_record j) + int (length data)\<rparr>
          in persistRecord persisted r (m\<lparr>mg_objects := (mg_objects m)(jid \<mapsto> j\<lparr>lj_record := r\<rparr>)\<rparr>))"

text \<open>The answer after the write: the pipe was closed, or the chunk is recorded.\<close>

definition stdin_result :: "bool \<Rightarrow> request \<Rightarrow> 64 word \<Rightarrow> hr_result" where
  "stdin_result closed req0 sq =
     (let res = baseResult (req0\<lparr>rq_operation := OperationStdin\<rparr>) in
      if closed then failResult ''unavailable'' False res else res\<lparr>rs_outcome := OutcomeRunning, rs_acceptedInput := Some sq\<rparr>)"

section \<open>Signals and cancellation\<close>

datatype stop_answer = StopAnswered hr_result | StopWaits string

text \<open>The first section of \<open>stop\<close>: an answer, or the context is cancelled and the caller waits for the job.\<close>

definition stop_request :: "request \<Rightarrow> manager \<Rightarrow> stop_answer \<times> manager" where
  "stop_request req m =
     (let res = baseResult req; jid = rq_jobID req in
      case (jid \<in> mg_jobs m, mg_objects m jid) of
        (True, Some j) \<Rightarrow>
          if rq_jobGeneration req \<noteq> jr_generation (lj_record j) then (StopAnswered (failResult ''staleGeneration'' False res), m)
          else if jr_binding (lj_record j) \<noteq> rq_binding req then (StopAnswered (failResult ''bindingMismatch'' False res), m)
          else (StopWaits jid, m\<lparr>mg_objects := (mg_objects m)(jid \<mapsto> j\<lparr>lj_closed := True, lj_ctx := (if lj_ctx j = None then Some Canceled else lj_ctx j)\<rparr>)\<rparr>)
      | _ \<Rightarrow>
          (case loadRecord m jid of
             None \<Rightarrow> (StopAnswered (failResult ''jobNotFound'' False res), m)
           | Some r \<Rightarrow>
               if jr_binding r \<noteq> rq_binding req then (StopAnswered (failResult ''bindingMismatch'' False res), m)
               else (StopAnswered (record_result m req r), m)))"

definition stop_result :: "bool \<Rightarrow> manager \<Rightarrow> request \<Rightarrow> string \<Rightarrow> hr_result option" where
  "stop_result cancellation m req jid =
     map_option (\<lambda>j. let res = record_result m req (lj_record j) in if cancellation then res\<lparr>rs_outcome := OutcomeCancelled\<rparr> else res) (mg_objects m jid)"

definition portable_signal :: "string \<Rightarrow> bool" where
  "portable_signal s \<longleftrightarrow> s \<in> set [''interrupt'', ''terminate'', ''kill'']"

definition manager_Signal :: "request \<Rightarrow> manager \<Rightarrow> stop_answer \<times> manager" where
  "manager_Signal req0 m =
     (let req = req0\<lparr>rq_operation := OperationSignal\<rparr> in
      if \<not> portable_signal (rq_signal req) then (StopAnswered (failResult ''unsupported'' False (baseResult req)), m) else stop_request req m)"

definition manager_Cancel :: "request \<Rightarrow> manager \<Rightarrow> stop_answer \<times> manager" where
  "manager_Cancel req0 m = stop_request (req0\<lparr>rq_operation := OperationCancel\<rparr>) m"

section \<open>Dispatch\<close>

datatype handler = ToPreflight | ToExecute | ToStart | ToPoll | ToWriteStdin | ToSignal | ToCancel | Refused hr_result

definition manager_Handle :: "request \<Rightarrow> handler" where
  "manager_Handle req =
     (case rq_operation req of
        OperationPreflight \<Rightarrow> ToPreflight | OperationExecute \<Rightarrow> ToExecute | OperationStart \<Rightarrow> ToStart | OperationPoll \<Rightarrow> ToPoll
      | OperationStdin \<Rightarrow> ToWriteStdin | OperationSignal \<Rightarrow> ToSignal | OperationCancel \<Rightarrow> ToCancel
      | UnknownOperation _ \<Rightarrow> Refused (failResult ''unsupported'' False (baseResult req)))"

text \<open>A request that the decoder lets through is never refused by the dispatch.\<close>

lemma decoded_is_handled:
  "DecodeRequest decoded rest = Inr req \<Longrightarrow> \<forall>res. manager_Handle req \<noteq> Refused res"
  by (auto simp: DecodeRequest_def validOperation_def manager_Handle_def split: option.splits if_splits trailing.splits operation.splits)

end
