(* ===== verification/Hr_Manager_Laws.thy ===== *)
theory Hr_Manager_Laws
  imports Hr_Manager
begin

text \<open>
  The turns of a supervisor: requests arrive, sessions write and end, contexts expire, writers of standard
  input come and go, in any order. \<open>hr_step\<close> is one turn; every critical section of \<open>m.mu\<close> is one turn, and
  the input lock of a job is held by the writer in \<open>wd_writers\<close>. \<open>world_ok\<close> is what every turn keeps.
\<close>

section \<open>Turns\<close>

text \<open>A writer of standard input: its chunk, and whether the pipe has taken it.\<close>

record writer =
  wr_sequence :: "64 word"
  wr_data :: string
  wr_digest :: string
  wr_taken :: bool

record world =
  wd_manager :: manager
  wd_running :: "string set"
  wd_closing :: "string set"
  wd_writers :: "string \<rightharpoonup> writer"
  wd_started :: "string list"

definition set_ctx :: "string \<Rightarrow> ctx_error \<Rightarrow> manager \<Rightarrow> manager" where
  "set_ctx jid c m = (case mg_objects m jid of
     None \<Rightarrow> m | Some j \<Rightarrow> if lj_ctx j = None then m\<lparr>mg_objects := (mg_objects m)(jid \<mapsto> j\<lparr>lj_ctx := Some c\<rparr>)\<rparr> else m)"

definition ctx_ended :: "manager \<Rightarrow> string \<Rightarrow> bool" where
  "ctx_ended m jid = (case mg_objects m jid of None \<Rightarrow> False | Some j \<Rightarrow> lj_ctx j \<noteq> None)"

inductive hr_step :: "hr_env \<Rightarrow> (claims \<Rightarrow> string option) \<Rightarrow> world \<Rightarrow> world \<Rightarrow> bool" for E enc where
  begun: "begin_job E enc flt now req (wd_manager w) = (Started jid res, m) \<Longrightarrow>
    hr_step E enc w (w\<lparr>wd_manager := m, wd_running := insert jid (wd_running w), wd_started := wd_started w @ [jid]\<rparr>)"
| answered: "begin_job E enc flt now req (wd_manager w) = (Answered res, m) \<Longrightarrow> hr_step E enc w (w\<lparr>wd_manager := m\<rparr>)"
| output_out: "jid \<in> wd_running w \<Longrightarrow> mg_objects (wd_manager w) jid = Some j \<Longrightarrow> sane_disk disk \<Longrightarrow>
    hr_step E enc w (w\<lparr>wd_manager := put_object jid (j\<lparr>lj_stdout := snd (spool_Write disk v (lj_stdout j))\<rparr>) (wd_manager w)\<rparr>)"
| output_err: "jid \<in> wd_running w \<Longrightarrow> mg_objects (wd_manager w) jid = Some j \<Longrightarrow> sane_disk disk \<Longrightarrow>
    hr_step E enc w (w\<lparr>wd_manager := put_object jid (j\<lparr>lj_stderr := snd (spool_Write disk v (lj_stderr j))\<rparr>) (wd_manager w)\<rparr>)"
| context_ends: "jid \<in> wd_running w \<Longrightarrow> hr_step E enc w (w\<lparr>wd_manager := set_ctx jid c (wd_manager w)\<rparr>)"
| finished: "jid \<in> wd_running w \<Longrightarrow> sane_disk disk \<Longrightarrow> (a = SessionAbandoned \<longrightarrow> ctx_ended (wd_manager w) jid) \<Longrightarrow>
    hr_step E enc w (w\<lparr>wd_manager := run_finish disk persisted now a jid (wd_manager w),
      wd_running := wd_running w - {jid}, wd_closing := insert jid (wd_closing w)\<rparr>)"
| closed: "jid \<in> wd_closing w \<Longrightarrow>
    hr_step E enc w (w\<lparr>wd_manager := run_close jid (wd_manager w), wd_closing := wd_closing w - {jid}\<rparr>)"
| admitted: "stdin_admit (wd_manager w) req = Admitted jid sq data digest \<Longrightarrow> wd_writers w jid = None \<Longrightarrow>
    hr_step E enc w (w\<lparr>wd_writers := (wd_writers w)(jid \<mapsto> \<lparr>wr_sequence = sq, wr_data = data, wr_digest = digest, wr_taken = False\<rparr>)\<rparr>)"
| taken: "wd_writers w jid = Some wr \<Longrightarrow> \<not> wr_taken wr \<Longrightarrow> mg_objects (wd_manager w) jid = Some j \<Longrightarrow> \<not> lj_closed j \<Longrightarrow>
    hr_step E enc w (w\<lparr>wd_manager := stdin_write jid (wr_data wr) (wd_manager w), wd_writers := (wd_writers w)(jid \<mapsto> wr\<lparr>wr_taken := True\<rparr>)\<rparr>)"
| committed: "wd_writers w jid = Some wr \<Longrightarrow> wr_taken wr \<Longrightarrow>
    hr_step E enc w (w\<lparr>wd_manager := stdin_commit persisted jid (wr_sequence wr) (wr_data wr) (wr_digest wr) (wd_manager w),
      wd_writers := (wd_writers w)(jid := None)\<rparr>)"
| dropped: "wd_writers w jid = Some wr \<Longrightarrow> \<not> wr_taken wr \<Longrightarrow> mg_objects (wd_manager w) jid = Some j \<Longrightarrow> lj_closed j \<Longrightarrow>
    hr_step E enc w (w\<lparr>wd_writers := (wd_writers w)(jid := None)\<rparr>)"
| stopped: "stop_request req (wd_manager w) = (ans, m) \<Longrightarrow> hr_step E enc w (w\<lparr>wd_manager := m\<rparr>)"

text \<open>A fresh supervisor over the job directories an earlier one left.\<close>

definition fresh_world :: "manager \<Rightarrow> world \<Rightarrow> bool" where
  "fresh_world m w \<longleftrightarrow> mg_objects m = Map.empty \<and> mg_jobs m = {} \<and>
     w = \<lparr>wd_manager = m, wd_running = {}, wd_closing = {}, wd_writers = Map.empty, wd_started = []\<rparr>"

inductive hr_reachable :: "hr_env \<Rightarrow> (claims \<Rightarrow> string option) \<Rightarrow> world \<Rightarrow> bool" for E enc where
  fresh: "fresh_world m w \<Longrightarrow> hr_reachable E enc w"
| turn: "hr_reachable E enc w \<Longrightarrow> hr_step E enc w w' \<Longrightarrow> hr_reachable E enc w'"

section \<open>What a job keeps\<close>

text \<open>The chunks recorded so far, in order, and the writer at the pipe.\<close>

definition stdin_ok :: "live_job \<Rightarrow> writer option \<Rightarrow> bool" where
  "stdin_ok j wo \<longleftrightarrow> (let r = lj_record j; n = length (jr_inputDigests r) in
     map fst (jr_inputDigests r) = map of_nat [1..<Suc n] \<and>
     (\<exists>chunks. map digestBytes chunks = map snd (jr_inputDigests r) \<and> jr_stdinBytes r = int (length (concat chunks)) \<and>
        lj_stdin j = concat chunks @ (case wo of Some wr \<Rightarrow> if wr_taken wr then wr_data wr else [] | None \<Rightarrow> [])) \<and>
     (jr_inputDigests r \<noteq> [] \<longrightarrow> jr_stdinBytes r \<le> lm_stdinBytes (jr_limits r)) \<and>
     (\<forall>wr. wo = Some wr \<longrightarrow> wr_sequence wr = of_nat (Suc n) \<and> digestBytes (wr_data wr) = wr_digest wr \<and>
        jr_stdinBytes r + int (length (wr_data wr)) \<le> lm_stdinBytes (jr_limits r)))"

definition ended :: "job_record \<Rightarrow> bool" where
  "ended r \<longleftrightarrow> jr_outcome r \<in> {OutcomeCompleted, OutcomeCancelled, OutcomeTimedOut} \<and> jr_finishedAt r \<noteq> None \<and> jr_exitCode r \<noteq> None"

definition underway :: "job_record \<Rightarrow> bool" where
  "underway r \<longleftrightarrow> jr_outcome r = OutcomeRunning \<and> jr_finishedAt r = None \<and> jr_exitCode r = None"

definition job_ok :: "string \<Rightarrow> bool \<Rightarrow> writer option \<Rightarrow> live_job \<Rightarrow> bool" where
  "job_ok jid running wo j \<longleftrightarrow> jr_jobID (lj_record j) = jid \<and> in_complete (jr_intent (lj_record j)) \<and>
     jr_intentDigest (lj_record j) = in_digest (jr_intent (lj_record j)) \<and>
     spool_ok (lj_stdout j) \<and> spool_ok (lj_stderr j) \<and>
     sp_limit (lj_stdout j) = lm_stdoutBytes (jr_limits (lj_record j)) \<and> sp_limit (lj_stderr j) = lm_stderrBytes (jr_limits (lj_record j)) \<and>
     (if running then underway (lj_record j) else ended (lj_record j)) \<and> stdin_ok j wo"

definition world_ok :: "world \<Rightarrow> bool" where
  "world_ok w \<longleftrightarrow> distinct (wd_started w) \<and> wd_running w \<subseteq> set (wd_started w) \<and> mg_jobs (wd_manager w) = wd_running w \<and>
     dom (mg_objects (wd_manager w)) = set (wd_started w) \<and> set (wd_started w) \<subseteq> dom (mg_disk (wd_manager w)) \<and>
     dom (wd_writers w) \<subseteq> set (wd_started w) \<and>
     (\<forall>jid j. mg_objects (wd_manager w) jid = Some j \<longrightarrow> job_ok jid (jid \<in> wd_running w) (wd_writers w jid) j)"

text \<open>A turn that replaces the object of one job, keeps the ids and may write to the disk.\<close>

lemma world_ok_object:
  assumes w: "world_ok w" and j: "mg_objects (wd_manager w) jid = Some j"
    and objects: "mg_objects m = (mg_objects (wd_manager w))(jid \<mapsto> j')"
    and jobs: "mg_jobs m = run" and run: "run = wd_running w \<or> run = wd_running w - {jid}"
    and disk: "dom (mg_disk (wd_manager w)) \<subseteq> dom (mg_disk m)"
    and writers: "wrs = wd_writers w \<or> (\<exists>x. wrs = (wd_writers w)(jid := x))"
    and ok: "job_ok jid (jid \<in> run) (wrs jid) j'"
  shows "world_ok (w\<lparr>wd_manager := m, wd_running := run, wd_closing := c, wd_writers := wrs\<rparr>)"
proof -
  have s: "jid \<in> set (wd_started w)" using w j by (auto simp: world_ok_def)
  have others: "job_ok k (k \<in> run) (wrs k) i" if "mg_objects (wd_manager w) k = Some i" "k \<noteq> jid" for k i
    using w that run writers by (auto simp: world_ok_def)
  have "dom wrs \<subseteq> insert jid (dom (wd_writers w))" using writers by (auto split: if_splits)
  then have "dom wrs \<subseteq> set (wd_started w)" by (rule subset_trans) (use w s in \<open>simp add: world_ok_def\<close>)
  moreover have "dom (mg_objects m) = set (wd_started w)" using w s by (auto simp: world_ok_def objects)
  moreover have "run \<subseteq> set (wd_started w)" using w run by (auto simp: world_ok_def)
  moreover have "set (wd_started w) \<subseteq> dom (mg_disk m)" by (rule subset_trans [OF _ disk]) (use w in \<open>simp add: world_ok_def\<close>)
  moreover have "distinct (wd_started w)" using w by (simp add: world_ok_def)
  ultimately show ?thesis using ok others jobs by (auto simp: world_ok_def objects)
qed

lemma world_ok_object_end:
  assumes w: "world_ok w" and j: "mg_objects (wd_manager w) jid = Some j"
    and "mg_objects m = (mg_objects (wd_manager w))(jid \<mapsto> j')" "mg_jobs m = wd_running w - {jid}"
    "dom (mg_disk (wd_manager w)) \<subseteq> dom (mg_disk m)" "job_ok jid False (wd_writers w jid) j'"
  shows "world_ok (w\<lparr>wd_manager := m, wd_running := wd_running w - {jid}, wd_closing := c\<rparr>)"
proof -
  have "world_ok (w\<lparr>wd_manager := m, wd_running := wd_running w - {jid}, wd_closing := c, wd_writers := wd_writers w\<rparr>)"
    by (rule world_ok_object [OF w j assms(3,4)]) (use assms in simp_all)
  then show ?thesis by (cases w) simp
qed

lemma dir_dom: "dom (mg_disk (persistRecord p r m)) = (if p then insert (jr_jobID r) (dom (mg_disk m)) else dom (mg_disk m))"
  "mg_objects (persistRecord p r m) = mg_objects m" "mg_jobs (persistRecord p r m) = mg_jobs m"
  "dom (mg_disk (put_object jid j m)) = insert jid (dom (mg_disk m))" "mg_objects (put_object jid j m) = (mg_objects m)(jid \<mapsto> j)"
  "mg_jobs (put_object jid j m) = mg_jobs m"
  by (auto simp: persistRecord_def put_object_def split: if_splits)

lemma world_ok_manager:
  assumes "world_ok w" "mg_objects m = mg_objects (wd_manager w)" "mg_jobs m = mg_jobs (wd_manager w)"
    "dom (mg_disk (wd_manager w)) \<subseteq> dom (mg_disk m)"
  shows "world_ok (w\<lparr>wd_manager := m\<rparr>)"
proof -
  have "set (wd_started w) \<subseteq> dom (mg_disk (wd_manager w))" using assms(1) by (simp add: world_ok_def)
  then have "set (wd_started w) \<subseteq> dom (mg_disk m)" using assms(4) by (rule subset_trans)
  with assms(1-3) show ?thesis by (simp add: world_ok_def)
qed

lemma world_ok_job: "world_ok w \<Longrightarrow> mg_objects (wd_manager w) jid = Some j \<Longrightarrow> job_ok jid (jid \<in> wd_running w) (wd_writers w jid) j"
  by (simp add: world_ok_def)

lemma world_ok_live: "world_ok w \<Longrightarrow> live_record (wd_manager w) jid = Some r \<Longrightarrow>
    jid \<in> wd_running w \<and> (\<exists>j. mg_objects (wd_manager w) jid = Some j \<and> lj_record j = r)"
  by (auto simp: live_record_def world_ok_def split: if_splits)

lemma world_ok_started: "world_ok w \<Longrightarrow> jid \<in> set (wd_started w) \<Longrightarrow> \<exists>j. mg_objects (wd_manager w) jid = Some j"
  by (auto simp: world_ok_def dom_def)

section \<open>Every turn keeps it\<close>

lemma authorizedIntent_Inr:
  "authorizedIntent E enc key now req = Inr it \<longleftrightarrow>
     (\<exists>au. rq_authorization req = Some au \<and> signJSON key (enc (au_claims au)) = Some (au_token au) \<and>
        (\<forall>t. cl_expiresAt (au_claims au) = Some t \<longrightarrow> now < t) \<and> cl_binding (au_claims au) = rq_binding req \<and>
        request_intent E key req = Inr it \<and> in_complete it \<and> in_digest it = rq_intentDigest req \<and>
        in_digest it = cl_intentDigest (au_claims au))"
  by (auto simp: authorizedIntent_def verifyJSON_def split: option.splits sum.splits if_splits)

lemma reserve_Some:
  assumes "reserve flt now req it jid m = (Some j, m')"
  shows "mg_disk m jid = None" "mg_objects m' = mg_objects m" "mg_jobs m' = mg_jobs m" "dom (mg_disk m') = insert jid (dom (mg_disk m))"
    "j = \<lparr>lj_record = new_record now req it jid, lj_ctx = None, lj_stdin = [], lj_closed = False,
       lj_stdout = newBoundedSpool (lm_stdoutBytes (rq_limits req)), lj_stderr = newBoundedSpool (lm_stderrBytes (rq_limits req))\<rparr>"
  using assms by (auto simp: reserve_def Let_def split: if_splits reserve_fault.splits)

lemma reserve_None:
  assumes "reserve flt now req it jid m = (None, m')"
  shows "mg_objects m' = mg_objects m" "mg_jobs m' = mg_jobs m" "dom (mg_disk m) \<subseteq> dom (mg_disk m')"
  using assms by (auto simp: reserve_def Let_def split: if_splits reserve_fault.splits)

text \<open>A job starts only under a valid authorization of exactly its complete intent, under an id that has no directory.\<close>

lemma begin_Started:
  assumes "begin_job E enc flt now req m = (Started jid res, m')"
  obtains it au j m0 where "authorizedIntent E enc (mg_key m) now req = Inr it" "rq_authorization req = Some au"
    "jid = manager_jobID (mg_key m) (au_claims au)" "reserve flt now req it jid m = (Some j, m0)"
    "m' = m0\<lparr>mg_objects := (mg_objects m0)(jid \<mapsto> j), mg_jobs := insert jid (mg_jobs m0)\<rparr>"
proof -
  obtain it where it: "authorizedIntent E enc (mg_key m) now req = Inr it"
    using assms unfolding begin_job_def Let_def by (cases "authorizedIntent E enc (mg_key m) now req") auto
  then obtain au where au: "rq_authorization req = Some au" by (auto simp: authorizedIntent_Inr)
  note b = assms [unfolded begin_job_def Let_def it sum.case au option.sel]
  show thesis
    using b that [OF it au] by (auto split: option.splits prod.splits)
qed

lemma begin_Answered:
  assumes "begin_job E enc flt now req m = (Answered res, m')"
  shows "mg_objects m' = mg_objects m" "mg_jobs m' = mg_jobs m" "dom (mg_disk m) \<subseteq> dom (mg_disk m')"
  using assms reserve_None [of flt now req _ _ m m']
  by (auto simp: begin_job_def Let_def split: sum.splits option.splits prod.splits)

lemma new_job_ok:
  assumes "authorizedIntent E enc key now req = Inr it"
  shows "job_ok jid True None \<lparr>lj_record = new_record now req it jid, lj_ctx = None, lj_stdin = [], lj_closed = False,
       lj_stdout = newBoundedSpool (lm_stdoutBytes (rq_limits req)), lj_stderr = newBoundedSpool (lm_stderrBytes (rq_limits req))\<rparr>"
  using assms by (auto simp: job_ok_def new_record_def authorizedIntent_Inr spool_ok_new underway_def stdin_ok_def)
    (simp_all add: newBoundedSpool_def)

lemma keeps_begun:
  assumes w: "world_ok w" and b: "begin_job E enc flt now req (wd_manager w) = (Started jid res, m)"
  shows "world_ok (w\<lparr>wd_manager := m, wd_running := insert jid (wd_running w), wd_started := wd_started w @ [jid]\<rparr>)"
proof -
  obtain it au j m0 where it: "authorizedIntent E enc (mg_key (wd_manager w)) now req = Inr it"
    and r: "reserve flt now req it jid (wd_manager w) = (Some j, m0)"
    and m: "m = m0\<lparr>mg_objects := (mg_objects m0)(jid \<mapsto> j), mg_jobs := insert jid (mg_jobs m0)\<rparr>"
    using b by (rule begin_Started)
  note r = reserve_Some [OF r]
  have new: "jid \<notin> set (wd_started w)" using w r(1) by (auto simp: world_ok_def)
  then have wr: "wd_writers w jid = None" using w by (auto simp: world_ok_def)
  have "job_ok jid True None j" unfolding r(5) by (rule new_job_ok [OF it])
  then show ?thesis using w new wr r(2-4) m by (auto simp: world_ok_def)
qed

lemma stdin_ok_cong:
  assumes "jr_inputDigests (lj_record j') = jr_inputDigests (lj_record j)" "jr_stdinBytes (lj_record j') = jr_stdinBytes (lj_record j)"
    "jr_limits (lj_record j') = jr_limits (lj_record j)" "lj_stdin j' = lj_stdin j"
  shows "stdin_ok j' wo = stdin_ok j wo"
  unfolding stdin_ok_def Let_def assms by (rule refl)

text \<open>Turns that leave the record alone.\<close>

lemma job_ok_same_record:
  assumes "job_ok jid run wo j" "lj_record j' = lj_record j" "lj_stdin j' = lj_stdin j"
    "spool_ok (lj_stdout j')" "spool_ok (lj_stderr j')" "sp_limit (lj_stdout j') = sp_limit (lj_stdout j)" "sp_limit (lj_stderr j') = sp_limit (lj_stderr j)"
  shows "job_ok jid run wo j'"
  using assms stdin_ok_cong [of j' j wo] by (simp add: job_ok_def)

lemma keeps_object:
  assumes w: "world_ok w" and j: "mg_objects (wd_manager w) jid = Some j"
    and "mg_objects m = (mg_objects (wd_manager w))(jid \<mapsto> j')" "mg_jobs m = mg_jobs (wd_manager w)" "dom (mg_disk (wd_manager w)) \<subseteq> dom (mg_disk m)"
    and "lj_record j' = lj_record j" "lj_stdin j' = lj_stdin j" "spool_ok (lj_stdout j')" "spool_ok (lj_stderr j')"
    "sp_limit (lj_stdout j') = sp_limit (lj_stdout j)" "sp_limit (lj_stderr j') = sp_limit (lj_stderr j)"
  shows "world_ok (w\<lparr>wd_manager := m\<rparr>)"
proof -
  have "job_ok jid (jid \<in> wd_running w) (wd_writers w jid) j'"
    by (rule job_ok_same_record [OF world_ok_job [OF w j]]) (use assms in simp_all)
  then show ?thesis
    using world_ok_object [OF w j assms(3), of "wd_running w" "wd_writers w" "wd_closing w"] assms(4,5) w
    by (simp add: world_ok_def)
qed

lemma keeps_output:
  assumes w: "world_ok w" and j: "mg_objects (wd_manager w) jid = Some j" and d: "sane_disk disk"
  shows "world_ok (w\<lparr>wd_manager := put_object jid (j\<lparr>lj_stdout := snd (spool_Write disk v (lj_stdout j))\<rparr>) (wd_manager w)\<rparr>)"
    "world_ok (w\<lparr>wd_manager := put_object jid (j\<lparr>lj_stderr := snd (spool_Write disk v (lj_stderr j))\<rparr>) (wd_manager w)\<rparr>)"
proof -
  have ok: "spool_ok (lj_stdout j)" "spool_ok (lj_stderr j)" using world_ok_job [OF w j] by (simp_all add: job_ok_def)
  show "world_ok (w\<lparr>wd_manager := put_object jid (j\<lparr>lj_stdout := snd (spool_Write disk v (lj_stdout j))\<rparr>) (wd_manager w)\<rparr>)"
    by (rule keeps_object [OF w j dir_dom(5)]) (use ok d in \<open>auto simp: dir_dom spool_Write_ok spool_Write_fixed\<close>)
  show "world_ok (w\<lparr>wd_manager := put_object jid (j\<lparr>lj_stderr := snd (spool_Write disk v (lj_stderr j))\<rparr>) (wd_manager w)\<rparr>)"
    by (rule keeps_object [OF w j dir_dom(5)]) (use ok d in \<open>auto simp: dir_dom spool_Write_ok spool_Write_fixed\<close>)
qed

lemma keeps_ctx:
  assumes w: "world_ok w" and j: "mg_objects (wd_manager w) jid = Some j"
  shows "world_ok (w\<lparr>wd_manager := (wd_manager w)\<lparr>mg_objects := (mg_objects (wd_manager w))(jid \<mapsto> j\<lparr>lj_closed := b, lj_ctx := c\<rparr>)\<rparr>\<rparr>)"
proof -
  have ok: "spool_ok (lj_stdout j)" "spool_ok (lj_stderr j)" using world_ok_job [OF w j] by (simp_all add: job_ok_def)
  show ?thesis
    by (rule keeps_object [OF w j, where j' = "j\<lparr>lj_closed := b, lj_ctx := c\<rparr>"]) (use ok in simp_all)
qed

lemma keeps_stop:
  assumes w: "world_ok w" and s: "stop_request req (wd_manager w) = (ans, m)"
  shows "world_ok (w\<lparr>wd_manager := m\<rparr>)"
proof -
  have "m = wd_manager w \<or> (\<exists>jid j c. mg_objects (wd_manager w) jid = Some j \<and>
      m = (wd_manager w)\<lparr>mg_objects := (mg_objects (wd_manager w))(jid \<mapsto> j\<lparr>lj_closed := True, lj_ctx := c\<rparr>)\<rparr>)"
    using s by (auto simp: stop_request_def Let_def split: if_splits option.splits prod.splits bool.splits)
  then show ?thesis using keeps_ctx [OF w] w by auto
qed

text \<open>The end of a run settles the record and leaves standard input as it is.\<close>

lemma awaitSession_keeps:
  assumes "awaitSession disk a j = (r, j')" "sane_disk disk" "spool_ok (lj_stdout j)" "spool_ok (lj_stderr j)"
  shows "lj_record j' = lj_record j" "lj_stdin j' = lj_stdin j" "lj_ctx j' = lj_ctx j" "lj_stdout j' = lj_stdout j"
    "spool_ok (lj_stderr j')" "sp_limit (lj_stderr j') = sp_limit (lj_stderr j)"
  using assms spool_Write_ok spool_Write_fixed by (auto simp: awaitSession_def split: awaited.splits)

lemma spool_Close_keeps [simp]: "spool_ok (spool_Close s) = spool_ok s" "sp_limit (spool_Close s) = sp_limit s" "sp_file (spool_Close s) = sp_file s"
  by (simp_all add: spool_ok_def spool_Close_def)

lemma settle_record_keeps [simp]:
  "jr_jobID (settle_record now r j) = jr_jobID (lj_record j)" "jr_intent (settle_record now r j) = jr_intent (lj_record j)"
  "jr_intentDigest (settle_record now r j) = jr_intentDigest (lj_record j)" "jr_limits (settle_record now r j) = jr_limits (lj_record j)"
  "jr_inputDigests (settle_record now r j) = jr_inputDigests (lj_record j)" "jr_stdinBytes (settle_record now r j) = jr_stdinBytes (lj_record j)"
  "ended (settle_record now r j)"
  by (simp_all add: settle_record_def ended_def final_outcome_def split: option.split ctx_error.split)

lemma keeps_finish:
  assumes w: "world_ok w" and run: "jid \<in> wd_running w" and d: "sane_disk disk"
  shows "world_ok (w\<lparr>wd_manager := run_finish disk persisted now a jid (wd_manager w), wd_running := wd_running w - {jid},
    wd_closing := insert jid (wd_closing w)\<rparr>)"
proof -
  have "jid \<in> set (wd_started w)" using w run by (auto simp: world_ok_def)
  then obtain j where j: "mg_objects (wd_manager w) jid = Some j" using world_ok_started [OF w] by blast
  obtain r j1 where a: "awaitSession disk a j = (r, j1)" by fastforce
  have ok: "job_ok jid True (wd_writers w jid) j" using world_ok_job [OF w j] run by simp
  have "spool_ok (lj_stdout j)" "spool_ok (lj_stderr j)" using ok by (simp_all add: job_ok_def)
  note aw = awaitSession_keeps [OF a d this]
  let ?j2 = "j1\<lparr>lj_stdout := spool_Close (lj_stdout j1), lj_stderr := spool_Close (lj_stderr j1)\<rparr>"
  let ?j3 = "?j2\<lparr>lj_record := settle_record now r ?j2\<rparr>"
  have "stdin_ok ?j3 (wd_writers w jid) = stdin_ok j (wd_writers w jid)"
    by (rule stdin_ok_cong) (simp_all add: aw)
  then have "job_ok jid False (wd_writers w jid) ?j3" using ok aw by (simp add: job_ok_def)
  moreover have name: "jr_jobID (lj_record ?j3) = jid" using ok aw by (simp add: job_ok_def)
  moreover have "run_finish disk persisted now a jid (wd_manager w) =
      (persistRecord persisted (lj_record ?j3) (put_object jid ?j3 (wd_manager w)))\<lparr>mg_jobs := wd_running w - {jid}\<rparr>"
    using w name by (simp add: run_finish_def j a Let_def dir_dom world_ok_def)
  ultimately show ?thesis
    by (intro world_ok_object_end [OF w j, of _ ?j3]) (auto simp: dir_dom)
qed

lemma keeps_close:
  assumes w: "world_ok w"
  shows "world_ok (w\<lparr>wd_manager := run_close jid (wd_manager w), wd_closing := c\<rparr>)"
proof -
  have k: "world_ok w' \<Longrightarrow> world_ok (w'\<lparr>wd_closing := c\<rparr>)" for w' by (simp add: world_ok_def)
  show ?thesis
    using k [OF keeps_ctx [OF w]] k [OF w] by (simp add: run_close_def split: option.split)
qed

lemma keeps_set_ctx:
  assumes w: "world_ok w" shows "world_ok (w\<lparr>wd_manager := set_ctx jid c (wd_manager w)\<rparr>)"
proof (cases "mg_objects (wd_manager w) jid")
  case (Some j)
  have "world_ok (w\<lparr>wd_manager := (wd_manager w)\<lparr>mg_objects := (mg_objects (wd_manager w))(jid \<mapsto> j\<lparr>lj_ctx := Some c\<rparr>)\<rparr>\<rparr>)"
    by (rule keeps_object [OF w Some, where j' = "j\<lparr>lj_ctx := Some c\<rparr>"]) (use world_ok_job [OF w Some] in \<open>simp_all add: job_ok_def\<close>)
  then show ?thesis using Some w by (simp add: set_ctx_def)
qed (use w in \<open>simp add: set_ctx_def\<close>)

section \<open>Standard input, turn by turn\<close>

text \<open>What \<open>stdin_admit\<close> lets through.\<close>

lemma stdin_admit_Admitted:
  assumes "stdin_admit m req = Admitted jid sq data digest"
  obtains c r where "rq_input req = Some c" "ic_encoding c = ''base64''" "b64_decode (ic_data c) = Some data" "digestBytes data = digest"
    "ic_digest c = digest" "ic_sequence c = sq" "rq_jobID req = jid" "live_record m jid = Some r" "rq_jobGeneration req = jr_generation r"
    "jr_binding r = rq_binding req" "0 < lm_stdinBytes (jr_limits r)" "jr_stdinBytes r + int (length data) \<le> lm_stdinBytes (jr_limits r)"
    "map_of (jr_inputDigests r) sq = None" "sq = of_nat (length (jr_inputDigests r) + 1)"
proof (cases "rq_input req")
  case None
  with assms show thesis by (simp add: stdin_admit_def Let_def)
next
  case c: (Some c)
  show thesis
  proof (cases "b64_decode (ic_data c)")
    case None
    with assms c show thesis by (simp add: stdin_admit_def Let_def split: if_split_asm)
  next
    case d: (Some d)
    show thesis
    proof (cases "live_record m (rq_jobID req)")
      case None
      with assms c d show thesis by (simp add: stdin_admit_def Let_def split: if_split_asm)
    next
      case r: (Some r)
      show thesis
      proof (cases "map_of (jr_inputDigests r) (ic_sequence c)")
        case None
        with assms c d r show thesis by (intro that [of c r]) (simp_all add: stdin_admit_def Let_def split: if_split_asm)
      next
        case (Some p)
        with assms c d r show thesis by (simp add: stdin_admit_def Let_def split: if_split_asm)
      qed
    qed
  qed
qed

lemma world_ok_writers:
  assumes w: "world_ok w" and j: "mg_objects (wd_manager w) jid = Some j" and ok: "job_ok jid (jid \<in> wd_running w) x j"
  shows "world_ok (w\<lparr>wd_writers := (wd_writers w)(jid := x)\<rparr>)"
proof -
  have "world_ok (w\<lparr>wd_manager := wd_manager w, wd_running := wd_running w, wd_closing := wd_closing w, wd_writers := (wd_writers w)(jid := x)\<rparr>)"
    by (rule world_ok_object [OF w j, of _ j]) (use w ok j in \<open>auto simp: world_ok_def fun_upd_idem\<close>)
  then show ?thesis by (cases w) simp
qed

lemma keeps_admit:
  assumes w: "world_ok w" and a: "stdin_admit (wd_manager w) req = Admitted jid sq data digest" and free: "wd_writers w jid = None"
  shows "world_ok (w\<lparr>wd_writers := (wd_writers w)(jid \<mapsto> \<lparr>wr_sequence = sq, wr_data = data, wr_digest = digest, wr_taken = False\<rparr>)\<rparr>)"
proof -
  obtain r where r: "live_record (wd_manager w) jid = Some r" "digestBytes data = digest" "sq = of_nat (length (jr_inputDigests r) + 1)"
      "jr_stdinBytes r + int (length data) \<le> lm_stdinBytes (jr_limits r)"
    using a by (rule stdin_admit_Admitted) blast
  obtain j where j: "mg_objects (wd_manager w) jid = Some j" "lj_record j = r" using world_ok_live [OF w r(1)] by blast
  have "job_ok jid (jid \<in> wd_running w) None j" using world_ok_job [OF w j(1)] free by simp
  then have "job_ok jid (jid \<in> wd_running w) (Some \<lparr>wr_sequence = sq, wr_data = data, wr_digest = digest, wr_taken = False\<rparr>) j"
    using r(2-) j(2) by (cases "jid \<in> wd_running w") (simp_all add: job_ok_def stdin_ok_def Let_def)
  then show ?thesis by (rule world_ok_writers [OF w j(1)])
qed

lemma keeps_take:
  assumes w: "world_ok w" and wr: "wd_writers w jid = Some wr" "\<not> wr_taken wr" and j: "mg_objects (wd_manager w) jid = Some j"
  shows "world_ok (w\<lparr>wd_manager := stdin_write jid (wr_data wr) (wd_manager w), wd_writers := (wd_writers w)(jid \<mapsto> wr\<lparr>wr_taken := True\<rparr>)\<rparr>)"
proof -
  let ?j = "j\<lparr>lj_stdin := lj_stdin j @ wr_data wr\<rparr>"
  have ok: "job_ok jid (jid \<in> wd_running w) (Some wr) j" using world_ok_job [OF w j] wr(1) by simp
  then have "stdin_ok ?j (Some (wr\<lparr>wr_taken := True\<rparr>))"
    using wr(2) by (fastforce simp: job_ok_def stdin_ok_def Let_def)
  with ok have "job_ok jid (jid \<in> wd_running w) (Some (wr\<lparr>wr_taken := True\<rparr>)) ?j" by (simp add: job_ok_def)
  then show ?thesis
    using world_ok_object [OF w j, of "stdin_write jid (wr_data wr) (wd_manager w)" ?j "wd_running w" "(wd_writers w)(jid \<mapsto> wr\<lparr>wr_taken := True\<rparr>)" "wd_closing w"] w j
    by (auto simp: stdin_write_def world_ok_def)
qed

lemma stdin_ok_commit:
  assumes ok: "stdin_ok j (Some wr)" and t: "wr_taken wr"
    and r: "r = (lj_record j)\<lparr>jr_inputDigests := jr_inputDigests (lj_record j) @ [(wr_sequence wr, wr_digest wr)],
      jr_stdinBytes := jr_stdinBytes (lj_record j) + int (length (wr_data wr))\<rparr>"
  shows "stdin_ok (j\<lparr>lj_record := r\<rparr>) None"
proof -
  obtain chunks where c: "map digestBytes chunks = map snd (jr_inputDigests (lj_record j))"
      "jr_stdinBytes (lj_record j) = int (length (concat chunks))" "lj_stdin j = concat chunks @ wr_data wr"
    using ok t by (auto simp: stdin_ok_def Let_def)
  have "\<exists>cs. map digestBytes cs = map snd (jr_inputDigests r) \<and> jr_stdinBytes r = int (length (concat cs)) \<and> lj_stdin j = concat cs"
    by (rule exI [of _ "chunks @ [wr_data wr]"]) (use ok c r in \<open>simp add: stdin_ok_def Let_def\<close>)
  then show ?thesis using ok by (simp add: stdin_ok_def Let_def r)
qed

lemma keeps_commit:
  assumes w: "world_ok w" and wr: "wd_writers w jid = Some wr" "wr_taken wr"
  shows "world_ok (w\<lparr>wd_manager := stdin_commit persisted jid (wr_sequence wr) (wr_data wr) (wr_digest wr) (wd_manager w),
    wd_writers := (wd_writers w)(jid := None)\<rparr>)"
proof -
  have "jid \<in> set (wd_started w)" using w wr(1) by (auto simp: world_ok_def)
  then obtain j where j: "mg_objects (wd_manager w) jid = Some j" using world_ok_started [OF w] by blast
  have ok: "job_ok jid (jid \<in> wd_running w) (Some wr) j" using world_ok_job [OF w j] wr(1) by simp
  let ?r = "(lj_record j)\<lparr>jr_inputDigests := jr_inputDigests (lj_record j) @ [(wr_sequence wr, wr_digest wr)],
      jr_stdinBytes := jr_stdinBytes (lj_record j) + int (length (wr_data wr))\<rparr>"
  let ?j = "j\<lparr>lj_record := ?r\<rparr>"
  have "stdin_ok ?j None" by (rule stdin_ok_commit [OF _ wr(2) refl]) (use ok in \<open>simp add: job_ok_def\<close>)
  with ok have "job_ok jid (jid \<in> wd_running w) None ?j"
    by (cases "jid \<in> wd_running w") (simp_all add: job_ok_def underway_def ended_def)
  then show ?thesis
    using world_ok_object [OF w j, of "stdin_commit persisted jid (wr_sequence wr) (wr_data wr) (wr_digest wr) (wd_manager w)" ?j "wd_running w"
        "(wd_writers w)(jid := None)" "wd_closing w"] w j
    by (auto simp: stdin_commit_def dir_dom world_ok_def Let_def)
qed

lemma keeps_drop:
  assumes w: "world_ok w" and wr: "wd_writers w jid = Some wr" "\<not> wr_taken wr" and j: "mg_objects (wd_manager w) jid = Some j"
  shows "world_ok (w\<lparr>wd_writers := (wd_writers w)(jid := None)\<rparr>)"
proof (rule world_ok_writers [OF w j])
  show "job_ok jid (jid \<in> wd_running w) None j"
    using world_ok_job [OF w j] wr by (simp add: job_ok_def stdin_ok_def Let_def)
qed

lemma hr_step_ok: "hr_step E enc w w' \<Longrightarrow> world_ok w \<Longrightarrow> world_ok w'"
proof (induction rule: hr_step.induct)
  case (answered flt now req w res m)
  then show ?case by (intro world_ok_manager) (simp_all add: begin_Answered)
qed (simp_all add: keeps_begun keeps_output keeps_set_ctx keeps_finish keeps_close keeps_admit keeps_take keeps_commit keeps_drop keeps_stop)

lemma hr_reachable_ok: "hr_reachable E enc w \<Longrightarrow> world_ok w"
proof (induction rule: hr_reachable.induct)
  case (turn w w')
  then show ?case by (blast intro: hr_step_ok)
qed (auto simp: fresh_world_def world_ok_def)

end
