(* ===== verification/Hr_Session.thy ===== *)
theory Hr_Session
  imports Hr_Refine
begin

text \<open>
  What \<open>run\<close> hands to the shell (\<open>manager.go\<close>): the environment in order, and the script, which for an
  argument list is its words in single quotes. A reader of POSIX quoting shows that the shell splits that
  script into the same arguments.
\<close>

definition quote_word :: "string \<Rightarrow> string" where
  "quote_word v = [CHR 0x27] @ concat (map (\<lambda>c. if c = CHR 0x27 then [CHR 0x27, CHR 0x5C, CHR 0x27, CHR 0x27] else [c]) v) @ [CHR 0x27]"

definition quoteArgv :: "string list \<Rightarrow> string" where
  "quoteArgv argv = join_words (map quote_word argv)"

definition session_environment :: "command \<Rightarrow> string list" where
  "session_environment cmd = sort (map (\<lambda>v. va_name v @ ''='' @ va_value v) (cm_environment cmd))"

definition session_script :: "command \<Rightarrow> string" where
  "session_script cmd = (if cm_script cmd = [] then quoteArgv (cm_argv cmd) else cm_script cmd)"

fun sessionAgentic :: "string list \<Rightarrow> bool" where
  "sessionAgentic [] = False"
| "sessionAgentic (kv # env) =
     (if has_prefix kv ''BASHY_AGENTIC='' then drop 14 kv = ''1'' \<or> equal_fold (drop 14 kv) ''true'' else sessionAgentic env)"

text \<open>
  Splitting into words by the quoting rules of the shell, without expansions: the word being read, if any, and
  whether a single quote is open. An open quote at the end is an error.
\<close>

definition grown_word :: "string option \<Rightarrow> string \<Rightarrow> string option" where
  "grown_word w s = Some (case w of None \<Rightarrow> s | Some x \<Rightarrow> x @ s)"

definition shell_blank :: "char \<Rightarrow> bool" where
  "shell_blank c \<longleftrightarrow> byte c \<in> set [9, 10, 32]"

fun shell_words :: "string option \<Rightarrow> bool \<Rightarrow> string \<Rightarrow> string list option" where
  "shell_words w True [] = None"
| "shell_words w False [] = Some (case w of None \<Rightarrow> [] | Some x \<Rightarrow> [x])"
| "shell_words w True (c # s) = (if c = CHR 0x27 then shell_words w False s else shell_words (grown_word w [c]) True s)"
| "shell_words w False (c # s) =
     (if c = CHR 0x27 then shell_words (grown_word w []) True s
      else if shell_blank c then (case w of None \<Rightarrow> shell_words None False s | Some x \<Rightarrow> map_option ((#) x) (shell_words None False s))
      else if c = CHR 0x5C then (case s of [] \<Rightarrow> shell_words (grown_word w [c]) False [] | d # s' \<Rightarrow> shell_words (grown_word w [d]) False s')
      else shell_words (grown_word w [c]) False s)"

lemma grown_word_append [simp]: "grown_word (grown_word w a) b = grown_word w (a @ b)"
  by (simp add: grown_word_def split: option.split)

lemma grown_word_Some [simp]: "grown_word (Some x) s = Some (x @ s)"
  by (simp add: grown_word_def)

lemma shell_blank_quote [simp]: "\<not> shell_blank (CHR 0x5C)" "\<not> shell_blank (CHR 0x27)" "shell_blank (CHR '' '')"
  by (simp_all add: shell_blank_def byte_def)

lemma shell_words_inside:
  "shell_words (Some x) True (concat (map (\<lambda>c. if c = CHR 0x27 then [CHR 0x27, CHR 0x5C, CHR 0x27, CHR 0x27] else [c]) v) @ CHR 0x27 # s) =
   shell_words (Some (x @ v)) False s"
  by (induction v arbitrary: x) simp_all

lemma shell_words_quoted: "shell_words None False (quote_word v @ s) = shell_words (Some v) False s"
  using shell_words_inside [of "[]" v s] by (simp add: quote_word_def grown_word_def)

text \<open>The script \<open>run\<close> builds from an argument list is split by the shell into exactly that list, whatever bytes
  the arguments hold.\<close>

theorem quoteArgv_round_trip: "shell_words None False (quoteArgv argv) = Some argv"
proof (induction argv rule: join_words.induct)
  case (2 w)
  show ?case using shell_words_quoted [of w "[]"] by (simp add: quoteArgv_def)
next
  case (3 w v ws)
  then show ?case using shell_words_quoted [of w "'' '' @ quoteArgv (v # ws)"] by (simp add: quoteArgv_def)
qed (simp add: quoteArgv_def)

end
