(* ===== verification/Hr_Locks.thy ===== *)
theory Hr_Locks
  imports Main
begin

text \<open>
  The locks of \<open>WriteStdin\<close> and of the end of \<open>run\<close> (\<open>manager.go\<close>), for the writers of one job: a writer takes
  \<open>m.mu\<close>, then the input lock of the job while it still holds \<open>m.mu\<close>; it gives \<open>m.mu\<close> back for the write to the
  pipe and takes it again to record the chunk. The pipe has no buffer: a write ends when the session reads,
  or when \<open>run\<close>, after its own section under \<open>m.mu\<close>, closes the pipe.
\<close>

datatype writer_pc = AtManager | AtInput | Checking | AtPipe | Piped | WriterDone

datatype runner_pc = InSession | SessionEnded | Settled | PipeClosed

datatype holder = ByWriter nat

record locks =
  lk_manager :: "holder option"
  lk_input :: "nat option"
  lk_pc :: "nat \<Rightarrow> writer_pc"
  lk_runner :: runner_pc

definition at_pc :: "nat \<Rightarrow> writer_pc \<Rightarrow> locks \<Rightarrow> locks" where
  "at_pc i p s = s\<lparr>lk_pc := (lk_pc s)(i := p)\<rparr>"

text \<open>Sections that neither wait nor can be observed from outside are one step.\<close>

inductive lock_step :: "locks \<Rightarrow> locks \<Rightarrow> bool" where
  take_manager: "lk_pc s i = AtManager \<Longrightarrow> lk_manager s = None \<Longrightarrow> lock_step s (at_pc i AtInput (s\<lparr>lk_manager := Some (ByWriter i)\<rparr>))"
| take_input: "lk_pc s i = AtInput \<Longrightarrow> lk_input s = None \<Longrightarrow> lock_step s (at_pc i Checking (s\<lparr>lk_input := Some i\<rparr>))"
| refuse_chunk: "lk_pc s i = Checking \<Longrightarrow> lock_step s (at_pc i WriterDone (s\<lparr>lk_manager := None, lk_input := None\<rparr>))"
| admit_chunk: "lk_pc s i = Checking \<Longrightarrow> lock_step s (at_pc i AtPipe (s\<lparr>lk_manager := None\<rparr>))"
| session_reads: "lk_pc s i = AtPipe \<Longrightarrow> lk_runner s = InSession \<Longrightarrow> lock_step s (at_pc i Piped s)"
| write_fails: "lk_pc s i = AtPipe \<Longrightarrow> lk_runner s = PipeClosed \<Longrightarrow> lock_step s (at_pc i WriterDone (s\<lparr>lk_input := None\<rparr>))"
| record_chunk: "lk_pc s i = Piped \<Longrightarrow> lk_manager s = None \<Longrightarrow> lock_step s (at_pc i WriterDone (s\<lparr>lk_input := None\<rparr>))"
| session_ends: "lk_runner s = InSession \<Longrightarrow> lock_step s (s\<lparr>lk_runner := SessionEnded\<rparr>)"
| settle: "lk_runner s = SessionEnded \<Longrightarrow> lk_manager s = None \<Longrightarrow> lock_step s (s\<lparr>lk_runner := Settled\<rparr>)"
| close_pipe: "lk_runner s = Settled \<Longrightarrow> lock_step s (s\<lparr>lk_runner := PipeClosed\<rparr>)"

text \<open>\<open>n\<close> writers of a running job.\<close>

definition lock_start :: "nat \<Rightarrow> locks" where
  "lock_start n = \<lparr>lk_manager = None, lk_input = None, lk_pc = (\<lambda>i. if i < n then AtManager else WriterDone), lk_runner = InSession\<rparr>"

inductive lock_reach :: "locks \<Rightarrow> locks \<Rightarrow> bool" for a where
  start: "lock_reach a a"
| step: "lock_reach a s \<Longrightarrow> lock_step s s' \<Longrightarrow> lock_reach a s'"

definition lock_final :: "locks \<Rightarrow> bool" where
  "lock_final s \<longleftrightarrow> (\<forall>i. lk_pc s i = WriterDone) \<and> lk_runner s = PipeClosed"

lemmas at_pc_simps [simp] = at_pc_def

section \<open>One writer\<close>

text \<open>With one writer the locks follow its counter, so whatever it waits for is free.\<close>

definition one_writer :: "locks \<Rightarrow> bool" where
  "one_writer s \<longleftrightarrow> (\<forall>i > 0. lk_pc s i = WriterDone) \<and>
     (lk_manager s \<noteq> None \<longleftrightarrow> lk_pc s 0 \<in> {AtInput, Checking}) \<and> (lk_input s \<noteq> None \<longleftrightarrow> lk_pc s 0 \<in> {Checking, AtPipe, Piped})"

lemma one_writer_start: "one_writer (lock_start 1)"
  by (simp add: one_writer_def lock_start_def)

lemma one_writer_index: "one_writer s \<Longrightarrow> lk_pc s i \<noteq> WriterDone \<Longrightarrow> i = 0"
  by (auto simp: one_writer_def)

lemma one_writer_step: "lock_step s s' \<Longrightarrow> one_writer s \<Longrightarrow> one_writer s'"
proof (induction rule: lock_step.induct)
  case (take_manager s i)
  then show ?case using one_writer_index [of s i] by (auto simp: one_writer_def)
next
  case (take_input s i)
  then show ?case using one_writer_index [of s i] by (auto simp: one_writer_def)
next
  case (refuse_chunk s i)
  then show ?case using one_writer_index [of s i] by (auto simp: one_writer_def)
next
  case (admit_chunk s i)
  then show ?case using one_writer_index [of s i] by (auto simp: one_writer_def)
next
  case (session_reads s i)
  then show ?case using one_writer_index [of s i] by (auto simp: one_writer_def)
next
  case (write_fails s i)
  then show ?case using one_writer_index [of s i] by (auto simp: one_writer_def)
next
  case (record_chunk s i)
  then show ?case using one_writer_index [of s i] by (auto simp: one_writer_def)
qed (simp_all add: one_writer_def)

lemma one_writer_reach: "lock_reach (lock_start 1) s \<Longrightarrow> one_writer s"
proof (induction rule: lock_reach.induct)
  case start
  show ?case by (rule one_writer_start)
next
  case (step s s')
  then show ?case by (blast intro: one_writer_step)
qed

lemma one_writer_moves: "one_writer s \<Longrightarrow> lock_final s \<or> (\<exists>s'. lock_step s s')"
proof (cases "lk_pc s 0")
  case AtManager
  assume "one_writer s"
  then have "lk_manager s = None" using AtManager by (auto simp: one_writer_def)
  then show ?thesis using take_manager [OF AtManager] by blast
next
  case AtInput
  assume "one_writer s"
  then have "lk_input s = None" using AtInput by (auto simp: one_writer_def)
  then show ?thesis using take_input [OF AtInput] by blast
next
  case Checking
  then show ?thesis using admit_chunk by blast
next
  case AtPipe
  assume "one_writer s"
  then have "lk_manager s = None" using AtPipe by (auto simp: one_writer_def)
  then show ?thesis using AtPipe by (cases "lk_runner s") (blast intro: lock_step.intros)+
next
  case Piped
  assume "one_writer s"
  then have "lk_manager s = None" using Piped by (auto simp: one_writer_def)
  then show ?thesis using record_chunk [OF Piped] by blast
next
  case WriterDone
  assume o: "one_writer s"
  then have m: "lk_manager s = None" using WriterDone by (auto simp: one_writer_def)
  have "lk_pc s i = WriterDone" for i using o WriterDone by (cases i) (auto simp: one_writer_def)
  then show ?thesis using m by (cases "lk_runner s") (auto simp: lock_final_def intro: lock_step.intros)
qed

section \<open>Two writers\<close>

text \<open>The first writes to a pipe nobody reads, the second waits for the input lock with \<open>m.mu\<close> held, and the
  session, at its end, waits for \<open>m.mu\<close> before it would close the pipe.\<close>

definition stuck :: locks where
  "stuck = \<lparr>lk_manager = Some (ByWriter 1), lk_input = Some 0,
     lk_pc = (\<lambda>i. if i = 0 then AtPipe else if i = 1 then AtInput else WriterDone), lk_runner = SessionEnded\<rparr>"

lemma stuck_reached: "lock_reach (lock_start 2) stuck"
proof -
  let ?a = "lock_start 2"
  note r0 = lock_reach.start [of ?a]
  let ?b = "at_pc 0 AtInput (?a\<lparr>lk_manager := Some (ByWriter 0)\<rparr>)"
  let ?c = "at_pc 0 Checking (?b\<lparr>lk_input := Some 0\<rparr>)"
  let ?d = "at_pc 0 AtPipe (?c\<lparr>lk_manager := None\<rparr>)"
  let ?e = "at_pc 1 AtInput (?d\<lparr>lk_manager := Some (ByWriter 1)\<rparr>)"
  have b: "lock_reach ?a ?b" by (rule lock_reach.step [OF r0 take_manager]) (simp_all add: lock_start_def)
  have c: "lock_reach ?a ?c" by (rule lock_reach.step [OF b take_input]) (simp_all add: lock_start_def)
  have d: "lock_reach ?a ?d" by (rule lock_reach.step [OF c admit_chunk]) (simp add: lock_start_def)
  have e: "lock_reach ?a ?e" by (rule lock_reach.step [OF d take_manager]) (simp_all add: lock_start_def)
  have f: "lock_reach ?a (?e\<lparr>lk_runner := SessionEnded\<rparr>)"
    by (rule lock_reach.step [OF e session_ends]) (simp add: lock_start_def)
  have "?e\<lparr>lk_runner := SessionEnded\<rparr> = stuck" by (auto simp: stuck_def lock_start_def)
  with f show ?thesis by simp
qed

lemma stuck_is_stuck: "\<not> lock_step stuck s"
proof
  assume "lock_step stuck s"
  then show False by cases (auto simp: stuck_def split: if_splits)
qed

text \<open>C40. The locks of standard input: a single writer of a job can always go on until the job is settled and its pipe
  closed; two writers of a job that does not read can block each other and the end of the run for good, with \<open>m.mu\<close>
  held, so that the whole supervisor stops.\<close>

theorem stdin_locks:
  "(\<forall>s. lock_reach (lock_start 1) s \<longrightarrow> lock_final s \<or> (\<exists>s'. lock_step s s')) \<and>
   (\<exists>s. lock_reach (lock_start 2) s \<and> lk_runner s \<noteq> PipeClosed \<and> lk_manager s \<noteq> None \<and> \<not> (\<exists>s'. lock_step s s'))"
proof (intro conjI allI impI)
  fix s
  assume "lock_reach (lock_start 1) s"
  then show "lock_final s \<or> (\<exists>s'. lock_step s s')" by (intro one_writer_moves one_writer_reach)
next
  have "lk_runner stuck \<noteq> PipeClosed" "lk_manager stuck \<noteq> None" by (simp_all add: stuck_def)
  then show "\<exists>s. lock_reach (lock_start 2) s \<and> lk_runner s \<noteq> PipeClosed \<and> lk_manager s \<noteq> None \<and> \<not> (\<exists>s'. lock_step s s')"
    using stuck_reached stuck_is_stuck by blast
qed

theorem stdin_locks_witness: "\<exists>s'. lock_step (lock_start 1) s'"
proof -
  have "\<not> lock_final (lock_start 1)" by (simp add: lock_final_def lock_start_def)
  then show ?thesis using stdin_locks lock_reach.start by blast
qed

end
