(* ===== verification/Hr_Manager_Properties.thy ===== *)
theory Hr_Manager_Properties
  imports Hr_Manager_Laws Hr_Preflight_Properties Hr_Session Hr_Locks
begin

text \<open>What the supervisor of jobs promises: theorems about its operations and about every run of its turns.\<close>

section \<open>Output\<close>

lemma spool_holds_writes:
  "spool_holds s stream \<Longrightarrow> spool_holds (foldl (\<lambda>s v. snd (spool_Write whole_disk v s)) s vs) (stream @ concat vs)"
proof (induction vs arbitrary: s stream)
  case (Cons v vs)
  from Cons.IH [OF conjunct2 [OF spool_holds_write [OF Cons.prems]]] show ?case by simp
qed simp

lemma spool_limit_writes: "sp_limit (foldl (\<lambda>s v. snd (spool_Write disk v s)) s vs) = sp_limit s"
  by (induction vs arbitrary: s) (simp_all add: spool_Write_fixed)

text \<open>C27. A spool refines \<^emph>\<open>keep the first bytes\<close>: however a stream is cut into writes, on a disk that takes every write
  the file holds the longest prefix the limit admits, every write reports all its bytes, and what is kept and what is
  omitted add up to the stream.\<close>

theorem spool_refines_prefix:
  "let s = foldl (\<lambda>s v. snd (spool_Write whole_disk v s)) (newBoundedSpool limit) vs in
   sp_file s = admitted limit (concat vs) \<and> fst (spool_Write whole_disk v s) = (length v, None) \<and>
   spool_stats s = (int (length (sp_file s)), int (length (concat vs)) - int (length (sp_file s)))"
proof -
  let ?s = "foldl (\<lambda>s v. snd (spool_Write whole_disk v s)) (newBoundedSpool limit) vs"
  have h: "spool_holds ?s (concat vs)" using spool_holds_writes [OF spool_holds_new] by simp
  have "sp_limit ?s = limit" by (simp add: spool_limit_writes newBoundedSpool_def)
  with h spool_holds_write [OF h, of v] show ?thesis by (auto simp: spool_holds_def spool_stats_def Let_def)
qed

text \<open>C39. A client that polls the output of a job from where the last answer stopped, while the file grows, gets every
  byte once and in order: the chunks decode to exactly the stretch of the file between its first and its last cursor.\<close>

theorem polled_output_is_contiguous:
  assumes "polls bs c cs d"
  shows "c \<le> d \<and> d \<le> int (length bs) \<and> chunk_bytes cs = take (nat (d - c)) (drop (nat c) bs)"
  using polls_bytes [OF assms] by simp

theorem polled_output_is_contiguous_witness:
  "\<exists>cs d. polls ''abc'' 0 cs d \<and> chunk_bytes cs = ''abc''"
proof -
  let ?c1 = "[\<lparr>oc_from = 0, oc_to = 2, oc_encoding = ''base64'', oc_data = b64_encode ''ab''\<rparr>]"
  let ?c2 = "[\<lparr>oc_from = 2, oc_to = 3, oc_encoding = ''base64'', oc_data = b64_encode ''c''\<rparr>]"
  have 1: "polls ''ab'' 0 [] 0" by (rule polls.start) simp_all
  have 2: "polls ''ab'' 0 ([] @ ?c1) 2"
    by (rule polls.poll [OF 1, of _ 0]) (simp_all add: readChunk_def chunk_maximum_def Let_def)
  have 3: "polls ''abc'' 0 (([] @ ?c1) @ ?c2) 3"
    by (rule polls.poll [OF 2, of _ 0]) (simp_all add: readChunk_def chunk_maximum_def Let_def)
  have "chunk_bytes (([] @ ?c1) @ ?c2) = take (nat (3 - 0)) (drop (nat 0) ''abc'')"
    using polled_output_is_contiguous [OF 3] by blast
  then have "chunk_bytes (([] @ ?c1) @ ?c2) = ''abc''" by (simp only:) simp
  with 3 show ?thesis by blast
qed

section \<open>Starting jobs\<close>

text \<open>C7. A job starts only under an authorization signed with the key of the supervisor, not expired, for this binding
  and for the digest of the intent that the request itself compiles to now; the intent is complete, the job id is that of
  the authorization, no directory of that id existed, and the new job runs under exactly that intent.\<close>

theorem job_start_is_authorized:
  assumes "begin_job E enc flt now req m = (Started jid res, m')"
  shows "\<exists>au it. rq_authorization req = Some au \<and> signJSON (mg_key m) (enc (au_claims au)) = Some (au_token au) \<and>
    (\<forall>t. cl_expiresAt (au_claims au) = Some t \<longrightarrow> now < t) \<and> cl_binding (au_claims au) = rq_binding req \<and>
    request_intent E (mg_key m) req = Inr it \<and> in_complete it \<and> in_digest it = cl_intentDigest (au_claims au) \<and>
    jid = manager_jobID (mg_key m) (au_claims au) \<and> mg_disk m jid = None \<and> jid \<in> mg_jobs m' \<and>
    (\<exists>j. mg_objects m' jid = Some j \<and> jr_intent (lj_record j) = it \<and> jr_binding (lj_record j) = rq_binding req \<and>
       jr_outcome (lj_record j) = OutcomeRunning)"
proof -
  obtain it au j m0 where a: "authorizedIntent E enc (mg_key m) now req = Inr it" "rq_authorization req = Some au"
    "jid = manager_jobID (mg_key m) (au_claims au)" and r: "reserve flt now req it jid m = (Some j, m0)"
    and m': "m' = m0\<lparr>mg_objects := (mg_objects m0)(jid \<mapsto> j), mg_jobs := insert jid (mg_jobs m0)\<rparr>"
    using assms by (rule begin_Started)
  have "lj_record j = new_record now req it jid" using reserve_Some(5) [OF r] by simp
  then show ?thesis using a reserve_Some(1) [OF r] by (auto simp: m' authorizedIntent_Inr new_record_def)
qed

text \<open>A supervisor, a request for \<open>cat a\<close> that it authorizes, and the job that starts.\<close>

definition sample_binding :: binding where
  "sample_binding = \<lparr>bi_runID = ''r'', bi_nodeID = ''n'', bi_attempt = 1, bi_stateRevision = 1, bi_configDigest = ''d'',
     bi_lifecycleGeneration = 1, bi_idempotencyKey = ''k''\<rparr>"

definition sample_claims :: claims where
  "sample_claims = \<lparr>cl_binding = sample_binding, cl_intentDigest = digestBytes [], cl_policyRevision = 1, cl_grantDigest = ''g'', cl_expiresAt = Some 10\<rparr>"

definition sample_manager :: manager where
  "sample_manager = \<lparr>mg_key = ''secret'', mg_objects = Map.empty, mg_jobs = {}, mg_disk = Map.empty\<rparr>"

definition sample_enc :: "claims \<Rightarrow> string option" where
  "sample_enc c = Some ''claims''"

definition sample_request :: "limits \<Rightarrow> request" where
  "sample_request lim = \<lparr>rq_schemaVersion = [], rq_requestID = ''q'', rq_operation = OperationStart, rq_binding = sample_binding,
     rq_command = sample_command, rq_limits = lim, rq_placement = no_placement, rq_intentDigest = digestBytes [],
     rq_authorization = Some \<lparr>au_claims = sample_claims, au_token = hex_encode (hmac_sha256 ''secret'' ''claims'')\<rparr>,
     rq_jobID = [], rq_jobGeneration = 0, rq_stdoutCursor = 0, rq_stderrCursor = 0, rq_maxChunkBytes = 0, rq_input = None, rq_signal = []\<rparr>"

lemma sample_starts:
  "\<exists>res m. begin_job (sample_env sample_root) sample_enc NoFault 5 (sample_request no_limits) sample_manager =
     (Started (manager_jobID ''secret'' sample_claims) res, m)"
proof -
  let ?E = "sample_env sample_root" and ?req = "sample_request no_limits"
  have "request_intent ?E ''secret'' ?req = Inr (sample_intent ?E)"
    using sample_compiles [of "''secret''"] by (simp add: request_intent_def sample_request_def)
  moreover have "in_complete (sample_intent ?E)" "in_digest (sample_intent ?E) = digestBytes []"
    by (simp_all add: sample_intent_def new_intent_def)
  ultimately have a: "authorizedIntent ?E sample_enc (mg_key sample_manager) 5 ?req = Inr (sample_intent ?E)"
    unfolding authorizedIntent_Inr
    by (simp add: sample_manager_def sample_request_def sample_claims_def sample_enc_def signJSON_def)
  show ?thesis
    unfolding begin_job_def Let_def a sum.case
    by (simp add: sample_manager_def sample_request_def live_record_def loadRecord_def dir_of_def reserve_def Let_def)
qed

theorem job_start_is_authorized_witness:
  "\<exists>res m'. begin_job (sample_env sample_root) sample_enc NoFault 5 (sample_request no_limits) sample_manager =
     (Started (manager_jobID ''secret'' sample_claims) res, m') \<and> manager_jobID ''secret'' sample_claims \<in> mg_jobs m'"
  using sample_starts job_start_is_authorized by blast

section \<open>Every run of the supervisor\<close>

lemma job_ok_facts:
  assumes "job_ok jid running wo j"
  shows "jr_jobID (lj_record j) = jid" "in_complete (jr_intent (lj_record j))"
    "jr_intentDigest (lj_record j) = in_digest (jr_intent (lj_record j))"
    "0 < lm_stdoutBytes (jr_limits (lj_record j)) \<longrightarrow> int (length (sp_file (lj_stdout j))) \<le> lm_stdoutBytes (jr_limits (lj_record j))"
    "0 < lm_stderrBytes (jr_limits (lj_record j)) \<longrightarrow> int (length (sp_file (lj_stderr j))) \<le> lm_stderrBytes (jr_limits (lj_record j))"
    "if running then jr_outcome (lj_record j) = OutcomeRunning \<and> jr_finishedAt (lj_record j) = None
     else jr_outcome (lj_record j) \<in> {OutcomeCompleted, OutcomeCancelled, OutcomeTimedOut} \<and> jr_finishedAt (lj_record j) \<noteq> None"
proof -
  have s: "spool_ok (lj_stdout j)" "spool_ok (lj_stderr j)"
    "sp_limit (lj_stdout j) = lm_stdoutBytes (jr_limits (lj_record j))" "sp_limit (lj_stderr j) = lm_stderrBytes (jr_limits (lj_record j))"
    using assms by (simp_all add: job_ok_def)
  show "0 < lm_stdoutBytes (jr_limits (lj_record j)) \<longrightarrow> int (length (sp_file (lj_stdout j))) \<le> lm_stdoutBytes (jr_limits (lj_record j))"
    using s(1,3) by (auto simp: spool_ok_def)
  show "0 < lm_stderrBytes (jr_limits (lj_record j)) \<longrightarrow> int (length (sp_file (lj_stderr j))) \<le> lm_stderrBytes (jr_limits (lj_record j))"
    using s(2,4) by (auto simp: spool_ok_def)
qed (use assms in \<open>simp_all add: job_ok_def underway_def ended_def split: if_splits\<close>)

text \<open>C12. In every run of a supervisor, whatever is requested and in whatever order sessions, contexts and writers move, no
  job is started twice; every started job has a complete intent and its digest, keeps no more output than its limits allow,
  and its record says \<^emph>\<open>running\<close> exactly while it runs and afterwards how it ended.\<close>

theorem jobs_run_once:
  assumes "hr_reachable E enc w"
  shows "distinct (wd_started w) \<and> mg_jobs (wd_manager w) = wd_running w \<and> wd_running w \<subseteq> set (wd_started w) \<and>
    (\<forall>jid\<in>set (wd_started w). \<exists>j. mg_objects (wd_manager w) jid = Some j \<and> jr_jobID (lj_record j) = jid \<and>
       in_complete (jr_intent (lj_record j)) \<and> jr_intentDigest (lj_record j) = in_digest (jr_intent (lj_record j)) \<and>
       (0 < lm_stdoutBytes (jr_limits (lj_record j)) \<longrightarrow> int (length (sp_file (lj_stdout j))) \<le> lm_stdoutBytes (jr_limits (lj_record j))) \<and>
       (0 < lm_stderrBytes (jr_limits (lj_record j)) \<longrightarrow> int (length (sp_file (lj_stderr j))) \<le> lm_stderrBytes (jr_limits (lj_record j))) \<and>
       (if jid \<in> wd_running w then jr_outcome (lj_record j) = OutcomeRunning \<and> jr_finishedAt (lj_record j) = None
        else jr_outcome (lj_record j) \<in> {OutcomeCompleted, OutcomeCancelled, OutcomeTimedOut} \<and> jr_finishedAt (lj_record j) \<noteq> None))"
proof -
  have w: "world_ok w" using assms by (rule hr_reachable_ok)
  have "\<exists>j. mg_objects (wd_manager w) jid = Some j \<and> jr_jobID (lj_record j) = jid \<and>
       in_complete (jr_intent (lj_record j)) \<and> jr_intentDigest (lj_record j) = in_digest (jr_intent (lj_record j)) \<and>
       (0 < lm_stdoutBytes (jr_limits (lj_record j)) \<longrightarrow> int (length (sp_file (lj_stdout j))) \<le> lm_stdoutBytes (jr_limits (lj_record j))) \<and>
       (0 < lm_stderrBytes (jr_limits (lj_record j)) \<longrightarrow> int (length (sp_file (lj_stderr j))) \<le> lm_stderrBytes (jr_limits (lj_record j))) \<and>
       (if jid \<in> wd_running w then jr_outcome (lj_record j) = OutcomeRunning \<and> jr_finishedAt (lj_record j) = None
        else jr_outcome (lj_record j) \<in> {OutcomeCompleted, OutcomeCancelled, OutcomeTimedOut} \<and> jr_finishedAt (lj_record j) \<noteq> None)"
    if started: "jid \<in> set (wd_started w)" for jid
  proof -
    obtain j where j: "mg_objects (wd_manager w) jid = Some j" using world_ok_started [OF w started] by blast
    from job_ok_facts [OF world_ok_job [OF w j]] j show ?thesis by (intro exI [of _ j]) simp
  qed
  moreover have "distinct (wd_started w)" "mg_jobs (wd_manager w) = wd_running w" "wd_running w \<subseteq> set (wd_started w)"
    using w by (simp_all add: world_ok_def)
  ultimately show ?thesis by blast
qed

definition sample_world :: world where
  "sample_world = \<lparr>wd_manager = sample_manager, wd_running = {}, wd_closing = {}, wd_writers = Map.empty, wd_started = []\<rparr>"

lemma sample_fresh: "hr_reachable E enc sample_world"
  by (rule hr_reachable.fresh [of sample_manager]) (simp add: fresh_world_def sample_world_def sample_manager_def)

theorem jobs_run_once_witness:
  "\<exists>w. hr_reachable (sample_env sample_root) sample_enc w \<and> wd_started w = [manager_jobID ''secret'' sample_claims] \<and>
     mg_jobs (wd_manager w) = {manager_jobID ''secret'' sample_claims}"
proof -
  obtain res m where b: "begin_job (sample_env sample_root) sample_enc NoFault 5 (sample_request no_limits) (wd_manager sample_world) =
     (Started (manager_jobID ''secret'' sample_claims) res, m)"
    using sample_starts by (auto simp: sample_world_def)
  note r = hr_reachable.turn [OF sample_fresh hr_step.begun [OF b]]
  from jobs_run_once [OF r] r show ?thesis by (intro exI [of _ "sample_world\<lparr>wd_manager := m,
     wd_running := insert (manager_jobID ''secret'' sample_claims) (wd_running sample_world),
     wd_started := wd_started sample_world @ [manager_jobID ''secret'' sample_claims]\<rparr>"]) (simp add: sample_world_def)
qed

text \<open>C13. In every run of a supervisor the standard input of a job is what was accepted, in order: the recorded sequence
  numbers are 1, 2, 3 and so on, the pipe has taken exactly chunks with the recorded digests and, at most, the chunk of the
  one writer at the pipe, and the recorded bytes stay within the limit.\<close>

theorem stdin_in_order:
  assumes "hr_reachable E enc w" "mg_objects (wd_manager w) jid = Some j"
  shows "let r = lj_record j; n = length (jr_inputDigests r) in
    map fst (jr_inputDigests r) = map of_nat [1..<Suc n] \<and>
    (\<exists>chunks. map digestBytes chunks = map snd (jr_inputDigests r) \<and> jr_stdinBytes r = int (length (concat chunks)) \<and>
       lj_stdin j = concat chunks @ (case wd_writers w jid of Some wr \<Rightarrow> if wr_taken wr then wr_data wr else [] | None \<Rightarrow> [])) \<and>
    (jr_inputDigests r \<noteq> [] \<longrightarrow> jr_stdinBytes r \<le> lm_stdinBytes (jr_limits r))"
  using world_ok_job [OF hr_reachable_ok [OF assms(1)] assms(2)] by (simp add: job_ok_def stdin_ok_def Let_def)

theorem stdin_in_order_witness:
  "\<exists>w j. hr_reachable (sample_env sample_root) sample_enc w \<and> mg_objects (wd_manager w) (manager_jobID ''secret'' sample_claims) = Some j \<and>
     jr_stdinBytes (lj_record j) = int (length (lj_stdin j))"
proof -
  let ?id = "manager_jobID ''secret'' sample_claims"
  obtain res m where b: "begin_job (sample_env sample_root) sample_enc NoFault 5 (sample_request no_limits) (wd_manager sample_world) = (Started ?id res, m)"
    using sample_starts by (auto simp: sample_world_def)
  note r = hr_reachable.turn [OF sample_fresh hr_step.begun [OF b]]
  obtain j where j: "mg_objects m ?id = Some j" using job_start_is_authorized [OF b] by blast
  let ?w = "sample_world\<lparr>wd_manager := m, wd_running := insert ?id (wd_running sample_world), wd_started := wd_started sample_world @ [?id]\<rparr>"
  have jw: "mg_objects (wd_manager ?w) ?id = Some j" using j by simp
  have "wd_writers ?w ?id = None" by (simp add: sample_world_def)
  with stdin_in_order [OF r jw] have "jr_stdinBytes (lj_record j) = int (length (lj_stdin j))" by (auto simp: Let_def)
  with r jw show ?thesis by blast
qed

section \<open>Answers between two sections\<close>

text \<open>A job that ends between the two sections of \<open>Poll\<close> is reported as ambiguous though its record is complete.\<close>

lemma poll_race:
  assumes "validJobID jid" "jid \<in> mg_jobs m" "mg_objects m jid = Some j" "jr_jobID (lj_record j) = jid"
    "jr_outcome (lj_record j) = OutcomeRunning" "lj_ctx j = None" "rq_jobID req = jid" "rq_jobGeneration req = 0"
    "jr_binding (lj_record j) = rq_binding req" "rq_stdoutCursor req = 0" "rq_stderrCursor req = 0"
  shows "let m' = run_finish disk True now (SessionFinished r) jid m in
    map_option jr_outcome (loadRecord m' jid) = Some OutcomeCompleted \<and> rs_outcome (manager_Poll m m' req) = OutcomeAmbiguous"
  using assms
  by (simp add: run_finish_def awaitSession_def Let_def persistRecord_def put_object_def dir_of_def loadRecord_def settle_record_def
      final_outcome_def spool_Close_def manager_Poll_def findRecord_def live_record_def record_result_def resultForRecord_def with_intent_def
      readChunk_def baseResult_def)

text \<open>A repeated chunk is refused once the limit has no room for it again: the limit is checked before the replay.\<close>

lemma replay_refused_at_the_limit:
  assumes "live_record m (rq_jobID req) = Some r" "rq_jobGeneration req = jr_generation r" "jr_binding r = rq_binding req"
    "rq_input req = Some c" "ic_encoding c = ''base64''" "b64_decode (ic_data c) = Some data" "ic_digest c = digestBytes data"
    "map_of (jr_inputDigests r) (ic_sequence c) = Some (digestBytes data)" "data \<noteq> []" "jr_stdinBytes r = lm_stdinBytes (jr_limits r)"
  shows "\<exists>res. stdin_admit m req = Rejected res \<and> map_option pe_code (rs_error res) = Some ''outputLimit''"
  using assms by (simp add: stdin_admit_def Let_def failResult_def)

text \<open>A start that failed after it made the directory of the job leaves the directory: every later start of that id fails.\<close>

lemma failed_start_sticks:
  assumes "reserve flt now req it jid m = (None, m')" "flt \<noteq> MkdirFails" "mg_disk m jid = None"
  shows "fst (reserve NoFault later req' it' jid m') = None" "loadRecord m' jid = None"
  using assms by (auto simp: reserve_def Let_def loadRecord_def dir_of_def split: reserve_fault.splits)

text \<open>For a job of an earlier supervisor that never ended, a stop answers \<^emph>\<open>running\<close> where a poll answers \<^emph>\<open>ambiguous\<close>.\<close>

lemma stop_calls_an_orphan_running:
  assumes "rq_jobID req \<notin> mg_jobs m" "loadRecord m (rq_jobID req) = Some r" "jr_outcome r = OutcomeRunning" "jr_binding r = rq_binding req"
    "rq_jobGeneration req = 0" "rq_stdoutCursor req = 0" "rq_stderrCursor req = 0"
    "jd_stdout (dir_of m (rq_jobID req)) \<noteq> None" "jd_stderr (dir_of m (rq_jobID req)) \<noteq> None"
  shows "\<exists>res. manager_Cancel req m = (StopAnswered res, m) \<and> rs_outcome res = OutcomeRunning" "rs_outcome (manager_Poll m m req) = OutcomeAmbiguous"
proof -
  have valid: "validJobID (rq_jobID req)" "jr_jobID r = rq_jobID req" using assms(2) by (auto simp: loadRecord_def split: if_splits option.splits)
  show "\<exists>res. manager_Cancel req m = (StopAnswered res, m) \<and> rs_outcome res = OutcomeRunning"
    using assms valid by (auto simp: manager_Cancel_def stop_request_def Let_def record_result_def resultForRecord_def readChunk_def with_intent_def baseResult_def)
  show "rs_outcome (manager_Poll m m req) = OutcomeAmbiguous"
    using assms valid
    by (auto simp: manager_Poll_def findRecord_def live_record_def Let_def record_result_def resultForRecord_def readChunk_def with_intent_def baseResult_def)
qed

end
