(* ===== verification/Dhnt_Placement.thy ===== *)
theory Dhnt_Placement
  imports Dhnt_Canonical
begin

text \<open>
  The planner of placements (\<open>dhnt/placement.go\<close>): from a v2 pipeline and the observed facts of hosts to the
  cohorts and reductions a lowerer needs. The choice of hosts is made by the dag module, which is not under
  \<open>src/\<close>: \<open>planner\<close> holds what the code calls of it, over its types of facts, cohorts and placed chunks.
  Dereferencing a nil pointer is the error \<open>NilChunk\<close>.
\<close>

section \<open>The task of the dag module\<close>

record task_spec =
  ts_task :: string
  ts_venue :: string
  ts_distribution :: string
  ts_reducer :: string
  ts_os :: string
  ts_arch :: string
  ts_cpu :: int
  ts_mem :: nat
  ts_accelerator_kind :: string
  ts_accelerator_family :: string
  ts_accelerator_count :: int
  ts_accelerator_memory :: nat
  ts_capacity :: "(string \<times> nat) list"
  ts_topology :: string
  ts_cohort :: int

definition placementTaskSpec :: "task \<Rightarrow> matrix_entry \<Rightarrow> task_spec" where
  "placementTaskSpec t e =
     (let spec = \<lparr>ts_task = t_id t, ts_venue = t_lane t, ts_distribution = t_distribution t, ts_reducer = t_reducer t,
            ts_os = p_os (m_platform e), ts_arch = p_arch (m_platform e), ts_cpu = 0, ts_mem = 0, ts_accelerator_kind = [],
            ts_accelerator_family = [], ts_accelerator_count = 0, ts_accelerator_memory = 0, ts_capacity = [], ts_topology = [], ts_cohort = 0\<rparr> in
      case t_placement t of
        None \<Rightarrow> spec
      | Some p \<Rightarrow> spec\<lparr>ts_cpu := pl_cpu p, ts_mem := pl_memory_bytes p, ts_accelerator_kind := pl_accelerator_kind p,
          ts_accelerator_family := pl_accelerator_family p, ts_accelerator_count := pl_accelerator_count p,
          ts_accelerator_memory := pl_accelerator_memory p, ts_capacity := pl_minimum_capacity p, ts_topology := pl_topology_key p,
          ts_cohort := pl_cohort_size p\<rparr>)"

text \<open>A chunk is its index and the name of its one fixture.\<close>

record manifest =
  mf_suite :: string
  mf_count :: int
  mf_chunks :: "(int \<times> string) list"

text \<open>The dag module: \<open>HostFacts.Validate\<close> and \<open>Worker\<close>, the JSON of a spec, \<open>MembershipHash\<close>, \<open>PlanCohort\<close> and
  \<open>PlanChunkReduce\<close> with the task of a cohort and the index of a placed chunk.\<close>

record ('f, 'c, 'k) planner =
  dg_valid :: "'f \<Rightarrow> bool"
  dg_worker :: "'f \<Rightarrow> string"
  dg_json :: "task_spec \<Rightarrow> string option"
  dg_membership :: "manifest \<Rightarrow> string"
  dg_cohort :: "task_spec \<Rightarrow> 'f list \<Rightarrow> int \<Rightarrow> int \<Rightarrow> 'c option"
  dg_task :: "'c \<Rightarrow> string"
  dg_reduce :: "task_spec \<Rightarrow> manifest \<Rightarrow> 'f list \<Rightarrow> int \<Rightarrow> int \<Rightarrow> ('k list \<times> int list) option"
  dg_index :: "'k \<Rightarrow> int"

record 'k reduction =
  rd_task :: string
  rd_reducer :: string
  rd_membership :: string
  rd_manifest :: string
  rd_chunks :: "'k list"
  rd_required :: "int list"

record ('c, 'k) plan =
  pn_schema :: string
  pn_pipeline :: string
  pn_cohorts :: "'c list"
  pn_reductions :: "'k reduction list"

abbreviation "DKSPlacementPlanSchema \<equiv> ''dhnt.dks-placement/v1''"
abbreviation "DKSHostFactsSchema \<equiv> ''dhnt.host-facts/v1''"

datatype placement_error = InvalidPipeline verr | NeedsV2 | NeedsClock | BadFacts nat | DuplicateWorker nat string
  | ManyRows string | NoIdentity string | NoCohort string | NoReduction string | NilChunk string

section \<open>Inputs\<close>

definition fact_step :: "('f, 'c, 'k) planner \<Rightarrow> nat \<Rightarrow> string list \<Rightarrow> 'f \<Rightarrow> placement_error + string list" where
  "fact_step G i workers f =
     (if \<not> dg_valid G f then Inl (BadFacts i)
      else if dg_worker G f \<in> set workers then Inl (DuplicateWorker i (dg_worker G f))
      else Inr (dg_worker G f # workers))"

text \<open>The row of a task: the last one; several rows only for tasks that ask for no placement.\<close>

definition row_step :: "tasks \<Rightarrow> nat \<Rightarrow> (string \<times> matrix_entry) list \<Rightarrow> matrix_entry \<Rightarrow> placement_error + (string \<times> matrix_entry) list" where
  "row_step tasks i matrix e =
     (if map_of matrix (m_task e) \<noteq> None \<and> (\<exists>t. map_of tasks (m_task e) = Some t \<and> t_placement t \<noteq> None)
      then Inl (ManyRows (m_task e)) else Inr ((m_task e, e) # matrix))"

definition no_row :: matrix_entry where
  "no_row = \<lparr>m_task = [], m_platform = \<lparr>p_backend = [], p_os = [], p_arch = []\<rparr>, m_chunk = None, m_inputs = [], m_outputs = []\<rparr>"

definition row_of :: "(string \<times> matrix_entry) list \<Rightarrow> task \<Rightarrow> matrix_entry" where
  "row_of matrix t = (case map_of matrix (t_id t) of Some e \<Rightarrow> e | None \<Rightarrow> no_row)"

section \<open>Reductions\<close>

type_synonym shard_groups = "(string \<times> task_spec \<times> (int \<times> string) list) list"

text \<open>One sibling joins the chunks of the reducer and the group of its placement.\<close>

definition shard_step :: "('f, 'c, 'k) planner \<Rightarrow> (string \<times> matrix_entry) list \<Rightarrow> nat \<Rightarrow> (int \<times> (int \<times> string) list) \<times> shard_groups \<Rightarrow> task \<Rightarrow>
    placement_error + ((int \<times> (int \<times> string) list) \<times> shard_groups)" where
  "shard_step G matrix i st s =
     (let ((n, full), gs) = st; spec = placementTaskSpec s (row_of matrix s) in
      case m_chunk (row_of matrix s) of
        None \<Rightarrow> Inl (NilChunk (t_id s))
      | Some c \<Rightarrow>
          (case dg_json G (spec\<lparr>ts_task := [], ts_reducer := []\<rparr>) of
             None \<Rightarrow> Inl (NoIdentity (t_id s))
           | Some key \<Rightarrow>
               let member = (c_index c, t_id s) in
               Inr ((c_count c, full @ [member]),
                 (case map_of gs key of
                    None \<Rightarrow> gs @ [(key, spec, [member])]
                  | Some (sp, ms) \<Rightarrow> AList.update key (sp, ms @ [member]) gs))))"

definition partial_step :: "('f, 'c, 'k) planner \<Rightarrow> string \<Rightarrow> 'f list \<Rightarrow> int \<Rightarrow> int \<Rightarrow> nat \<Rightarrow> 'k list \<times> int list \<Rightarrow>
    string \<times> task_spec \<times> (int \<times> string) list \<Rightarrow> placement_error + ('k list \<times> int list)" where
  "partial_step G reducer facts now age i st g =
     (let (chunks, required) = st; (key, spec, ms) = g in
      case dg_reduce G spec \<lparr>mf_suite = reducer, mf_count = int (length ms), mf_chunks = ms\<rparr> facts now age of
        None \<Rightarrow> Inl (NoReduction (ts_task spec))
      | Some (cs, rs) \<Rightarrow> Inr (chunks @ cs, required @ rs))"

definition trim_m :: "string \<Rightarrow> string" where
  "trim_m s = (if has_prefix s ''m'' then drop 1 s else s)"

definition plan_reduction :: "('f, 'c, 'k) planner \<Rightarrow> pipeline \<Rightarrow> (string \<times> matrix_entry) list \<Rightarrow> 'f list \<Rightarrow> int \<Rightarrow> int \<Rightarrow> task \<Rightarrow>
    placement_error + 'k reduction" where
  "plan_reduction G p matrix facts now age t =
     (case scan (shard_step G matrix) 0 ((0, []), []) (filter (\<lambda>s. t_reducer s = t_reducer t) (pi_tasks p)) of
        Inl e \<Rightarrow> Inl e
      | Inr ((n, full), gs) \<Rightarrow>
          (case m_chunk (row_of matrix t) of
             None \<Rightarrow> Inl (NilChunk (t_id t))
           | Some c \<Rightarrow>
               (case scan (partial_step G (t_reducer t) facts now age) 0 ([], []) (sort_key fst gs) of
                  Inl e \<Rightarrow> Inl e
                | Inr (chunks, required) \<Rightarrow>
                    Inr \<lparr>rd_task = t_id t, rd_reducer = t_reducer t,
                      rd_membership = trim_m (dg_membership G \<lparr>mf_suite = t_reducer t, mf_count = n, mf_chunks = full\<rparr>),
                      rd_manifest = c_manifest c, rd_chunks = sort_key (dg_index G) chunks, rd_required = sort required\<rparr>)))"

section \<open>Plans\<close>

definition plan_step :: "('f, 'c, 'k) planner \<Rightarrow> pipeline \<Rightarrow> (string \<times> matrix_entry) list \<Rightarrow> 'f list \<Rightarrow> int \<Rightarrow> int \<Rightarrow> nat \<Rightarrow>
    'c list \<times> 'k reduction list \<Rightarrow> task \<Rightarrow> placement_error + ('c list \<times> 'k reduction list)" where
  "plan_step G p matrix facts now age i st t =
     (let (cohorts, reductions) = st in
      if t_placement t = None then Inr st
      else if t_distribution t = ''shardable'' then
        (if t_reducer t \<in> set (map rd_reducer reductions) then Inr st
         else case plan_reduction G p matrix facts now age t of Inl e \<Rightarrow> Inl e | Inr r \<Rightarrow> Inr (cohorts, reductions @ [r]))
      else if t_distribution t \<in> set [''topology-coupled'', ''single'', ''replicated''] then
        (case dg_cohort G (placementTaskSpec t (row_of matrix t)) facts now age of
           None \<Rightarrow> Inl (NoCohort (t_id t))
         | Some c \<Rightarrow> Inr (cohorts @ [c], reductions))
      else Inr st)"

text \<open>\<open>now\<close> is None for the zero time.\<close>

definition PlanDKSPlacement :: "(nat \<Rightarrow> string list \<Rightarrow> string list) \<Rightarrow> ('f, 'c, 'k) planner \<Rightarrow> pipeline \<Rightarrow> 'f list \<Rightarrow> int option \<Rightarrow> int \<Rightarrow>
    placement_error + ('c, 'k) plan" where
  "PlanDKSPlacement rng G p0 facts now age =
     (case validatePipeline rng p0 of
        Some e \<Rightarrow> Inl (InvalidPipeline e)
      | None \<Rightarrow>
          if pi_schema p0 \<noteq> PipelineSchemaV2 then Inl NeedsV2
          else let p = canonicalPipeline p0 in
            (case (now, age \<le> 0) of
               (Some t, False) \<Rightarrow>
                 (case scan (fact_step G) 0 [] facts of
                    Inl e \<Rightarrow> Inl e
                  | Inr _ \<Rightarrow>
                      (case scan (row_step (task_map p)) 0 [] (pi_matrix p) of
                         Inl e \<Rightarrow> Inl e
                       | Inr matrix \<Rightarrow>
                           (case scan (plan_step G p matrix facts t age) 0 ([], []) (pi_tasks p) of
                              Inl e \<Rightarrow> Inl e
                            | Inr (cohorts, reductions) \<Rightarrow>
                                Inr \<lparr>pn_schema = DKSPlacementPlanSchema, pn_pipeline = pi_name p, pn_cohorts = sort_key (dg_task G) cohorts,
                                  pn_reductions = sort_key rd_reducer reductions\<rparr>)))
             | _ \<Rightarrow> Inl NeedsClock))"

section \<open>Documents\<close>

record 'f host_inventory =
  hi_schema :: string
  hi_facts :: "'f list"

definition DecodeDKSHostFacts :: "('f, 'c, 'k) planner \<Rightarrow> (string \<Rightarrow> verr + 'f host_inventory) \<Rightarrow> string \<Rightarrow> verr + 'f host_inventory" where
  "DecodeDKSHostFacts G dec data =
     (case dec data of
        Inl e \<Rightarrow> Inl e
      | Inr h \<Rightarrow>
          (case first_error [
             refuse (hi_schema h \<noteq> DKSHostFactsSchema) (Bad ''schema'' (Unknown (hi_schema h))),
             refuse (hi_facts h = []) (Bad ''facts'' MustNotBeEmpty),
             each_from (\<lambda>i f. refuse (\<not> dg_valid G f) (At ''facts'' i (Bad [] OutOfRange))) 0 (hi_facts h)] of
             Some e \<Rightarrow> Inl e | None \<Rightarrow> Inr h))"

definition DecodeDKSPlacementPlan :: "(string \<Rightarrow> verr + ('c, 'k) plan) \<Rightarrow> string \<Rightarrow> verr + ('c, 'k) plan" where
  "DecodeDKSPlacementPlan dec data =
     (case dec data of
        Inl e \<Rightarrow> Inl e
      | Inr pn \<Rightarrow>
          (case first_error [
             refuse (pn_schema pn \<noteq> DKSPlacementPlanSchema) (Bad ''schema'' (Unknown (pn_schema pn))),
             validateID ''pipeline'' (pn_pipeline pn)] of
             Some e \<Rightarrow> Inl e | None \<Rightarrow> Inr pn))"

definition MarshalDKSPlacementPlan :: "(('c, 'k) plan \<Rightarrow> string option) \<Rightarrow> ('c, 'k) plan \<Rightarrow> verr + string" where
  "MarshalDKSPlacementPlan enc pn =
     (if pn_schema pn \<noteq> DKSPlacementPlanSchema then Inl (Bad ''schema'' (Unknown (pn_schema pn)))
      else case enc pn of None \<Rightarrow> Inl (Bad ''malformed JSON'' NotPresent) | Some s \<Rightarrow> Inr (s @ [CHR 0x0A]))"

end
