(* ===== verification/Dhnt_Placement_Laws.thy ===== *)
theory Dhnt_Placement_Laws
  imports Dhnt_Placement
begin

text \<open>
  What the loops of the planner compute: the rows of a valid pipeline, the groups of a reducer, which share
  its chunks out without loss, and the list of cohorts and reductions.
\<close>

lemma map_sort_key: "map f (sort_key f xs) = sort (map f xs)" for f :: "'a \<Rightarrow> 'b::linorder"
  by (rule properties_for_sort [symmetric]) simp_all

lemma sort_mset: "mset xs = mset ys \<Longrightarrow> sort xs = sort ys"
  by (metis sorted_list_of_multiset_mset)

section \<open>Rows\<close>

lemma row_scan: "scan (row_step tasks) n acc es = Inr m \<Longrightarrow> m = rev (map (\<lambda>e. (m_task e, e)) es) @ acc"
  by (induction es arbitrary: n acc) (auto simp: row_step_def split: if_splits)

lemma row_of_valid:
  assumes p: "pipeline_ok p" and m: "scan (row_step tasks) 0 [] (pi_matrix p) = Inr m" and t: "t \<in> set (pi_tasks p)"
  shows "row_of m t \<in> set (pi_matrix p)" "m_task (row_of m t) = t_id t"
    "e \<in> set (pi_matrix p) \<Longrightarrow> m_task e = t_id t \<Longrightarrow> m_chunk e = m_chunk (row_of m t)"
proof -
  have m: "m = rev (map (\<lambda>e. (m_task e, e)) (pi_matrix p))" using row_scan [OF m] by simp
  have "t_id t \<in> m_task ` set (pi_matrix p)" using p t by (auto simp: pipeline_ok_def)
  then have "map_of m (t_id t) \<noteq> None" by (auto simp: m map_of_eq_None_iff image_image)
  then obtain r where r: "map_of m (t_id t) = Some r" by blast
  then have "(t_id t, r) \<in> set m" by (rule map_of_SomeD)
  then have in_m: "r \<in> set (pi_matrix p)" "m_task r = t_id t" by (auto simp: m)
  with r show "row_of m t \<in> set (pi_matrix p)" "m_task (row_of m t) = t_id t" by (simp_all add: row_of_def)
  assume "e \<in> set (pi_matrix p)" "m_task e = t_id t"
  moreover have "\<forall>e\<in>set (pi_matrix p). \<forall>d\<in>set (pi_matrix p). same_chunk d e" using p by (simp add: pipeline_ok_def)
  ultimately have "same_chunk e r" using in_m(1) by blast
  then show "m_chunk e = m_chunk (row_of m t)" using \<open>m_task e = t_id t\<close> in_m(2) r by (simp add: same_chunk_def row_of_def)
qed

lemma map_of_tasks: "pipeline_ok p \<Longrightarrow> map_of (task_map p) i = Some t \<longleftrightarrow> t \<in> set (pi_tasks p) \<and> t_id t = i"
  unfolding task_map_def by (rule map_of_task_map) (simp add: pipeline_ok_def)

text \<open>A row has a chunk exactly when its task is shardable.\<close>

lemma row_chunk:
  assumes p: "pipeline_ok p" and m: "scan (row_step tasks) 0 [] (pi_matrix p) = Inr m" and t: "t \<in> set (pi_tasks p)"
  shows "m_chunk (row_of m t) \<noteq> None \<longleftrightarrow> t_distribution t = ''shardable''"
    "m_chunk (row_of m t) = Some c \<Longrightarrow> chunk_ok c \<and> (t_id t, c) \<in> shards p"
proof -
  note r = row_of_valid [OF p m t]
  have "entry_ok (pi_schema p) (task_map p) (row_of m t)" using p r(1) by (simp add: pipeline_ok_def)
  then have e: "if t_distribution t = ''shardable'' then \<exists>c. m_chunk (row_of m t) = Some c \<and> chunk_ok c else m_chunk (row_of m t) = None"
    using map_of_tasks [OF p] r(2) t by (auto simp: entry_ok_def) (metis option.inject)+
  then show "m_chunk (row_of m t) \<noteq> None \<longleftrightarrow> t_distribution t = ''shardable''" by (auto split: if_splits)
  assume c: "m_chunk (row_of m t) = Some c"
  then show "chunk_ok c \<and> (t_id t, c) \<in> shards p"
    using e r(1,2) unfolding shards_def by (auto split: if_splits) (metis (mono_tags))
qed

section \<open>Reductions\<close>

definition member_of :: "(string \<times> matrix_entry) list \<Rightarrow> task \<Rightarrow> int \<times> string" where
  "member_of m s = (c_index (the (m_chunk (row_of m s))), t_id s)"

definition shared :: "shard_groups \<Rightarrow> (int \<times> string) list" where
  "shared gs = concat (map (\<lambda>g. snd (snd g)) gs)"

lemma shared_update:
  "map_of gs key = Some (sp, ms) \<Longrightarrow> mset (shared (AList.update key (sp, ms @ [x]) gs)) = add_mset x (mset (shared gs))"
  by (induction gs) (auto simp: shared_def)

lemma shard_scan:
  "scan (shard_step G m) k ((n, full), gs) ss = Inr (nf, gs') \<Longrightarrow>
     (\<forall>s\<in>set ss. m_chunk (row_of m s) \<noteq> None) \<and> mset (shared gs') = mset (shared gs) + mset (map (member_of m) ss)"
proof (induction ss arbitrary: k n full gs)
  case (Cons s ss)
  obtain c key where c: "m_chunk (row_of m s) = Some c"
      and key: "dg_json G ((placementTaskSpec s (row_of m s))\<lparr>ts_task := [], ts_reducer := []\<rparr>) = Some key"
    using Cons.prems by (auto simp: shard_step_def Let_def split: option.splits)
  let ?gs = "case map_of gs key of None \<Rightarrow> gs @ [(key, placementTaskSpec s (row_of m s), [member_of m s])]
    | Some (sp, ms) \<Rightarrow> AList.update key (sp, ms @ [member_of m s]) gs"
  have "shard_step G m k ((n, full), gs) s = Inr ((c_count c, full @ [member_of m s]), ?gs)"
  proof -
    have "member_of m s = (c_index c, t_id s)" using c by (simp add: member_of_def)
    then show ?thesis unfolding shard_step_def using c key by (simp only: Let_def prod.case option.case)
  qed
  then have "scan (shard_step G m) (Suc k) ((c_count c, full @ [member_of m s]), ?gs) ss = Inr (nf, gs')"
    using Cons.prems by simp
  from Cons.IH [OF this] have IH: "\<forall>s\<in>set ss. m_chunk (row_of m s) \<noteq> None"
    "mset (shared gs') = mset (shared ?gs) + mset (map (member_of m) ss)" by blast+
  have "mset (shared ?gs) = add_mset (member_of m s) (mset (shared gs))"
    using shared_update [of gs key] by (auto simp: shared_def split: option.split prod.split)
  with IH c show ?case by simp
qed simp

lemma partial_scan:
  assumes H: "\<forall>spec mf fs t a cs rs. dg_reduce G spec mf fs t a = Some (cs, rs) \<longrightarrow> mset (map (dg_index G) cs) = mset (map fst (mf_chunks mf))"
  shows "scan (partial_step G r facts now age) k (cs, rs) gs = Inr (cs', rs') \<Longrightarrow>
    mset (map (dg_index G) cs') = mset (map (dg_index G) cs) + mset (map fst (shared gs))"
proof (induction gs arbitrary: k cs rs)
  case (Cons g gs)
  obtain key spec ms where g: "g = (key, spec, ms)" by (cases g)
  obtain x y where xy: "dg_reduce G spec \<lparr>mf_suite = r, mf_count = int (length ms), mf_chunks = ms\<rparr> facts now age = Some (x, y)"
    using Cons.prems by (auto simp: partial_step_def g split: option.splits)
  then have "partial_step G r facts now age k (cs, rs) g = Inr (cs @ x, rs @ y)" by (simp add: partial_step_def g)
  then have "scan (partial_step G r facts now age) (Suc k) (cs @ x, rs @ y) gs = Inr (cs', rs')"
    using Cons.prems by simp
  from Cons.IH [OF this] H xy show ?case by (fastforce simp: shared_def g)
qed (simp add: shared_def)

lemma shared_sort: "mset (map fst (shared (sort_key fst gs))) = mset (map fst (shared gs))" for gs :: shard_groups
proof -
  have "mset (concat (map h xs)) = sum_list (map (\<lambda>x. mset (h x)) xs)" for h :: "string \<times> task_spec \<times> (int \<times> string) list \<Rightarrow> (int \<times> string) list" and xs
    by (induction xs) simp_all
  moreover have "sum_list (map h (sort_key fst gs)) = sum_list (map h gs)" for h :: "_ \<Rightarrow> (int \<times> string) multiset"
    by (metis mset_map mset_sort sum_mset_sum_list)
  ultimately have "mset (shared (sort_key fst gs)) = mset (shared gs)" by (simp add: shared_def)
  then show ?thesis by simp
qed

lemma plan_reduction_Inr:
  assumes H: "\<forall>spec mf fs t a cs rs. dg_reduce G spec mf fs t a = Some (cs, rs) \<longrightarrow> mset (map (dg_index G) cs) = mset (map fst (mf_chunks mf))"
    and r: "plan_reduction G p m facts now age t = Inr r"
  shows "rd_reducer r = t_reducer t" "\<exists>c. m_chunk (row_of m t) = Some c \<and> rd_manifest r = c_manifest c"
    "map (dg_index G) (rd_chunks r) = sort (map (\<lambda>s. fst (member_of m s)) (filter (\<lambda>s. t_reducer s = t_reducer t) (pi_tasks p)))"
proof -
  let ?ss = "filter (\<lambda>s. t_reducer s = t_reducer t) (pi_tasks p)"
  obtain nf gs where s: "scan (shard_step G m) 0 ((0, []), []) ?ss = Inr (nf, gs)"
    using r by (auto simp: plan_reduction_def split: sum.splits)
  obtain c where c: "m_chunk (row_of m t) = Some c" using r s by (auto simp: plan_reduction_def split: option.splits prod.splits)
  obtain cs rs where cs: "scan (partial_step G (t_reducer t) facts now age) 0 ([], []) (sort_key fst gs) = Inr (cs, rs)"
    using r s c by (auto simp: plan_reduction_def split: sum.splits prod.splits)
  have rr: "rd_reducer r = t_reducer t" "rd_manifest r = c_manifest c" "rd_chunks r = sort_key (dg_index G) cs"
    using r by (auto simp: plan_reduction_def s c cs split: prod.splits)
  show "rd_reducer r = t_reducer t" "\<exists>c. m_chunk (row_of m t) = Some c \<and> rd_manifest r = c_manifest c" using rr c by simp_all
  have "mset (map (dg_index G) cs) = mset (map fst (shared gs))"
    using partial_scan [OF H cs] by (simp only: shared_sort) simp
  also have "\<dots> = mset (map (\<lambda>s. fst (member_of m s)) ?ss)"
  proof -
    have "mset (shared gs) = mset (map (member_of m) ?ss)" using shard_scan [OF s] by (simp add: shared_def)
    then have "mset (map fst (shared gs)) = mset (map fst (map (member_of m) ?ss))" by (simp only: mset_map)
    then show ?thesis by (simp add: comp_def)
  qed
  finally have "sort (map (dg_index G) cs) = sort (map (\<lambda>s. fst (member_of m s)) ?ss)"
    by (rule sort_mset)
  then show "map (dg_index G) (rd_chunks r) = sort (map (\<lambda>s. fst (member_of m s)) ?ss)" by (simp add: rr map_sort_key)
qed


text \<open>The siblings of a placed shard hold the chunks of its manifest, each once.\<close>

lemma siblings_chunks:
  assumes p: "pipeline_ok p" "pi_schema p = PipelineSchemaV2" and m: "scan (row_step tasks) 0 [] (pi_matrix p) = Inr m"
    and t: "t \<in> set (pi_tasks p)" "m_chunk (row_of m t) = Some c" "t_reducer t \<noteq> []"
    and ss: "\<forall>s\<in>set (pi_tasks p). t_reducer s = t_reducer t \<longrightarrow> m_chunk (row_of m s) \<noteq> None"
  shows "sort (map (\<lambda>s. fst (member_of m s)) (filter (\<lambda>s. t_reducer s = t_reducer t) (pi_tasks p))) = [1..c_count c]"
proof -
  let ?ss = "filter (\<lambda>s. t_reducer s = t_reducer t) (pi_tasks p)" and ?i = "\<lambda>s. fst (member_of m s)"
  let ?X = "members (task_map p) (shards p) (t_reducer t)"
  have red: "reduce_ok (task_map p) (shards p)" using p by (simp add: pipeline_ok_def)
  have reducer: "reducer_of (task_map p) (t_id s) = t_reducer s" if "s \<in> set (pi_tasks p)" for s
    using map_of_tasks [OF p(1), of "t_id s" s] that by (simp add: reducer_of_def)
  have own: "\<exists>d. m_chunk (row_of m s) = Some d \<and> chunk_ok d \<and> (t_id s, d) \<in> ?X \<and> ?i s = c_index d" if s: "s \<in> set ?ss" for s
  proof -
    obtain d where d: "m_chunk (row_of m s) = Some d" using ss s by auto
    then show ?thesis using row_chunk(2) [OF p(1) m, of s d] s t(3) reducer [of s] by (auto simp: members_def member_of_def)
  qed
  have compat: "compatible (task_map p) x y" if "x \<in> shards p" "y \<in> shards p" for x y using red that by (simp add: reduce_ok_def)
  have tX: "(t_id t, c) \<in> ?X" using own [of t] t by auto
  have count: "c_count (snd x) = c_count c" if "x \<in> ?X" for x
    using compat [of x "(t_id t, c)"] that tX by (auto simp: members_def compatible_def)
  have set: "?i ` set ?ss = {1..c_count c}"
  proof
    show "?i ` set ?ss \<subseteq> {1..c_count c}"
    proof
      fix n assume "n \<in> ?i ` set ?ss"
      then obtain s where s: "s \<in> set ?ss" "n = ?i s" by blast
      from own [OF s(1)] obtain d where "chunk_ok d" "(t_id s, d) \<in> ?X" "?i s = c_index d" by blast
      with count [of "(t_id s, d)"] s(2) show "n \<in> {1..c_count c}" by (simp add: chunk_ok_def)
    qed
    have cover: "{1..c_count c} \<subseteq> (\<lambda>y. c_index (snd y)) ` ?X"
      using red tX unfolding reduce_ok_def members_def by fastforce
    show "{1..c_count c} \<subseteq> ?i ` set ?ss"
    proof
      fix n assume "n \<in> {1..c_count c}"
      then obtain y where y: "y \<in> ?X" "n = c_index (snd y)" using cover by blast
      then have r: "reducer_of (task_map p) (fst y) = t_reducer t" "y \<in> shards p" by (simp_all add: members_def)
      then obtain s where s: "s \<in> set (pi_tasks p)" "t_id s = fst y"
        using t(3) map_of_tasks [OF p(1), of "fst y"] by (auto simp: reducer_of_def split: option.splits)
      then have sib: "s \<in> set ?ss" using reducer [of s] r by simp
      obtain e where "e \<in> set (pi_matrix p)" "m_task e = fst y" "m_chunk e = Some (snd y)" using r(2) by (auto simp: shards_def)
      then have "m_chunk (row_of m s) = Some (snd y)" using row_of_valid(3) [OF p(1) m s(1)] s(2) by simp
      then have "?i s = n" using y(2) by (simp add: member_of_def)
      with sib show "n \<in> ?i ` set ?ss" by blast
    qed
  qed
  have inj: "inj_on ?i (set ?ss)"
  proof (rule inj_onI)
    fix s u assume su: "s \<in> set ?ss" "u \<in> set ?ss" "?i s = ?i u"
    obtain d where d: "(t_id s, d) \<in> ?X" "?i s = c_index d" using own [OF su(1)] by blast
    obtain e where e: "(t_id u, e) \<in> ?X" "?i u = c_index e" using own [OF su(2)] by blast
    have "t_id s = t_id u" using compat [of "(t_id s, d)" "(t_id u, e)"] d e su(3) by (auto simp: members_def compatible_def)
    moreover have "inj_on t_id (set (pi_tasks p))" using p(1) by (simp add: pipeline_ok_def distinct_map)
    ultimately show "s = u" using su by (auto dest: inj_onD)
  qed
  have "distinct ?ss" using p(1) by (simp add: pipeline_ok_def distinct_map)
  then have "distinct (map ?i ?ss)" using inj by (simp add: distinct_map)
  then show ?thesis
    using set by (intro sorted_distinct_set_unique) simp_all
qed

section \<open>The loop over the tasks\<close>

abbreviation placed :: "task \<Rightarrow> bool" where "placed t \<equiv> t_placement t \<noteq> None"

abbreviation sharded :: "task \<Rightarrow> bool" where "sharded t \<equiv> t_placement t \<noteq> None \<and> t_distribution t = ''shardable''"

abbreviation whole :: "task \<Rightarrow> bool" where "whole t \<equiv> t_placement t \<noteq> None \<and> t_distribution t \<noteq> ''shardable''"

lemma plan_scan:
  assumes C: "\<forall>spec fs t a c. dg_cohort G spec fs t a = Some c \<longrightarrow> dg_task G c = ts_task spec"
    and D: "\<forall>t\<in>set ts. t_distribution t \<in> set Distributions"
  shows "scan (plan_step G p m facts now age) k (cs, rs) ts = Inr (cs', rs') \<Longrightarrow> distinct (map rd_reducer rs) \<Longrightarrow>
    (\<And>r t. plan_reduction G p m facts now age t = Inr r \<Longrightarrow> rd_reducer r = t_reducer t) \<Longrightarrow>
    map (dg_task G) cs' = map (dg_task G) cs @ map t_id (filter whole ts) \<and> distinct (map rd_reducer rs') \<and>
    rd_reducer ` set rs' = rd_reducer ` set rs \<union> t_reducer ` set (filter sharded ts) \<and>
    (\<forall>r\<in>set rs'. r \<in> set rs \<or> (\<exists>t\<in>set ts. sharded t \<and> plan_reduction G p m facts now age t = Inr r))"
  using D
proof (induction ts arbitrary: k cs rs)
  case (Cons t ts)
  obtain cs1 rs1 where st: "plan_step G p m facts now age k (cs, rs) t = Inr (cs1, rs1)"
    and rest: "scan (plan_step G p m facts now age) (Suc k) (cs1, rs1) ts = Inr (cs', rs')"
    using Cons.prems(1) by (auto split: sum.splits)
  note R = Cons.prems(3)
  consider (skip) "\<not> placed t" "cs1 = cs" "rs1 = rs"
    | (again) "sharded t" "t_reducer t \<in> rd_reducer ` set rs" "cs1 = cs" "rs1 = rs"
    | (shard) r where "sharded t" "t_reducer t \<notin> rd_reducer ` set rs" "plan_reduction G p m facts now age t = Inr r" "cs1 = cs" "rs1 = rs @ [r]"
    | (cohort) c where "whole t" "dg_cohort G (placementTaskSpec t (row_of m t)) facts now age = Some c" "cs1 = cs @ [c]" "rs1 = rs"
    using st Cons.prems(4) by (auto simp: plan_step_def Distributions_def split: if_splits sum.splits option.splits)
  then show ?case
  proof cases
    case skip
    then show ?thesis using Cons.IH [OF rest _ R] Cons.prems(2,4) by auto
  next
    case again
    then show ?thesis using Cons.IH [OF rest _ R] Cons.prems(2,4) by auto
  next
    case shard
    then show ?thesis using Cons.IH [OF rest _ R] Cons.prems(2,4) R [OF shard(3)] by auto
  next
    case cohort
    have "ts_task (placementTaskSpec t (row_of m t)) = t_id t" by (simp add: placementTaskSpec_def Let_def split: option.split)
    then have "dg_task G c = t_id t" using C cohort(2) by metis
    then show ?thesis using Cons.IH [OF rest _ R] Cons.prems(2,4) cohort by auto
  qed
qed simp

end
