(* ===== verification/Dhnt_Placement_Properties.thy ===== *)
theory Dhnt_Placement_Properties
  imports Dhnt_Placement_Laws Dhnt_Properties
begin

text \<open>What a placement plan holds: theorems about \<open>PlanDKSPlacement\<close>, with a pipeline of one shard and its reducer.\<close>

lemma plan_Inr:
  assumes "PlanDKSPlacement rng G p facts now age = Inr pn" "enumerates rng"
  obtains t m cs rs where "pipeline_ok p" "pi_schema p = PipelineSchemaV2" "now = Some t"
    "scan (row_step (task_map (canonicalPipeline p))) 0 [] (pi_matrix (canonicalPipeline p)) = Inr m"
    "scan (plan_step G (canonicalPipeline p) m facts t age) 0 ([], []) (pi_tasks (canonicalPipeline p)) = Inr (cs, rs)"
    "pn = \<lparr>pn_schema = DKSPlacementPlanSchema, pn_pipeline = pi_name p, pn_cohorts = sort_key (dg_task G) cs, pn_reductions = sort_key rd_reducer rs\<rparr>"
proof -
  have v: "validatePipeline rng p = None" using assms(1) by (auto simp: PlanDKSPlacement_def split: option.splits)
  have ok: "pipeline_ok p" using v validatePipeline_None [OF assms(2)] by simp
  have s: "pi_schema p = PipelineSchemaV2" using assms(1) v by (auto simp: PlanDKSPlacement_def split: if_splits)
  show thesis
    using assms(1) v s that [OF ok s]
    by (auto simp: PlanDKSPlacement_def Let_def canonicalPipeline_def split: option.splits bool.splits sum.splits prod.splits)
qed

lemma canonical_same [simp]: "pi_schema (canonicalPipeline p) = pi_schema p" "pi_name (canonicalPipeline p) = pi_name p"
  by (simp_all add: canonicalPipeline_def)

lemma shards_rows: "shards q = (\<Union>e \<in> set (pi_matrix q). (\<lambda>c. (m_task e, c)) ` set_option (m_chunk e))"
  by (auto simp: shards_def)

lemma canonical_filter:
  assumes "\<And>t. P (canonical_task t) = P t" "\<And>t. f (canonical_task t) = f t"
  shows "mset (map f (filter P (pi_tasks (canonicalPipeline p)))) = mset (map f (filter P (pi_tasks p)))"
proof -
  have "map f (filter P (map canonical_task ts)) = map f (filter P ts)" for ts by (induction ts) (simp_all add: assms)
  then show ?thesis by (simp add: canonicalPipeline_def filter_sort [symmetric])
    (metis mset_filter mset_map)
qed

text \<open>C35. A plan serves exactly what asks for a placement: with a dag module that names a cohort after its task and places
  each chunk of a manifest once, there is one cohort for each placed task that is not shardable, one reduction for each
  reducer of placed shards, both in order, and every reduction places the chunks 1 to the declared count, each once,
  under the digest of their manifest.\<close>

theorem placement_serves_all:
  assumes "enumerates rng" "PlanDKSPlacement rng G p facts now age = Inr pn"
    and "\<forall>spec fs t a c. dg_cohort G spec fs t a = Some c \<longrightarrow> dg_task G c = ts_task spec"
    and "\<forall>spec mf fs t a cs rs. dg_reduce G spec mf fs t a = Some (cs, rs) \<longrightarrow> mset (map (dg_index G) cs) = mset (map fst (mf_chunks mf))"
  shows "map (dg_task G) (pn_cohorts pn) = sort (map t_id (filter whole (pi_tasks p))) \<and>
    map rd_reducer (pn_reductions pn) = sort (remdups (map t_reducer (filter sharded (pi_tasks p)))) \<and>
    (\<forall>r\<in>set (pn_reductions pn). \<exists>(i, c)\<in>shards p. reducer_of (task_map p) i = rd_reducer r \<and> rd_manifest r = c_manifest c \<and>
       map (dg_index G) (rd_chunks r) = [1..c_count c])"
proof -
  let ?p = "canonicalPipeline p"
  obtain t m cs rs where v: "pipeline_ok p" "pi_schema p = PipelineSchemaV2"
    and m: "scan (row_step (task_map ?p)) 0 [] (pi_matrix ?p) = Inr m"
    and s: "scan (plan_step G ?p m facts t age) 0 ([], []) (pi_tasks ?p) = Inr (cs, rs)"
    and pn: "pn = \<lparr>pn_schema = DKSPlacementPlanSchema, pn_pipeline = pi_name p, pn_cohorts = sort_key (dg_task G) cs, pn_reductions = sort_key rd_reducer rs\<rparr>"
    using assms(2,1) by (rule plan_Inr)
  have ok: "pipeline_ok ?p" using canonical_ok [OF v(1)] .
  have D: "\<forall>t\<in>set (pi_tasks ?p). t_distribution t \<in> set Distributions" using ok by (auto simp: pipeline_ok_def task_ok_def)
  note scan = plan_scan [OF assms(3) D s _ plan_reduction_Inr(1) [OF assms(4)], simplified]
  have cohorts: "map (dg_task G) cs = map t_id (filter whole (pi_tasks ?p))" and dist: "distinct (map rd_reducer rs)"
    and reducers: "rd_reducer ` set rs = t_reducer ` set (filter sharded (pi_tasks ?p))"
    and each: "\<forall>r\<in>set rs. \<exists>t'\<in>set (pi_tasks ?p). sharded t' \<and> plan_reduction G ?p m facts t age t' = Inr r"
    using scan by auto
  have "map (dg_task G) (pn_cohorts pn) = sort (map t_id (filter whole (pi_tasks p)))"
  proof -
    have "mset (map t_id (filter whole (pi_tasks ?p))) = mset (map t_id (filter whole (pi_tasks p)))" by (rule canonical_filter) simp_all
    from sort_mset [OF this] show ?thesis by (simp only: pn plan.select_convs map_sort_key cohorts)
  qed
  moreover have "map rd_reducer (pn_reductions pn) = sort (remdups (map t_reducer (filter sharded (pi_tasks p))))"
  proof -
    have "mset (map t_reducer (filter sharded (pi_tasks ?p))) = mset (map t_reducer (filter sharded (pi_tasks p)))" by (rule canonical_filter) simp_all
    from mset_eq_setD [OF this] have "set (map rd_reducer rs) = set (map t_reducer (filter sharded (pi_tasks p)))"
      by (simp only: set_map reducers)
    then have "sort (map rd_reducer rs) = sort (remdups (map t_reducer (filter sharded (pi_tasks p))))"
      by (intro sorted_distinct_set_unique) (simp_all only: sorted_sort distinct_sort set_sort set_remdups distinct_remdups dist)
    then show ?thesis by (simp only: pn plan.select_convs map_sort_key)
  qed
  moreover have "\<exists>(i, c)\<in>shards p. reducer_of (task_map p) i = rd_reducer r \<and> rd_manifest r = c_manifest c \<and>
       map (dg_index G) (rd_chunks r) = [1..c_count c]" if mem: "r \<in> set (pn_reductions pn)" for r
  proof -
    obtain u where u: "u \<in> set (pi_tasks ?p)" "sharded u" "plan_reduction G ?p m facts t age u = Inr r"
      using bspec [OF each, of r] mem by (auto simp: pn simp del: not_None_eq)
    note R = plan_reduction_Inr [OF assms(4) u(3)]
    obtain c where c: "m_chunk (row_of m u) = Some c" "rd_manifest r = c_manifest c" using R(2) by blast
    have "placement_ok u" using ok u(1) v(2) by (auto simp: pipeline_ok_def schema_task_ok_def)
    then have ne: "t_reducer u \<noteq> []" using u(2) by (simp add: placement_ok_def)
    have sib: "\<forall>s\<in>set (pi_tasks ?p). t_reducer s = t_reducer u \<longrightarrow> m_chunk (row_of m s) \<noteq> None"
    proof -
      obtain nf gs where "scan (shard_step G m) 0 ((0, []), []) (filter (\<lambda>s. t_reducer s = t_reducer u) (pi_tasks ?p)) = Inr (nf, gs)"
        using u(3) by (auto simp: plan_reduction_def split: sum.splits)
      from shard_scan [OF this] show ?thesis by auto
    qed
    have "map (dg_index G) (rd_chunks r) = [1..c_count c]"
      using siblings_chunks [OF ok _ m u(1) c(1) ne sib] R(3) v(2) by simp
    moreover have "(t_id u, c) \<in> shards ?p" using row_chunk(2) [OF ok m u(1) c(1)] by simp
    moreover have "reducer_of (task_map p) (t_id u) = rd_reducer r"
    proof -
      obtain w where w: "w \<in> set (pi_tasks p)" "u = canonical_task w" using u(1) by (auto simp: canonicalPipeline_def)
      then have "map_of (task_map p) (t_id u) = Some w" using map_of_tasks [OF v(1)] by simp
      then show ?thesis using R(1) w(2) by (simp add: reducer_of_def)
    qed
    moreover have "shards ?p = shards p"
      by (simp add: shards_rows canonicalPipeline_def)
    ultimately show ?thesis using c(2) by auto
  qed
  ultimately show ?thesis by blast
qed

section \<open>A shard and its reducer\<close>

definition shard_task :: task where
  "shard_task = (sample_task ''a'' [])\<lparr>t_distribution := ''shardable'', t_reducer := ''o'',
     t_placement := Some \<lparr>pl_cpu = 1, pl_memory_bytes = 0, pl_accelerator_kind = [], pl_accelerator_family = [], pl_accelerator_count = 0,
       pl_accelerator_memory = 0, pl_minimum_capacity = [], pl_topology_key = [], pl_cohort_size = 0\<rparr>\<rparr>"

definition shard_chunk :: chunk where
  "shard_chunk = \<lparr>c_index = 1, c_count = 1, c_manifest = replicate 64 (CHR ''a'')\<rparr>"

definition shard_row :: matrix_entry where
  "shard_row = \<lparr>m_task = ''a'', m_platform = sample_platform, m_chunk = Some shard_chunk, m_inputs = [sample_v2 ''o''], m_outputs = [sample_v2 ''p'']\<rparr>"

definition reducer_row :: matrix_entry where
  "reducer_row = \<lparr>m_task = ''o'', m_platform = sample_platform, m_chunk = None, m_inputs = [sample_v2 ''o''], m_outputs = [sample_v2 ''p'']\<rparr>"

text \<open>The reducer may name a reducer of its own; here nothing forbids its own name.\<close>

definition shard_pipeline :: "string \<Rightarrow> pipeline" where
  "shard_pipeline r = \<lparr>pi_schema = PipelineSchemaV2, pi_name = ''ci'', pi_source = sample_source,
     pi_tasks = [shard_task, (sample_task ''o'' [''a''])\<lparr>t_reducer := r\<rparr>], pi_matrix = [shard_row, reducer_row]\<rparr>"

definition sample_planner :: "(string, string, int) planner" where
  "sample_planner = \<lparr>dg_valid = (\<lambda>_. True), dg_worker = (\<lambda>f. f), dg_json = (\<lambda>_. Some []), dg_membership = (\<lambda>_. ''m0''),
     dg_cohort = (\<lambda>spec _ _ _. Some (ts_task spec)), dg_task = (\<lambda>c. c),
     dg_reduce = (\<lambda>_ mf _ _ _. Some (map fst (mf_chunks mf), map fst (mf_chunks mf))), dg_index = (\<lambda>k. k)\<rparr>"

lemma shard_v2: "artifacts_ok PipelineSchemaV2 [sample_v2 ''o'']" "artifacts_ok PipelineSchemaV2 [sample_v2 ''p'']"
  by (simp_all add: artifacts_ok_def sample_v2_def artifact_ok_def typed_ok_def sample_ids sample_digest)

lemma shard_pipeline_ok: "pipeline_ok (shard_pipeline r)"
proof -
  let ?ts = "[(''a'', shard_task), (''o'', (sample_task ''o'' [''a''])\<lparr>t_reducer := r\<rparr>)]"
  have t: "task_ok shard_task" "task_ok ((sample_task ''o'' [''a''])\<lparr>t_reducer := r\<rparr>)"
    by (simp_all add: shard_task_def sample_task_def task_ok_def sample_ids Lanes_def Distributions_def sample_dot nul_def env_ok_def)
  have s: "schema_task_ok PipelineSchemaV2 shard_task" "schema_task_ok PipelineSchemaV2 ((sample_task ''o'' [''a''])\<lparr>t_reducer := r\<rparr>)"
    by (simp_all add: shard_task_def sample_task_def schema_task_ok_def nonsecret_env_def placement_ok_def)
  have e: "entry_ok PipelineSchemaV2 ?ts shard_row" "entry_ok PipelineSchemaV2 ?ts reducer_row"
    by (simp_all add: shard_row_def reducer_row_def entry_ok_def sample_platform_def platform_ok_def shard_v2 sample_task_def
        shard_task_def shard_chunk_def chunk_ok_def sample_digest)
  have ids: "t_id shard_task = ''a''" "t_id ((sample_task ''o'' [''a''])\<lparr>t_reducer := r\<rparr>) = ''o''"
    by (simp_all add: shard_task_def sample_task_def)
  have "dependencies ?ts \<subseteq> {(''a'', ''o''), (''o'', ''a'')}"
    by (auto simp: dependencies_def depends_def needs_of_def shard_task_def sample_task_def split: if_splits option.splits)
  moreover have "(''a'', ''o'') \<notin> dependencies ?ts \<or> (''o'', ''a'') \<notin> dependencies ?ts"
    by (auto simp: dependencies_def depends_def needs_of_def shard_task_def sample_task_def)
  ultimately have "dependencies ?ts \<subseteq> {(''a'', ''o'')} \<or> dependencies ?ts \<subseteq> {(''o'', ''a'')}" by blast
  moreover have "acyclic {(''a'', ''o'')}" "acyclic {(''o'', ''a'')}"
    using acyclic_insert [of _ _ "{} :: (string \<times> string) set"] by (simp_all add: acyclic_def)
  ultimately have a: "acyclic (dependencies ?ts)" using acyclic_subset by blast
  have "shards (shard_pipeline r) = {(''a'', shard_chunk)}"
    by (simp add: shards_rows shard_pipeline_def shard_row_def reducer_row_def)
  moreover have "reduce_ok ?ts {(''a'', shard_chunk)}"
    by (auto simp: reduce_ok_def shard_ok_def compatible_def members_def reducer_of_def shard_task_def sample_task_def shard_chunk_def)
  ultimately have red: "reduce_ok ?ts (shards (shard_pipeline r))" by simp
  have tm: "task_map (shard_pipeline r) = ?ts" by (simp add: task_map_def shard_pipeline_def ids)
  have needs: "t_needs shard_task = []" "t_needs ((sample_task ''o'' [''a''])\<lparr>t_reducer := r\<rparr>) = [''a'']"
    by (simp_all add: shard_task_def sample_task_def)
  have rows: "m_task shard_row = ''a''" "m_task reducer_row = ''o''" by (simp_all add: shard_row_def reducer_row_def)
  show ?thesis
    unfolding pipeline_ok_def tm
    using t s e a red by (simp add: shard_pipeline_def sample_source_ok sample_ids ids needs rows same_chunk_def)
qed

lemma shard_canonical:
  "pi_tasks (canonicalPipeline (shard_pipeline r)) = [shard_task, (sample_task ''o'' [''a''])\<lparr>t_reducer := r\<rparr>]"
  "pi_matrix (canonicalPipeline (shard_pipeline r)) = [shard_row, reducer_row]"
  by (simp_all add: canonicalPipeline_def shard_pipeline_def canonical_task_def canonical_entry_def sortedStrings_def sortedArtifacts_def
      shard_task_def sample_task_def shard_row_def reducer_row_def matrixKey_def)

lemma shard_matrix:
  "scan (row_step (task_map (canonicalPipeline (shard_pipeline r)))) 0 [] [shard_row, reducer_row] = Inr [(''o'', reducer_row), (''a'', shard_row)]"
  by (simp add: row_step_def shard_row_def reducer_row_def)


lemma shard_plan:
  "PlanDKSPlacement (\<lambda>_ ks. ks) sample_planner (shard_pipeline r) [''w''] (Some 0) 1 =
     (case scan (plan_step sample_planner (canonicalPipeline (shard_pipeline r)) [(''o'', reducer_row), (''a'', shard_row)] [''w''] 0 1) 0 ([], [])
        [shard_task, (sample_task ''o'' [''a''])\<lparr>t_reducer := r\<rparr>] of
        Inl e \<Rightarrow> Inl e
      | Inr (cohorts, reductions) \<Rightarrow> Inr \<lparr>pn_schema = DKSPlacementPlanSchema, pn_pipeline = ''ci'', pn_cohorts = sort cohorts,
          pn_reductions = sort_key rd_reducer reductions\<rparr>)"
proof -
  have v: "validatePipeline (\<lambda>_ ks. ks) (shard_pipeline r) = None" using shard_pipeline_ok by (simp add: validatePipeline_None enumerates_id)
  have f: "scan (fact_step sample_planner) 0 [] [''w''] = Inr [''w'']" by (simp add: fact_step_def sample_planner_def)
  have c: "pi_schema (shard_pipeline r) = PipelineSchemaV2" "pi_name (shard_pipeline r) = ''ci''" "dg_task sample_planner = (\<lambda>c. c)"
    by (simp_all add: shard_pipeline_def sample_planner_def)
  show ?thesis
    unfolding PlanDKSPlacement_def v Let_def shard_canonical shard_matrix f by (simp add: c del: scan.simps split: sum.split)
qed

text \<open>The planner dereferences the chunk of every task that names the reducer of a placed shard: it panics only if one of
  them is not shardable, and on a valid pipeline it does.\<close>

lemma scan_Inl: "scan f n st xs = Inl e \<Longrightarrow> \<exists>k st x. x \<in> set xs \<and> f k st x = Inl e"
proof (induction xs arbitrary: n st)
  case (Cons x xs)
  show ?case
  proof (cases "f n st x")
    case (Inl e')
    then show ?thesis using Cons.prems by (intro exI [of _ n] exI [of _ st] exI [of _ x]) simp
  next
    case (Inr st')
    then show ?thesis using Cons.IH [of "Suc n" st'] Cons.prems by auto
  qed
qed simp

lemma scan_never: "(\<And>k st x. f k st x \<noteq> Inl e) \<Longrightarrow> scan f n st xs \<noteq> Inl e"
  by (metis scan_Inl)

lemma nil_shard: "shard_step G m k st s = Inl (NilChunk i) \<Longrightarrow> m_chunk (row_of m s) = None \<and> i = t_id s"
  by (auto simp: shard_step_def Let_def split: option.splits prod.splits)

lemma nil_reduction:
  assumes "plan_reduction G p m facts now age t = Inl (NilChunk i)" "t \<in> set (pi_tasks p)"
  shows "\<exists>s\<in>set (pi_tasks p). t_reducer s = t_reducer t \<and> m_chunk (row_of m s) = None \<and> i = t_id s"
proof (cases "scan (shard_step G m) 0 ((0, []), []) (filter (\<lambda>s. t_reducer s = t_reducer t) (pi_tasks p))")
  case (Inl e)
  with assms(1) have "e = NilChunk i" by (simp add: plan_reduction_def)
  with scan_Inl [OF Inl] nil_shard [of G m _ _ _ i] show ?thesis by fastforce
next
  case (Inr st)
  then have all: "m_chunk (row_of m t) \<noteq> None" using shard_scan [of G m 0 0 "[]" "[]" _ "fst st" "snd st"] assms(2) by simp
  have "scan (partial_step G r facts now age) 0 z gs \<noteq> Inl (NilChunk i)" for r z gs
    by (rule scan_never) (auto simp: partial_step_def split: option.splits prod.splits)
  with Inr all assms(1) show ?thesis by (auto simp: plan_reduction_def split: option.splits prod.splits sum.splits)
qed

text \<open>A plan does not depend on the order in which a pipeline lists its tasks, needs, variables, rows and artifacts, nor
  on the order of Go's maps: two valid pipelines with the same listing get the same plan or the same error.\<close>

theorem placement_ignores_order:
  assumes "enumerates rng" "enumerates rng'" "pipeline_ok p" "pipeline_ok q" "same_listing p q"
  shows "PlanDKSPlacement rng G p facts now age = PlanDKSPlacement rng' G q facts now age"
proof -
  have "validatePipeline rng p = None" "validatePipeline rng' q = None" using assms by (simp_all add: validatePipeline_None)
  moreover have "pi_schema p = pi_schema q" using assms(5) by (simp add: same_listing_def)
  moreover have "canonicalPipeline p = canonicalPipeline q" using canonical_eq_iff [OF assms(3,4)] assms(5) by simp
  ultimately show ?thesis by (simp add: PlanDKSPlacement_def)
qed


text \<open>C36. The planner meets a nil pointer only for a task that names the reducer of a placed shard without being
  shardable itself; validation does not exclude such a task.\<close>

theorem placement_nil_chunk:
  assumes "enumerates rng" "PlanDKSPlacement rng G p facts now age = Inl (NilChunk i)"
  shows "\<exists>t\<in>set (pi_tasks p). \<exists>s\<in>set (pi_tasks p). sharded t \<and> t_reducer s = t_reducer t \<and> t_distribution s \<noteq> ''shardable'' \<and> t_id s = i"
proof -
  let ?p = "canonicalPipeline p"
  have v: "validatePipeline rng p = None" using assms(2) by (auto simp: PlanDKSPlacement_def split: option.splits)
  have ok: "pipeline_ok ?p" using v validatePipeline_None [OF assms(1)] canonical_ok by simp
  have facts: "scan (fact_step G) 0 [] facts \<noteq> Inl (NilChunk i)" by (rule scan_never) (simp add: fact_step_def)
  have rows: "scan (row_step ts) 0 [] es \<noteq> Inl (NilChunk i)" for ts es by (rule scan_never) (simp add: row_step_def)
  obtain m t where m: "scan (row_step (task_map ?p)) 0 [] (pi_matrix ?p) = Inr m"
    and s: "scan (plan_step G ?p m facts t age) 0 ([], []) (pi_tasks ?p) = Inl (NilChunk i)"
    using assms(2) v facts rows by (auto simp: PlanDKSPlacement_def Let_def split: option.splits bool.splits sum.splits prod.splits if_splits)
  obtain k st u where u: "u \<in> set (pi_tasks ?p)" "plan_step G ?p m facts t age k st u = Inl (NilChunk i)" using scan_Inl [OF s] by blast
  then have r: "sharded u" "plan_reduction G ?p m facts t age u = Inl (NilChunk i)"
    by (auto simp: plan_step_def split: if_splits option.splits sum.splits prod.splits)
  obtain w where w: "w \<in> set (pi_tasks ?p)" "t_reducer w = t_reducer u" "m_chunk (row_of m w) = None" "i = t_id w"
    using nil_reduction [OF r(2) u(1)] by blast
  have "t_distribution w \<noteq> ''shardable''" using row_chunk(1) [OF ok m w(1)] w(3) by simp
  moreover obtain u' where "u' \<in> set (pi_tasks p)" "u = canonical_task u'" using u(1) by (auto simp: canonicalPipeline_def)
  moreover obtain w' where "w' \<in> set (pi_tasks p)" "w = canonical_task w'" using w(1) by (auto simp: canonicalPipeline_def)
  ultimately show ?thesis using r(1) w(2,4) by (intro bexI [of _ u'] bexI [of _ w']) simp_all
qed


section \<open>Witnesses\<close>

lemma shard_plans:
  "\<exists>pn. PlanDKSPlacement (\<lambda>_ ks. ks) sample_planner (shard_pipeline []) [''w''] (Some 0) 1 = Inr pn \<and> map rd_chunks (pn_reductions pn) = [[1]]"
  "PlanDKSPlacement (\<lambda>_ ks. ks) sample_planner (shard_pipeline ''o'') [''w''] (Some 0) 1 = Inl (NilChunk ''o'')"
proof -
  have r: "row_of [(''o'', reducer_row), (''a'', shard_row)] shard_task = shard_row"
    "row_of [(''o'', reducer_row), (''a'', shard_row)] ((sample_task ''o'' [''a''])\<lparr>t_reducer := x\<rparr>) = reducer_row" for x
    by (simp_all add: row_of_def shard_task_def sample_task_def)
  have c: "m_chunk shard_row = Some shard_chunk" "m_chunk reducer_row = None" "c_index shard_chunk = 1" "c_manifest shard_chunk = replicate 64 (CHR ''a'')"
    by (simp_all add: shard_row_def reducer_row_def shard_chunk_def)
  have t: "t_reducer shard_task = ''o''" "t_distribution shard_task = ''shardable''" "t_placement shard_task \<noteq> None" "t_id shard_task = ''a''"
    "t_id ((sample_task ''o'' [''a''])\<lparr>t_reducer := x\<rparr>) = ''o''" "t_placement ((sample_task ''o'' [''a''])\<lparr>t_reducer := x\<rparr>) = None" for x
    by (simp_all add: shard_task_def sample_task_def)
  have g: "dg_json sample_planner s = Some []" "dg_index sample_planner = (\<lambda>k. k)"
    "dg_reduce sample_planner s mf fs n a = Some (map fst (mf_chunks mf), map fst (mf_chunks mf))" for s mf fs n a
    by (simp_all add: sample_planner_def)
  note steps = plan_step_def plan_reduction_def shard_canonical shard_step_def partial_step_def r c t g Let_def
  show "\<exists>pn. PlanDKSPlacement (\<lambda>_ ks. ks) sample_planner (shard_pipeline []) [''w''] (Some 0) 1 = Inr pn \<and> map rd_chunks (pn_reductions pn) = [[1]]"
    unfolding shard_plan by (simp add: steps)
  show "PlanDKSPlacement (\<lambda>_ ks. ks) sample_planner (shard_pipeline ''o'') [''w''] (Some 0) 1 = Inl (NilChunk ''o'')"
    unfolding shard_plan by (simp add: steps)
qed

theorem placement_serves_all_witness:
  "\<exists>pn. PlanDKSPlacement (\<lambda>_ ks. ks) sample_planner (shard_pipeline []) [''w''] (Some 0) 1 = Inr pn \<and> map rd_reducer (pn_reductions pn) = [''o'']"
proof -
  obtain pn where pn: "PlanDKSPlacement (\<lambda>_ ks. ks) sample_planner (shard_pipeline []) [''w''] (Some 0) 1 = Inr pn" using shard_plans(1) by blast
  have "map rd_reducer (pn_reductions pn) = sort (remdups (map t_reducer (filter sharded (pi_tasks (shard_pipeline [])))))"
    using placement_serves_all [OF enumerates_id pn] by (simp add: sample_planner_def)
  then have "map rd_reducer (pn_reductions pn) = [''o'']" by (simp add: shard_pipeline_def shard_task_def sample_task_def)
  then show ?thesis by (intro exI [of _ pn] conjI pn)
qed

theorem placement_ignores_order_witness:
  "PlanDKSPlacement (\<lambda>_ ks. ks) sample_planner (shard_pipeline []) [''w''] (Some 0) 1 =
   PlanDKSPlacement (\<lambda>_. rev) sample_planner (shard_pipeline []) [''w''] (Some 0) 1"
proof -
  have "enumerates (\<lambda>_. rev)" by (simp add: enumerates_def)
  moreover have "same_listing (shard_pipeline []) (shard_pipeline [])" by (simp add: same_listing_def)
  ultimately show ?thesis using placement_ignores_order [OF enumerates_id _ shard_pipeline_ok shard_pipeline_ok] by blast
qed

theorem placement_nil_chunk_witness:
  "\<exists>t\<in>set (pi_tasks (shard_pipeline ''o'')). sharded t \<and> t_reducer t = ''o''"
proof -
  obtain t s where ts: "t \<in> set (pi_tasks (shard_pipeline ''o''))" "s \<in> set (pi_tasks (shard_pipeline ''o''))" "sharded t" "t_reducer s = t_reducer t" "t_id s = ''o''"
    using placement_nil_chunk [OF enumerates_id shard_plans(2)] by blast
  then have "t_reducer s = ''o''" by (auto simp: shard_pipeline_def shard_task_def sample_task_def)
  with ts show ?thesis by auto
qed

end
