(* ===== verification/Mon_Alerts.thy ===== *)
theory Mon_Alerts
  imports Complex_Main Go_Std "HOL-Library.AList"
begin

text \<open>
  The resource alerts of a sprint (internal/agentos/sprint_monitor_alerts.go): one condition per
  sprint and metric, kept in the ledger of the resources module and advanced by every observer
  with the samples of a shared snapshot. A condition alerts after sustained pressure, recovers
  after sustained relief, follows the owner of its sprint and keeps at most four notices that
  are still to be posted.

  A time is the number of nanoseconds since the zero \<open>time.Time\<close>, which is 0. A \<open>float64\<close> is a
  rational number, an infinity or NaN (the sign of zero is not kept). The types of the resources,
  llmbudget and weave modules have the fields this code reads. The ledger is the association list
  of its rows in the order a \<open>range\<close> visits them; rows are raw JSON, read and written by
  \<open>encoding/json\<close>, the parameter \<open>codec\<close>.
\<close>

section \<open>Values\<close>

datatype f64 = NaN | PosInf | NegInf | Num rat

fun f64_le :: "f64 \<Rightarrow> f64 \<Rightarrow> bool" where
  "f64_le NaN y \<longleftrightarrow> False"
| "f64_le x NaN \<longleftrightarrow> False"
| "f64_le NegInf y \<longleftrightarrow> True"
| "f64_le x PosInf \<longleftrightarrow> True"
| "f64_le (Num x) (Num y) \<longleftrightarrow> x \<le> y"
| "f64_le x y \<longleftrightarrow> False"

text \<open>\<open>%.1f\<close>: the nearest tenth, ties to even.\<close>

definition tenths :: "rat \<Rightarrow> int" where
  "tenths q = (let n = \<lfloor>10 * q\<rfloor>; r = 10 * q - of_int n in
     if r < 1 / 2 then n else if 1 / 2 < r then n + 1 else if even n then n else n + 1)"

fun fixed1 :: "f64 \<Rightarrow> string" where
  "fixed1 NaN = ''NaN''"
| "fixed1 PosInf = ''+Inf''"
| "fixed1 NegInf = ''-Inf''"
| "fixed1 (Num q) = (let t = tenths \<bar>q\<bar> in
     (if q < 0 then ''-'' else []) @ int_text (t div 10) @ ''.'' @ int_text (t mod 10))"

text \<open>\<open>Time.Sub\<close> saturates, \<open>Time.Truncate\<close> counts from the zero time.\<close>

definition time_sub :: "int \<Rightarrow> int \<Rightarrow> int" where
  "time_sub t u = max (- (2 ^ 63)) (min (2 ^ 63 - 1) (t - u))"

definition time_truncate :: "int \<Rightarrow> int \<Rightarrow> int" where
  "time_truncate t d = t - t mod d"

definition second :: int where "second = 1000000000"

text \<open>\<open>Duration.String\<close>.\<close>

definition pad_digits :: "nat \<Rightarrow> nat \<Rightarrow> string" where
  "pad_digits k n = (let s = nat_text n in replicate (k - length s) (CHR ''0'') @ s)"

definition fraction :: "nat \<Rightarrow> nat \<Rightarrow> string" where
  "fraction k n = (let s = rev (dropWhile (\<lambda>c. c = CHR ''0'') (rev (pad_digits k n))) in
     if s = [] then [] else CHR ''.'' # s)"

definition duration_text :: "int \<Rightarrow> string" where
  "duration_text d =
     (let u = nat \<bar>d\<bar>; sign = (if d < 0 then ''-'' else []); secs = u div 10 ^ 9 in
      if u = 0 then ''0s''
      else if u < 10 ^ 3 then sign @ nat_text u @ ''ns''
      else if u < 10 ^ 6 then sign @ nat_text (u div 10 ^ 3) @ fraction 3 (u mod 10 ^ 3) @ [CHR 0xC2, CHR 0xB5, CHR ''s'']
      else if u < 10 ^ 9 then sign @ nat_text (u div 10 ^ 6) @ fraction 6 (u mod 10 ^ 6) @ ''ms''
      else sign @ (if secs \<ge> 3600 then nat_text (secs div 3600) @ ''h'' else [])
         @ (if secs \<ge> 60 then nat_text (secs div 60 mod 60) @ ''m'' else [])
         @ nat_text (secs mod 60) @ fraction 9 (u mod 10 ^ 9) @ ''s'')"

section \<open>Conditions\<close>

record alert =
  al_id :: string
  al_sprint :: int
  al_severity :: string
  al_message :: string
  al_at :: int
  al_owner :: string
  al_coalesced :: int

record alert_condition =
  co_version :: int
  co_sprint :: int
  co_key :: string
  co_owner :: string
  co_severity :: string
  co_onset :: int
  co_recovery :: int
  co_observedAt :: int
  co_generation :: "64 word"
  co_pending :: "alert list"
  co_current :: "alert option"

record alert_sample =
  sa_key :: string
  sa_message :: string
  sa_at :: int
  sa_value :: f64
  sa_high :: f64
  sa_low :: f64
  sa_known :: bool

definition zero_condition :: alert_condition where
  "zero_condition = \<lparr>co_version = 0, co_sprint = 0, co_key = [], co_owner = [], co_severity = [], co_onset = 0,
     co_recovery = 0, co_observedAt = 0, co_generation = 0, co_pending = [], co_current = None\<rparr>"

definition new_condition :: "string \<Rightarrow> int \<Rightarrow> string \<Rightarrow> alert_condition" where
  "new_condition key sprint owner = zero_condition\<lparr>co_version := 1, co_key := key, co_sprint := sprint, co_owner := owner\<rparr>"

definition notice_id :: "string \<Rightarrow> 64 word \<Rightarrow> string \<Rightarrow> string" where
  "notice_id key generation owner =
     ''resource-'' @ take 32 (sha256_hex (key @ '':'' @ nat_text (unat generation) @ '':'' @ owner))"

definition appendSprintAlert :: "string \<Rightarrow> string \<Rightarrow> int \<Rightarrow> alert_condition \<Rightarrow> alert_condition" where
  "appendSprintAlert severity message now c =
     (let generation = co_generation c + 1;
          full = 4 \<le> length (co_pending c);
          notice = \<lparr>al_id = notice_id (co_key c) generation (co_owner c), al_sprint = co_sprint c, al_severity = severity,
                    al_message = take 512 message, al_at = now, al_owner = co_owner c,
                    al_coalesced = (if full then int64 (al_coalesced (last (co_pending c)) + 1) else 0)\<rparr>
      in c\<lparr>co_generation := generation,
           co_pending := (if full then take 3 (co_pending c) else co_pending c) @ [notice],
           co_severity := severity, co_current := Some notice\<rparr>)"

definition refreshSprintAlertReading :: "alert_sample \<Rightarrow> alert_condition \<Rightarrow> alert_condition" where
  "refreshSprintAlertReading s c =
     (case co_current c of
        None \<Rightarrow> c
      | Some a \<Rightarrow> c\<lparr>co_current := Some (a\<lparr>al_message := take 512 (sa_message s), al_at := sa_at s\<rparr>)\<rparr>)"

section \<open>One sample\<close>

text \<open>
  The body of the loop of \<open>updateSprintAlertTargets\<close> on a condition that has a row, in its parts:
  a condition of no version is new; another owner takes it over; a sample that is not known
  forgets what was not yet decided; a sample newer than the last is a reading. The flags are the
  code's \<open>changed\<close> and \<open>noticed\<close>.
\<close>

definition fresh_condition :: "string \<Rightarrow> int \<Rightarrow> string \<Rightarrow> alert_condition \<Rightarrow> alert_condition \<times> bool" where
  "fresh_condition key sprint owner c =
     (if co_version c = 0 then (new_condition key sprint owner, True) else (c, False))"

definition hand_over :: "string \<Rightarrow> int \<Rightarrow> alert_condition \<Rightarrow> alert_condition \<times> bool" where
  "hand_over owner now c0 =
     (if co_owner c0 = owner then (c0, False)
      else let c = c0\<lparr>co_owner := owner, co_pending := []\<rparr> in
        case co_current c of
          Some a \<Rightarrow> (appendSprintAlert (co_severity c) (''handoff: '' @ al_message a) now c, True)
        | None \<Rightarrow>
            if co_pending c0 \<noteq> [] then
              let l = last (co_pending c0) in
              ((appendSprintAlert (al_severity l) (''handoff: '' @ al_message l) now c)\<lparr>co_current := None\<rparr>, True)
            else (c, False))"

definition forget_unknown :: "alert_sample \<Rightarrow> alert_condition \<Rightarrow> alert_condition \<times> bool" where
  "forget_unknown s c =
     (if sa_known s then (c, False)
      else ((if co_current c = None then c\<lparr>co_recovery := 0, co_onset := 0\<rparr> else c\<lparr>co_recovery := 0\<rparr>),
            co_recovery c \<noteq> 0 \<or> co_current c = None \<and> co_onset c \<noteq> 0))"

definition read_high :: "bool \<Rightarrow> alert_sample \<Rightarrow> alert_condition \<Rightarrow> alert_condition" where
  "read_high noticed s c0 =
     (let c1 = c0\<lparr>co_recovery := 0\<rparr>;
          c = (if co_onset c1 = 0 then c1\<lparr>co_onset := sa_at s\<rparr> else c1)
      in if co_current c = None \<and> time_sub (sa_at s) (co_onset c) \<ge> 15 * second
         then appendSprintAlert ''warning'' (sa_message s) (sa_at s) c
         else if co_current c \<noteq> None \<and> \<not> noticed then refreshSprintAlertReading s c
         else c)"

definition read_low :: "alert_sample \<Rightarrow> alert_condition \<Rightarrow> alert_condition" where
  "read_low s c0 =
     (let c1 = c0\<lparr>co_onset := 0\<rparr> in
      if co_current c1 = None then c1
      else let c = (if co_recovery c1 = 0 then c1\<lparr>co_recovery := sa_at s\<rparr> else c1) in
        if time_sub (sa_at s) (co_recovery c) \<ge> 30 * second
        then (appendSprintAlert ''recovered'' (sa_message s) (sa_at s) c)\<lparr>co_current := None, co_severity := []\<rparr>
        else c)"

definition read_mid :: "bool \<Rightarrow> alert_sample \<Rightarrow> alert_condition \<Rightarrow> alert_condition" where
  "read_mid noticed s c0 =
     (let c = c0\<lparr>co_recovery := 0\<rparr> in
      if co_current c = None then c\<lparr>co_onset := 0\<rparr>
      else if \<not> noticed then refreshSprintAlertReading s c
      else c)"

definition take_reading :: "bool \<Rightarrow> alert_sample \<Rightarrow> alert_condition \<Rightarrow> alert_condition \<times> bool" where
  "take_reading noticed s c0 =
     (if sa_known s \<and> co_observedAt c0 < sa_at s then
        let c = c0\<lparr>co_observedAt := sa_at s\<rparr> in
        (if f64_le (sa_high s) (sa_value s) then read_high noticed s c
         else if f64_le (sa_value s) (sa_low s) then read_low s c
         else read_mid noticed s c, True)
      else (c0, False))"

definition advance :: "string \<Rightarrow> int \<Rightarrow> string \<Rightarrow> int \<Rightarrow> alert_sample \<Rightarrow> alert_condition \<Rightarrow> alert_condition \<times> bool" where
  "advance key sprint owner now s c0 =
     (let (c1, new) = fresh_condition key sprint owner c0;
          (c2, noticed) = hand_over owner now c1;
          (c3, undecided) = forget_unknown s c2;
          (c4, read) = take_reading noticed s c3
      in (c4, new \<or> co_owner c1 \<noteq> owner \<or> undecided \<or> read))"

section \<open>The ledger\<close>

datatype alert_error = Corrupt | MarshalFailed | StoreFailed string | PostFailed string

text \<open>\<open>json.Marshal\<close>: the bytes and whether the error is nil. \<open>json.Unmarshal\<close> into a variable that holds a condition.\<close>

record 'raw codec =
  cd_marshal :: "alert_condition \<Rightarrow> 'raw \<times> bool"
  cd_unmarshal :: "'raw \<Rightarrow> alert_condition \<Rightarrow> alert_condition \<times> bool"

type_synonym 'raw ledger = "(string \<times> 'raw) list"

definition condition_key :: "int \<Rightarrow> alert_sample \<Rightarrow> string" where
  "condition_key sprint s = ''sprint:'' @ int_text sprint @ '':'' @ take 32 (sha256_hex (sa_key s))"

definition overflow_key :: string where "overflow_key = ''resource-alert-overflow''"

definition overflow_row :: "'raw codec \<Rightarrow> int \<Rightarrow> int \<Rightarrow> string \<Rightarrow> 'raw ledger \<Rightarrow> 'raw ledger" where
  "overflow_row cd now sprint owner es =
     (let c0 = new_condition overflow_key sprint owner;
          c = (case map_of es overflow_key of None \<Rightarrow> c0 | Some raw \<Rightarrow> fst (cd_unmarshal cd raw c0))
      in if co_current c = None
         then AList.update overflow_key (fst (cd_marshal cd (appendSprintAlert ''warning''
                ''additional resource conditions exceed the detailed alert-state limit; inspect sprint monitor --json'' now c))) es
         else es)"

definition update_row :: "'raw codec \<Rightarrow> int \<Rightarrow> int \<times> string \<Rightarrow> alert_sample \<Rightarrow> 'raw ledger \<Rightarrow> alert_error + 'raw ledger" where
  "update_row cd now target s es =
     (let (sprint, owner) = target;
          key = condition_key sprint s;
          store = (\<lambda>c0. let (c, changed) = advance key sprint owner now s c0 in
             if \<not> changed then Inr es
             else case cd_marshal cd c of (b, ok) \<Rightarrow> if ok then Inr (AList.update key b es) else Inl MarshalFailed)
      in case map_of es key of
           Some raw \<Rightarrow> (case cd_unmarshal cd raw zero_condition of (c, ok) \<Rightarrow> if ok then store c else Inl Corrupt)
         | None \<Rightarrow> if 255 \<le> length es then Inr (overflow_row cd now sprint owner es) else store zero_condition)"

fun update_rows :: "'raw codec \<Rightarrow> int \<Rightarrow> ((int \<times> string) \<times> alert_sample) list \<Rightarrow> 'raw ledger \<Rightarrow> alert_error + 'raw ledger" where
  "update_rows cd now [] es = Inr es"
| "update_rows cd now ((target, s) # ws) es =
     (case update_row cd now target s es of Inl e \<Rightarrow> Inl e | Inr es' \<Rightarrow> update_rows cd now ws es')"

text \<open>The transaction body of \<open>updateSprintAlertTargets\<close>: each target in the order \<open>range\<close> visits them, each sample in turn.\<close>

definition update_ledger :: "'raw codec \<Rightarrow> int \<Rightarrow> (int \<times> string) list \<Rightarrow> alert_sample list \<Rightarrow> 'raw ledger \<Rightarrow> alert_error + 'raw ledger" where
  "update_ledger cd now targets samples = update_rows cd now (List.product targets samples)"

end
