(* ===== verification/Mon_Observe.thy ===== *)
theory Mon_Observe
  imports Mon_Alerts
begin

text \<open>
  The observers of a sprint (internal/agentos/sprint_monitor_alerts.go): the samples of a snapshot,
  the transaction on the ledger, the publication of the pending notices, the alerts that are shown
  as live, and the hook that starts an observer with a manager's session.

  The records have the fields of the snapshot, of the host observation (resources module), of the
  accounts (llmbudget module) and of the seats (weave module) that this code reads. The stores are
  parameters (\<open>alert_env\<close>): the transaction of the resources module on the ledger, and the post
  of one notice, \<open>PostMessageOnce\<close> of the bus under \<open>WithSprintObservationOwner\<close> of weave.
\<close>

section \<open>Snapshots\<close>

record section_status =
  ss_kind :: string
  ss_stale :: bool
  ss_at :: int

record disk =
  dk_mount :: string
  dk_used :: f64
  dk_total :: nat

record host_system =
  sy_host :: string
  sy_cpuUsage :: f64
  sy_cpuSource :: string
  sy_memoryUsed :: f64
  sy_memoryTotal :: nat
  sy_disks :: "disk list"

record host_observation =
  ho_at :: int
  ho_system :: "host_system option"
  ho_sections :: "(string \<times> section_status) list"

record metric =
  me_name :: string
  me_value :: "f64 option"
  me_windowStart :: "int option"
  me_windowEnd :: "int option"
  me_source :: string
  me_observedAt :: int
  me_classification :: string

record account_report =
  ac_provider :: string
  ac_account :: string
  ac_pool :: string
  ac_status :: string
  ac_known :: bool
  ac_metrics :: "metric list"

record seat =
  seat_id :: int
  seat_owner :: string
  seat_active :: bool

record monitor_snapshot =
  sn_origin :: string
  sn_at :: int
  sn_sprint :: int
  sn_host :: "host_observation option"
  sn_models :: "account_report list option"
  sn_inventory :: "seat list option"
  sn_alerts :: "alert list"
  sn_warnings :: "string list"

definition host_section :: "host_observation \<Rightarrow> string \<Rightarrow> section_status" where
  "host_section h n = (case map_of (ho_sections h) n of
     Some s \<Rightarrow> s | None \<Rightarrow> \<lparr>ss_kind = [], ss_stale = False, ss_at = 0\<rparr>)"

section \<open>Samples\<close>

definition hostMissing :: "monitor_snapshot \<Rightarrow> bool" where
  "hostMissing s = (case sn_host s of
     None \<Rightarrow> True
   | Some h \<Rightarrow> ho_system h = None \<or> ss_stale (host_section h ''cpu'') \<or> ss_stale (host_section h ''memory''))"

definition source_sample :: "monitor_snapshot \<Rightarrow> alert_sample" where
  "source_sample s =
     \<lparr>sa_key = ''source.host'', sa_message = ''host resource source unavailable; inspect sprint monitor warnings'',
      sa_at = (case sn_host s of Some h \<Rightarrow> if hostMissing s then time_truncate (sn_at s) (5 * second) else ho_at h
                               | None \<Rightarrow> time_truncate (sn_at s) (5 * second)),
      sa_value = Num (if hostMissing s then 1 else 0), sa_high = Num 1, sa_low = Num 0, sa_known = True\<rparr>"

definition cpu_sample :: "host_observation \<Rightarrow> host_system \<Rightarrow> alert_sample" where
  "cpu_sample h y = (let st = host_section h ''cpu'' in
     \<lparr>sa_key = ''host.cpu'',
      sa_message = ''host CPU pressure '' @ fixed1 (sy_cpuUsage y) @ ''% ('' @ sy_cpuSource y @ ''); inspect competing workloads'',
      sa_at = (if ss_at st = 0 then ho_at h else ss_at st),
      sa_value = sy_cpuUsage y, sa_high = Num 90, sa_low = Num 75,
      sa_known = (ss_kind st \<noteq> ''unknown'' \<and> \<not> ss_stale st \<and> sy_cpuSource y \<noteq> [])\<rparr>)"

definition memory_sample :: "host_observation \<Rightarrow> host_system \<Rightarrow> alert_sample" where
  "memory_sample h y = (let st = host_section h ''memory'' in
     \<lparr>sa_key = ''host.memory'',
      sa_message = ''host memory '' @ fixed1 (sy_memoryUsed y) @ ''% used; reduce owned work admission'',
      sa_at = (if ss_at st = 0 then ho_at h else ss_at st),
      sa_value = sy_memoryUsed y, sa_high = Num 90, sa_low = Num 80,
      sa_known = (ss_kind st \<noteq> ''unknown'' \<and> \<not> ss_stale st \<and> 0 < sy_memoryTotal y)\<rparr>)"

definition disk_sample :: "host_observation \<Rightarrow> disk \<Rightarrow> alert_sample" where
  "disk_sample h d = (let st = host_section h ''disks'' in
     \<lparr>sa_key = ''host.disk.'' @ dk_mount d,
      sa_message = ''disk '' @ dk_mount d @ '' '' @ fixed1 (dk_used d) @ ''% used; inspect eligible sprint artifacts'',
      sa_at = ho_at h, sa_value = dk_used d, sa_high = Num 90, sa_low = Num 80,
      sa_known = (0 < dk_total d \<and> \<not> ss_stale st \<and> ss_kind st \<noteq> ''unknown'')\<rparr>)"

definition quota_sample :: "account_report \<Rightarrow> metric \<Rightarrow> alert_sample" where
  "quota_sample a m =
     (let value = (case me_value m of Some v \<Rightarrow> v | None \<Rightarrow> Num 0);
          window = (case (me_windowStart m, me_windowEnd m) of
                      (Some b, Some e) \<Rightarrow> duration_text (time_sub e b) | _ \<Rightarrow> []) in
     \<lparr>sa_key = ''account.'' @ ac_provider a @ ''.'' @ ac_account a @ ''.'' @ ac_pool a @ ''.'' @ me_name m @ ''.''
               @ me_source m @ ''.'' @ window,
      sa_message = ac_provider a @ '' shared pool '' @ ac_pool a @ '' quota '' @ fixed1 value @ ''% used ('' @ me_source m
               @ ''); inspect models limits'',
      sa_at = me_observedAt m, sa_value = value, sa_high = Num 90, sa_low = Num 75,
      sa_known = (me_value m \<noteq> None \<and> me_classification m \<noteq> ''unknown'' \<and> me_classification m \<noteq> ''stale'' \<and> ac_known a)\<rparr>)"

definition sprintAlertSamples :: "monitor_snapshot \<Rightarrow> alert_sample list" where
  "sprintAlertSamples s =
     source_sample s #
     (case sn_host s of
        None \<Rightarrow> []
      | Some h \<Rightarrow> (case ho_system h of
          None \<Rightarrow> []
        | Some y \<Rightarrow> cpu_sample h y # memory_sample h y # map (disk_sample h) (sy_disks y))) @
     (case sn_models s of
        None \<Rightarrow> []
      | Some as \<Rightarrow> concat (map (\<lambda>a. map (quota_sample a) (filter (\<lambda>m. me_name m = ''quota.used_percent'') (ac_metrics a))) as))"

section \<open>Live alerts\<close>

definition sprintAlertObservationTTL :: int where "sprintAlertObservationTTL = 3600 * second"

definition live_alert :: "'raw codec \<Rightarrow> int \<Rightarrow> int \<Rightarrow> 'raw \<Rightarrow> alert option" where
  "live_alert cd sprint now raw =
     (case cd_unmarshal cd raw zero_condition of (c, ok) \<Rightarrow>
        if \<not> ok \<or> co_version c \<noteq> 1 \<or> (0 < sprint \<and> co_sprint c \<noteq> sprint) then None
        else if co_observedAt c = 0 \<or> time_sub now (co_observedAt c) \<le> sprintAlertObservationTTL then co_current c
        else None)"

text \<open>The insertion of the loop: the prefix that is in order is held from its last element on.\<close>

fun sink :: "alert \<Rightarrow> alert list \<Rightarrow> alert list" where
  "sink a [] = [a]"
| "sink a (b # bs) = (if al_id a < al_id b then b # sink a bs else a # b # bs)"

definition order_alerts :: "alert list \<Rightarrow> alert list" where
  "order_alerts as = rev (foldl (\<lambda>bs a. sink a bs) [] as)"

definition activeSprintAlerts :: "'raw codec \<Rightarrow> 'raw ledger option \<Rightarrow> int \<Rightarrow> int \<Rightarrow> alert list" where
  "activeSprintAlerts cd ledger sprint now =
     (case ledger of
        None \<Rightarrow> []
      | Some es \<Rightarrow> order_alerts (List.map_filter (\<lambda>(k, raw). live_alert cd sprint now raw) es))"

section \<open>Publication\<close>

record ('w, 'raw) alert_env =
  ae_codec :: "'raw codec"
  ae_update :: "('raw ledger \<Rightarrow> alert_error + 'raw ledger) \<Rightarrow> 'w \<Rightarrow> (alert_error + 'raw ledger) \<times> 'w"
  ae_post :: "int \<Rightarrow> string \<Rightarrow> string \<Rightarrow> alert \<Rightarrow> 'w \<Rightarrow> alert_error option \<times> 'w"

definition acknowledge :: "'raw codec \<Rightarrow> string \<Rightarrow> string \<Rightarrow> 'raw ledger \<Rightarrow> alert_error + 'raw ledger" where
  "acknowledge cd key nid es =
     (case map_of es key of
        None \<Rightarrow> Inl Corrupt
      | Some raw \<Rightarrow> (case cd_unmarshal cd raw zero_condition of (c, ok) \<Rightarrow>
          if \<not> ok then Inl Corrupt
          else case cd_marshal cd (c\<lparr>co_pending := filter (\<lambda>p. al_id p \<noteq> nid) (co_pending c)\<rparr>) of (b, ok) \<Rightarrow>
            if ok then Inr (AList.update key b es) else Inl MarshalFailed))"

fun publish_notices :: "('w, 'raw) alert_env \<Rightarrow> string \<Rightarrow> alert_condition \<Rightarrow> alert list \<Rightarrow> 'w \<Rightarrow> alert_error option \<times> 'w" where
  "publish_notices e key c [] w = (None, w)"
| "publish_notices e key c (n # ns) w =
     (case ae_post e (co_sprint c) (co_owner c) (''sprint.'' @ int_text (co_sprint c) @ ''.resources'') n w of
        (Some err, w1) \<Rightarrow> (Some err, w1)
      | (None, w1) \<Rightarrow>
          (case ae_update e (acknowledge (ae_codec e) key (al_id n)) w1 of
             (Inl err, w2) \<Rightarrow> (Some err, w2)
           | (Inr _, w2) \<Rightarrow> publish_notices e key c ns w2))"

definition addressed :: "(int \<times> string) list \<Rightarrow> alert_condition \<Rightarrow> bool" where
  "addressed targets c \<longleftrightarrow>
     (case map_of targets (co_sprint c) of Some owner \<Rightarrow> owner | None \<Rightarrow> []) = co_owner c \<and> co_owner c \<noteq> []"

fun publish_rows :: "('w, 'raw) alert_env \<Rightarrow> (int \<times> string) list \<Rightarrow> 'raw ledger \<Rightarrow> 'w \<Rightarrow> alert_error option \<times> 'w" where
  "publish_rows e targets [] w = (None, w)"
| "publish_rows e targets ((key, raw) # es) w =
     (case cd_unmarshal (ae_codec e) raw zero_condition of (c, ok) \<Rightarrow>
        if \<not> ok \<or> \<not> addressed targets c then publish_rows e targets es w
        else case publish_notices e key c (co_pending c) w of
               (Some err, w1) \<Rightarrow> (Some err, w1)
             | (None, w1) \<Rightarrow> publish_rows e targets es w1)"

definition updateSprintAlertTargets ::
  "('w, 'raw) alert_env \<Rightarrow> monitor_snapshot \<Rightarrow> (int \<times> string) list \<Rightarrow> int \<Rightarrow> bool \<Rightarrow> 'w \<Rightarrow> (alert list \<times> alert_error option) \<times> 'w" where
  "updateSprintAlertTargets e s targets selected publish w =
     (case ae_update e (update_ledger (ae_codec e) (sn_at s) targets (sprintAlertSamples s)) w of
        (Inl err, w1) \<Rightarrow> (([], Some err), w1)
      | (Inr es, w1) \<Rightarrow>
          let shown = activeSprintAlerts (ae_codec e) (Some es) selected (sn_at s) in
          if publish then (case publish_rows e targets es w1 of (err, w2) \<Rightarrow> ((shown, err), w2))
          else ((shown, None), w1))"

definition updateSprintAlerts ::
  "('w, 'raw) alert_env \<Rightarrow> monitor_snapshot \<Rightarrow> int \<Rightarrow> string \<Rightarrow> bool \<Rightarrow> 'w \<Rightarrow> (alert list \<times> alert_error option) \<times> 'w" where
  "updateSprintAlerts e s sprint owner = updateSprintAlertTargets e s [(sprint, owner)] sprint"

section \<open>Observers\<close>

text \<open>The observer of a session; \<open>collected\<close> is the result of \<open>collectSprintMonitor\<close>.\<close>

definition observeSprintResources ::
  "('w, 'raw) alert_env \<Rightarrow> monitor_snapshot option \<Rightarrow> int \<Rightarrow> string \<Rightarrow> 'w \<Rightarrow> 'w" where
  "observeSprintResources e collected sprint owner w =
     (case collected of
        None \<Rightarrow> w
      | Some s \<Rightarrow>
          if (case sn_inventory s of None \<Rightarrow> False
              | Some seats \<Rightarrow> list_ex (\<lambda>x. seat_id x = sprint \<and> seat_owner x = owner \<and> seat_active x) seats)
          then snd (updateSprintAlerts e s sprint owner True w)
          else w)"

text \<open>The targets of a watching monitor: the active seats that have an owner. A later seat of a sprint replaces an earlier one.\<close>

definition watch_targets :: "int \<Rightarrow> seat list \<Rightarrow> (int \<times> string) list" where
  "watch_targets sprint seats =
     fold (\<lambda>x ts. if seat_active x \<and> seat_owner x \<noteq> [] \<and> (sprint = 0 \<or> seat_id x = sprint)
                  then AList.update (seat_id x) (seat_owner x) ts else ts) seats []"

text \<open>\<open>strconv.ParseInt\<close> to base 10 in 64 bits, and the hook of the foreman on session names.\<close>

definition parse_int64 :: "string \<Rightarrow> int option" where
  "parse_int64 s =
     (let neg = has_prefix s ''-''; ds = (if neg \<or> has_prefix s ''+'' then tl s else s);
          n = (if neg then - atoi 0 ds else atoi 0 ds)
      in if ds = [] \<or> \<not> list_all digit ds \<or> n < - (2 ^ 63) \<or> 2 ^ 63 \<le> n then None else Some n)"

definition TrimPrefix :: "string \<Rightarrow> string \<Rightarrow> string" where
  "TrimPrefix s p = (if has_prefix s p then drop (length p) s else s)"

definition TrimSuffix :: "string \<Rightarrow> string \<Rightarrow> string" where
  "TrimSuffix s p = (if has_suffix s p then take (length s - length p) s else s)"

definition ObserveSession :: "string \<Rightarrow> int option" where
  "ObserveSession session =
     (if \<not> has_prefix session ''sprint-'' \<or> \<not> has_suffix session ''-manager'' then None
      else case parse_int64 (TrimSuffix (TrimPrefix session ''sprint-'') ''-manager'') of
             None \<Rightarrow> None
           | Some sprint \<Rightarrow> if sprint \<le> 0 then None else Some sprint)"

end
