(* ===== verification/Mon_Laws.thy ===== *)
theory Mon_Laws
  imports Mon_Observe
begin

text \<open>
  Laws of the alert conditions: what each part of \<open>advance\<close> leaves alone, the accounting of the
  notices, and a reference machine for when a condition alerts, which sees only the signals of the
  samples and none of the code's state.
\<close>

section \<open>Frames\<close>

named_theorems mon_simps \<open>fields that a part of the step keeps\<close>

lemma append_frame [mon_simps]:
  "co_onset (appendSprintAlert v m t c) = co_onset c" "co_recovery (appendSprintAlert v m t c) = co_recovery c"
  "co_observedAt (appendSprintAlert v m t c) = co_observedAt c" "co_owner (appendSprintAlert v m t c) = co_owner c"
  "co_version (appendSprintAlert v m t c) = co_version c" "co_key (appendSprintAlert v m t c) = co_key c"
  "co_sprint (appendSprintAlert v m t c) = co_sprint c" "co_current (appendSprintAlert v m t c) \<noteq> None"
  "\<exists>a. co_current (appendSprintAlert v m t c) = Some a"
  "co_severity (appendSprintAlert v m t c) = v"
  by (simp_all add: appendSprintAlert_def Let_def)

lemma refresh_frame [mon_simps]:
  "co_onset (refreshSprintAlertReading s c) = co_onset c" "co_recovery (refreshSprintAlertReading s c) = co_recovery c"
  "co_observedAt (refreshSprintAlertReading s c) = co_observedAt c" "co_owner (refreshSprintAlertReading s c) = co_owner c"
  "co_version (refreshSprintAlertReading s c) = co_version c" "co_pending (refreshSprintAlertReading s c) = co_pending c"
  "co_generation (refreshSprintAlertReading s c) = co_generation c"
  "co_key (refreshSprintAlertReading s c) = co_key c" "co_sprint (refreshSprintAlertReading s c) = co_sprint c"
  "(co_current (refreshSprintAlertReading s c) = None) = (co_current c = None)"
  "(\<exists>a. co_current (refreshSprintAlertReading s c) = Some a) = (\<exists>a. co_current c = Some a)"
  by (simp_all add: refreshSprintAlertReading_def split: option.split)

lemma hand_over_frame [mon_simps]:
  "co_onset (fst (hand_over ow t c)) = co_onset c" "co_recovery (fst (hand_over ow t c)) = co_recovery c"
  "co_observedAt (fst (hand_over ow t c)) = co_observedAt c" "co_owner (fst (hand_over ow t c)) = ow"
  "co_version (fst (hand_over ow t c)) = co_version c" "co_key (fst (hand_over ow t c)) = co_key c"
  "co_sprint (fst (hand_over ow t c)) = co_sprint c"
  "(co_current (fst (hand_over ow t c)) = None) = (co_current c = None)"
  by (simp_all add: hand_over_def Let_def mon_simps split: option.split)

lemma forget_frame [mon_simps]:
  "co_owner (fst (forget_unknown s c)) = co_owner c" "co_version (fst (forget_unknown s c)) = co_version c"
  "co_pending (fst (forget_unknown s c)) = co_pending c" "co_generation (fst (forget_unknown s c)) = co_generation c"
  "co_observedAt (fst (forget_unknown s c)) = co_observedAt c" "co_current (fst (forget_unknown s c)) = co_current c"
  "co_key (fst (forget_unknown s c)) = co_key c" "co_sprint (fst (forget_unknown s c)) = co_sprint c"
  by (simp_all add: forget_unknown_def)

lemma reading_frame [mon_simps]:
  "co_owner (fst (take_reading b s c)) = co_owner c" "co_version (fst (take_reading b s c)) = co_version c"
  "co_key (fst (take_reading b s c)) = co_key c" "co_sprint (fst (take_reading b s c)) = co_sprint c"
  by (auto simp: take_reading_def read_high_def read_low_def read_mid_def Let_def mon_simps)

lemma advance_fst:
  "fst (advance k sp ow t s c) =
     (let c1 = fst (fresh_condition k sp ow c); h = hand_over ow t c1
      in fst (take_reading (snd h) s (fst (forget_unknown s (fst h)))))"
  by (simp add: advance_def Let_def split: prod.split)

lemma fresh_identity [mon_simps]:
  "co_version (fst (fresh_condition k sp ow c)) \<noteq> 0"
  by (simp add: fresh_condition_def new_condition_def)

lemma advance_identity [mon_simps]:
  "co_owner (fst (advance k sp ow t s c)) = ow" "co_version (fst (advance k sp ow t s c)) \<noteq> 0"
  by (simp_all add: advance_fst Let_def mon_simps)

text \<open>A transaction that reports no change has made none, so the row need not be written.\<close>

lemma unchanged_parts:
  "\<not> snd (fresh_condition k sp ow c) \<Longrightarrow> fst (fresh_condition k sp ow c) = c"
  "co_owner c = ow \<Longrightarrow> fst (hand_over ow t c) = c"
  "\<not> snd (forget_unknown s c) \<Longrightarrow> fst (forget_unknown s c) = c"
  "\<not> snd (take_reading b s c) \<Longrightarrow> fst (take_reading b s c) = c"
  by (auto simp: fresh_condition_def hand_over_def forget_unknown_def take_reading_def Let_def split: if_splits)

lemma advance_snd:
  "snd (advance k sp ow t s c) =
     (let c1 = fst (fresh_condition k sp ow c); h = hand_over ow t c1; f = forget_unknown s (fst h)
      in snd (fresh_condition k sp ow c) \<or> co_owner c1 \<noteq> ow \<or> snd f \<or> snd (take_reading (snd h) s (fst f)))"
  by (simp add: advance_def Let_def split: prod.split)

lemma advance_unchanged: "\<not> snd (advance k sp ow t s c) \<Longrightarrow> fst (advance k sp ow t s c) = c"
proof -
  assume n: "\<not> snd (advance k sp ow t s c)"
  then have f: "fst (fresh_condition k sp ow c) = c" by (auto simp: advance_snd Let_def intro: unchanged_parts)
  with n have h: "fst (hand_over ow t c) = c" by (auto simp: advance_snd Let_def intro: unchanged_parts)
  with n f have "fst (forget_unknown s c) = c" by (auto simp: advance_snd Let_def intro: unchanged_parts)
  with n f h show ?thesis by (auto simp: advance_snd advance_fst Let_def intro: unchanged_parts)
qed

section \<open>Notices\<close>

definition weight :: "alert list \<Rightarrow> 64 word" where
  "weight ps = sum_list (map (\<lambda>p. word_of_int (1 + al_coalesced p)) ps)"

lemma weight_simps [simp]: "weight [] = 0" "weight (p # ps) = word_of_int (1 + al_coalesced p) + weight ps"
  "weight (ps @ qs) = weight ps + weight qs"
  by (simp_all add: weight_def)

lemma word_int64: "(word_of_int (int64 n) :: 64 word) = word_of_int n"
proof -
  have "int64 n mod 2 ^ 64 = n mod 2 ^ 64"
    unfolding int64_def by (subst mod_diff_left_eq) simp
  then show ?thesis by (simp add: word_of_int_eq_iff take_bit_eq_mod)
qed

lemma append_pending:
  assumes "length (co_pending c) \<le> 4"
  shows "length (co_pending (appendSprintAlert v m t c)) \<le> 4"
    and "co_generation (appendSprintAlert v m t c) - weight (co_pending (appendSprintAlert v m t c)) =
      co_generation c - weight (co_pending c)"
proof -
  show "length (co_pending (appendSprintAlert v m t c)) \<le> 4"
    using assms by (simp add: appendSprintAlert_def Let_def)
  show "co_generation (appendSprintAlert v m t c) - weight (co_pending (appendSprintAlert v m t c)) =
      co_generation c - weight (co_pending c)"
  proof (cases "length (co_pending c) = 4")
    case True
    then have split: "co_pending c = take 3 (co_pending c) @ [last (co_pending c)]"
      by (metis append_butlast_last_id butlast_conv_take diff_Suc_1 eval_nat_numeral(2) list.size(3)
          numeral_3_eq_3 semiring_norm(26) semiring_norm(27) zero_neq_numeral)
    have "weight (co_pending c) = weight (take 3 (co_pending c)) + word_of_int (1 + al_coalesced (last (co_pending c)))"
      by (subst split) simp
    with True show ?thesis
      by (simp add: appendSprintAlert_def Let_def word_int64 wi_hom_add [symmetric] algebra_simps)
  next
    case False
    with assms show ?thesis by (simp add: appendSprintAlert_def Let_def)
  qed
qed

text \<open>What a step may do to the notices: nothing, or append one, after dropping them all when the owner changes.\<close>

definition accounts :: "alert_condition \<Rightarrow> alert_condition \<Rightarrow> bool" where
  "accounts c c' \<longleftrightarrow> (length (co_pending c) \<le> 4 \<longrightarrow> length (co_pending c') \<le> 4 \<and>
     co_generation c' - weight (co_pending c') = co_generation c - weight (co_pending c))"

lemma accounts_refl: "co_pending c' = co_pending c \<Longrightarrow> co_generation c' = co_generation c \<Longrightarrow> accounts c c'"
  by (simp add: accounts_def)

lemma accounts_append:
  assumes "co_pending d = co_pending c" "co_generation d = co_generation c"
  shows "accounts c (appendSprintAlert v m t d)"
    and "accounts c (appendSprintAlert v m t d\<lparr>co_current := a, co_severity := sv\<rparr>)"
  using append_pending [of d v m t] assms by (simp_all add: accounts_def)

lemma accounts_trans: "accounts a b \<Longrightarrow> accounts b c \<Longrightarrow> accounts a c"
  by (auto simp: accounts_def)

lemma accounts_reading: "accounts c (fst (take_reading b s c))"
proof -
  have h: "accounts c (read_high b s d)" "accounts c (read_low s d)" "accounts c (read_mid b s d)"
    if "co_pending d = co_pending c" "co_generation d = co_generation c" for d
    using that by (auto simp: read_high_def read_low_def read_mid_def Let_def mon_simps
        intro: accounts_refl accounts_append)
  have "accounts c (fst (take_reading b s c))" if "d = c\<lparr>co_observedAt := sa_at s\<rparr>" for d
    using h [of d] that by (simp add: take_reading_def Let_def accounts_refl)
  then show ?thesis by blast
qed

lemma accounts_advance:
  assumes "co_version c \<noteq> 0" "co_owner c = ow"
  shows "accounts c (fst (advance k sp ow t s c))"
proof -
  have "accounts c (fst (forget_unknown s c))" by (rule accounts_refl) (simp_all add: mon_simps)
  then show ?thesis using assms
    by (auto simp: advance_fst fresh_condition_def hand_over_def Let_def intro: accounts_trans accounts_reading)
qed

lemma pending_hand_over: "length (co_pending c) \<le> 4 \<Longrightarrow> length (co_pending (fst (hand_over ow t c))) \<le> 4"
  by (auto simp: hand_over_def Let_def appendSprintAlert_def split: option.split)

lemma pending_advance:
  assumes "length (co_pending c) \<le> 4"
  shows "length (co_pending (fst (advance k sp ow t s c))) \<le> 4"
proof -
  have "length (co_pending (fst (fresh_condition k sp ow c))) \<le> 4"
    using assms by (simp add: fresh_condition_def new_condition_def zero_condition_def)
  from pending_hand_over [OF this, of ow t] show ?thesis
    using accounts_reading by (simp add: advance_fst Let_def accounts_def mon_simps)
qed

text \<open>
  What becomes of a notice that is not posted yet: a step of the same owner keeps it, unless it is
  the fourth or later and a new notice coalesces with it.
\<close>

lemma append_keeps: "set (take 3 (co_pending c)) \<subseteq> set (co_pending (appendSprintAlert v m t c))"
  by (auto simp: appendSprintAlert_def Let_def dest: in_set_takeD)

lemma take_reading_keeps: "set (take 3 (co_pending c)) \<subseteq> set (co_pending (fst (take_reading b s c)))"
proof -
  have "set (take 3 (co_pending c)) \<subseteq> set (co_pending (appendSprintAlert v m t d))" if "co_pending d = co_pending c" for v m t d
    using append_keeps [of d v m t] that by simp
  moreover have "set (take 3 (co_pending c)) \<subseteq> set (co_pending c)" by (auto dest: in_set_takeD)
  ultimately show ?thesis
    by (simp add: take_reading_def read_high_def read_low_def read_mid_def Let_def mon_simps)
qed

lemma advance_keeps:
  assumes "n \<in> set (co_pending c)" "n \<notin> set (co_pending (fst (advance k sp ow t s c)))"
  shows "co_version c = 0 \<or> co_owner c \<noteq> ow \<or> n \<in> set (drop 3 (co_pending c))"
proof (rule ccontr)
  assume "\<not> ?thesis"
  then have c: "co_version c \<noteq> 0" "co_owner c = ow" "n \<notin> set (drop 3 (co_pending c))" by simp_all
  then have "n \<in> set (take 3 (co_pending c))"
    using assms(1) by (metis Un_iff append_take_drop_id set_append)
  moreover have "set (take 3 (co_pending c)) \<subseteq> set (co_pending (fst (advance k sp ow t s c)))"
    using take_reading_keeps [of "fst (forget_unknown s c)" False s] c
    by (simp add: advance_fst fresh_condition_def hand_over_def Let_def mon_simps)
  ultimately show False using assms(2) by blast
qed

section \<open>Signals\<close>

text \<open>
  What a sample says: nothing, when it is no newer than a known one before; a gap, when it is not
  known; otherwise the band its value is in, at its time.
\<close>

datatype signal = Gap | High int | Mid int | Low int

definition band :: "alert_sample \<Rightarrow> signal" where
  "band s = (if f64_le (sa_high s) (sa_value s) then High (sa_at s)
             else if f64_le (sa_value s) (sa_low s) then Low (sa_at s) else Mid (sa_at s))"

text \<open>The signals of a history, newest first; \<open>t\<close> is the time of the last known sample.\<close>

fun signals_from :: "int \<Rightarrow> signal list \<Rightarrow> alert_sample list \<Rightarrow> signal list" where
  "signals_from t gs [] = gs"
| "signals_from t gs (s # ss) =
     (if \<not> sa_known s then signals_from t (Gap # gs) ss
      else if t < sa_at s then signals_from (sa_at s) (band s # gs) ss
      else signals_from t gs ss)"

definition signals :: "alert_sample list \<Rightarrow> signal list" where
  "signals = signals_from 0 []"

text \<open>Since when every signal has been high (low): 0 when the newest is not.\<close>

fun high_since :: "signal list \<Rightarrow> int" where
  "high_since (High t # gs) = (if high_since gs = 0 then t else high_since gs)"
| "high_since gs = 0"

fun low_since :: "signal list \<Rightarrow> int" where
  "low_since (Low t # gs) = (if low_since gs = 0 then t else low_since gs)"
| "low_since gs = 0"

text \<open>The reference machine.\<close>

fun alerting :: "signal list \<Rightarrow> bool" where
  "alerting [] \<longleftrightarrow> False"
| "alerting (High t # gs) \<longleftrightarrow> alerting gs \<or> t - high_since (High t # gs) \<ge> 15 * second"
| "alerting (Low t # gs) \<longleftrightarrow> alerting gs \<and> \<not> t - low_since (Low t # gs) \<ge> 30 * second"
| "alerting (g # gs) \<longleftrightarrow> alerting gs"

text \<open>The condition's life: from no row on, each observer with its owner, its time and its sample.\<close>

fun observed :: "string \<Rightarrow> int \<Rightarrow> alert_condition \<Rightarrow> (string \<times> int \<times> alert_sample) list \<Rightarrow> alert_condition" where
  "observed k sp c [] = c"
| "observed k sp c ((ow, t, s) # xs) = observed k sp (fst (advance k sp ow t s c)) xs"

definition tracks :: "alert_condition \<Rightarrow> int \<Rightarrow> signal list \<Rightarrow> bool" where
  "tracks c t gs \<longleftrightarrow> co_observedAt c = t \<and> 0 \<le> t \<and> (co_current c \<noteq> None \<longleftrightarrow> alerting gs) \<and>
     (if co_current c = None then co_onset c = high_since gs else co_recovery c = low_since gs)"

lemma time_sub_le: "0 \<le> d \<Longrightarrow> d \<le> 30 * second \<Longrightarrow> d \<le> time_sub t u \<longleftrightarrow> d \<le> t - u"
  by (auto simp: time_sub_def second_def)

lemma tracks_high:
  assumes "tracks c t gs" "t < sa_at s"
  shows "tracks (read_high b s (c\<lparr>co_observedAt := sa_at s\<rparr>)) (sa_at s) (High (sa_at s) # gs)"
  using assms by (auto simp: tracks_def read_high_def Let_def mon_simps time_sub_le second_def split: if_splits)

lemma tracks_low:
  assumes "tracks c t gs" "t < sa_at s"
  shows "tracks (read_low s (c\<lparr>co_observedAt := sa_at s\<rparr>)) (sa_at s) (Low (sa_at s) # gs)"
  using assms by (auto simp: tracks_def read_low_def Let_def mon_simps time_sub_le second_def split: if_splits)

lemma tracks_mid:
  assumes "tracks c t gs" "t < sa_at s"
  shows "tracks (read_mid b s (c\<lparr>co_observedAt := sa_at s\<rparr>)) (sa_at s) (Mid (sa_at s) # gs)"
  using assms by (auto simp: tracks_def read_mid_def Let_def mon_simps split: if_splits)

lemma tracks_same: "tracks c t gs \<Longrightarrow> co_onset d = co_onset c \<Longrightarrow> co_recovery d = co_recovery c \<Longrightarrow>
    co_observedAt d = co_observedAt c \<Longrightarrow> (co_current d = None) = (co_current c = None) \<Longrightarrow> tracks d t gs"
  by (simp add: tracks_def)

lemma tracks_gap: "tracks c t gs \<Longrightarrow> \<not> sa_known s \<Longrightarrow> tracks (fst (forget_unknown s c)) t (Gap # gs)"
  by (auto simp: tracks_def forget_unknown_def)

lemma tracks_fresh: "tracks c t gs \<Longrightarrow> (co_version c = 0 \<Longrightarrow> c = zero_condition) \<Longrightarrow> tracks (fst (fresh_condition k sp ow c)) t gs"
  by (auto simp: fresh_condition_def new_condition_def zero_condition_def tracks_def)

lemma tracks_advance:
  assumes "tracks c t gs" "co_version c = 0 \<Longrightarrow> c = zero_condition"
  shows "tracks (fst (advance k sp ow u s c)) (if sa_known s \<and> t < sa_at s then sa_at s else t)
    (if \<not> sa_known s then Gap # gs else if t < sa_at s then band s # gs else gs)"
proof -
  define c1 where "c1 = fst (fresh_condition k sp ow c)"
  define h where "h = hand_over ow u c1"
  have h: "tracks (fst h) t gs"
    by (rule tracks_same [OF tracks_fresh [OF assms, of k sp ow]]) (simp_all add: h_def c1_def mon_simps)
  then have t: "co_observedAt (fst h) = t" by (simp add: tracks_def)
  show ?thesis
  proof (cases "sa_known s")
    case True
    with h t show ?thesis
      by (auto simp: advance_fst Let_def c1_def [symmetric] h_def [symmetric] forget_unknown_def take_reading_def band_def
          intro: tracks_high tracks_low tracks_mid)
  next
    case False
    with tracks_gap [OF h False] show ?thesis
      by (simp add: advance_fst Let_def c1_def [symmetric] h_def [symmetric] take_reading_def)
  qed
qed

lemma tracks_observed:
  "tracks c t gs \<Longrightarrow> (co_version c = 0 \<Longrightarrow> c = zero_condition) \<Longrightarrow>
   \<exists>u. tracks (observed k sp c xs) u (signals_from t gs (map (\<lambda>(ow, now, s). s) xs))"
proof (induction xs arbitrary: c t gs)
  case (Cons x xs)
  obtain ow now s where x: "x = (ow, now, s)" by (cases x)
  have "co_version (fst (advance k sp ow now s c)) \<noteq> 0" by (rule mon_simps)
  with Cons.IH [OF tracks_advance [OF Cons.prems], where k1 = k and sp1 = sp and ow1 = ow and u1 = now and s1 = s] show ?case
    by (auto simp: x)
qed auto

lemma tracks_zero: "tracks zero_condition 0 []"
  by (simp add: tracks_def zero_condition_def)

end
