(* ===== verification/Mon_Store_Laws.thy ===== *)
theory Mon_Store_Laws
  imports Mon_Laws "HOL-Library.Multiset"
begin

text \<open>
  Laws of the ledger, of the list of live alerts and of the publication: each row of the ledger
  is one condition that moves by \<open>advance\<close>, the number of rows is bounded, the shown alerts are
  the live ones in the order of their identifiers, and a notice leaves the ledger only after it
  was posted.
\<close>

section \<open>Rows\<close>

lemma condition_key_free [simp]: "condition_key sp s \<noteq> overflow_key" "overflow_key \<noteq> condition_key sp s"
  by (simp_all add: condition_key_def overflow_key_def)

lemma length_update: "length (AList.update k v es) = (if k \<in> set (map fst es) then length es else Suc (length es))"
  using arg_cong [OF update_keys, of length k v es] by (simp split: if_splits)

definition row_condition :: "'raw codec \<Rightarrow> 'raw ledger \<Rightarrow> string \<Rightarrow> alert_condition" where
  "row_condition cd es k = (case map_of es k of None \<Rightarrow> zero_condition | Some raw \<Rightarrow> fst (cd_unmarshal cd raw zero_condition))"

definition next_row :: "'raw codec \<Rightarrow> int \<Rightarrow> int \<times> string \<Rightarrow> alert_sample \<Rightarrow> 'raw ledger \<Rightarrow> 'raw option" where
  "next_row cd now target s es =
     (let k = condition_key (fst target) s;
          r = advance k (fst target) (snd target) now s (row_condition cd es k)
      in if snd r then Some (fst (cd_marshal cd (fst r))) else map_of es k)"

lemma update_row_known:
  assumes "update_row cd now target s es = Inr es'" "length es < 255 \<or> map_of es (condition_key (fst target) s) \<noteq> None"
  shows "map_of es' = (map_of es)(condition_key (fst target) s := next_row cd now target s es)"
    and "es' = es \<or> (\<exists>b. es' = AList.update (condition_key (fst target) s) b es)"
  using assms
  by (auto simp: update_row_def Let_def next_row_def row_condition_def update_conv' fun_upd_idem
      split: prod.splits option.splits if_splits)

lemma overflow_row_cases: "overflow_row cd now sp ow es = es \<or> (\<exists>b. overflow_row cd now sp ow es = AList.update overflow_key b es)"
  unfolding overflow_row_def Let_def by (simp only: split: if_split) blast

lemma update_row_full:
  assumes "update_row cd now target s es = Inr es'" "255 \<le> length es" "map_of es (condition_key (fst target) s) = None"
  shows "es' = es \<or> (\<exists>b. es' = AList.update overflow_key b es)"
  using assms overflow_row_cases [of cd now "fst target" "snd target" es]
  by (simp add: update_row_def Let_def split: prod.splits)

lemma key_in: "(k, b) \<in> set es \<Longrightarrow> k \<in> fst ` set es"
  by force

text \<open>The bound of the ledger: 255 rows of conditions, and one that says there were more.\<close>

definition detail_keys :: "'raw ledger \<Rightarrow> string list" where
  "detail_keys es = filter (\<lambda>k. k \<noteq> overflow_key) (map fst es)"

definition ledger_ok :: "'raw ledger \<Rightarrow> bool" where
  "ledger_ok es \<longleftrightarrow> distinct (map fst es) \<and> length (detail_keys es) \<le> 255"

lemma detail_keys_update:
  "detail_keys (AList.update k b es) = (if k \<in> set (map fst es) \<or> k = overflow_key then detail_keys es else detail_keys es @ [k])"
  by (simp only: detail_keys_def update_keys filter_append split: if_split) simp

lemma ledger_ok_update_row:
  assumes "update_row cd now target s es = Inr es'" "ledger_ok es"
  shows "ledger_ok es'"
proof (cases "255 \<le> length es \<and> map_of es (condition_key (fst target) s) = None")
  case True
  then have "es' = es \<or> (\<exists>b. es' = AList.update overflow_key b es)" using update_row_full [OF assms(1)] by blast
  with assms(2) show ?thesis by (auto simp: ledger_ok_def detail_keys_update distinct_update)
next
  case False
  then have *: "length es < 255 \<or> condition_key (fst target) s \<in> set (map fst es)"
    by (auto simp: map_of_eq_None_iff simp del: not_None_eq)
  have "es' = es \<or> (\<exists>b. es' = AList.update (condition_key (fst target) s) b es)"
    by (rule update_row_known(2) [OF assms(1)]) (use False in auto)
  moreover have "length (detail_keys es) \<le> length es"
    unfolding detail_keys_def by (metis length_filter_le length_map)
  ultimately show ?thesis using assms(2) *
    by (auto simp: ledger_ok_def detail_keys_update distinct_update dest: key_in)
qed

lemma ledger_ok_update_rows: "update_rows cd now ws es = Inr es' \<Longrightarrow> ledger_ok es \<Longrightarrow> ledger_ok es'"
proof (induction ws arbitrary: es)
  case (Cons w ws)
  then show ?case by (cases w) (auto split: sum.splits intro: ledger_ok_update_row)
qed simp

lemma ledger_ok_length:
  assumes "ledger_ok es"
  shows "length es \<le> 256"
proof -
  have d: "distinct (map fst es)" using assms by (simp add: ledger_ok_def)
  have "length (filter (\<lambda>k. k = overflow_key) (map fst es)) = card (set (filter (\<lambda>k. k = overflow_key) (map fst es)))"
    by (rule distinct_card [symmetric]) (rule distinct_filter [OF d])
  also have "\<dots> \<le> card {overflow_key}" by (rule card_mono) auto
  finally have "length (filter (\<lambda>k. k = overflow_key) (map fst es)) \<le> 1" by simp
  with assms sum_length_filter_compl [of "\<lambda>k. k = overflow_key" "map fst es"] show ?thesis
    by (simp add: ledger_ok_def detail_keys_def)
qed

text \<open>With room for every row, and no two of the pairs on one key, each row moves once.\<close>

definition work_key :: "(int \<times> string) \<times> alert_sample \<Rightarrow> string" where
  "work_key w = condition_key (fst (fst w)) (snd w)"

lemma update_rows_rows:
  "update_rows cd now ws es = Inr es' \<Longrightarrow> length es + length ws \<le> 255 \<Longrightarrow> distinct (map work_key ws) \<Longrightarrow>
   (\<forall>w\<in>set ws. map_of es' (work_key w) = next_row cd now (fst w) (snd w) es) \<and>
   (\<forall>k. k \<notin> work_key ` set ws \<longrightarrow> map_of es' k = map_of es k)"
proof (induction ws arbitrary: es)
  case (Cons w ws)
  obtain target s where w: "w = (target, s)" by (cases w)
  from Cons.prems w obtain es1 where 1: "update_row cd now target s es = Inr es1" and 2: "update_rows cd now ws es1 = Inr es'"
    by (auto split: sum.splits)
  have m: "map_of es1 = (map_of es)(condition_key (fst target) s := next_row cd now target s es)"
    by (rule update_row_known(1) [OF 1]) (use Cons.prems in auto)
  have "es1 = es \<or> (\<exists>b. es1 = AList.update (condition_key (fst target) s) b es)"
    by (rule update_row_known(2) [OF 1]) (use Cons.prems in auto)
  then have "length es1 + length ws \<le> 255" using Cons.prems by (auto simp: length_update)
  then have IH: "(\<forall>w\<in>set ws. map_of es' (work_key w) = next_row cd now (fst w) (snd w) es1) \<and>
     (\<forall>k. k \<notin> work_key ` set ws \<longrightarrow> map_of es' k = map_of es1 k)"
    using Cons.IH [OF 2] Cons.prems by simp
  have "next_row cd now (fst v) (snd v) es1 = next_row cd now (fst v) (snd v) es" if "v \<in> set ws" for v
  proof -
    have "work_key w \<notin> work_key ` set ws" using Cons.prems by simp
    then have "work_key v \<noteq> work_key w" using that by (metis imageI)
    then show ?thesis by (simp add: next_row_def row_condition_def m w work_key_def Let_def)
  qed
  with IH m Cons.prems show ?case by (auto simp: w work_key_def)
qed simp

section \<open>Live alerts\<close>

lemma mset_sink: "mset (sink a bs) = add_mset a (mset bs)"
  by (induction bs) auto

lemma sink_descends: "sorted_wrt (\<lambda>a b. al_id b \<le> al_id a) bs \<Longrightarrow> sorted_wrt (\<lambda>a b. al_id b \<le> al_id a) (sink a bs)"
proof (induction bs)
  case (Cons b bs)
  have "set (sink a bs) = insert a (set bs)" using arg_cong [OF mset_sink, of set_mset a bs] by simp
  with Cons show ?case by auto
qed simp

lemma filter_sink: "filter (\<lambda>x. k = al_id x) (sink a bs) = filter (\<lambda>x. k = al_id x) (a # bs)"
  by (induction bs) auto

lemma order_alerts_sort: "order_alerts as = sort_key al_id as"
proof -
  define go where "go = foldl (\<lambda>bs a. sink a bs)"
  have "mset (go bs as) = mset bs + mset as" for bs
    by (induction as arbitrary: bs) (auto simp: go_def mset_sink)
  moreover have "sorted_wrt (\<lambda>a b. al_id b \<le> al_id a) (go bs as)" if "sorted_wrt (\<lambda>a b. al_id b \<le> al_id a) bs" for bs
    using that by (induction as arbitrary: bs) (auto simp: go_def sink_descends)
  moreover have "filter (\<lambda>x. k = al_id x) (go bs as) = rev (filter (\<lambda>x. k = al_id x) as) @ filter (\<lambda>x. k = al_id x) bs" for k bs
    by (induction as arbitrary: bs) (auto simp: go_def filter_sink)
  ultimately have "mset (rev (go [] as)) = mset as" "sorted (map al_id (rev (go [] as)))"
    "filter (\<lambda>x. k = al_id x) (rev (go [] as)) = filter (\<lambda>x. k = al_id x) as" for k
    by (simp_all add: rev_filter [symmetric] sorted_map sorted_wrt_rev)
  then have "sort_key al_id as = rev (go [] as)" by (intro properties_for_sort_key) auto
  then show ?thesis by (simp add: order_alerts_def go_def)
qed

section \<open>Publication\<close>

definition pending_of :: "'raw codec \<Rightarrow> 'raw ledger \<Rightarrow> string \<Rightarrow> alert list" where
  "pending_of cd es k = co_pending (row_condition cd es k)"

text \<open>
  What the code relies on: the transaction of the resources module applies its function to the rows
  and stores the result, or changes nothing; a post that returns nil was made; neither touches
  the other's store. A condition that was decoded encodes and decodes again to itself, also with
  fewer notices.
\<close>

definition store_laws :: "('w, 'raw) alert_env \<Rightarrow> ('w \<Rightarrow> 'raw ledger) \<Rightarrow> ('w \<Rightarrow> string set) \<Rightarrow> bool" where
  "store_laws e rows posted \<longleftrightarrow>
     (\<forall>f w r w'. ae_update e f w = (r, w') \<longrightarrow> posted w' = posted w \<and>
        (case r of Inr es \<Rightarrow> f (rows w) = Inr es \<and> rows w' = es | Inl _ \<Rightarrow> rows w' = rows w)) \<and>
     (\<forall>sp ow tp n w r w'. ae_post e sp ow tp n w = (r, w') \<longrightarrow> rows w' = rows w \<and> posted w \<subseteq> posted w' \<and>
        (r = None \<longrightarrow> al_id n \<in> posted w'))"

definition reencodes :: "'raw codec \<Rightarrow> bool" where
  "reencodes cd \<longleftrightarrow> (\<forall>raw c f. cd_unmarshal cd raw zero_condition = (c, True) \<longrightarrow>
     cd_unmarshal cd (fst (cd_marshal cd (c\<lparr>co_pending := filter f (co_pending c)\<rparr>))) zero_condition =
       (c\<lparr>co_pending := filter f (co_pending c)\<rparr>, True))"

lemma store_update:
  assumes "store_laws e rows posted" "ae_update e f w = (r, w')"
  shows "posted w' = posted w" "r = Inr es \<Longrightarrow> f (rows w) = Inr es \<and> rows w' = es" "r = Inl x \<Longrightarrow> rows w' = rows w"
  using assms by (fastforce simp: store_laws_def)+

lemma store_post:
  assumes "store_laws e rows posted" "ae_post e sp ow tp n w = (r, w')"
  shows "rows w' = rows w" "posted w \<subseteq> posted w'" "r = None \<Longrightarrow> al_id n \<in> posted w'"
  using assms by (fastforce simp: store_laws_def)+

lemma acknowledge_pending:
  assumes "reencodes cd" "acknowledge cd key nid es = Inr es'"
  shows "pending_of cd es' k = (if k = key then filter (\<lambda>p. al_id p \<noteq> nid) (pending_of cd es k) else pending_of cd es k)"
proof -
  from assms(2) obtain raw c where raw: "map_of es key = Some raw" and c: "cd_unmarshal cd raw zero_condition = (c, True)"
    by (auto simp: acknowledge_def split: option.splits prod.splits if_splits)
  define c' where "c' = c\<lparr>co_pending := filter (\<lambda>p. al_id p \<noteq> nid) (co_pending c)\<rparr>"
  have "es' = AList.update key (fst (cd_marshal cd c')) es"
    using assms(2) by (auto simp: acknowledge_def raw c c'_def split: prod.splits if_splits)
  moreover have "cd_unmarshal cd (fst (cd_marshal cd c')) zero_condition = (c', True)"
    using assms(1) c by (simp add: reencodes_def c'_def)
  ultimately show ?thesis by (simp add: pending_of_def row_condition_def update_conv' raw c) (simp add: c'_def)
qed

text \<open>\<open>kept w w'\<close>: from \<open>w\<close> to \<open>w'\<close> no notice got lost.\<close>

definition kept :: "'raw codec \<Rightarrow> ('w \<Rightarrow> 'raw ledger) \<Rightarrow> ('w \<Rightarrow> string set) \<Rightarrow> 'w \<Rightarrow> 'w \<Rightarrow> bool" where
  "kept cd rows posted w w' \<longleftrightarrow> posted w \<subseteq> posted w' \<and>
     (\<forall>k. \<forall>n\<in>set (pending_of cd (rows w) k). n \<in> set (pending_of cd (rows w') k) \<or> al_id n \<in> posted w')"

lemma kept_trans: "kept cd rows posted u v \<Longrightarrow> kept cd rows posted v w \<Longrightarrow> kept cd rows posted u w"
  unfolding kept_def by blast

lemma kept_refl: "rows w' = rows w \<Longrightarrow> posted w \<subseteq> posted w' \<Longrightarrow> kept cd rows posted w w'"
  by (simp add: kept_def)

lemma publish_notices_kept:
  assumes "store_laws e rows posted" "reencodes (ae_codec e)"
  shows "publish_notices e key c ns w = (r, w') \<Longrightarrow> kept (ae_codec e) rows posted w w' \<and> (r = None \<longrightarrow> al_id ` set ns \<subseteq> posted w')"
proof (induction ns arbitrary: w)
  case Nil
  then show ?case by (simp add: kept_refl)
next
  case (Cons n ns)
  obtain p w1 where post: "ae_post e (co_sprint c) (co_owner c) (''sprint.'' @ int_text (co_sprint c) @ ''.resources'') n w = (p, w1)"
    by fastforce
  note 1 = store_post [OF assms(1) post]
  obtain u w2 where upd: "ae_update e (acknowledge (ae_codec e) key (al_id n)) w1 = (u, w2)" by fastforce
  note 2 = store_update [OF assms(1) upd]
  show ?case
  proof (cases "p = None \<and> (\<exists>es. u = Inr es)")
    case False
    then have "rows w' = rows w \<and> posted w \<subseteq> posted w' \<and> r \<noteq> None"
      using Cons.prems post upd 1 2 by (cases p; cases u) auto
    then show ?thesis by (auto simp: kept_refl)
  next
    case True
    then obtain es where u: "u = Inr es" and p: "p = None" by blast
    from 2 u have a: "acknowledge (ae_codec e) key (al_id n) (rows w1) = Inr es" "rows w2 = es" by auto
    have k: "kept (ae_codec e) rows posted w w2"
      using acknowledge_pending [OF assms(2) a(1)] 1 2(1) p a(2) by (auto simp: kept_def)
    have IH: "kept (ae_codec e) rows posted w2 w' \<and> (r = None \<longrightarrow> al_id ` set ns \<subseteq> posted w')"
      by (rule Cons.IH) (use Cons.prems post upd u p in simp)
    moreover have "al_id n \<in> posted w'" using IH 1(3) [OF p] 2(1) by (auto simp: kept_def)
    ultimately show ?thesis using kept_trans [OF k] by auto
  qed
qed

lemma publish_rows_kept:
  assumes "store_laws e rows posted" "reencodes (ae_codec e)"
  shows "publish_rows e targets es w = (r, w') \<Longrightarrow> kept (ae_codec e) rows posted w w' \<and>
    (r = None \<longrightarrow> (\<forall>(k, raw)\<in>set es. \<forall>c. cd_unmarshal (ae_codec e) raw zero_condition = (c, True) \<and> addressed targets c \<longrightarrow>
       al_id ` set (co_pending c) \<subseteq> posted w'))"
proof (induction es arbitrary: w)
  case Nil
  then show ?case by (simp add: kept_refl)
next
  case (Cons x es)
  obtain key raw where x: "x = (key, raw)" by (cases x)
  obtain c ok where c: "cd_unmarshal (ae_codec e) raw zero_condition = (c, ok)" by fastforce
  show ?case
  proof (cases "ok \<and> addressed targets c")
    case False
    with Cons.IH [of w] Cons.prems show ?thesis by (auto simp: x c)
  next
    case True
    obtain p w1 where pn: "publish_notices e key c (co_pending c) w = (p, w1)" by fastforce
    note 1 = publish_notices_kept [OF assms pn]
    show ?thesis
    proof (cases p)
      case (Some err)
      with Cons.prems pn True 1 show ?thesis by (auto simp: x c)
    next
      case None
      then have IH: "kept (ae_codec e) rows posted w1 w' \<and>
        (r = None \<longrightarrow> (\<forall>(k, raw)\<in>set es. \<forall>c. cd_unmarshal (ae_codec e) raw zero_condition = (c, True) \<and> addressed targets c \<longrightarrow>
           al_id ` set (co_pending c) \<subseteq> posted w'))"
        by (intro Cons.IH) (use Cons.prems pn True in \<open>simp add: x c\<close>)
      moreover have "al_id ` set (co_pending c) \<subseteq> posted w'" using IH 1 None by (auto simp: kept_def)
      ultimately show ?thesis using 1 kept_trans [of "ae_codec e" rows posted w w1 w'] by (auto simp: x c)
    qed
  qed
qed

end
