(* ===== verification/Mon_Properties.thy ===== *)
theory Mon_Properties
  imports Mon_Store_Laws
begin

text \<open>
  The properties of the resource alerts, their witnesses, and what modelling them showed. The
  witnesses use a codec whose raw rows are the conditions themselves and a world that is a ledger
  with the list of the posted identifiers.
\<close>

section \<open>Sample data\<close>

definition plain_codec :: "alert_condition codec" where
  "plain_codec = \<lparr>cd_marshal = (\<lambda>c. (c, True)), cd_unmarshal = (\<lambda>raw c. (raw, True))\<rparr>"

lemma plain_codec_simps [simp]: "cd_marshal plain_codec c = (c, True)" "cd_unmarshal plain_codec raw c = (raw, True)"
  by (simp_all add: plain_codec_def)

definition cpu_at :: "int \<Rightarrow> rat \<Rightarrow> alert_sample" where
  "cpu_at t v = \<lparr>sa_key = ''host.cpu'', sa_message = ''cpu'', sa_at = t * second, sa_value = Num v, sa_high = Num 90,
     sa_low = Num 75, sa_known = True\<rparr>"

definition sample_env :: "(alert_condition ledger \<times> string list, alert_condition) alert_env" where
  "sample_env = \<lparr>ae_codec = plain_codec,
     ae_update = (\<lambda>f w. case f (fst w) of Inl x \<Rightarrow> (Inl x, w) | Inr es \<Rightarrow> (Inr es, (es, snd w))),
     ae_post = (\<lambda>sp ow tp n w. (None, (fst w, al_id n # snd w)))\<rparr>"

definition blind_snapshot :: monitor_snapshot where
  "blind_snapshot = \<lparr>sn_origin = [], sn_at = 100 * second, sn_sprint = 7, sn_host = None, sn_models = None, sn_inventory = None,
     sn_alerts = [], sn_warnings = []\<rparr>"

section \<open>When a condition alerts\<close>

text \<open>C14. A condition alerts exactly when its readings say so, whoever observes them: the state of a
  row after any history of observers, owners and hand-overs has a current alert if and only if the
  reference machine alerts on the signals of the samples. The machine starts to alert at a high
  signal whose unbroken run of high signals is at least 15 seconds long, and stops at a low signal
  whose unbroken run of low signals is at least 30 seconds long; a sample that is not known breaks
  every run, one that is no newer than the last changes nothing.\<close>

theorem alert_follows_readings:
  "co_current (observed key sprint zero_condition hist) \<noteq> None \<longleftrightarrow>
     alerting (signals (map (\<lambda>(owner, now, s). s) hist))"
proof -
  have "\<exists>u. tracks (observed key sprint zero_condition hist) u (signals_from 0 [] (map (\<lambda>(owner, now, s). s) hist))"
    by (rule tracks_observed [OF tracks_zero]) simp
  then show ?thesis by (auto simp: tracks_def signals_def)
qed

lemma alert_example:
  "co_current (observed ''k'' 7 zero_condition [(''ann'', 0, cpu_at 1 95), (''ann'', 0, cpu_at 11 92), (''bob'', 0, cpu_at 16 91)]) \<noteq> None"
  unfolding alert_follows_readings
  by (simp add: signals_def cpu_at_def band_def second_def)

section \<open>Notices\<close>

text \<open>What observers and acknowledgements do to a row of one owner, and the notices acknowledged.\<close>

datatype row_event = Observe int alert_sample | Acknowledge string

fun row_events :: "string \<Rightarrow> int \<Rightarrow> string \<Rightarrow> alert_condition \<times> alert list \<Rightarrow> row_event list \<Rightarrow> alert_condition \<times> alert list" where
  "row_events key sprint owner st [] = st"
| "row_events key sprint owner (c, done) (Observe now s # xs) =
     row_events key sprint owner (fst (advance key sprint owner now s c), done) xs"
| "row_events key sprint owner (c, done) (Acknowledge nid # xs) =
     row_events key sprint owner (c\<lparr>co_pending := filter (\<lambda>p. al_id p \<noteq> nid) (co_pending c)\<rparr>,
       done @ filter (\<lambda>p. al_id p = nid) (co_pending c)) xs"

lemma weight_split: "weight (filter (\<lambda>p. \<not> P p) ps) + weight (filter P ps) = weight ps"
  by (induction ps) (auto simp: algebra_simps)

lemma row_events_account:
  assumes "co_version c \<noteq> 0" "co_owner c = owner" "length (co_pending c) \<le> 4"
    "co_generation c = g + weight (co_pending c) + weight acked" "row_events key sprint owner (c, acked) xs = (c', acked')"
  shows "length (co_pending c') \<le> 4 \<and> co_generation c' = g + weight (co_pending c') + weight acked'"
  using assms
proof (induction xs arbitrary: c acked)
  case (Cons x xs)
  show ?case
  proof (cases x)
    case (Observe now s)
    let ?d = "fst (advance key sprint owner now s c)"
    have "accounts c ?d" using Cons.prems by (intro accounts_advance) auto
    with Cons.prems have "length (co_pending ?d) \<le> 4" "co_generation ?d = g + weight (co_pending ?d) + weight acked"
      by (auto simp: accounts_def algebra_simps)
    with Cons.prems Observe show ?thesis by (intro Cons.IH [of ?d acked]) (auto simp: mon_simps)
  next
    case (Acknowledge nid)
    let ?d = "c\<lparr>co_pending := filter (\<lambda>p. al_id p \<noteq> nid) (co_pending c)\<rparr>"
    let ?a = "acked @ filter (\<lambda>p. al_id p = nid) (co_pending c)"
    have "length (co_pending ?d) \<le> 4" using Cons.prems(3) by (simp add: le_trans [OF length_filter_le])
    moreover have "co_generation ?d = g + weight (co_pending ?d) + weight ?a"
      using Cons.prems(4) weight_split [of "\<lambda>p. al_id p = nid" "co_pending c"] by (simp add: algebra_simps)
    ultimately show ?thesis using Cons.prems Acknowledge by (intro Cons.IH [of ?d ?a]) auto
  qed
qed simp

text \<open>C25. While a sprint keeps its owner no notice goes missing: a new row never holds more than
  four notices, and the number of notices it has raised (its generation, in 64 bits) is always the
  number of those pending and acknowledged, each counted with the ones it stands for
  (\<open>coalesced\<close>).\<close>

theorem notices_accounted:
  assumes "row_events key sprint owner (new_condition key sprint owner, []) events = (c, acknowledged)"
  shows "length (co_pending c) \<le> 4 \<and> co_generation c = weight (co_pending c) + weight acknowledged"
  using row_events_account [OF _ _ _ _ assms, of 0] by (simp_all add: new_condition_def zero_condition_def)

lemma notices_accounted_witness:
  "\<exists>c acknowledged. row_events ''k'' 7 ''ann'' (new_condition ''k'' 7 ''ann'', [])
       [Observe 0 (cpu_at 1 95), Observe 0 (cpu_at 20 95), Acknowledge ''x''] = (c, acknowledged) \<and>
     length (co_pending c) \<le> 4 \<and> co_generation c = weight (co_pending c) + weight acknowledged"
  by (metis notices_accounted surj_pair)

section \<open>The ledger\<close>

text \<open>One transaction moves each of its rows by exactly one step of the condition and touches no
  other row: when there is room for all of them and their keys are distinct, the row of a sprint
  and a sample is afterwards the encoding of the condition advanced from what the row held before
  (from nothing when it was not there), it is left as it is when nothing changed, and every other
  row is as before.\<close>

theorem ledger_rows_advance:
  assumes "update_ledger cd now targets samples es = Inr es'"
    and "length es + length targets * length samples \<le> 255"
    and "distinct (map work_key (List.product targets samples))"
  shows "(\<forall>(sprint, owner)\<in>set targets. \<forall>s\<in>set samples.
      map_of es' (condition_key sprint s) =
        (let r = advance (condition_key sprint s) sprint owner now s (row_condition cd es (condition_key sprint s))
         in if snd r then Some (fst (cd_marshal cd (fst r))) else map_of es (condition_key sprint s))) \<and>
    (\<forall>k. (\<forall>(sprint, owner)\<in>set targets. \<forall>s\<in>set samples. k \<noteq> condition_key sprint s) \<longrightarrow> map_of es' k = map_of es k)"
proof -
  have "length es + length (List.product targets samples) \<le> 255" using assms(2) by (simp add: length_product)
  from update_rows_rows [OF assms(1) [unfolded update_ledger_def] this assms(3)] show ?thesis
    by (fastforce simp: next_row_def work_key_def Let_def)
qed

lemma ledger_rows_advance_witness:
  "\<exists>es'. update_ledger plain_codec 0 [(7, ''ann'')] [cpu_at 1 95] [] = Inr es' \<and>
     map_of es' (condition_key 7 (cpu_at 1 95)) =
       Some (fst (advance (condition_key 7 (cpu_at 1 95)) 7 ''ann'' 0 (cpu_at 1 95) zero_condition))"
proof -
  let ?k = "condition_key 7 (cpu_at 1 95)"
  have ch: "snd (advance ?k 7 ''ann'' 0 (cpu_at 1 95) zero_condition)"
    by (simp add: advance_snd Let_def fresh_condition_def zero_condition_def)
  obtain es' where es': "update_ledger plain_codec 0 [(7, ''ann'')] [cpu_at 1 95] [] = Inr es'"
    using ch by (cases "advance ?k 7 ''ann'' 0 (cpu_at 1 95) zero_condition") (simp add: update_ledger_def update_row_def Let_def)
  from ledger_rows_advance [OF this] ch es' show ?thesis by (simp add: Let_def row_condition_def)
qed

text \<open>The ledger is bounded: a ledger of distinct rows, at most 255 of them conditions, stays one
  under every transaction, whatever the targets and the samples, and never has more than 256 rows.\<close>

theorem ledger_bounded:
  assumes "ledger_ok es" and "update_ledger cd now targets samples es = Inr es'"
  shows "ledger_ok es'" and "length es' \<le> 256"
proof -
  show "ledger_ok es'" by (rule ledger_ok_update_rows [OF assms(2) [unfolded update_ledger_def] assms(1)])
  then show "length es' \<le> 256" by (rule ledger_ok_length)
qed

lemma ledger_bounded_witness: "ledger_ok ([] :: alert_condition ledger) \<and> length ([] :: alert_condition ledger) \<le> 256"
  using ledger_bounded [of "[]" plain_codec 0 "[]" "[]" "[]"] by (simp add: ledger_ok_def detail_keys_def update_ledger_def)

section \<open>Live alerts\<close>

text \<open>The live alerts do not depend on the order in which the ledger is visited: they are the current
  alerts of the rows of the sprint that were observed within the last hour (or never), ordered by
  their identifiers, and where those are distinct every order of the rows gives the same list.\<close>

theorem live_alerts_canonical:
  assumes "mset es = mset es'" and "distinct (map al_id (List.map_filter (\<lambda>(k, raw). live_alert cd sprint now raw) es))"
  shows "activeSprintAlerts cd (Some es) sprint now = activeSprintAlerts cd (Some es') sprint now"
    and "set (activeSprintAlerts cd (Some es) sprint now) = {a. \<exists>(k, raw)\<in>set es. live_alert cd sprint now raw = Some a}"
    and "sorted (map al_id (activeSprintAlerts cd (Some es) sprint now))"
proof -
  define live where "live = List.map_filter (\<lambda>(k :: string, raw). live_alert cd sprint now raw)"
  have mset_live: "mset (live xs) = image_mset the (filter_mset (\<lambda>x. x \<noteq> None) (image_mset (\<lambda>(k, raw). live_alert cd sprint now raw) (mset xs)))" for xs
    by (induction xs) (auto simp: live_def map_filter_simps split: option.splits)
  have "mset (live es) = mset (sort_key al_id (live es'))" using assms(1) by (simp add: mset_live)
  moreover have "inj_on al_id (set (live es))" using assms(2) by (simp add: live_def distinct_map)
  ultimately have "sort_key al_id (live es) = sort_key al_id (live es')"
    by (intro sort_key_inj_key_eq) simp_all
  then show "activeSprintAlerts cd (Some es) sprint now = activeSprintAlerts cd (Some es') sprint now"
    by (simp add: activeSprintAlerts_def order_alerts_sort live_def)
  show "set (activeSprintAlerts cd (Some es) sprint now) = {a. \<exists>(k, raw)\<in>set es. live_alert cd sprint now raw = Some a}"
    by (auto simp: activeSprintAlerts_def order_alerts_sort map_filter_def image_iff split: prod.splits) force+
  show "sorted (map al_id (activeSprintAlerts cd (Some es) sprint now))"
    by (simp add: activeSprintAlerts_def order_alerts_sort)
qed

definition shown_condition :: "string \<Rightarrow> alert_condition" where
  "shown_condition i = (new_condition i 7 ''ann'')\<lparr>co_current := Some \<lparr>al_id = i, al_sprint = 7, al_severity = ''warning'',
     al_message = [], al_at = 0, al_owner = ''ann'', al_coalesced = 0\<rparr>\<rparr>"

lemma live_alerts_canonical_witness:
  "activeSprintAlerts plain_codec (Some [(''a'', shown_condition ''a''), (''b'', shown_condition ''b'')]) 7 0 =
   activeSprintAlerts plain_codec (Some [(''b'', shown_condition ''b''), (''a'', shown_condition ''a'')]) 7 0"
  by (rule live_alerts_canonical(1))
    (simp_all add: map_filter_simps live_alert_def shown_condition_def new_condition_def zero_condition_def)

section \<open>Publication\<close>

text \<open>C24. Publication clears a notice only when it was posted. An update with publication first makes its
  transaction, which moves the conditions, and then publishes from the ledger that the transaction
  left. Each notice that is pending in that ledger is, after the update, still pending or its
  identifier was posted, whichever post or transaction failed on the way; and when no error is
  returned, every pending notice of a row that belongs to a target and its owner was posted. The
  stores behave as \<open>store_laws\<close> says. Before that, the transaction itself may drop notices that were
  never posted, and in three cases only: a step on a condition \<open>c\<close> of the ledger drops a pending
  notice when another owner takes the condition over (see \<open>hand_over_drops\<close>), when the notice is the
  fourth or later and a new one coalesces with it (which counts it), and when the row has no version
  and is started anew.\<close>

theorem notices_posted_before_cleared:
  assumes "store_laws e rows posted" and "reencodes (ae_codec e)"
    and "ae_update e (update_ledger (ae_codec e) (sn_at s) targets (sprintAlertSamples s)) w = (Inr es, w1)"
    and "updateSprintAlertTargets e s targets selected True w = ((shown, err), w')"
    and "n \<in> set (pending_of (ae_codec e) es k)"
  shows "(n \<in> set (pending_of (ae_codec e) (rows w') k) \<or> al_id n \<in> posted w') \<and>
    (err = None \<and> addressed targets (row_condition (ae_codec e) es k) \<and>
       (\<exists>raw. map_of es k = Some raw \<and> snd (cd_unmarshal (ae_codec e) raw zero_condition)) \<longrightarrow> al_id n \<in> posted w') \<and>
    (m \<in> set (co_pending c) \<and> m \<notin> set (co_pending (fst (advance key sprint owner (sn_at s) smp c))) \<longrightarrow>
       co_owner c \<noteq> owner \<or> m \<in> set (drop 3 (co_pending c)) \<or> co_version c = 0)"
proof -
  have pub: "publish_rows e targets es w1 = (err, w')"
    using assms(3,4) by (auto simp: updateSprintAlertTargets_def Let_def split: prod.splits)
  have "rows w1 = es" using store_update(2) [OF assms(1,3)] by simp
  with publish_rows_kept [OF assms(1,2) pub] assms(5)
  have kept: "n \<in> set (pending_of (ae_codec e) (rows w') k) \<or> al_id n \<in> posted w'" by (auto simp: kept_def)
  have "al_id n \<in> posted w'"
    if "err = None" "addressed targets (row_condition (ae_codec e) es k)"
      and raw: "map_of es k = Some raw" "snd (cd_unmarshal (ae_codec e) raw zero_condition)" for raw
  proof -
    define c where "c = row_condition (ae_codec e) es k"
    have "(k, raw) \<in> set es" "cd_unmarshal (ae_codec e) raw zero_condition = (c, True)" "n \<in> set (co_pending c)"
      using raw assms(5) by (auto simp: c_def pending_of_def row_condition_def prod_eq_iff dest: map_of_SomeD)
    with publish_rows_kept [OF assms(1,2) pub] that(1,2) show ?thesis by (fastforce simp: c_def)
  qed
  moreover have "co_owner c \<noteq> owner \<or> m \<in> set (drop 3 (co_pending c)) \<or> co_version c = 0"
    if "m \<in> set (co_pending c)" "m \<notin> set (co_pending (fst (advance key sprint owner (sn_at s) smp c)))"
    using advance_keeps [OF that] by blast
  ultimately show ?thesis using kept by blast
qed

definition sample_notice :: alert where
  "sample_notice = \<lparr>al_id = ''n1'', al_sprint = 7, al_severity = ''warning'', al_message = ''m'', al_at = 1, al_owner = ''ann'',
     al_coalesced = 0\<rparr>"

definition sample_row :: alert_condition where
  "sample_row = (new_condition ''x'' 7 ''ann'')\<lparr>co_pending := [sample_notice]\<rparr>"

lemma sample_store: "store_laws sample_env fst (\<lambda>w. set (snd w))" "reencodes (ae_codec sample_env)"
  by (auto simp: store_laws_def sample_env_def reencodes_def split: sum.splits)

lemma blind_samples: "sprintAlertSamples blind_snapshot = [source_sample blind_snapshot]"
  by (simp add: sprintAlertSamples_def blind_snapshot_def)

lemma blind_row: "co_pending (fst (advance k 7 ''ann'' now (source_sample blind_snapshot) zero_condition)) = []"
  by (simp add: advance_fst Let_def fresh_condition_def new_condition_def zero_condition_def hand_over_def forget_unknown_def
      take_reading_def source_sample_def hostMissing_def blind_snapshot_def read_high_def time_sub_def second_def)

lemma sample_row_simps: "co_pending sample_row = [sample_notice]" "co_sprint sample_row = 7" "co_owner sample_row = ''ann''"
  "al_id sample_notice = ''n1''"
  by (simp_all add: sample_row_def new_condition_def zero_condition_def sample_notice_def)

lemma alert_env_simps: "ae_codec sample_env = plain_codec" "ae_post sample_env sp ow tp n w = (None, (fst w, al_id n # snd w))"
  "ae_update sample_env f w = (case f (fst w) of Inl x \<Rightarrow> (Inl x, w) | Inr es \<Rightarrow> (Inr es, (es, snd w)))"
  by (simp_all add: sample_env_def)

lemma publish_example:
  assumes "k \<noteq> ''x''" "co_pending c = []"
  shows "publish_rows sample_env [(7, ''ann'')] [(''x'', sample_row), (k, c)] ([(''x'', sample_row), (k, c)], []) =
    (None, ([(''x'', sample_row\<lparr>co_pending := []\<rparr>), (k, c)], [''n1'']))"
  using assms by (simp add: sample_row_simps alert_env_simps acknowledge_def addressed_def)

lemma notices_posted_before_cleared_witness:
  "\<exists>shown w'. updateSprintAlertTargets sample_env blind_snapshot [(7, ''ann'')] 7 True ([(''x'', sample_row)], []) = ((shown, None), w') \<and>
     ''n1'' \<in> set (snd w') \<and> pending_of plain_codec (fst w') ''x'' = []"
proof -
  let ?s = "source_sample blind_snapshot" and ?now = "sn_at blind_snapshot"
  let ?k = "condition_key 7 ?s"
  let ?c = "fst (advance ?k 7 ''ann'' ?now ?s zero_condition)"
  let ?es = "[(''x'', sample_row), (?k, ?c)]"
  have k: "?k \<noteq> ''x''" "''x'' \<noteq> ?k" by (simp_all add: condition_key_def)
  have ch: "snd (advance ?k 7 ''ann'' ?now ?s zero_condition)"
    by (simp add: advance_snd Let_def fresh_condition_def zero_condition_def)
  then have led: "update_ledger plain_codec ?now [(7, ''ann'')] [?s] [(''x'', sample_row)] = Inr ?es"
    using k by (cases "advance ?k 7 ''ann'' ?now ?s zero_condition") (simp add: update_ledger_def update_row_def Let_def)
  have tx: "ae_update sample_env (update_ledger (ae_codec sample_env) ?now [(7, ''ann'')] (sprintAlertSamples blind_snapshot))
      ([(''x'', sample_row)], []) = (Inr ?es, (?es, []))"
    using led by (simp add: sample_env_def blind_samples)
  obtain shown where up: "updateSprintAlertTargets sample_env blind_snapshot [(7, ''ann'')] 7 True ([(''x'', sample_row)], []) =
      ((shown, None), ([(''x'', sample_row\<lparr>co_pending := []\<rparr>), (?k, ?c)], [''n1'']))"
    using tx publish_example [OF k(1) blind_row [of ?k ?now]] by (simp add: updateSprintAlertTargets_def Let_def)
  have "al_id sample_notice \<in> set (snd ([(''x'', sample_row\<lparr>co_pending := []\<rparr>), (?k, ?c)], [''n1'']))"
    using notices_posted_before_cleared [OF sample_store tx up, of sample_notice "''x''"]
    by (simp add: pending_of_def row_condition_def sample_env_def sample_row_def addressed_def new_condition_def zero_condition_def)
  then show ?thesis using up by (simp add: pending_of_def row_condition_def sample_notice_def)
qed

section \<open>Divergences\<close>

text \<open>
  The overflow row is never observed again: once it alerts no transaction touches it, and it is
  shown as live at every later time, although the time to live of an hour is documented to bound
  how long a condition is shown without a fresh observation. It also keeps its first owner, so no
  successor is told.
\<close>

lemma overflow_row_stays:
  assumes "map_of es overflow_key = Some raw" "cd_unmarshal cd raw (new_condition overflow_key sprint owner) = (c, ok)" "co_current c \<noteq> None"
  shows "overflow_row cd now sprint owner es = es"
  using assms by (auto simp: overflow_row_def Let_def)

lemma overflow_never_expires:
  "live_alert plain_codec 0 now (appendSprintAlert ''warning'' m t (new_condition overflow_key sprint owner)) \<noteq> None"
  by (simp add: live_alert_def mon_simps new_condition_def zero_condition_def)

text \<open>
  A hand-over drops the notices that the former owner has not been told: of any number of pending
  notices at most one summary is left, for the new owner, and it does not count the others. The
  comment says that they remain durable.
\<close>

lemma hand_over_drops:
  assumes "co_owner c \<noteq> owner"
  shows "length (co_pending (fst (hand_over owner now c))) \<le> 1" "\<forall>p\<in>set (co_pending (fst (hand_over owner now c))). al_coalesced p = 0"
  using assms by (auto simp: hand_over_def Let_def appendSprintAlert_def split: option.splits)

text \<open>
  A host source that is missing gives no sample at all for the processor and the memory, so the gap
  does not break a run: two high readings a minute apart alert with nothing known between them. A
  stale section, in contrast, is a sample that is not known and breaks the run.
\<close>

lemma missing_host_is_no_gap:
  "sn_host s = None \<Longrightarrow> \<forall>a\<in>set (sprintAlertSamples (s\<lparr>sn_models := None\<rparr>)). sa_key a = ''source.host''"
  by (simp add: sprintAlertSamples_def source_sample_def)

lemma stale_host_is_a_gap:
  "\<not> alerting (signals [cpu_at 1 95, (cpu_at 30 95)\<lparr>sa_known := False\<rparr>, cpu_at 61 95])"
  "alerting (signals [cpu_at 1 95, cpu_at 61 95])"
  by (simp_all add: signals_def cpu_at_def band_def second_def)

text \<open>
  An alert that lapsed for want of observations comes back with one reading between the bounds,
  which says neither pressure nor relief: the row still holds it, and a reading of any kind renews
  its time to live.
\<close>

lemma lapsed_alert_returns:
  assumes "co_current c \<noteq> None" "co_version c \<noteq> 0" "co_owner c = owner" "sa_known s" "co_observedAt c < sa_at s"
    "\<not> f64_le (sa_high s) (sa_value s)" "\<not> f64_le (sa_value s) (sa_low s)"
  shows "co_current (fst (advance k sprint owner now s c)) \<noteq> None" "co_observedAt (fst (advance k sprint owner now s c)) = sa_at s"
  using assms by (auto simp: advance_fst fresh_condition_def hand_over_def forget_unknown_def take_reading_def read_mid_def Let_def mon_simps)

end
