(* ===== verification/Stw_Select.thy ===== *)
theory Stw_Select
  imports Complex_Main Go_Std
begin

text \<open>
  Who stewards a host when nobody said (internal/agentos/steward_select.go), and which cheap agent
  triages its messages (internal/agentos/steward_mediator.go). The catalog of the fleet module, the
  check that a tool is operable, the budget preview and the meter are parameters (\<open>select_env\<close>),
  as are the values of the fleet module's constants. Errors are the values of \<open>steward_error\<close>. A
  headroom is a finite \<open>float64\<close>, here its rational value.
\<close>

section \<open>Floating point\<close>

text \<open>
  The nearest \<open>float64\<close> of a rational, ties to even: the fraction is scaled to 53 bits. The values
  here are integers of 64 bits, their quotients and products with 100, so the exponent stays in
  range.
\<close>

definition round_even :: "rat \<Rightarrow> int" where
  "round_even q = (let n = \<lfloor>q\<rfloor>; r = q - of_int n in
     if r < 1 / 2 then n else if 1 / 2 < r then n + 1 else if even n then n else n + 1)"

fun scale_up :: "nat \<Rightarrow> rat \<Rightarrow> nat \<Rightarrow> rat \<times> nat" where
  "scale_up 0 q k = (q, k)"
| "scale_up (Suc n) q k = (if q < 2 ^ 52 then scale_up n (2 * q) (Suc k) else (q, k))"

fun scale_down :: "nat \<Rightarrow> rat \<Rightarrow> nat \<Rightarrow> rat \<times> nat" where
  "scale_down 0 q k = (q, k)"
| "scale_down (Suc n) q k = (if 2 ^ 53 \<le> q then scale_down n (q / 2) (Suc k) else (q, k))"

definition float64 :: "rat \<Rightarrow> rat" where
  "float64 q =
     (if q = 0 then 0
      else let sign = (if q < 0 then - 1 else 1); a = \<bar>q\<bar> in
        if a < 2 ^ 53 then case scale_up 1100 a 0 of (m, k) \<Rightarrow> sign * (of_int (round_even m) / 2 ^ k)
        else case scale_down 1100 a 0 of (m, k) \<Rightarrow> sign * (of_int (round_even m) * 2 ^ k))"

section \<open>The fleet\<close>

record fleet_agent =
  fa_name :: string
  fa_nick :: string
  fa_matrixKey :: string
  fa_reliability :: "string option"
  fa_bandSource :: string
  fa_band :: int
  fa_ephemeral :: bool

record fleet_model =
  fm_name :: string
  fm_band :: int
  fm_bandSource :: string
  fm_billing :: string
  fm_marginalCostMicro :: int

record meter =
  mt_basis :: string
  mt_limitKnown :: bool
  mt_limit :: "int option"
  mt_remaining :: "int option"
  mt_spent :: int
  mt_unit :: string

record candidate =
  sc_name :: string
  sc_nick :: string
  sc_binding :: string
  sc_tool :: string
  sc_model :: string
  sc_band :: int
  sc_bandSource :: string
  sc_billing :: string
  sc_reliability :: string
  sc_headroomKnown :: bool
  sc_headroom :: rat
  sc_meterBasis :: string
  sc_meterDetail :: string
  sc_marginalCostMicro :: int

record selection =
  sl_chosen :: candidate
  sl_runners :: "candidate list"
  sl_skipped :: "(string \<times> string) list"
  sl_why :: string
  sl_bandFloor :: bool
  sl_explicit :: bool

record select_env =
  fe_agents :: "fleet_agent list"
  fe_binding :: "string \<Rightarrow> string + fleet_agent \<times> string \<times> fleet_model"
  fe_operable :: "string \<Rightarrow> bool \<times> string"
  fe_preview :: "string \<Rightarrow> string \<Rightarrow> string + bool \<times> string"
  fe_status :: "string \<Rightarrow> meter"
  fe_maxBand :: int
  fe_cascade :: string
  fe_free :: string
  fe_flat :: string
  fe_flatThenMetered :: string
  fe_metered :: string

datatype steward_error =
  AgentAndBand
| NotInFleet string
| NotRoutable string string
| BandRange int
| NoneEligible int "(string \<times> string) list"
| NoSelection
| NoRandom string

definition stewardBandFloor :: int where "stewardBandFloor = 3"
definition stewardDefaultBand :: int where "stewardDefaultBand = 4"

section \<open>Candidates\<close>

definition describeStewardCandidate :: "select_env \<Rightarrow> fleet_agent \<Rightarrow> string \<Rightarrow> fleet_model \<Rightarrow> candidate" where
  "describeStewardCandidate e a t m =
     (let st = fe_status e (fm_name m);
          cascade = (fa_bandSource a = fe_cascade e \<and> 0 < fa_band a);
          measured = (case (mt_limit st, mt_remaining st) of
             (Some l, Some r) \<Rightarrow> if mt_limitKnown st \<and> 0 < l then Some (l, r) else None | _ \<Rightarrow> None)
      in \<lparr>sc_name = fa_name a, sc_nick = fa_nick a, sc_binding = fa_matrixKey a, sc_tool = t, sc_model = fm_name m,
          sc_band = (if cascade then fa_band a else fm_band m),
          sc_bandSource = (if cascade then fa_bandSource a else fm_bandSource m),
          sc_billing = fm_billing m,
          sc_reliability = (case fa_reliability a of Some r \<Rightarrow> r | None \<Rightarrow> []),
          sc_headroomKnown = (measured \<noteq> None),
          sc_headroom = (case measured of
             Some (l, r) \<Rightarrow> max 0 (float64 (float64 (of_int r) / float64 (of_int l))) | None \<Rightarrow> 0),
          sc_meterBasis = mt_basis st,
          sc_meterDetail = (case measured of
             Some (l, r) \<Rightarrow> int_text r @ '' of '' @ int_text l @ '' '' @ mt_unit st @ '' left''
           | None \<Rightarrow> ''no ceiling recorded ('' @ int_text (mt_spent st) @ '' '' @ mt_unit st @ '' spent)''),
          sc_marginalCostMicro = fm_marginalCostMicro m\<rparr>)"

text \<open>\<open>previewStewardBudget\<close> (internal/agentos/budget_admission.go): allowed or not, and the reason. A preview that fails blocks.\<close>

definition previewStewardBudget :: "select_env \<Rightarrow> string \<Rightarrow> string \<Rightarrow> bool \<times> string" where
  "previewStewardBudget e model agent = (case fe_preview e model agent of Inl err \<Rightarrow> (False, err) | Inr d \<Rightarrow> d)"

section \<open>The ranking\<close>

definition billingRank :: "select_env \<Rightarrow> string \<Rightarrow> int" where
  "billingRank e mode =
     (if mode = fe_free e then 0 else if mode = fe_flat e then 1 else if mode = fe_flatThenMetered e then 2
      else if mode = fe_metered e then 3 else 4)"

definition headroomRank :: "candidate \<Rightarrow> int" where
  "headroomRank c =
     (if \<not> sc_headroomKnown c then 2
      else if float64 (1 / 2) \<le> sc_headroom c then 0
      else if float64 (1 / 5) \<le> sc_headroom c then 1 else 3)"

text \<open>\<open>strings.ToLower\<close>, as far as the result can be ASCII: U+0130 and U+212A are the letters outside ASCII with a lower case in it.\<close>

fun lower_ascii :: "string \<Rightarrow> string" where
  "lower_ascii [] = []"
| "lower_ascii (c # s) =
     (if c = CHR 0xC4 \<and> take 1 s = [CHR 0xB0] then CHR ''i'' # lower_ascii (drop 1 s)
      else if c = CHR 0xE2 \<and> take 2 s = [CHR 0x84, CHR 0xAA] then CHR ''k'' # lower_ascii (drop 2 s)
      else ascii_lower c # lower_ascii s)"

definition reliabilityRank :: "string \<Rightarrow> int" where
  "reliabilityRank r = (let v = lower_ascii (trim_space r) in
     if v = ''high'' then 0 else if v = ''medium'' then 1 else if v = ''low'' then 3 else 2)"

definition lessStewardCandidate :: "select_env \<Rightarrow> candidate \<Rightarrow> candidate \<Rightarrow> bool" where
  "lessStewardCandidate e a b =
     (if billingRank e (sc_billing a) \<noteq> billingRank e (sc_billing b)
      then billingRank e (sc_billing a) < billingRank e (sc_billing b)
      else if headroomRank a \<noteq> headroomRank b then headroomRank a < headroomRank b
      else if sc_headroomKnown a \<and> sc_headroomKnown b \<and> sc_headroom a \<noteq> sc_headroom b then sc_headroom b < sc_headroom a
      else if sc_band a \<noteq> sc_band b then sc_band b < sc_band a
      else if reliabilityRank (sc_reliability a) \<noteq> reliabilityRank (sc_reliability b)
      then reliabilityRank (sc_reliability a) < reliabilityRank (sc_reliability b)
      else if sc_marginalCostMicro a \<noteq> sc_marginalCostMicro b then sc_marginalCostMicro a < sc_marginalCostMicro b
      else sc_name a < sc_name b)"

text \<open>\<open>sort.SliceStable\<close>: a stable sort by the comparison.\<close>

fun place :: "('a \<Rightarrow> 'a \<Rightarrow> bool) \<Rightarrow> 'a \<Rightarrow> 'a list \<Rightarrow> 'a list" where
  "place lt x [] = [x]"
| "place lt x (y # ys) = (if lt y x then y # place lt x ys else x # y # ys)"

definition slice_stable :: "('a \<Rightarrow> 'a \<Rightarrow> bool) \<Rightarrow> 'a list \<Rightarrow> 'a list" where
  "slice_stable lt xs = foldr (place lt) xs []"

definition long_dash :: string where "long_dash = [CHR 0xE2, CHR 0x80, CHR 0x94]"

definition explainStewardChoice :: "select_env \<Rightarrow> candidate \<Rightarrow> int \<Rightarrow> string" where
  "explainStewardChoice e c band =
     ''strongest cost-aware match at band L'' @ int_text band @ ''+: '' @
     (if sc_billing c = fe_free e then ''runs on your own hardware''
      else if sc_billing c = fe_flat e \<or> sc_billing c = fe_flatThenMetered e then ''a subscription seat you have already paid for''
      else if sc_billing c = fe_metered e then ''metered '' @ long_dash @ '' no flat-rate seat at this band was available''
      else ''billing not declared'') @
     (if sc_headroomKnown c
      then ''; '' @ int_text (round_even (float64 (sc_headroom c * 100))) @ ''% quota left ('' @ sc_meterDetail c @ '')''
      else ''; quota headroom UNKNOWN ('' @ sc_meterDetail c @ '')'')"

section \<open>The selection\<close>

text \<open>The body of the loop over the agents: passed over in silence, skipped with a reason, or taken.\<close>

datatype verdict = PassedOver | Skipped string | Taken candidate

definition weigh :: "select_env \<Rightarrow> int \<Rightarrow> fleet_agent \<Rightarrow> verdict" where
  "weigh e band a =
     (if fa_ephemeral a then PassedOver
      else case fe_binding e (fa_name a) of
        Inl _ \<Rightarrow> PassedOver
      | Inr (_, t, m) \<Rightarrow>
          let c = describeStewardCandidate e a t m in
          if sc_band c < band then PassedOver
          else case fe_operable e t of (ok, reason) \<Rightarrow>
            if \<not> ok then Skipped reason
            else case previewStewardBudget e (fm_name m) (fa_name a) of (allowed, why) \<Rightarrow>
              if \<not> allowed then Skipped (''budget gate: '' @ why) else Taken c)"

definition skips :: "select_env \<Rightarrow> int \<Rightarrow> (string \<times> string) list" where
  "skips e band = List.map_filter (\<lambda>a. case weigh e band a of Skipped r \<Rightarrow> Some (fa_name a, r) | _ \<Rightarrow> None) (fe_agents e)"

definition eligible :: "select_env \<Rightarrow> int \<Rightarrow> candidate list" where
  "eligible e band = List.map_filter (\<lambda>a. case weigh e band a of Taken c \<Rightarrow> Some c | _ \<Rightarrow> None) (fe_agents e)"

definition pick_steward :: "select_env \<Rightarrow> int \<Rightarrow> steward_error + selection" where
  "pick_steward e band0 =
     (let band = (if band0 = 0 then stewardDefaultBand else band0) in
      if band < 1 \<or> fe_maxBand e < band then Inl (BandRange band)
      else case slice_stable (lessStewardCandidate e) (eligible e band) of
        [] \<Rightarrow> Inl (NoneEligible band (skips e band))
      | c # cs \<Rightarrow> Inr \<lparr>sl_chosen = c, sl_runners = cs, sl_skipped = skips e band, sl_why = explainStewardChoice e c band,
                       sl_bandFloor = (sc_band c < stewardBandFloor), sl_explicit = False\<rparr>)"

definition name_steward :: "select_env \<Rightarrow> string \<Rightarrow> steward_error + selection" where
  "name_steward e n =
     (case fe_binding e n of
        Inl err \<Rightarrow> Inl (NotInFleet err)
      | Inr (a, t, m) \<Rightarrow> (case fe_operable e t of (ok, reason) \<Rightarrow>
          if \<not> ok then Inl (NotRoutable n reason)
          else let c = describeStewardCandidate e a t m in
            Inr \<lparr>sl_chosen = c, sl_runners = [], sl_skipped = [], sl_why = ''named by the operator'',
                 sl_bandFloor = (sc_band c < stewardBandFloor), sl_explicit = True\<rparr>))"

definition selectStewardAgent :: "select_env \<Rightarrow> string \<Rightarrow> string \<Rightarrow> int \<Rightarrow> steward_error + selection" where
  "selectStewardAgent e name tool band =
     (let n = trim_space name in
      if n \<noteq> [] then (if tool \<noteq> [] \<or> band \<noteq> 0 then Inl AgentAndBand else name_steward e n)
      else pick_steward e band)"

text \<open>\<open>random n\<close> is what \<open>crypto/rand\<close> answers for an index below \<open>n\<close>.\<close>

definition randomizeStewardSelection :: "(nat \<Rightarrow> string + nat) \<Rightarrow> selection option \<Rightarrow> steward_error + selection option" where
  "randomizeStewardSelection random sel =
     (case sel of
        None \<Rightarrow> Inl NoSelection
      | Some s \<Rightarrow>
          let all = sl_chosen s # sl_runners s in
          if length all < 2 then Inr (Some s)
          else (case random (length all) of
            Inl err \<Rightarrow> Inl (NoRandom err)
          | Inr i \<Rightarrow>
              let c = all ! i in
              Inr (Some (s\<lparr>sl_chosen := c, sl_runners := take i all @ drop (Suc i) all,
                           sl_bandFloor := sc_band c < stewardBandFloor,
                           sl_why := ''randomly selected from '' @ nat_text (length all)
                             @ '' operable budget-eligible agents at L'' @ int_text (sc_band c) @ ''+''\<rparr>))))"

section \<open>The mediator\<close>

record mediator =
  md_agent :: string
  md_nick :: string
  md_binding :: string
  md_band :: int
  md_billing :: string

datatype no_mediator = NoAgent steward_error | AllTooStrong int int

definition stewardMediatorBand :: int where "stewardMediatorBand = 2"

definition lessStewardMediator :: "select_env \<Rightarrow> candidate \<Rightarrow> candidate \<Rightarrow> bool" where
  "lessStewardMediator e a b =
     (if sc_band a \<noteq> sc_band b then sc_band a < sc_band b
      else if billingRank e (sc_billing a) \<noteq> billingRank e (sc_billing b)
      then billingRank e (sc_billing a) < billingRank e (sc_billing b)
      else if sc_marginalCostMicro a \<noteq> sc_marginalCostMicro b then sc_marginalCostMicro a < sc_marginalCostMicro b
      else sc_name a < sc_name b)"

definition stewardMediatorCandidates :: "select_env \<Rightarrow> int \<Rightarrow> int \<Rightarrow> no_mediator + candidate list" where
  "stewardMediatorCandidates e lowest stewardBand =
     (case selectStewardAgent e [] [] lowest of
        Inl err \<Rightarrow> Inl (NoAgent err)
      | Inr sel \<Rightarrow>
          let out = filter (\<lambda>c. \<not> (0 < stewardBand \<and> stewardBand \<le> sc_band c)) (sl_chosen sel # sl_runners sel) in
          if out = [] then Inl (AllTooStrong lowest stewardBand)
          else Inr (slice_stable (lessStewardMediator e) out))"

definition as_mediator :: "candidate \<Rightarrow> mediator" where
  "as_mediator c = \<lparr>md_agent = sc_name c, md_nick = sc_nick c, md_binding = sc_binding c, md_band = sc_band c, md_billing = sc_billing c\<rparr>"

definition resolveStewardMediator :: "select_env \<Rightarrow> string \<Rightarrow> int \<Rightarrow> int \<Rightarrow> no_mediator + mediator" where
  "resolveStewardMediator e name band stewardBand =
     (if trim_space name \<noteq> [] then
        (case selectStewardAgent e name [] 0 of Inl err \<Rightarrow> Inl (NoAgent err) | Inr sel \<Rightarrow> Inr (as_mediator (sl_chosen sel)))
      else case stewardMediatorCandidates e (if band = 0 then stewardMediatorBand else band) stewardBand of
        Inl why \<Rightarrow> Inl why
      | Inr cands \<Rightarrow> Inr (as_mediator (hd cands)))"

end
