(* ===== verification/Stw_Properties.thy ===== *)
theory Stw_Properties
  imports Stw_Watch "HOL-Library.Product_Lexorder" "HOL-Library.Multiset"
begin

text \<open>
  The properties of the steward's selection, of its mediator and of its message watch, their
  witnesses, and what modelling them showed.
\<close>

section \<open>The orders of the two rankings\<close>

text \<open>Each comparison is the lexicographic order of a key, so the stable sort is the sort by that key.\<close>

definition seat_key :: "select_env \<Rightarrow> candidate \<Rightarrow> int \<times> int \<times> rat \<times> int \<times> int \<times> int \<times> string" where
  "seat_key e c = (billingRank e (sc_billing c), headroomRank c, (if sc_headroomKnown c then - sc_headroom c else 0), - sc_band c,
     reliabilityRank (sc_reliability c), sc_marginalCostMicro c, sc_name c)"

definition triage_key :: "select_env \<Rightarrow> candidate \<Rightarrow> int \<times> int \<times> int \<times> string" where
  "triage_key e c = (sc_band c, billingRank e (sc_billing c), sc_marginalCostMicro c, sc_name c)"

lemma headroomRank_known: "headroomRank a = headroomRank b \<Longrightarrow> sc_headroomKnown a = sc_headroomKnown b"
  by (auto simp: headroomRank_def split: if_splits)

lemma less_is_seat_key: "lessStewardCandidate e a b \<longleftrightarrow> seat_key e a < seat_key e b"
  using headroomRank_known [of a b] by (auto simp: lessStewardCandidate_def seat_key_def less_prod_def')

lemma less_is_triage_key: "lessStewardMediator e a b \<longleftrightarrow> triage_key e a < triage_key e b"
  by (auto simp: lessStewardMediator_def triage_key_def less_prod_def')

lemma place_insort: "place (\<lambda>a b. f a < f b) x ys = insort_key (f :: 'a \<Rightarrow> 'b :: linorder) x ys"
  by (induction ys) auto

lemma slice_stable_sort:
  fixes f :: "'a \<Rightarrow> 'b :: linorder"
  assumes "\<And>a b. lt a b = (f a < f b)"
  shows "slice_stable lt xs = sort_key f xs"
proof -
  have "lt = (\<lambda>a b. f a < f b)" using assms by blast
  moreover have "place (\<lambda>a b. f a < f b) = insort_key f" by (intro ext place_insort)
  ultimately show ?thesis by (simp add: slice_stable_def sort_key_def)
qed

lemma seat_sort: "slice_stable (lessStewardCandidate e) xs = sort_key (seat_key e) xs"
  by (rule slice_stable_sort) (rule less_is_seat_key)

lemma triage_sort: "slice_stable (lessStewardMediator e) xs = sort_key (triage_key e) xs"
  by (rule slice_stable_sort) (rule less_is_triage_key)

section \<open>Eligible agents\<close>

lemma weigh_Taken:
  "weigh e band a = Taken c \<longleftrightarrow> \<not> fa_ephemeral a \<and> (\<exists>b t m. fe_binding e (fa_name a) = Inr (b, t, m) \<and>
     c = describeStewardCandidate e a t m \<and> band \<le> sc_band c \<and> fst (fe_operable e t) \<and>
     fst (previewStewardBudget e (fm_name m) (fa_name a)))"
  by (auto simp: weigh_def Let_def split: sum.splits prod.splits if_splits)

lemma set_map_filter: "set (List.map_filter f xs) = {y. \<exists>x\<in>set xs. f x = Some y}"
  by (induction xs) (auto simp: map_filter_simps split: option.splits)

lemma taken_iff: "(case v of Taken c \<Rightarrow> Some c | _ \<Rightarrow> None) = Some c \<longleftrightarrow> v = Taken c"
  by (simp split: verdict.split)

lemma eligible_iff: "c \<in> set (eligible e band) \<longleftrightarrow> (\<exists>a\<in>set (fe_agents e). weigh e band a = Taken c)"
  by (simp add: eligible_def set_map_filter taken_iff)

lemma weigh_name: "weigh e band a = Taken c \<Longrightarrow> sc_name c = fa_name a"
  by (auto simp: weigh_Taken describeStewardCandidate_def Let_def)

lemma eligible_names: "distinct (map fa_name (fe_agents e)) \<Longrightarrow> distinct (map (seat_key e) (eligible e band))"
proof -
  define f where "f = (\<lambda>a. case weigh e band a of Taken c \<Rightarrow> Some c | _ \<Rightarrow> None)"
  have n: "f a = Some c \<Longrightarrow> sc_name c = fa_name a" for a c by (auto simp: f_def weigh_name split: verdict.splits)
  have sub: "sc_name ` set (List.map_filter f as) \<subseteq> fa_name ` set as" for as
    by (induction as) (auto simp: map_filter_simps n split: option.splits)
  have "distinct (map fa_name as) \<Longrightarrow> distinct (map sc_name (List.map_filter f as))" for as
  proof (induction as)
    case (Cons a as)
    then show ?case using sub [of as] n [of a] by (cases "f a") (auto simp: map_filter_simps)
  qed (simp add: map_filter_simps)
  moreover have "distinct (map sc_name cs) \<Longrightarrow> distinct (map (seat_key e) cs)" for cs
    by (auto simp: distinct_map seat_key_def inj_on_def)
  ultimately show "distinct (map fa_name (fe_agents e)) \<Longrightarrow> ?thesis" by (simp add: eligible_def f_def)
qed

lemma weigh_agents: "weigh (e\<lparr>fe_agents := as\<rparr>) band a = weigh e band a"
proof -
  have *: "describeStewardCandidate (e\<lparr>fe_agents := as\<rparr>) = describeStewardCandidate e"
    "previewStewardBudget (e\<lparr>fe_agents := as\<rparr>) = previewStewardBudget e"
    by (intro ext, simp add: describeStewardCandidate_def previewStewardBudget_def)+
  have "fe_operable (e\<lparr>fe_agents := as\<rparr>) = fe_operable e" "fe_binding (e\<lparr>fe_agents := as\<rparr>) = fe_binding e" by simp_all
  then show ?thesis unfolding weigh_def * by (simp only:)
qed

lemma eligible_mset: "mset as = mset (fe_agents e) \<Longrightarrow> mset (eligible (e\<lparr>fe_agents := as\<rparr>) band) = mset (eligible e band)"
proof -
  define f where "f = (\<lambda>a. case weigh e band a of Taken c \<Rightarrow> Some c | _ \<Rightarrow> None)"
  have "mset (List.map_filter f xs) = image_mset the (filter_mset (\<lambda>x. x \<noteq> None) (image_mset f (mset xs)))" for xs
    by (induction xs) (auto simp: map_filter_simps split: option.splits)
  then show "mset as = mset (fe_agents e) \<Longrightarrow> ?thesis" by (simp add: eligible_def weigh_agents f_def)
qed

text \<open>C16. The choice of the steward is the best eligible agent and does not depend on the order of the
  catalog: when the agents have distinct names, the chosen agent is eligible (not a clone, bound,
  at the band or above, operable and within its budget) and ranks strictly before every other
  eligible agent, the runners-up are the rest in rank order, and any other order of the same catalog
  gives the same choice and the same runners-up.\<close>

theorem steward_choice_canonical:
  assumes "selectStewardAgent e name tool band = Inr sel" and "trim_space name = []"
    and "distinct (map fa_name (fe_agents e))" and "mset as = mset (fe_agents e)"
  shows "set (sl_chosen sel # sl_runners sel) =
      {c. \<exists>a\<in>set (fe_agents e). \<not> fa_ephemeral a \<and> (\<exists>b t m. fe_binding e (fa_name a) = Inr (b, t, m) \<and>
        c = describeStewardCandidate e a t m \<and> (if band = 0 then 4 else band) \<le> sc_band c \<and> fst (fe_operable e t) \<and>
        fst (previewStewardBudget e (fm_name m) (fa_name a)))} \<and>
    sorted_wrt (lessStewardCandidate e) (sl_chosen sel # sl_runners sel) \<and>
    (\<exists>sel'. selectStewardAgent (e\<lparr>fe_agents := as\<rparr>) name tool band = Inr sel' \<and>
      sl_chosen sel' = sl_chosen sel \<and> sl_runners sel' = sl_runners sel)"
proof -
  let ?b = "if band = 0 then 4 else band"
  let ?e = "e\<lparr>fe_agents := as\<rparr>"
  have r: "\<not> (?b < 1 \<or> fe_maxBand e < ?b)" and s: "sort_key (seat_key e) (eligible e ?b) = sl_chosen sel # sl_runners sel"
    using assms(1,2) by (auto simp: selectStewardAgent_def pick_steward_def stewardDefaultBand_def Let_def seat_sort
        split: if_splits list.splits)
  have "set (sort_key (seat_key e) (eligible e ?b)) = set (eligible e ?b)" by simp
  then have 1: "set (sl_chosen sel # sl_runners sel) =
      {c. \<exists>a\<in>set (fe_agents e). \<not> fa_ephemeral a \<and> (\<exists>b t m. fe_binding e (fa_name a) = Inr (b, t, m) \<and>
        c = describeStewardCandidate e a t m \<and> ?b \<le> sc_band c \<and> fst (fe_operable e t) \<and>
        fst (previewStewardBudget e (fm_name m) (fa_name a)))}"
    by (simp only: s eligible_iff [symmetric] weigh_Taken [symmetric]) auto
  have "distinct (map (seat_key e) (eligible e ?b))" by (rule eligible_names) (rule assms(3))
  then have inj: "inj_on (seat_key e) (set (eligible e ?b))" and
    d: "distinct (map (seat_key e) (sort_key (seat_key e) (eligible e ?b)))" by (simp_all add: distinct_map)
  have "sorted (map (seat_key e) (sort_key (seat_key e) (eligible e ?b)))" by (rule sorted_sort_key)
  with d have "sorted_wrt (<) (map (seat_key e) (sl_chosen sel # sl_runners sel))"
    by (simp only: strict_sorted_iff s)
  then have 2: "sorted_wrt (lessStewardCandidate e) (sl_chosen sel # sl_runners sel)"
    by (simp only: sorted_wrt_map less_is_seat_key [abs_def])
  have key: "seat_key ?e = seat_key e" by (rule ext) (simp add: seat_key_def billingRank_def)
  have "sort_key (seat_key e) (eligible ?e ?b) = sort_key (seat_key e) (eligible e ?b)"
    using inj eligible_mset [OF assms(4), of ?b]
    by (intro sort_key_inj_key_eq) (simp_all add: mset_eq_setD [OF eligible_mset [OF assms(4)]])
  with r s assms(2) have 3: "\<exists>sel'. selectStewardAgent ?e name tool band = Inr sel' \<and>
      sl_chosen sel' = sl_chosen sel \<and> sl_runners sel' = sl_runners sel"
    by (auto simp: selectStewardAgent_def pick_steward_def stewardDefaultBand_def Let_def seat_sort key)
  from 1 2 3 show ?thesis by (intro conjI)
qed

section \<open>The mediator\<close>

definition below :: "int \<Rightarrow> candidate \<Rightarrow> bool" where
  "below stewardBand c \<longleftrightarrow> (0 < stewardBand \<longrightarrow> sc_band c < stewardBand)"

lemma mediator_candidates:
  assumes "lowest \<noteq> 0"
  shows "stewardMediatorCandidates e lowest stewardBand =
      (if lowest < 1 \<or> fe_maxBand e < lowest then Inl (NoAgent (BandRange lowest))
       else if eligible e lowest = [] then Inl (NoAgent (NoneEligible lowest (skips e lowest)))
       else let out = filter (below stewardBand) (sort_key (seat_key e) (eligible e lowest)) in
         if out = [] then Inl (AllTooStrong lowest stewardBand) else Inr (sort_key (triage_key e) out))"
proof (cases "sort_key (seat_key e) (eligible e lowest)")
  case Nil
  then have "eligible e lowest = []" by (metis length_0_conv length_sort)
  with assms show ?thesis
    by (simp add: stewardMediatorCandidates_def selectStewardAgent_def pick_steward_def slice_stable_def)
next
  case (Cons c cs)
  then have ne: "eligible e lowest \<noteq> []" by auto
  have "(\<lambda>c. \<not> (0 < stewardBand \<and> stewardBand \<le> sc_band c)) = below stewardBand" by (auto simp: below_def)
  with assms ne show ?thesis
    by (simp add: stewardMediatorCandidates_def selectStewardAgent_def pick_steward_def seat_sort triage_sort Cons Let_def)
qed

text \<open>C26. A mediator that nobody named is the cheapest adequate agent: there is one exactly when the
  band is in range and some eligible agent of at least the lowest band is below the steward's band
  (when the steward has one); it then is such an agent, and none that is such an agent comes before
  it in the order of band, billing class, marginal cost and name.\<close>

theorem mediator_is_cheapest_adequate:
  assumes "trim_space name = []"
  shows "((\<exists>m. resolveStewardMediator e name band stewardBand = Inr m) \<longleftrightarrow>
      1 \<le> (if band = 0 then 2 else band) \<and> (if band = 0 then 2 else band) \<le> fe_maxBand e \<and>
      (\<exists>c\<in>set (eligible e (if band = 0 then 2 else band)). 0 < stewardBand \<longrightarrow> sc_band c < stewardBand)) \<and>
    (\<forall>m. resolveStewardMediator e name band stewardBand = Inr m \<longrightarrow>
      (\<exists>c\<in>set (eligible e (if band = 0 then 2 else band)). m = as_mediator c \<and> (0 < stewardBand \<longrightarrow> sc_band c < stewardBand) \<and>
        (\<forall>d\<in>set (eligible e (if band = 0 then 2 else band)). (0 < stewardBand \<longrightarrow> sc_band d < stewardBand) \<longrightarrow>
          \<not> lessStewardMediator e d c)))"
proof -
  let ?b = "if band = 0 then 2 else band"
  define out where "out = filter (below stewardBand) (sort_key (seat_key e) (eligible e ?b))"
  have b: "?b \<noteq> 0" by simp
  have set_out: "set out = {c \<in> set (eligible e ?b). below stewardBand c}" by (auto simp: out_def)
  have r: "resolveStewardMediator e name band stewardBand =
      (if ?b < 1 \<or> fe_maxBand e < ?b then Inl (NoAgent (BandRange ?b))
       else if eligible e ?b = [] then Inl (NoAgent (NoneEligible ?b (skips e ?b)))
       else if out = [] then Inl (AllTooStrong ?b stewardBand)
       else Inr (as_mediator (hd (sort_key (triage_key e) out))))"
    using assms by (simp only: resolveStewardMediator_def stewardMediatorBand_def mediator_candidates [OF b] Let_def out_def)
      (simp only: sum.case split: if_split, simp)
  have "out = [] \<longleftrightarrow> \<not> (\<exists>c\<in>set (eligible e ?b). below stewardBand c)" using set_out by (auto simp flip: set_empty)
  moreover from this have "eligible e ?b = [] \<Longrightarrow> out = []" by simp
  ultimately have exists_iff: "(\<exists>m. resolveStewardMediator e name band stewardBand = Inr m) \<longleftrightarrow> 1 \<le> ?b \<and> ?b \<le> fe_maxBand e \<and>
      (\<exists>c\<in>set (eligible e ?b). 0 < stewardBand \<longrightarrow> sc_band c < stewardBand)"
    unfolding r below_def [symmetric] by (auto simp: not_less simp del: split_paired_Ex)
  have least: "\<exists>c\<in>set (eligible e ?b). m = as_mediator c \<and> (0 < stewardBand \<longrightarrow> sc_band c < stewardBand) \<and>
        (\<forall>d\<in>set (eligible e ?b). (0 < stewardBand \<longrightarrow> sc_band d < stewardBand) \<longrightarrow> \<not> lessStewardMediator e d c)"
    if "resolveStewardMediator e name band stewardBand = Inr m" for m
  proof -
    from that have m: "out \<noteq> []" "m = as_mediator (hd (sort_key (triage_key e) out))" by (auto simp: r split: if_splits)
    obtain c cs where c: "sort_key (triage_key e) out = c # cs" using m(1) by (cases "sort_key (triage_key e) out") (auto dest: arg_cong [of _ _ length])
    have s: "set (c # cs) = set out" by (metis c set_sort)
    have "sorted (map (triage_key e) (c # cs))" by (metis c sorted_sort_key)
    then have "\<not> lessStewardMediator e d c" if "d \<in> set out" for d
      using that unfolding s [symmetric] by (auto simp: less_is_triage_key)
    then show ?thesis
      using m(2) s c set_out by (intro bexI [of _ c]) (auto simp: below_def)
  qed
  from exists_iff least show ?thesis by blast
qed

section \<open>The digest\<close>

lemma digest_lines_sound:
  "distinct (map fst (digest_lines seen ls)) \<and> set (map fst (digest_lines seen ls)) \<inter> set seen = {} \<and>
   (\<forall>(i, t)\<in>set (digest_lines seen ls). \<exists>l\<in>set ls. line_index l = Some i \<and> t = trim_space l)"
proof (induction ls arbitrary: seen)
  case (Cons l ls)
  show ?case
  proof (cases "line_index l")
    case None
    with Cons [of seen] show ?thesis by auto
  next
    case (Some i)
    with Cons [of "i # seen"] Cons [of seen] show ?thesis by auto
  qed
qed simp

text \<open>
  A digest that is handed on has as many lines as there are messages, under distinct numbers, each of
  them a line of the answer.
\<close>

lemma digest_counts:
  assumes "mediate invoke m seat board = (digest, None)" "seat \<noteq> [] \<or> board \<noteq> []"
  shows "\<exists>kept. digest = join_lines (map snd kept) \<and> length kept = length seat + length board \<and> distinct (map fst kept) \<and>
    (\<forall>(i, t)\<in>set kept. \<exists>l\<in>set (split_lines (ca_output (invoke (md_agent m) (mediatorPrompt seat board)))).
       line_index l = Some i \<and> t = trim_space l)"
proof -
  let ?ls = "split_lines (ca_output (invoke (md_agent m) (mediatorPrompt seat board)))"
  have "digest = join_lines (map snd (digest_lines [] ?ls))" "length (digest_lines [] ?ls) = length seat + length board"
    using assms by (auto simp: mediate_def parseMediatorDigest_def Let_def split: if_splits)
  with digest_lines_sound [of "[]" ?ls] show ?thesis by (intro exI [of _ "digest_lines [] ?ls"]) simp
qed

section \<open>The watch\<close>

text \<open>
  What the notices of a run carried on a channel, as identities: all that were handed over, those the agent
  took, and the union of those it did not take. A channel is \<open>fst\<close> (the seat) or \<open>snd\<close> (the board).
\<close>

type_synonym channel = "bus_pending list \<times> bus_pending list \<Rightarrow> bus_pending list"

fun handed :: "channel \<Rightarrow> watch_effect list \<Rightarrow> string set list" where
  "handed ch [] = []"
| "handed ch (Say n s b # es) = idSet (ch (s, b)) # handed ch es"
| "handed ch (NotSaid s b # es) = idSet (ch (s, b)) # handed ch es"
| "handed ch (x # es) = handed ch es"

fun told :: "channel \<Rightarrow> watch_effect list \<Rightarrow> string set list" where
  "told ch [] = []"
| "told ch (Say n s b # es) = idSet (ch (s, b)) # told ch es"
| "told ch (x # es) = told ch es"

fun lost :: "channel \<Rightarrow> watch_effect list \<Rightarrow> string set" where
  "lost ch [] = {}"
| "lost ch (NotSaid s b # es) = idSet (ch (s, b)) \<union> lost ch es"
| "lost ch (x # es) = lost ch es"

abbreviation "told_seat \<equiv> told fst"
abbreviation "told_board \<equiv> told snd"

lemma handed_append [simp]: "handed ch (xs @ ys) = handed ch xs @ handed ch ys"
  by (induction ch xs rule: handed.induct) simp_all

lemma handed_parts: "\<Union> (set (handed ch es)) = \<Union> (set (told ch es)) \<union> lost ch es"
  by (induction ch es rule: handed.induct) auto

lemma handed_disjoint:
  "sorted_wrt (\<lambda>A B. A \<inter> B = {}) (a # handed ch es) \<Longrightarrow>
     sorted_wrt (\<lambda>A B. A \<inter> B = {}) (a # told ch es) \<and> (a \<union> \<Union> (set (told ch es))) \<inter> lost ch es = {}"
proof (induction ch es arbitrary: a rule: handed.induct)
  case (2 ch n s b es)
  let ?A = "idSet (ch (s, b))"
  have d: "a \<inter> ?A = {}" and p: "sorted_wrt (\<lambda>A B. A \<inter> B = {}) (a # handed ch es)" "sorted_wrt (\<lambda>A B. A \<inter> B = {}) (?A # handed ch es)"
    using "2.prems" by simp_all
  from "2.IH" [OF p(1)] have 1: "sorted_wrt (\<lambda>A B. A \<inter> B = {}) (a # told ch es)" "a \<inter> lost ch es = {}" by blast+
  from "2.IH" [OF p(2)] have 2: "sorted_wrt (\<lambda>A B. A \<inter> B = {}) (?A # told ch es)" "(?A \<union> \<Union> (set (told ch es))) \<inter> lost ch es = {}"
    by blast+
  have "(a \<union> \<Union> (set (?A # told ch es))) \<inter> lost ch es = {}" using 1(2) 2(2) by auto
  with 1(1) 2(1) d show ?case by simp
next
  case (3 ch s b es)
  let ?A = "idSet (ch (s, b))"
  have d: "a \<inter> ?A = {}" and p: "sorted_wrt (\<lambda>A B. A \<inter> B = {}) (a # handed ch es)" "sorted_wrt (\<lambda>A B. A \<inter> B = {}) (?A # handed ch es)"
    using "3.prems" by simp_all
  from "3.IH" [OF p(1)] have 1: "sorted_wrt (\<lambda>A B. A \<inter> B = {}) (a # told ch es)" "(a \<union> \<Union> (set (told ch es))) \<inter> lost ch es = {}"
    by blast+
  from "3.IH" [OF p(2)] have "\<forall>B\<in>set (told ch es). ?A \<inter> B = {}" by simp
  then have "(a \<union> \<Union> (set (told ch es))) \<inter> (?A \<union> lost ch es) = {}" using 1(2) d by auto
  with 1(1) show ?case by simp
qed (simp, (simp only: handed.simps told.simps lost.simps)+)

text \<open>Disjoint announcements: each adds identities that were not announced before.\<close>

fun fresh_chain :: "'a set \<Rightarrow> 'a set list \<Rightarrow> 'a set \<Rightarrow> bool" where
  "fresh_chain seen [] seen' \<longleftrightarrow> seen' = seen"
| "fresh_chain seen (A # As) seen' \<longleftrightarrow> A \<inter> seen = {} \<and> fresh_chain (seen \<union> A) As seen'"

lemma fresh_chain_append: "fresh_chain a xs b \<Longrightarrow> fresh_chain b ys c \<Longrightarrow> fresh_chain a (xs @ ys) c"
  by (induction xs arbitrary: a) auto

lemma fresh_chain_union: "fresh_chain a xs b \<Longrightarrow> b = a \<union> \<Union> (set xs)"
  by (induction xs arbitrary: a) auto

lemma fresh_chain_disjoint: "fresh_chain a xs b \<Longrightarrow> sorted_wrt (\<lambda>A B. A \<inter> B = {}) (a # xs)"
proof (induction xs arbitrary: a)
  case (Cons A As)
  then have "sorted_wrt (\<lambda>A B. A \<inter> B = {}) ((a \<union> A) # As)" "A \<inter> a = {}" by auto
  then show ?case by auto
qed simp

lemma unannounced_fresh: "idSet (unannounced xs seen) \<inter> seen = {}" "seen \<union> idSet (unannounced xs seen) = seen \<union> idSet xs"
  by (auto simp: idSet_def unannounced_def)

lemma handed_triage: "triage md ans d w n = (n', out) \<Longrightarrow> handed ch out = []"
  by (auto simp: triage_def split: option.splits prod.splits if_splits)

lemma render_Nil: "render w = [] \<longleftrightarrow> mw_newSeat w = [] \<and> mw_newBoard w = []"
  by (auto simp: render_def Let_def)

lemma watch_step_told:
  assumes "watch_step md d t (w, k) = Some ((w', k'), out)"
  shows "mw_topic w' = mw_topic w \<and> mw_subscriber w' = mw_subscriber w \<and>
    fresh_chain (mw_seenSeat w) (handed fst out) (mw_seenSeat w') \<and> fresh_chain (mw_seenBoard w) (handed snd out) (mw_seenBoard w') \<and>
    (wt_idle t \<longrightarrow> idSet (peek (mw_topic w) (wt_seat t)) \<subseteq> mw_seenSeat w' \<and>
       idSet (peek (mw_subscriber w) (wt_board t)) \<subseteq> mw_seenBoard w')"
proof -
  let ?p = "poll (wt_seat t) (wt_board t) w"
  obtain n out1 where tr: "triage md (wt_answer t) d ?p (render ?p) = (n, out1)" by fastforce
  note told = handed_triage [OF tr]
  have f: "idSet (mw_newSeat ?p) \<inter> mw_seenSeat w = {}" "mw_seenSeat w \<union> idSet (mw_newSeat ?p) = mw_seenSeat w \<union> idSet (peek (mw_topic w) (wt_seat t))"
    "idSet (mw_newBoard ?p) \<inter> mw_seenBoard w = {}" "mw_seenBoard w \<union> idSet (mw_newBoard ?p) = mw_seenBoard w \<union> idSet (peek (mw_subscriber w) (wt_board t))"
    by (simp_all add: poll_def unannounced_fresh)
  have same: "mw_topic ?p = mw_topic w" "mw_subscriber ?p = mw_subscriber w" "mw_seenSeat ?p = mw_seenSeat w" "mw_seenBoard ?p = mw_seenBoard w"
    by (simp_all add: poll_def)
  show ?thesis
  proof (cases "render ?p = []")
    case True
    then have "idSet (mw_newSeat ?p) = {}" "idSet (mw_newBoard ?p) = {}" by (simp_all add: render_Nil idSet_def)
    with True f same assms show ?thesis by (auto simp: watch_step_def Let_def split: if_splits)
  next
    case False
    with tr told f same assms show ?thesis
      by (auto simp: watch_step_def Let_def commit_def split: if_splits)
  qed
qed

lemma watch_run_told:
  "watch_run md d ts (w, k) = ((w', k'), out) \<Longrightarrow>
    fresh_chain (mw_seenSeat w) (handed fst out) (mw_seenSeat w') \<and> fresh_chain (mw_seenBoard w) (handed snd out) (mw_seenBoard w') \<and>
    (list_all wt_live ts \<longrightarrow> (\<forall>t\<in>set ts. wt_idle t \<longrightarrow> idSet (peek (mw_topic w) (wt_seat t)) \<subseteq> mw_seenSeat w' \<and>
       idSet (peek (mw_subscriber w) (wt_board t)) \<subseteq> mw_seenBoard w'))"
proof (induction ts arbitrary: w k w' k' out)
  case (Cons t ts)
  show ?case
  proof (cases "watch_step md d t (w, k)")
    case None
    with Cons.prems show ?thesis by (auto simp: watch_step_def Let_def split: if_splits prod.splits)
  next
    case (Some r)
    obtain w1 k1 out1 where r: "r = ((w1, k1), out1)" by (cases r) auto
    obtain w2 k2 out2 where run: "watch_run md d ts (w1, k1) = ((w2, k2), out2)" by (metis surj_pair)
    from Cons.prems Some r run have eq: "w' = w2" "out = out1 @ out2" by auto
    note 1 = watch_step_told [OF Some [unfolded r]] and 2 = Cons.IH [OF run]
    from 2 have "mw_seenSeat w1 \<subseteq> mw_seenSeat w2" "mw_seenBoard w1 \<subseteq> mw_seenBoard w2"
      using fresh_chain_union by blast+
    with 1 2 eq show ?thesis by (auto intro: fresh_chain_append)
  qed
qed simp

text \<open>C15. The watch tells each message at most once, and accounts for all: over any run of the loop, the identities of
  the messages in successive notices that the agent took are, on each channel, disjoint from each other and from those
  known at the start; the known identities are at the end exactly those of the start, the told ones and those of
  notices that the agent did not take; and while the agent lives every message that a channel held at a tick with a
  turn boundary is, whatever its sequence number, among these. A message of a notice not taken is never told:
  the loop commits before it delivers (\<open>undelivered_is_committed\<close>). Where no delivery fails, nothing is forgotten.\<close>

theorem announced_once:
  assumes "watch_run md describe turns (w, k) = ((w', k'), out)"
  shows "sorted_wrt (\<lambda>A B. A \<inter> B = {}) (mw_seenSeat w # told_seat out) \<and>
    sorted_wrt (\<lambda>A B. A \<inter> B = {}) (mw_seenBoard w # told_board out) \<and>
    mw_seenSeat w' = mw_seenSeat w \<union> \<Union> (set (told_seat out)) \<union> lost fst out \<and>
    mw_seenBoard w' = mw_seenBoard w \<union> \<Union> (set (told_board out)) \<union> lost snd out \<and>
    (mw_seenSeat w \<union> \<Union> (set (told_seat out))) \<inter> lost fst out = {} \<and>
    (mw_seenBoard w \<union> \<Union> (set (told_board out))) \<inter> lost snd out = {} \<and>
    (list_all wt_live turns \<longrightarrow> (\<forall>t\<in>set turns. wt_idle t \<longrightarrow>
      idSet (peek (mw_topic w) (wt_seat t)) \<subseteq> mw_seenSeat w \<union> \<Union> (set (told_seat out)) \<union> lost fst out \<and>
      idSet (peek (mw_subscriber w) (wt_board t)) \<subseteq> mw_seenBoard w \<union> \<Union> (set (told_board out)) \<union> lost snd out)) \<and>
    ((\<forall>s b. NotSaid s b \<notin> set out) \<longrightarrow> lost fst out = {} \<and> lost snd out = {})"
proof -
  note run = watch_run_told [OF assms]
  have seat: "fresh_chain (mw_seenSeat w) (handed fst out) (mw_seenSeat w')" and board: "fresh_chain (mw_seenBoard w) (handed snd out) (mw_seenBoard w')"
    using run by blast+
  have known: "mw_seenSeat w' = mw_seenSeat w \<union> \<Union> (set (told_seat out)) \<union> lost fst out"
    "mw_seenBoard w' = mw_seenBoard w \<union> \<Union> (set (told_board out)) \<union> lost snd out"
    using fresh_chain_union [OF seat] fresh_chain_union [OF board] by (auto simp: handed_parts)
  have none: "(\<forall>s b. NotSaid s b \<notin> set es) \<Longrightarrow> lost ch es = {}" for ch es
    by (induction ch es rule: lost.induct) auto
  show ?thesis
    using handed_disjoint [OF fresh_chain_disjoint [OF seat]] handed_disjoint [OF fresh_chain_disjoint [OF board]] none [of out] run
    unfolding known [symmetric] by blast
qed

section \<open>Sample runs\<close>

definition sample_pending :: "int \<Rightarrow> bus_pending" where
  "sample_pending n = \<lparr>bp_seq = n, bp_ts = ''t'', bp_principal = ''ann'', bp_topic = ''s'', bp_to = [], bp_body = ''b''\<rparr>"

definition sample_watch :: msg_watch where
  "sample_watch = \<lparr>mw_topic = ''steward.host'', mw_subscriber = [], mw_seenSeat = {}, mw_seenBoard = {}, mw_newSeat = [], mw_newBoard = []\<rparr>"

definition sample_turn :: "bool \<Rightarrow> watch_turn" where
  "sample_turn said = \<lparr>wt_live = True, wt_seat = Some [sample_pending 7], wt_board = None,
     wt_answer = \<lparr>ca_error = None, ca_exit = 0, ca_output = []\<rparr>, wt_idle = True, wt_say = said\<rparr>"

lemma sample_topic: "trim_space ''steward.host'' = ''steward.host''"
  by (rule trim_space_word) (simp_all add: byte_def)

lemma announced_once_witness:
  "\<exists>w' k' out. watch_run None (\<lambda>_. []) [sample_turn False, sample_turn True] (sample_watch, 0) = ((w', k'), out) \<and>
     pendingID (sample_pending 7) \<in> \<Union> (set (told_seat out)) \<union> lost fst out"
proof -
  let ?ts = "[sample_turn False, sample_turn True]"
  obtain w' k' out where run: "watch_run None (\<lambda>_. []) ?ts (sample_watch, 0) = ((w', k'), out)" by (metis surj_pair)
  have "list_all wt_live ?ts" "sample_turn True \<in> set ?ts" "wt_idle (sample_turn True)" by (simp_all add: sample_turn_def)
  then have "idSet (peek (mw_topic sample_watch) (wt_seat (sample_turn True))) \<subseteq> mw_seenSeat sample_watch \<union> \<Union> (set (told_seat out)) \<union> lost fst out"
    using announced_once [OF run] by blast
  with run show ?thesis by (simp add: peek_def sample_watch_def sample_turn_def sample_topic idSet_def)
qed

definition sample_agent :: "string \<Rightarrow> fleet_agent" where
  "sample_agent n = \<lparr>fa_name = n, fa_nick = [], fa_matrixKey = n, fa_reliability = None, fa_bandSource = [], fa_band = 0, fa_ephemeral = False\<rparr>"

definition sample_model :: "string \<Rightarrow> fleet_model" where
  "sample_model n = \<lparr>fm_name = n, fm_band = (if n = ''opus'' then 4 else 2), fm_bandSource = [], fm_billing = ''flat'', fm_marginalCostMicro = 0\<rparr>"

definition sample_fleet :: select_env where
  "sample_fleet = \<lparr>fe_agents = [sample_agent ''opus'', sample_agent ''mini''],
     fe_binding = (\<lambda>n. Inr (sample_agent n, ''tool'', sample_model n)), fe_operable = (\<lambda>_. (True, [])),
     fe_preview = (\<lambda>_ _. Inr (True, [])),
     fe_status = (\<lambda>_. \<lparr>mt_basis = [], mt_limitKnown = False, mt_limit = None, mt_remaining = None, mt_spent = 0, mt_unit = ''tokens''\<rparr>),
     fe_maxBand = 4, fe_cascade = ''cascade'', fe_free = ''free'', fe_flat = ''flat'', fe_flatThenMetered = ''flat_then_metered'',
     fe_metered = ''metered''\<rparr>"

lemma sample_max: "fe_maxBand sample_fleet = 4"
  by (simp add: sample_fleet_def)

lemma sample_name: "sc_name (describeStewardCandidate e (sample_agent n) t m) = n"
  by (simp add: describeStewardCandidate_def sample_agent_def Let_def)

lemma sample_weigh:
  "weigh sample_fleet band (sample_agent n) =
     (if (if n = ''opus'' then 4 else 2) < band then PassedOver
      else Taken (describeStewardCandidate sample_fleet (sample_agent n) ''tool'' (sample_model n)))"
  by (simp add: weigh_def previewStewardBudget_def sample_fleet_def sample_agent_def sample_model_def describeStewardCandidate_def Let_def)

lemma sample_eligible:
  "eligible sample_fleet 4 = [describeStewardCandidate sample_fleet (sample_agent ''opus'') ''tool'' (sample_model ''opus'')]"
  "eligible sample_fleet 2 = [describeStewardCandidate sample_fleet (sample_agent ''opus'') ''tool'' (sample_model ''opus''),
     describeStewardCandidate sample_fleet (sample_agent ''mini'') ''tool'' (sample_model ''mini'')]"
proof -
  have "fe_agents sample_fleet = [sample_agent ''opus'', sample_agent ''mini'']" by (simp add: sample_fleet_def)
  then show "eligible sample_fleet 4 = [describeStewardCandidate sample_fleet (sample_agent ''opus'') ''tool'' (sample_model ''opus'')]"
    "eligible sample_fleet 2 = [describeStewardCandidate sample_fleet (sample_agent ''opus'') ''tool'' (sample_model ''opus''),
     describeStewardCandidate sample_fleet (sample_agent ''mini'') ''tool'' (sample_model ''mini'')]"
    by (simp_all add: eligible_def sample_weigh map_filter_simps)
qed

lemma steward_choice_canonical_witness:
  "\<exists>sel'. selectStewardAgent (sample_fleet\<lparr>fe_agents := [sample_agent ''mini'', sample_agent ''opus'']\<rparr>) [] [] 0 = Inr sel' \<and>
     sc_name (sl_chosen sel') = ''opus''"
proof -
  obtain sel where sel: "selectStewardAgent sample_fleet [] [] 0 = Inr sel" "sc_name (sl_chosen sel) = ''opus''"
    by (simp add: selectStewardAgent_def pick_steward_def stewardDefaultBand_def sample_eligible slice_stable_def sample_max sample_name)
  have "\<exists>sel'. selectStewardAgent (sample_fleet\<lparr>fe_agents := [sample_agent ''mini'', sample_agent ''opus'']\<rparr>) [] [] 0 = Inr sel' \<and>
      sl_chosen sel' = sl_chosen sel \<and> sl_runners sel' = sl_runners sel"
    using steward_choice_canonical [OF sel(1)] by (simp add: sample_fleet_def sample_agent_def)
  with sel(2) show ?thesis by auto
qed

lemma mediator_is_cheapest_adequate_witness:
  "\<exists>m. resolveStewardMediator sample_fleet [] 0 4 = Inr m"
  by (subst mediator_is_cheapest_adequate [THEN conjunct1])
    (simp_all add: sample_eligible, simp_all add: sample_fleet_def describeStewardCandidate_def sample_agent_def sample_model_def Let_def)

section \<open>Divergences\<close>

text \<open>
  \<open>--tool\<close> is documented to select an agent that uses the tool. The selection without a name does not
  look at it.
\<close>

lemma tool_is_ignored: "trim_space name = [] \<Longrightarrow> selectStewardAgent e name tool band = selectStewardAgent e name tool' band"
  by (simp add: selectStewardAgent_def Let_def)

text \<open>
  The digest must account for every message; the check counts distinct numbers of any size. An answer
  that numbers its lines 1 and 7 passes for two messages although the second has no line.
\<close>

definition skipping_answer :: string where
  "skipping_answer = ''1. [SEAT] x'' @ newline @ ''7. [SEAT] x''"

lemma digest_skips_a_message: "map fst (digest_lines [] (split_lines skipping_answer)) = [1, 7]"
  by (simp add: skipping_answer_def newline_def line_index_def line_number_def re_space_def byte_def digit_def dval_def
      has_prefix_def ascii_lower_def char_of_def bit_0)

lemma skipping_answer_is_handed_on:
  "snd (mediate (\<lambda>_ _. \<lparr>ca_error = None, ca_exit = 0, ca_output = skipping_answer\<rparr>) m [sample_pending 1, sample_pending 2] []) = None"
  using arg_cong [OF digest_skips_a_message, of length] by (simp add: mediate_def parseMediatorDigest_def Let_def)

text \<open>
  \<open>commit\<close> is documented to be called only after the notice was delivered. The loop calls it before the
  delivery: when the agent does not take the notice, its messages count as announced all the same.
\<close>

lemma undelivered_is_committed:
  "\<exists>w' out. watch_step None (\<lambda>_. []) (sample_turn False) (sample_watch, 0) = Some ((w', 0), [NotSaid [sample_pending 7] []]) \<and>
     mw_seenSeat w' = {pendingID (sample_pending 7)}"
  by (simp add: watch_step_def poll_def peek_def sample_watch_def sample_turn_def sample_topic unannounced_def render_def triage_def
      commit_def idSet_def Let_def)

text \<open>
  A channel that could not be read when the watch was primed counts as empty, so the whole backlog is
  announced as new at the first tick.
\<close>

lemma failed_prime_announces_backlog:
  "mw_seenSeat (prime None None w) = {}" "mw_newSeat (poll (Some xs) b (prime None None w)) = peek (mw_topic w) (Some xs)"
  by (simp_all add: prime_def poll_def peek_def idSet_def unannounced_def)

end
