(* ===== verification/Spec2Isabelle.thy ===== *)
theory Spec2Isabelle
  imports Dhnt_Properties Dhnt_Codec_Properties Act_Properties Sup_Properties Ladder_Properties
    Hr_Preflight_Properties Hr_Manager_Properties Dhnt_Placement_Properties
    Mon_Properties Stw_Properties
begin

text \<open>
  A verification development of bashy, a shell with an agent operating system around it. The Go code under
  \<open>src/\<close> is translated into definitions that evaluate; the theorems say what the code computes. Each other
  theory opens with a note on what it holds; this one says how they fit together.

  \<^bold>\<open>The parts and how they meet.\<close> Seven subsystems carry decisions of their own and are modelled:

  \<^item> \<^emph>\<open>Evidence contracts\<close> (\<open>dhnt/\<close>). A pipeline declares tasks and a matrix; runs attest its entries; an
    aggregate passes when the runs are evidence for the whole matrix. Pipelines, runs, the envelope that
    carries a small result out of a Pod, and the contract a trusted runner executes are JSON documents with a
    canonical form.
  \<^item> \<^emph>\<open>Activity plane\<close> (\<open>internal/agentos/activity/\<close>). Subsystems emit events; an event is validated, given an
    identity, routed to the names it concerns and delivered over a message bus, at least once, through an
    outbox journal that a later process can recover from.
  \<^item> \<^emph>\<open>Service monitor\<close> (\<open>internal/agentos/supervisord_*.go\<close>). One goroutine keeps the declared units up:
    restart policy and limits, dependencies, probes, reload, control verbs and an ordered shutdown.
  \<^item> \<^emph>\<open>Action ladder\<close> (\<open>pkg/ladder/\<close>). One line of input is run as typed, repaired or handed to an agent.
  \<^item> \<^emph>\<open>Harness runner\<close> (\<open>pkg/harnessrunner/\<close>). A command is compiled into an intent, a list of the effects it
    may have and of what cannot be proven about it; a caller authorizes the intent by its digest; a supervisor
    runs each authorized command once, as a job with bounded output, standard input in chunks, and a stop.

  \<^item> \<^emph>\<open>Sprint alerts\<close> (\<open>internal/agentos/sprint_monitor_alerts.go\<close>). Every observer of a sprint feeds the samples of
    a shared snapshot to alert conditions in one ledger; a condition alerts after sustained pressure, recovers
    after sustained relief, follows the owner of its sprint and posts its notices over the bus.
  \<^item> \<^emph>\<open>Steward\<close> (\<open>internal/agentos/steward_select.go\<close>, \<open>steward_mediator.go\<close>, the message watch of
    \<open>steward_supervise.go\<close>). An agent is chosen to attend the host, a cheap one digests its messages, and a watch
    announces what arrives.

  All but the monitor and the ladder share strings and digests (\<open>Go_Std\<close>), all the strings, the error plumbing and the
  generic lemmas of \<open>Go_Prelude\<close>. They meet in no common state: the contracts are a pure library, the ladder and the
  choice of a steward decide and touch nothing, the others own their files.

  \<^bold>\<open>Theories.\<close>

  \<^item> \<open>Go_Prelude\<close>, \<open>Go_Std\<close>, \<open>Go_Base64\<close>, \<open>Go_Runes\<close>: what the code uses of Go's library: bytewise strings,
    \<open>strings\<close>, \<open>path\<close>, \<open>sort\<close>, RFC 3339 instants, SHA-256, base64, UTF-8 decoding and \<open>strings.Fields\<close>; the
    shape of validators (\<open>first_error\<close>, \<open>each_from\<close>, \<open>scan\<close>, locale \<open>validator\<close>).
  \<^item> \<open>Dhnt_Types\<close>, \<open>Dhnt_Fields\<close>, \<open>Dhnt_Graph\<close>, \<open>Dhnt_Pipeline\<close>, \<open>Dhnt_Validate\<close>, \<open>Dhnt_Run\<close>: the structs and
    validators of \<open>contract.go\<close> and \<open>output_commit.go\<close>; each validator has a declarative counterpart
    (\<open>task_ok\<close>, \<open>pipeline_ok\<close>, \<open>run_ok\<close>) and a lemma that it returns nil exactly there. Go's map ranges are the
    argument \<open>rng\<close>, about which only \<open>enumerates\<close> is assumed.
  \<^item> \<open>Dhnt_Aggregate\<close>: \<open>aggregate.go\<close>. \<open>Dhnt_Canonical\<close>: canonical forms and the codec entry points, with
    the locale \<open>canonical_form\<close>. \<open>Dhnt_Surrogates\<close>, \<open>Dhnt_Strict\<close>, \<open>Dhnt_Documents\<close>: the strict decoder, from
    bytes over the reflected fields of a struct to the documents. \<open>Dhnt_Native\<close>: \<open>native_result.go\<close>. \<open>Dhnt_Runner\<close>: \<open>runner_spec.go\<close>.
    \<open>Dhnt_Placement\<close>, \<open>Dhnt_Placement_Laws\<close>: \<open>placement.go\<close> and what its loops compute.
    \<open>Dhnt_Properties\<close>, \<open>Dhnt_Codec_Properties\<close>, \<open>Dhnt_Placement_Properties\<close>: the theorems.
  \<^item> \<open>Act_Event\<close>, \<open>Act_Route\<close>, \<open>Act_Store\<close>, \<open>Act_Deliver\<close>: \<open>event.go\<close>, \<open>route.go\<close>, \<open>store.go\<close>, \<open>deliver.go\<close>
    and \<open>adapter.go\<close>. The world of a delivery is its journal and the trace of bus calls; the environment
    answers each call, as a function of the trace so far. \<open>Act_Delivery_Laws\<close>: what the loops keep.
    \<open>Act_Properties\<close>: the theorems.
  \<^item> \<open>Sup_Policy\<close>, \<open>Sup_Delegated\<close>, \<open>Sup_Monitor\<close>, \<open>Sup_Loop\<close>: policy, back-off and start limiter, the provider
    for units of an owner process, the unit state machine, and the handlers of the loop. \<open>mon_step\<close> is the
    relation of one turn of the loop: a message in flight arrives, or the registry is polled, a verb or a
    signal comes in. What goroutines may answer is the list \<open>m_flight\<close>; an answer may come at any time and in
    any order, and after a second signal, which cancels the context of \<open>post\<close>, it may be lost (\<open>lose\<close>).
    \<open>Sup_Laws\<close>, \<open>Sup_Contract\<close>: a contract (locales \<open>unit_contract\<close>, \<open>loop_contract\<close>) that lifts
    a property of single operations to every turn of the loop, up to a second signal, and one that also
    stands the loss of answers (locale \<open>lossy_contract\<close>); \<open>Sup_Feed\<close> and \<open>Sup_Down\<close> interpret them for
    \<^emph>\<open>someone answers for every live unit\<close> (which losses break) and \<^emph>\<open>a stopping monitor only winds down\<close>
    (which they do not). \<open>Sup_Order\<close>: a turn stops no unit before those that require it are down.
    \<open>Sup_Properties\<close>: the theorems.
  \<^item> \<open>Ladder_Distance\<close>, \<open>Ladder\<close>, \<open>Ladder_Properties\<close>: \<open>ladder.go\<close>.
  \<^item> \<open>Go_Filepath\<close>, \<open>Hr_Intent\<close>, \<open>Hr_Contract\<close>, \<open>Hr_Refine\<close>, \<open>Hr_Compile\<close>, \<open>Hr_Preflight\<close>: paths, the data of
    \<open>contract.go\<close>, \<open>digest.go\<close>, the refiners of \<open>refine_files.go\<close> and \<open>refine_kb.go\<close> (locale \<open>refiner\<close>), and the
    compiler of \<open>compiler.go\<close>, \<open>refine_builtin.go\<close>, \<open>refine_funcs.go\<close>. The pointers to function summaries are the
    map \<open>funcs\<close> threaded through the walk. \<open>Hr_Walk_Laws\<close>: what a walk keeps (locales \<open>walk_law\<close>,
    \<open>growing_walk\<close>), also of the calls it \<open>reaches\<close> in the bodies of functions. \<open>Hr_Preflight_Properties\<close>: the theorems.
  \<^item> \<open>Hr_Spool\<close>, \<open>Hr_Manager\<close>, \<open>Hr_Session\<close>, \<open>Hr_Locks\<close>: \<open>spool.go\<close>, \<open>manager.go\<close> and \<open>wire.go\<close>, one definition per
    critical section of \<open>m.mu\<close>; what a job hands to the shell; the locks of standard input. \<open>Hr_Manager_Laws\<close>:
    the turns of a supervisor (\<open>hr_step\<close>), in any order, and what they keep. \<open>Hr_Manager_Properties\<close>: the
    theorems.
  \<^item> \<open>Mon_Alerts\<close>, \<open>Mon_Observe\<close>: a condition and its ledger row, then samples, publication and the live alerts. The
    row of a ledger is raw JSON read and written by \<open>codec\<close>; the order of a ledger is that of the map range.
    \<open>Mon_Laws\<close>: frames of the step, the accounting of notices and the reference machine \<open>alerting\<close> on the
    signals of the samples. \<open>Mon_Store_Laws\<close>: rows, bounds and publication. \<open>Mon_Properties\<close>: the theorems.
  \<^item> \<open>Stw_Select\<close>, \<open>Stw_Watch\<close>, \<open>Stw_Properties\<close>: the ranking and the selection, the digest and the watch, the
    theorems.

  \<^bold>\<open>What the lemmas show.\<close> Validators accept exactly what their contract says, whatever the order of map
  ranges; aggregation is a gate that order and repetition cannot fool; canonical bytes name their content; a placement
  plan serves every task that asks for one and places every chunk once.
  Emitting is idempotent and journalled before the first bus call; recovery serves every owed recipient; both
  say what a journal with a cut last line changes. A wake follows its durable publish. In every run of the
  monitor, up to a second signal, each live unit has an answer in flight and a stopping monitor ends; in every
  run it starts nothing once it stops, and stops no unit before those that require it; restart delays and
  starts are bounded. The ladder never reinterprets what the shell can run, and its edit distance is the least
  cost of an alignment. A complete intent records every call of its script outside the bodies of decorated
  functions and never labels a target outside the working directory as inside; a job starts only under a valid
  authorization of exactly its intent, once, keeps a prefix of its output and takes its input in order. A
  sprint alerts exactly on sustained readings, whoever observes, and its publication clears no notice before
  it is posted; the steward chosen is the best in a strict ranking; the watch tells no message twice and
  accounts for those whose notice the agent did not take. Where the code says less than it should, a lemma at the end of the theories of
  properties shows a case.

  \<^bold>\<open>Bounds and fuel.\<close> Three recursions take fuel. The depth-first search of \<open>Dhnt_Graph\<close> has the number of tasks:
  \<open>validateAcyclic_correct\<close> shows that it suffices. The calls of script functions (\<open>compileFuncCall\<close>) have the
  number of declarations: \<open>compileScript_total\<close>. The strict decoder has twice the number of tokens and one:
  \<open>decodeStrict_correct\<close> holds with exactly that. The rounds of \<open>stepAll\<close> are bounded in
  the code itself. The rounding to \<open>float64\<close> scales by at most 1100 powers of two; its arguments need 64. Machine integers are written with their wrap-around (\<open>int64\<close>, \<open>time_sub\<close>) where overflow
  can be reached, and as words in SHA-256.

  \<^bold>\<open>Parameters.\<close> Code outside \<open>src/\<close> is an argument: the bus and the disk of the activity plane (\<open>env\<close>), the
  clock, the providers, \<open>ParseDuration\<close> and the registry of the monitor (\<open>sup_env\<close>, with the fleet module's
  service record), the order of map ranges (\<open>rng\<close>), the
  Command Atlas, the knowledge-base scopes, the parser of the shell and the file system of the harness runner
  (\<open>hr_env\<close>), its disk (\<open>disk\<close>, \<open>reserve_fault\<close>) and its session (\<open>awaited\<close>), the dag module of the placements (\<open>planner\<close>), the
  ledger and the bus of the alerts (\<open>alert_env\<close>), the catalog, budget and meter of the steward (\<open>select_env\<close>), the tables of \<open>unicode\<close>, the keywords of the sh module and
  the shell's names (\<open>ladder_env\<close>, \<open>commands\<close>), and the JSON text of a struct with its strict reader (\<open>enc\<close>,
  \<open>dec\<close>). Each theorem with a hypothesis on one of them has a witness at a concrete instance.

  \<^bold>\<open>Not modelled.\<close> The command line and the start-up of the shell (\<open>internal/cli\<close>, \<open>cmd\<close>), the verbs of
  \<open>internal/agentos\<close> that parse arguments, print tables and call git, containers, engines and networks, the
  child processes and sockets behind the monitor, the runner that executes a contract and the lowering of
  pipelines to Argo text, the tools and the examples: they are sequences of system calls and text around
  modules that are not under \<open>src/\<close>. The manifest lists them one by one. Of the harness runner: the shell session
  itself and the JSON reader of requests. Of the sprint monitor: the collection, the rendering and the bounded
  events of the watch; of the steward: the session with its heartbeat, wrap-up and notes.
\<close>

end
